(* ===== verification/Prelude.thy ===== *)
theory Prelude
  imports Complex_Main "HOL-Library.List_Lexorder" "HOL-Library.Char_ord"
    "HOL-Library.Product_Lexorder" "HOL-Library.AList" "HOL-Library.Multiset"
begin

text \<open>
  What every component of the development shares.

  \<^item> \<^bold>\<open>Text.\<close> A Python \<open>str\<close> is a sequence of Unicode code points and two of them compare code
    point by code point, so \<open>ustring\<close> is \<open>nat list\<close> under the lexicographic order of
    \<open>HOL-Library.List_Lexorder\<close>; \<open>lit\<close> turns an ASCII literal into one.
  \<^item> \<^bold>\<open>Outcomes.\<close> A call that may raise returns \<open>'e + 'a\<close>, \<open>Inl\<close> the exception. \<open>and_then\<close> is
    sequencing and \<open>traverse\<close> a loop over a list that stops at the first exception.
  \<^item> \<^bold>\<open>Dictionaries\<close> whose order or whose keys are read are association lists with
    \<open>AList.update\<close>, which keeps the place of a present key and appends a new one, as a Python
    \<open>dict\<close> does.
  \<^item> \<^bold>\<open>JSON-like values.\<close> \<open>pyval\<close> is what \<open>isinstance\<close> can tell apart in a parsed document.
\<close>

section \<open>Text\<close>

type_synonym ustring = "nat list"

definition lit :: "string \<Rightarrow> ustring" where
  "lit s = map of_char s"

lemma lit_inject [simp]: "lit s = lit t \<longleftrightarrow> s = t"
  by (auto simp: lit_def inj_map_eq_map [OF inj_of_char])

lemma lit_Nil [simp]: "lit [] = []"
  by (simp add: lit_def)

lemma lit_eq_Nil [simp]: "lit s = [] \<longleftrightarrow> s = []" "[] = lit s \<longleftrightarrow> s = []"
  by (auto simp: lit_def)

lemma lit_append: "lit (s @ t) = lit s @ lit t"
  by (simp add: lit_def)

lemma length_lit [simp]: "length (lit s) = length s"
  by (simp add: lit_def)

definition starts_with :: "ustring \<Rightarrow> ustring \<Rightarrow> bool" where
  "starts_with s p \<longleftrightarrow> take (length p) s = p"

text \<open>\<open>re.fullmatch("[0-9a-f]{width}", value)\<close>, a test the packets and the fences share.\<close>

definition hex_digit :: "nat \<Rightarrow> bool" where
  "hex_digit c \<longleftrightarrow> (48 \<le> c \<and> c \<le> 57) \<or> (97 \<le> c \<and> c \<le> 102)"

definition hex_text :: "nat \<Rightarrow> ustring \<Rightarrow> bool" where
  "hex_text width s \<longleftrightarrow> length s = width \<and> list_all hex_digit s"

section \<open>Outcomes of calls that may raise\<close>

named_theorems outcome_simps \<open>how the outcome combinators compute and when they return\<close>

definition and_then :: "'e + 'a \<Rightarrow> ('a \<Rightarrow> 'e + 'b) \<Rightarrow> 'e + 'b" where
  "and_then r k = (case r of Inl e \<Rightarrow> Inl e | Inr x \<Rightarrow> k x)"

lemma and_then_simps [simp]:
  "and_then (Inl e) k = Inl e"
  "and_then (Inr x) k = k x"
  by (simp_all add: and_then_def)

lemma and_then_cong [fundef_cong]:
  "r = r' \<Longrightarrow> (\<And>x. r' = Inr x \<Longrightarrow> k x = k' x) \<Longrightarrow> and_then r k = and_then r' k'"
  by (cases r') auto

lemma and_then_Inr [outcome_simps]:
  "and_then r k = Inr y \<longleftrightarrow> (\<exists>x. r = Inr x \<and> k x = Inr y)"
  by (cases r) auto

lemma and_then_Inl [outcome_simps]:
  "and_then r k = Inl e \<longleftrightarrow> r = Inl e \<or> (\<exists>x. r = Inr x \<and> k x = Inl e)"
  by (cases r) auto

text \<open>\<open>if not b: raise e\<close>\<close>

definition require :: "bool \<Rightarrow> 'e \<Rightarrow> 'e + unit" where
  "require b e = (if b then Inr () else Inl e)"

lemma require_Inr [outcome_simps]: "require b e = Inr x \<longleftrightarrow> b"
  by (auto simp: require_def)

lemma require_Inl [outcome_simps]: "require b e = Inl f \<longleftrightarrow> \<not> b \<and> e = f"
  by (auto simp: require_def)

lemma require_simps [simp]: "require True e = Inr ()" "require False e = Inl e"
  by (simp_all add: require_def)

fun traverse :: "('a \<Rightarrow> 'e + 'b) \<Rightarrow> 'a list \<Rightarrow> 'e + 'b list" where
  "traverse f [] = Inr []"
| "traverse f (x # xs) = and_then (f x) (\<lambda>y. and_then (traverse f xs) (\<lambda>ys. Inr (y # ys)))"

lemma traverse_cong [fundef_cong]:
  "xs = ys \<Longrightarrow> (\<And>x. x \<in> set ys \<Longrightarrow> f x = g x) \<Longrightarrow> traverse f xs = traverse g ys"
  by (induction xs arbitrary: ys) (auto intro!: and_then_cong)

lemma traverse_Inr [outcome_simps]:
  "traverse f xs = Inr ys \<longleftrightarrow> list_all2 (\<lambda>x y. f x = Inr y) xs ys"
  by (induction xs arbitrary: ys) (auto simp: and_then_Inr list_all2_Cons1)

lemma traverse_length: "traverse f xs = Inr ys \<Longrightarrow> length ys = length xs"
  by (simp add: traverse_Inr list_all2_lengthD)

lemma traverse_map: "traverse f (map g xs) = traverse (\<lambda>x. f (g x)) xs"
  by (induction xs) auto

lemma traverse_pure: "(\<And>x. x \<in> set xs \<Longrightarrow> f x = Inr (g x)) \<Longrightarrow> traverse f xs = Inr (map g xs)"
  by (induction xs) auto

lemma traverse_id: "(\<And>x. x \<in> set xs \<Longrightarrow> f x = Inr x) \<Longrightarrow> traverse f xs = Inr xs"
  by (induction xs) auto

section \<open>Dictionaries\<close>

type_synonym ('k, 'v) dict = "('k \<times> 'v) list"

abbreviation keys :: "('k, 'v) dict \<Rightarrow> 'k list" where
  "keys d \<equiv> map fst d"

abbreviation vals :: "('k, 'v) dict \<Rightarrow> 'v list" where
  "vals d \<equiv> map snd d"

lemma distinct_keys_update [simp]: "distinct (keys d) \<Longrightarrow> distinct (keys (AList.update k v d))"
  by (rule distinct_update)

lemma map_of_AList_update [simp]: "map_of (AList.update k v d) = (map_of d)(k \<mapsto> v)"
  by (rule update_conv')

lemma set_keys_update [simp]: "set (keys (AList.update k v d)) = insert k (set (keys d))"
  by (simp add: dom_update)

lemma set_keys_delete [simp]: "set (keys (AList.delete k d)) = set (keys d) - {k}"
  by (simp add: AList.delete_keys)

section \<open>Python values of a parsed document\<close>

text \<open>
  A float is not a rational number only when it is infinite or not a number; the sign of a zero is
  not kept. \<open>is_integer\<close> is \<open>float.is_integer\<close>.
\<close>

datatype pyfloat = Finite rat | Infinite bool | NaN

fun is_integer :: "pyfloat \<Rightarrow> bool" where
  "is_integer (Finite r) \<longleftrightarrow> of_int \<lfloor>r\<rfloor> = r"
| "is_integer (Infinite s) \<longleftrightarrow> False"
| "is_integer NaN \<longleftrightarrow> False"

datatype pyval =
    PNone
  | PBool bool
  | PInt int
  | PFloat pyfloat
  | PStr ustring
  | PList "pyval list"
  | PDict "(ustring \<times> pyval) list"

section \<open>Sorting\<close>

lemma sort_key_eq_of_mset_eq:
  assumes "mset xs = mset ys" and "inj_on f (set xs)"
  shows "sort_key f xs = sort_key f ys"
  by (rule sort_key_inj_key_eq) (use assms in simp_all)

lemma sort_key_eq_Nil [simp]: "sort_key f xs = [] \<longleftrightarrow> xs = []"
  by (metis length_0_conv length_sort)

lemma map_sort_key:
  assumes "\<And>x. g (f x) = k x"
  shows "map f (sort_key k xs) = sort_key g (map f xs)"
proof -
  have "map f (insort_key k x ys) = insort_key g (f x) (map f ys)" for x ys
    by (induction ys) (auto simp: assms)
  then show ?thesis by (induction xs) auto
qed

lemma distinct_map_mset: "mset xs = mset ys \<Longrightarrow> distinct (map f xs) = distinct (map f ys)"
  by (rule mset_eq_imp_distinct_iff) simp

end
