(* ===== verification/UnionFind.thy ===== *)
theory UnionFind
  imports Prelude
begin

text \<open>
  The union-find structure that \<open>groups.colocation_groups\<close> and \<open>model._normalise_atomic\<close> each
  build out of two nested functions over a \<open>parent\<close> dictionary: \<open>find\<close> follows parents with path
  halving and \<open>union\<close> attaches the larger of two roots to the smaller. The \<open>while\<close> loop of \<open>find\<close>
  is fuelled; \<open>uf_find_ok\<close> shows that as much fuel as there are names is always enough.

  The locale \<open>union_find\<close> is what the two clients rely on, and it is where the loop over edges is
  shown to compute the connected components and the loop over names to list them.
\<close>

section \<open>The two loops of the clients\<close>

datatype uf_error = KeyError | IndexError | OutOfFuel

fun uf_find :: "nat \<Rightarrow> ('a \<rightharpoonup> 'a) \<Rightarrow> 'a \<Rightarrow> uf_error + 'a \<times> ('a \<rightharpoonup> 'a)" where
  "uf_find 0 parent x = Inl OutOfFuel"
| "uf_find (Suc fuel) parent x =
     (case parent x of
        None \<Rightarrow> Inl KeyError
      | Some p \<Rightarrow>
          if p = x then Inr (x, parent)
          else case parent p of
                 None \<Rightarrow> Inl KeyError
               | Some g \<Rightarrow> uf_find fuel (parent(x \<mapsto> g)) g)"

definition uf_union ::
  "nat \<Rightarrow> ('a::linorder \<rightharpoonup> 'a) \<Rightarrow> 'a \<Rightarrow> 'a \<Rightarrow> uf_error + ('a \<rightharpoonup> 'a)" where
  "uf_union fuel parent a b =
     and_then (uf_find fuel parent a) (\<lambda>(ra, parent1).
     and_then (uf_find fuel parent1 b) (\<lambda>(rb, parent2).
       Inr (if ra \<noteq> rb then parent2(max ra rb \<mapsto> min ra rb) else parent2)))"

text \<open>\<open>for ...: union(a, b)\<close>\<close>

fun union_all :: "('s \<Rightarrow> 'a \<Rightarrow> 'a \<Rightarrow> 'e + 's) \<Rightarrow> 's \<Rightarrow> ('a \<times> 'a) list \<Rightarrow> 'e + 's" where
  "union_all un s [] = Inr s"
| "union_all un s (e # es) = and_then (un s (fst e) (snd e)) (\<lambda>s'. union_all un s' es)"

text \<open>\<open>for name in ...: buckets.setdefault(find(name), []).append(name)\<close>\<close>

fun fill_buckets ::
  "('s \<Rightarrow> 'a \<Rightarrow> 'e + 'a \<times> 's) \<Rightarrow> 's \<Rightarrow> ('a, 'a list) dict \<Rightarrow> 'a list \<Rightarrow> 'e + ('a, 'a list) dict"
where
  "fill_buckets fnd s buckets [] = Inr buckets"
| "fill_buckets fnd s buckets (name # names) =
     and_then (fnd s name) (\<lambda>(r, s').
       let members = (case map_of buckets r of None \<Rightarrow> [] | Some ms \<Rightarrow> ms)
       in fill_buckets fnd s' (AList.update r (members @ [name]) buckets) names)"

section \<open>What the clients rely on\<close>

definition linked :: "('a \<times> 'a) set \<Rightarrow> 'a \<Rightarrow> 'a \<Rightarrow> bool" where
  "linked E x y \<longleftrightarrow> (x, y) \<in> (E \<union> E\<inverse>)\<^sup>*"

lemma linked_refl [simp]: "linked E x x"
  by (simp add: linked_def)

lemma linked_sym: "linked E x y \<Longrightarrow> linked E y x"
proof -
  have "sym ((E \<union> E\<inverse>)\<^sup>*)" by (intro sym_rtrancl sym_Un_converse)
  then show "linked E x y \<Longrightarrow> linked E y x" by (auto simp: linked_def sym_def)
qed

lemma linked_trans: "linked E x y \<Longrightarrow> linked E y z \<Longrightarrow> linked E x z"
  by (simp add: linked_def)

lemma linked_mono: "E \<subseteq> F \<Longrightarrow> linked E x y \<Longrightarrow> linked F x y"
  unfolding linked_def by (erule rtrancl_mono [THEN subsetD, rotated]) auto

lemma linked_edge: "(a, b) \<in> E \<Longrightarrow> linked E a b"
  by (auto simp: linked_def)

lemma linked_empty [simp]: "linked {} x y \<longleftrightarrow> x = y"
  by (auto simp: linked_def)

lemma linked_induct [consumes 1, case_names refl edge]:
  assumes "linked E x y" and "P x"
    and "\<And>y z. linked E x y \<Longrightarrow> (y, z) \<in> E \<or> (z, y) \<in> E \<Longrightarrow> P y \<Longrightarrow> P z"
  shows "P y"
  using assms(1) unfolding linked_def
  by (induction rule: rtrancl_induct) (use assms(2,3) in \<open>auto simp: linked_def\<close>)

lemma linked_within:
  assumes "linked E x y" and "\<And>a b. (a, b) \<in> E \<Longrightarrow> linked F a b"
  shows "linked F x y"
  using assms(1)
proof (induction rule: linked_induct)
  case (edge y z)
  then have "linked F y z" using assms(2) [of y z] assms(2) [of z y] linked_sym [of F z y] by blast
  with edge.IH show ?case by (rule linked_trans)
qed simp

locale union_find =
  fixes invar :: "'a::linorder set \<Rightarrow> 's \<Rightarrow> bool"
    and fnd :: "'s \<Rightarrow> 'a \<Rightarrow> 'e + 'a \<times> 's"
    and un :: "'s \<Rightarrow> 'a \<Rightarrow> 'a \<Rightarrow> 'e + 's"
    and root :: "'s \<Rightarrow> 'a \<Rightarrow> 'a"
  assumes find_law: "invar N s \<Longrightarrow> x \<in> N \<Longrightarrow>
      \<exists>s'. fnd s x = Inr (root s x, s') \<and> invar N s' \<and> (\<forall>y \<in> N. root s' y = root s y)"
    and union_law: "invar N s \<Longrightarrow> a \<in> N \<Longrightarrow> b \<in> N \<Longrightarrow>
      \<exists>s'. un s a b = Inr s' \<and> invar N s' \<and>
        (\<forall>y \<in> N. root s' y =
           (if root s y = max (root s a) (root s b) then min (root s a) (root s b) else root s y))"
begin

lemma union_components:
  assumes inv: "invar N s" and ab: "a \<in> N" "b \<in> N" and E: "E \<subseteq> N \<times> N"
    and comp: "\<And>x y. x \<in> N \<Longrightarrow> y \<in> N \<Longrightarrow> root s x = root s y \<longleftrightarrow> linked E x y"
  shows "\<exists>s'. un s a b = Inr s' \<and> invar N s' \<and>
    (\<forall>x \<in> N. \<forall>y \<in> N. root s' x = root s' y \<longleftrightarrow> linked (insert (a, b) E) x y)"
proof -
  let ?F = "insert (a, b) E"
  obtain s' where s': "un s a b = Inr s'" "invar N s'"
    and root': "\<And>y. y \<in> N \<Longrightarrow> root s' y =
      (if root s y = max (root s a) (root s b) then min (root s a) (root s b) else root s y)"
    using union_law [OF inv ab] by blast
  have up: "linked E x y \<Longrightarrow> linked ?F x y" for x y
    by (rule linked_mono [of E]) auto
  have ab_F: "linked ?F a b"
    by (rule linked_edge) simp
  have joined: "root s' x = root s' y \<longleftrightarrow> root s x = root s y \<or>
      (root s x \<in> {root s a, root s b} \<and> root s y \<in> {root s a, root s b})"
    if "x \<in> N" "y \<in> N" for x y
    using root' [OF that(1)] root' [OF that(2)] by (auto simp: max_def min_def split: if_splits)
  have one: "linked ?F x y" if "x \<in> N" "y \<in> N" "root s' x = root s' y" for x y
  proof -
    have near: "linked ?F z a" if "z \<in> N" "root s z \<in> {root s a, root s b}" for z
      using that comp ab up ab_F by (metis linked_sym linked_trans insertE singletonD)
    from joined [OF that(1,2)] that(3) consider "root s x = root s y"
      | "root s x \<in> {root s a, root s b}" "root s y \<in> {root s a, root s b}" by blast
    then show ?thesis
    proof cases
      case 1
      then show ?thesis using comp up that by blast
    next
      case 2
      then show ?thesis using near that linked_sym linked_trans by metis
    qed
  qed
  have two: "y \<in> N \<and> root s' x = root s' y" if "linked ?F x y" "x \<in> N" for x y
    using that(1)
  proof (induction rule: linked_induct)
    case refl
    then show ?case using that by simp
  next
    case (edge y z)
    then have "(y, z) \<in> ?F \<or> (z, y) \<in> ?F" and y: "y \<in> N" by auto
    then have z: "z \<in> N" using ab E by auto
    have "root s' y = root s' z"
      using edge.hyps(2) comp [of y z] y z joined [OF y z] linked_edge [of _ _ E]
      by (auto intro: linked_sym)
    then show ?case using edge.IH z by simp
  qed
  show ?thesis using s' one two by blast
qed

lemma union_all_components:
  assumes "invar N s" and "set es \<subseteq> N \<times> N" and "E \<subseteq> N \<times> N"
    and "\<And>x y. x \<in> N \<Longrightarrow> y \<in> N \<Longrightarrow> root s x = root s y \<longleftrightarrow> linked E x y"
  shows "\<exists>s'. union_all un s es = Inr s' \<and> invar N s' \<and>
    (\<forall>x \<in> N. \<forall>y \<in> N. root s' x = root s' y \<longleftrightarrow> linked (E \<union> set es) x y)"
  using assms
proof (induction es arbitrary: s E)
  case Nil
  then show ?case by auto
next
  case (Cons e es)
  obtain a b where e: "e = (a, b)" by (cases e)
  with Cons.prems have ab: "a \<in> N" "b \<in> N" by auto
  obtain s1 where s1: "un s a b = Inr s1" "invar N s1"
    "\<And>x y. x \<in> N \<Longrightarrow> y \<in> N \<Longrightarrow> root s1 x = root s1 y \<longleftrightarrow> linked (insert (a, b) E) x y"
    using union_components [OF Cons.prems(1) ab Cons.prems(3,4)] by blast
  have "\<exists>s'. union_all un s1 es = Inr s' \<and> invar N s' \<and>
    (\<forall>x \<in> N. \<forall>y \<in> N. root s' x = root s' y \<longleftrightarrow> linked (insert (a, b) E \<union> set es) x y)"
    by (rule Cons.IH [OF s1(2)]) (use Cons.prems ab s1(3) in auto)
  then show ?case using s1(1) e by simp
qed

text \<open>The buckets after the loop: one per root, holding the names of that root in their order.\<close>

lemma fill_buckets_spec:
  assumes "invar N s" and "set names \<subseteq> N" and "set seen \<subseteq> N"
    and "\<And>r. map_of buckets r = (let ms = filter (\<lambda>x. root s x = r) seen in
            if ms = [] then None else Some ms)"
    and "distinct (keys buckets)"
  shows "\<exists>bs. fill_buckets fnd s buckets names = Inr bs \<and> distinct (keys bs) \<and>
    (\<forall>r. map_of bs r = (let ms = filter (\<lambda>x. root s x = r) (seen @ names) in
            if ms = [] then None else Some ms))"
  using assms
proof (induction names arbitrary: s seen buckets)
  case Nil
  then show ?case by simp
next
  case (Cons name names)
  have name: "name \<in> N" using Cons.prems by simp
  obtain s1 where s1: "fnd s name = Inr (root s name, s1)" "invar N s1"
    and same: "\<And>y. y \<in> N \<Longrightarrow> root s1 y = root s y"
    using find_law [OF Cons.prems(1) name] by blast
  let ?r = "root s name"
  let ?ms = "(case map_of buckets ?r of None \<Rightarrow> [] | Some ms \<Rightarrow> ms)"
  let ?bs = "AList.update ?r (?ms @ [name]) buckets"
  have filt: "filter (\<lambda>x. root s1 x = r) (seen @ [name]) = filter (\<lambda>x. root s x = r) (seen @ [name])" for r
    using same Cons.prems(2,3) by (intro filter_cong) auto
  have ms: "?ms = filter (\<lambda>x. root s x = ?r) seen"
    using Cons.prems(4) [of ?r] by (simp add: Let_def)
  have step: "map_of ?bs r = (let ms = filter (\<lambda>x. root s1 x = r) (seen @ [name]) in
      if ms = [] then None else Some ms)" for r
    unfolding filt using Cons.prems(4) [of r] ms by (auto simp: Let_def)
  have "\<exists>bs. fill_buckets fnd s1 ?bs names = Inr bs \<and> distinct (keys bs) \<and>
    (\<forall>r. map_of bs r = (let ms = filter (\<lambda>x. root s1 x = r) ((seen @ [name]) @ names) in
            if ms = [] then None else Some ms))"
    by (rule Cons.IH [OF s1(2) _ _ step]) (use Cons.prems in auto)
  moreover have filts: "filter (\<lambda>x. root s1 x = r) ((seen @ [name]) @ names)
      = filter (\<lambda>x. root s x = r) (seen @ name # names)" for r
    using same Cons.prems(2,3) by (intro trans [OF filter_cong [OF append.assoc]]) auto
  ultimately have "\<exists>bs. fill_buckets fnd s1 ?bs names = Inr bs \<and> distinct (keys bs) \<and>
    (\<forall>r. map_of bs r = (let ms = filter (\<lambda>x. root s x = r) (seen @ name # names) in
            if ms = [] then None else Some ms))"
    by (simp only: filts)
  then show ?case using s1(1) by (simp only: fill_buckets.simps and_then_simps Let_def prod.case)
qed

end

section \<open>The structure of the source\<close>

text \<open>
  \<open>rooted parent x r\<close>: following parents from \<open>x\<close> ends in the root \<open>r\<close>. \<open>uf_invar\<close> is what every
  step keeps: the dictionary has exactly the names, and a parent is never larger than its child,
  which is why the loop of \<open>find\<close> ends.
\<close>

inductive rooted :: "('a \<rightharpoonup> 'a) \<Rightarrow> 'a \<Rightarrow> 'a \<Rightarrow> bool" for parent where
  here: "parent x = Some x \<Longrightarrow> rooted parent x x"
| up: "parent x = Some p \<Longrightarrow> p \<noteq> x \<Longrightarrow> rooted parent p r \<Longrightarrow> rooted parent x r"

inductive_cases rootedE: "rooted parent x r"

definition uf_invar :: "nat \<Rightarrow> 'a::linorder set \<Rightarrow> ('a \<rightharpoonup> 'a) \<Rightarrow> bool" where
  "uf_invar fuel N parent \<longleftrightarrow> finite N \<and> card N \<le> fuel \<and> dom parent = N \<and>
     (\<forall>x p. parent x = Some p \<longrightarrow> p \<in> N \<and> p \<le> x)"

definition uf_root :: "('a \<rightharpoonup> 'a) \<Rightarrow> 'a \<Rightarrow> 'a" where
  "uf_root parent x = (THE r. rooted parent x r)"

lemma uf_invarD:
  assumes "uf_invar fuel N parent"
  shows "finite N" "card N \<le> fuel" "dom parent = N"
    "parent x = Some p \<Longrightarrow> p \<in> N" "parent x = Some p \<Longrightarrow> p \<le> x"
  using assms by (auto simp: uf_invar_def)

lemma rooted_unique: "rooted parent x r \<Longrightarrow> rooted parent x r' \<Longrightarrow> r = r'"
  by (induction rule: rooted.induct) (auto elim: rootedE)

lemma rooted_next: "rooted parent x r \<Longrightarrow> parent x = Some p \<Longrightarrow> rooted parent p r"
  by (cases rule: rooted.cases) (auto intro: rooted.here)

lemma rooted_root: "rooted parent x r \<Longrightarrow> parent r = Some r"
  by (induction rule: rooted.induct) auto

lemma uf_root_eq: "rooted parent x r \<Longrightarrow> uf_root parent x = r"
  unfolding uf_root_def by (blast intro: rooted_unique)

lemma rooted_ex:
  assumes "uf_invar fuel N parent"
  shows "x \<in> N \<Longrightarrow> \<exists>r. rooted parent x r"
proof (induction "card {y \<in> N. y < x}" arbitrary: x rule: less_induct)
  case less
  then obtain p where p: "parent x = Some p" using uf_invarD(3) [OF assms] by auto
  show ?case
  proof (cases "p = x")
    case True
    with p show ?thesis by (blast intro: rooted.here)
  next
    case False
    with p uf_invarD(4,5) [OF assms p] have "p \<in> N" "p < x" by auto
    moreover have "{y \<in> N. y < p} \<subset> {y \<in> N. y < x}" using calculation by auto
    then have "card {y \<in> N. y < p} < card {y \<in> N. y < x}"
      using uf_invarD(1) [OF assms] by (intro psubset_card_mono) auto
    ultimately show ?thesis using less(1) p False by (blast intro: rooted.up)
  qed
qed

lemma rooted_uf_root: "uf_invar fuel N parent \<Longrightarrow> x \<in> N \<Longrightarrow> rooted parent x (uf_root parent x)"
  using rooted_ex uf_root_eq by metis

lemma rooted_le: "rooted parent x r \<Longrightarrow> uf_invar fuel N parent \<Longrightarrow> x \<in> N \<Longrightarrow> r \<in> N \<and> r \<le> x"
  by (induction rule: rooted.induct) (fastforce dest: uf_invarD(4,5))+

lemma uf_root_in: "uf_invar fuel N parent \<Longrightarrow> x \<in> N \<Longrightarrow> uf_root parent x \<in> N"
  using rooted_uf_root rooted_le by metis

text \<open>Path halving changes no root.\<close>

lemma halve_invar:
  assumes "uf_invar fuel N parent" "parent x = Some p" "parent p = Some g"
  shows "uf_invar fuel N (parent(x \<mapsto> g))"
proof -
  have "g \<in> N" "g \<le> x"
    using uf_invarD(4,5) [OF assms(1)] assms(2,3) by (blast, metis order.trans)
  then show ?thesis using assms by (auto simp: uf_invar_def)
qed

lemma halve_rooted:
  assumes "parent x = Some p" "p \<noteq> x" "parent p = Some g" and "uf_invar fuel N parent"
  shows "rooted parent y r \<Longrightarrow> rooted (parent(x \<mapsto> g)) y r"
proof (induction rule: rooted.induct)
  case (here y)
  then show ?case using assms by (intro rooted.here) auto
next
  case (up y q r)
  show ?case
  proof (cases "y = x")
    case False
    then show ?thesis using up by (rule_tac p = q in rooted.up) auto
  next
    case True
    have gx: "g \<noteq> x"
      using assms(2) uf_invarD(5) [OF assms(4) assms(1)] uf_invarD(5) [OF assms(4) assms(3)] by auto
    have "rooted (parent(x \<mapsto> g)) p r" using up True assms by (simp del: fun_upd_apply)
    then have "rooted (parent(x \<mapsto> g)) g r"
      by (rule rooted_next) (use assms(2,3) in simp)
    then have "rooted (parent(x \<mapsto> g)) x r" using gx by (rule_tac p = g in rooted.up) auto
    then show ?thesis using True by (simp del: fun_upd_apply)
  qed
qed

lemma halve_root:
  assumes "parent x = Some p" "p \<noteq> x" "parent p = Some g" "uf_invar fuel N parent" "y \<in> N"
  shows "uf_root (parent(x \<mapsto> g)) y = uf_root parent y"
  by (rule uf_root_eq, rule halve_rooted [OF assms(1-4)], rule rooted_uf_root [OF assms(4,5)])

text \<open>The loop of \<open>find\<close> returns, with more fuel than there are smaller names.\<close>

lemma uf_find_ok:
  assumes "uf_invar n N parent" "x \<in> N" "card {y \<in> N. y < x} < fuel"
  shows "\<exists>parent'. uf_find fuel parent x = Inr (uf_root parent x, parent') \<and>
    uf_invar n N parent' \<and> (\<forall>y \<in> N. uf_root parent' y = uf_root parent y)"
  using assms
proof (induction fuel arbitrary: parent x)
  case 0
  then show ?case by simp
next
  case (Suc fuel)
  from Suc.prems uf_invarD(3) obtain p where p: "parent x = Some p" by blast
  show ?case
  proof (cases "p = x")
    case True
    then have "uf_root parent x = x" using p by (intro uf_root_eq rooted.here) simp
    with True p Suc.prems(1) show ?thesis by simp
  next
    case False
    from uf_invarD(3,4) [OF Suc.prems(1)] p obtain g where g: "parent p = Some g" by blast
    let ?parent = "parent(x \<mapsto> g)"
    have inv: "uf_invar n N ?parent" by (rule halve_invar [OF Suc.prems(1) p g])
    have gx: "g \<in> N" "g < x"
      using uf_invarD(4,5) [OF Suc.prems(1) p] uf_invarD(4,5) [OF Suc.prems(1) g] False by auto
    then have "{y \<in> N. y < g} \<subset> {y \<in> N. y < x}" by auto
    then have "card {y \<in> N. y < g} < card {y \<in> N. y < x}"
      using uf_invarD(1) [OF Suc.prems(1)] by (intro psubset_card_mono) auto
    then have "card {y \<in> N. y < g} < fuel" using Suc.prems(3) by simp
    note IH = Suc.IH [OF inv gx(1) this]
    note halved = halve_root [OF p False g Suc.prems(1)]
    have "rooted ?parent x (uf_root ?parent g)"
      using rooted_uf_root [OF inv gx(1)] gx by (rule_tac p = g in rooted.up) auto
    then have "uf_root ?parent g = uf_root parent x"
      using uf_root_eq halved [OF Suc.prems(2)] by metis
    with IH halved have "\<exists>parent'. uf_find fuel ?parent g = Inr (uf_root parent x, parent') \<and>
        uf_invar n N parent' \<and> (\<forall>y \<in> N. uf_root parent' y = uf_root parent y)"
      by (simp del: fun_upd_apply)
    then show ?thesis using p False g by simp
  qed
qed

lemma attach_rooted:
  assumes "parent hi = Some hi" "parent lo = Some lo" "lo \<noteq> hi"
  shows "rooted parent y r \<Longrightarrow> rooted (parent(hi \<mapsto> lo)) y (if r = hi then lo else r)"
proof (induction rule: rooted.induct)
  case (here y)
  have "rooted (parent(hi \<mapsto> lo)) lo lo" using assms by (intro rooted.here) auto
  then have "rooted (parent(hi \<mapsto> lo)) hi lo" using assms by (rule_tac p = lo in rooted.up) auto
  moreover have "y \<noteq> hi \<Longrightarrow> rooted (parent(hi \<mapsto> lo)) y y" using here by (intro rooted.here) simp
  ultimately show ?case by (cases "y = hi") (simp_all del: fun_upd_apply)
next
  case (up y p r)
  then have "y \<noteq> hi" using assms by auto
  then show ?case using up by (rule_tac p = p in rooted.up) auto
qed

lemma uf_union_ok:
  assumes inv: "uf_invar fuel N parent" and ab: "a \<in> N" "b \<in> N"
  shows "\<exists>parent'. uf_union fuel parent a b = Inr parent' \<and> uf_invar fuel N parent' \<and>
    (\<forall>y \<in> N. uf_root parent' y =
      (if uf_root parent y = max (uf_root parent a) (uf_root parent b)
       then min (uf_root parent a) (uf_root parent b) else uf_root parent y))"
proof -
  have enough: "card {y \<in> N. y < x} < fuel" if "x \<in> N" for x
  proof -
    have "card {y \<in> N. y < x} < card N"
      using uf_invarD(1) [OF inv] that by (intro psubset_card_mono) auto
    then show ?thesis using uf_invarD(2) [OF inv] by simp
  qed
  let ?ra = "uf_root parent a" and ?rb = "uf_root parent b"
  obtain p1 where p1: "uf_find fuel parent a = Inr (?ra, p1)" "uf_invar fuel N p1"
    "\<And>y. y \<in> N \<Longrightarrow> uf_root p1 y = uf_root parent y"
    using uf_find_ok [OF inv ab(1) enough [OF ab(1)]] by blast
  obtain p2 where p2: "uf_find fuel p1 b = Inr (?rb, p2)" "uf_invar fuel N p2"
    "\<And>y. y \<in> N \<Longrightarrow> uf_root p2 y = uf_root parent y"
    using uf_find_ok [OF p1(2) ab(2) enough [OF ab(2)]] p1(3) ab by auto
  have roots: "p2 ?ra = Some ?ra" "p2 ?rb = Some ?rb"
    using rooted_root [OF rooted_uf_root [OF p2(2) ab(1)]]
      rooted_root [OF rooted_uf_root [OF p2(2) ab(2)]] p2(3) ab by auto
  have ins: "?ra \<in> N" "?rb \<in> N" using uf_root_in [OF inv] ab by auto
  show ?thesis
  proof (cases "?ra = ?rb")
    case True
    then show ?thesis using p1 p2 by (auto simp: uf_union_def)
  next
    case False
    let ?hi = "max ?ra ?rb" and ?lo = "min ?ra ?rb"
    let ?p3 = "p2(?hi \<mapsto> ?lo)"
    have hilo: "p2 ?hi = Some ?hi" "p2 ?lo = Some ?lo" "?lo \<noteq> ?hi" "?lo \<le> ?hi" "?lo \<in> N" "?hi \<in> N"
      using roots ins False by (auto simp: max_def min_def)
    have "uf_invar fuel N ?p3"
      using p2(2) hilo(4-6) by (auto simp: uf_invar_def)
    moreover have "uf_root ?p3 y = (if uf_root parent y = ?hi then ?lo else uf_root parent y)"
      if "y \<in> N" for y
      using attach_rooted [OF hilo(1-3) rooted_uf_root [OF p2(2) that]]
      unfolding p2(3) [OF that] by (rule uf_root_eq)
    ultimately show ?thesis using p1 p2 False by (auto simp: uf_union_def)
  qed
qed

interpretation uf: union_find "uf_invar fuel" "uf_find fuel" "uf_union fuel" uf_root for fuel
proof
  fix N :: "'a set" and parent x
  assume inv: "uf_invar fuel N parent" and x: "x \<in> N"
  then have "card {y \<in> N. y < x} < card N"
    by (intro psubset_card_mono) (auto dest: uf_invarD(1))
  then show "\<exists>s'. uf_find fuel parent x = Inr (uf_root parent x, s') \<and> uf_invar fuel N s' \<and>
      (\<forall>y \<in> N. uf_root s' y = uf_root parent y)"
    using uf_find_ok [OF inv x] uf_invarD(2) [OF inv] by simp
qed (rule uf_union_ok)

text \<open>\<open>parent = {n: n for n in names}\<close>\<close>

definition uf_init :: "'a list \<Rightarrow> ('a \<rightharpoonup> 'a)" where
  "uf_init names = map_of (map (\<lambda>n. (n, n)) names)"

lemma uf_init_eq: "uf_init names x = (if x \<in> set names then Some x else None)"
  by (induction names) (auto simp: uf_init_def)

lemma uf_init_ok:
  shows "uf_invar (length names) (set names) (uf_init names)"
    and "x \<in> set names \<Longrightarrow> uf_root (uf_init names) x = x"
  by (auto simp: uf_invar_def uf_init_eq card_length dom_def split: if_splits
      intro!: uf_root_eq rooted.here)

text \<open>
  Both clients: unite the edges, then put every name in its root's bucket. What they list is the
  linked components, each once, in the order of the names.
\<close>

lemma components_listed:
  assumes edges: "set es \<subseteq> set names \<times> set names" and sub: "set listed \<subseteq> set names"
  obtains parent bs where
    "union_all (uf_union (length names)) (uf_init names) es = Inr parent"
    "fill_buckets (uf_find (length names)) parent [] listed = Inr bs"
    "distinct (keys bs)"
    "\<And>r ms. (r, ms) \<in> set bs \<Longrightarrow> ms \<noteq> []"
    "\<And>r ms x. (r, ms) \<in> set bs \<Longrightarrow> x \<in> set ms \<Longrightarrow> ms = filter (linked (set es) x) listed"
    "\<And>x. x \<in> set listed \<Longrightarrow> \<exists>r ms. (r, ms) \<in> set bs \<and> x \<in> set ms"
    "\<And>r ms r' ms' x. (r, ms) \<in> set bs \<Longrightarrow> (r', ms') \<in> set bs \<Longrightarrow> x \<in> set ms \<Longrightarrow> x \<in> set ms' \<Longrightarrow> r = r'"
proof -
  let ?N = "set names" and ?f = "length names"
  obtain parent where p: "union_all (uf_union ?f) (uf_init names) es = Inr parent"
    "uf_invar ?f ?N parent"
    "\<And>x y. x \<in> ?N \<Longrightarrow> y \<in> ?N \<Longrightarrow> uf_root parent x = uf_root parent y \<longleftrightarrow> linked (set es) x y"
  proof -
    have "uf_root (uf_init names) x = uf_root (uf_init names) y \<longleftrightarrow> linked {} x y"
      if "x \<in> ?N" "y \<in> ?N" for x y
      using that by (simp add: uf_init_ok(2))
    then show ?thesis
      using uf.union_all_components [OF uf_init_ok(1) edges, of "{}"] that by auto
  qed
  obtain bs where bs: "fill_buckets (uf_find ?f) parent [] listed = Inr bs" "distinct (keys bs)"
    and look: "\<And>r. map_of bs r = (let ms = filter (\<lambda>x. uf_root parent x = r) listed in
            if ms = [] then None else Some ms)"
    using uf.fill_buckets_spec [OF p(2) sub, of "[]" "[]"] by auto
  have ms: "ms = filter (\<lambda>x. uf_root parent x = r) listed \<and> ms \<noteq> []" if "(r, ms) \<in> set bs" for r ms
    using that bs(2) look [of r] by (auto simp: Let_def split: if_splits dest: map_of_is_SomeI)
  show thesis
  proof (rule that [OF p(1) bs])
    show "ms \<noteq> []" if "(r, ms) \<in> set bs" for r ms
      using ms [OF that] by blast
    show "ms = filter (linked (set es) x) listed" if "(r, ms) \<in> set bs" "x \<in> set ms" for r ms x
    proof -
      have r: "uf_root parent x = r" "x \<in> ?N" using that ms [OF that(1)] sub by auto
      have "filter (\<lambda>x. uf_root parent x = r) listed = filter (linked (set es) x) listed"
        using p(3) r sub by (intro filter_cong) (auto dest: linked_sym)
      then show ?thesis using ms [OF that(1)] by simp
    qed
    show "\<exists>r ms. (r, ms) \<in> set bs \<and> x \<in> set ms" if "x \<in> set listed" for x
    proof -
      let ?ms = "filter (\<lambda>y. uf_root parent y = uf_root parent x) listed"
      have "x \<in> set ?ms" using that by simp
      moreover have "map_of bs (uf_root parent x) = Some ?ms"
        using look [of "uf_root parent x"] calculation by (auto simp: Let_def filter_empty_conv)
      ultimately show ?thesis by (blast dest: map_of_SomeD)
    qed
    show "r = r'" if "(r, ms) \<in> set bs" "(r', ms') \<in> set bs" "x \<in> set ms" "x \<in> set ms'" for r ms r' ms' x
      using ms [OF that(1)] ms [OF that(2)] that(3,4) by auto
  qed
qed

text \<open>What the buckets say as sets.\<close>

lemma components_as_sets:
  assumes "set es \<subseteq> set names \<times> set names" and "set listed \<subseteq> set names"
  obtains parent bs where
    "union_all (uf_union (length names)) (uf_init names) es = Inr parent"
    "fill_buckets (uf_find (length names)) parent [] listed = Inr bs"
    "distinct (keys bs)"
    "\<And>r ms. (r, ms) \<in> set bs \<Longrightarrow> ms \<noteq> []"
    "\<And>r ms x. (r, ms) \<in> set bs \<Longrightarrow> x \<in> set ms \<Longrightarrow> set ms = {y \<in> set listed. linked (set es) x y}"
    "\<And>r ms. (r, ms) \<in> set bs \<Longrightarrow> distinct listed \<Longrightarrow> distinct ms"
    "(\<Union>b \<in> set bs. set (snd b)) = set listed"
    "\<And>r ms r' ms' x. (r, ms) \<in> set bs \<Longrightarrow> (r', ms') \<in> set bs \<Longrightarrow> x \<in> set ms \<Longrightarrow> x \<in> set ms' \<Longrightarrow> r = r'"
proof (rule components_listed [OF assms])
  fix parent bs
  assume run: "union_all (uf_union (length names)) (uf_init names) es = Inr parent"
      "fill_buckets (uf_find (length names)) parent [] listed = Inr bs" "distinct (keys bs)"
    and b: "\<And>r ms. (r, ms) \<in> set bs \<Longrightarrow> ms \<noteq> []"
      "\<And>r ms x. (r, ms) \<in> set bs \<Longrightarrow> x \<in> set ms \<Longrightarrow> ms = filter (linked (set es) x) listed"
      "\<And>x. x \<in> set listed \<Longrightarrow> \<exists>r ms. (r, ms) \<in> set bs \<and> x \<in> set ms"
    and disj: "\<And>r ms r' ms' x. (r, ms) \<in> set bs \<Longrightarrow> (r', ms') \<in> set bs \<Longrightarrow> x \<in> set ms \<Longrightarrow>
      x \<in> set ms' \<Longrightarrow> r = r'"
  have 1: "set ms = {y \<in> set listed. linked (set es) x y}" if "(r, ms) \<in> set bs" "x \<in> set ms" for r ms x
    using arg_cong [OF b(2) [OF that], of set] by auto
  have 2: "distinct ms" if "(r, ms) \<in> set bs" "distinct listed" for r ms
  proof -
    have "hd ms \<in> set ms" using b(1) [OF that(1)] by simp
    then show ?thesis using b(2) [OF that(1), of "hd ms"] that(2) by (metis distinct_filter)
  qed
  have 3: "(\<Union>b \<in> set bs. set (snd b)) = set listed"
  proof (intro equalityI subsetI)
    fix x assume "x \<in> (\<Union>b \<in> set bs. set (snd b))"
    then obtain r ms where "(r, ms) \<in> set bs" "x \<in> set ms" by auto
    then show "x \<in> set listed" using 1 by blast
  next
    fix x assume "x \<in> set listed"
    then obtain r ms where "(r, ms) \<in> set bs" "x \<in> set ms" using b(3) by blast
    then show "x \<in> (\<Union>b \<in> set bs. set (snd b))" by force
  qed
  show thesis by (rule that [OF run b(1) 1 2 3 disj])
qed

end
