(* ===== verification/Canonical.thy ===== *)
theory Canonical
  imports Prelude
begin

text \<open>
  The canonical encoding of \<open>canonical.py\<close>: the text every library has to produce byte for byte,
  and the digest computed from it.

  Two functions of the interpreter are parameters: \<open>nfc\<close> is \<open>unicodedata.normalize("NFC", _)\<close> and
  \<open>sha256\<close> is \<open>hashlib.sha256(_).hexdigest()\<close>. The only fact used about the first is that it is
  idempotent. UTF-8 is written out. A \<open>dict\<close> with a key that is not a string is not a \<open>pyval\<close>, and
  the path of an error is left out of it.

  The main result is that the encoding says exactly what a value is once its strings are
  normalised and its keys sorted: \<open>canonical_bytes_eq_iff\<close>.
\<close>

section \<open>The encoder\<close>

datatype canonical_error = FloatRefused | DuplicateKey ustring | UnicodeEncodeError

definition short_escapes :: "nat \<Rightarrow> ustring option" where
  "short_escapes = map_of
     [(8, [92, 98]), (9, [92, 116]), (10, [92, 110]), (12, [92, 102]), (13, [92, 114]),
      (34, [92, 34]), (92, [92, 92])]"

definition hex_char :: "nat \<Rightarrow> nat" where
  "hex_char d = (if d < 10 then 48 + d else 87 + d)"

text \<open>\<open>f"\u{code:04x}"\<close>\<close>

definition unicode_escape :: "nat \<Rightarrow> ustring" where
  "unicode_escape code =
     [92, 117, hex_char (code div 4096 mod 16), hex_char (code div 256 mod 16),
      hex_char (code div 16 mod 16), hex_char (code mod 16)]"

definition escape_char :: "nat \<Rightarrow> ustring" where
  "escape_char code =
     (case short_escapes code of
        Some short \<Rightarrow> short
      | None \<Rightarrow> if code < 32 then unicode_escape code else [code])"

definition escape :: "(ustring \<Rightarrow> ustring) \<Rightarrow> ustring \<Rightarrow> ustring" where
  "escape nfc s = [34] @ concat (map escape_char (nfc s)) @ [34]"

text \<open>\<open>str(value)\<close> of an integer\<close>

fun nat_text :: "nat \<Rightarrow> ustring" where
  "nat_text n = (if n < 10 then [48 + n] else nat_text (n div 10) @ [48 + n mod 10])"

declare nat_text.simps [simp del]

definition int_text :: "int \<Rightarrow> ustring" where
  "int_text i = (if i < 0 then 45 # nat_text (nat (- i)) else nat_text (nat i))"

text \<open>\<open>",".join(items)\<close>\<close>

fun comma_join :: "ustring list \<Rightarrow> ustring" where
  "comma_join [] = []"
| "comma_join [x] = x"
| "comma_join (x # y # zs) = x @ [44] @ comma_join (y # zs)"

text \<open>The loop over the sorted pairs of an object.\<close>

fun encode_members ::
  "(ustring \<Rightarrow> ustring) \<Rightarrow> (pyval \<Rightarrow> canonical_error + ustring) \<Rightarrow> ustring set \<Rightarrow>
     (ustring \<times> pyval) list \<Rightarrow> canonical_error + ustring list" where
  "encode_members nfc enc seen [] = Inr []"
| "encode_members nfc enc seen ((key, item) # pairs) =
     (if key \<in> seen then Inl (DuplicateKey key)
      else and_then (enc item) (\<lambda>s.
           and_then (encode_members nfc enc (insert key seen) pairs) (\<lambda>parts.
             Inr ((escape nfc key @ [58] @ s) # parts))))"

lemma encode_members_cong [fundef_cong]:
  assumes "nfc = nfc'" "seen = seen'" "ps = ps'"
    and "\<And>v. v \<in> snd ` set ps' \<Longrightarrow> enc v = enc' v"
  shows "encode_members nfc enc seen ps = encode_members nfc' enc' seen' ps'"
  using assms(4) unfolding assms(1-3)
  by (induction ps' arbitrary: seen') (auto intro!: and_then_cong)

definition normalised_pairs :: "(ustring \<Rightarrow> ustring) \<Rightarrow> (ustring \<times> pyval) list \<Rightarrow> (ustring \<times> pyval) list"
where
  "normalised_pairs nfc d = sort_key fst (map (\<lambda>(key, item). (nfc key, item)) d)"

lemma normalised_pairs_size:
  "(k, v) \<in> set (normalised_pairs nfc d) \<Longrightarrow> size v < size (PDict d)"
  by (auto simp: normalised_pairs_def dest!: split_list)

function encode :: "(ustring \<Rightarrow> ustring) \<Rightarrow> pyval \<Rightarrow> canonical_error + ustring" where
  "encode nfc PNone = Inr (lit ''null'')"
| "encode nfc (PBool b) = Inr (if b then lit ''true'' else lit ''false'')"
| "encode nfc (PInt i) = Inr (int_text i)"
| "encode nfc (PFloat f) = Inl FloatRefused"
| "encode nfc (PStr s) = Inr (escape nfc s)"
| "encode nfc (PList vs) =
     and_then (traverse (encode nfc) vs) (\<lambda>items. Inr ([91] @ comma_join items @ [93]))"
| "encode nfc (PDict d) =
     and_then (encode_members nfc (encode nfc) {} (normalised_pairs nfc d)) (\<lambda>parts.
       Inr ([123] @ comma_join parts @ [125]))"
  by pat_completeness auto
termination
  by (relation "measure (\<lambda>(nfc, v). size v)")
    (use normalised_pairs_size in \<open>auto simp: less_Suc_eq_le intro: size_list_estimation'\<close>)

definition canonical_str :: "(ustring \<Rightarrow> ustring) \<Rightarrow> pyval \<Rightarrow> canonical_error + ustring" where
  "canonical_str nfc v = encode nfc v"

text \<open>\<open>str.encode("utf-8")\<close>: a surrogate has no encoding.\<close>

definition utf8_char :: "nat \<Rightarrow> canonical_error + nat list" where
  "utf8_char c =
     (if c < 128 then Inr [c]
      else if c < 2048 then Inr [192 + c div 64, 128 + c mod 64]
      else if 55296 \<le> c \<and> c \<le> 57343 then Inl UnicodeEncodeError
      else if c < 65536 then Inr [224 + c div 4096, 128 + c div 64 mod 64, 128 + c mod 64]
      else Inr [240 + c div 262144, 128 + c div 4096 mod 64, 128 + c div 64 mod 64, 128 + c mod 64])"

definition utf8 :: "ustring \<Rightarrow> canonical_error + nat list" where
  "utf8 s = and_then (traverse utf8_char s) (\<lambda>bs. Inr (concat bs))"

definition canonical_bytes :: "(ustring \<Rightarrow> ustring) \<Rightarrow> pyval \<Rightarrow> canonical_error + nat list" where
  "canonical_bytes nfc v = and_then (canonical_str nfc v) utf8"

definition digest16 ::
  "(ustring \<Rightarrow> ustring) \<Rightarrow> (nat list \<Rightarrow> ustring) \<Rightarrow> pyval \<Rightarrow> canonical_error + ustring" where
  "digest16 nfc sha256 v = and_then (canonical_bytes nfc v) (\<lambda>bs. Inr (take 16 (sha256 bs)))"

section \<open>Escaped strings and numbers end where they end\<close>

lemma hex_char_inj: "hex_char a = hex_char b \<Longrightarrow> a < 16 \<Longrightarrow> b < 16 \<Longrightarrow> a = b"
  by (auto simp: hex_char_def split: if_splits)

lemma unicode_escape_inj:
  assumes "unicode_escape c = unicode_escape d" "c < 32" "d < 32"
  shows "c = d"
proof -
  have "c mod 16 = d mod 16" "c div 16 mod 16 = d div 16 mod 16"
    using assms(1) by (auto simp: unicode_escape_def intro: hex_char_inj)
  then have "c div 16 = d div 16" using assms(2,3) by (simp add: mod_less)
  with \<open>c mod 16 = d mod 16\<close> show ?thesis by (metis div_mult_mod_eq)
qed

lemma short_escapes_Some:
  assumes "short_escapes c = Some e"
  shows "\<exists>k. e = [92, k] \<and> k \<noteq> 117" and "short_escapes d = Some e \<Longrightarrow> c = d"
proof -
  have in_table: "(x, e) \<in> set [(8, [92, 98]), (9, [92, 116]), (10, [92, 110]), (12, [92, 102]),
      (13, [92, 114]), (34, [92, 34]), (92, [92, 92])]" if "short_escapes x = Some e" for x
    using that unfolding short_escapes_def by (rule map_of_SomeD)
  show "\<exists>k. e = [92, k] \<and> k \<noteq> 117" using in_table [OF assms]
    unfolding set_simps insert_iff prod.inject by (elim disjE conjE emptyE) simp_all
  show "c = d" if "short_escapes d = Some e"
    using in_table [OF assms] in_table [OF that]
    unfolding set_simps insert_iff prod.inject by (elim disjE conjE emptyE) simp_all
qed

lemma short_escapes_None: "short_escapes c = None \<Longrightarrow> c \<noteq> 92 \<and> c \<noteq> 34"
  by (auto simp: short_escapes_def split: if_splits)

lemma escape_char_cases [case_names short unicode plain]:
  obtains k where "escape_char c = [92, k]" "k \<noteq> 117" "short_escapes c = Some [92, k]"
  | "escape_char c = unicode_escape c" "c < 32" "short_escapes c = None"
  | "escape_char c = [c]" "c \<noteq> 92" "c \<noteq> 34" "\<not> c < 32"
  by (cases "short_escapes c")
    (auto simp: escape_char_def dest: short_escapes_None short_escapes_Some(1) split: if_splits)

lemma unicode_escape_prefix:
  "unicode_escape c @ r = unicode_escape d @ r' \<Longrightarrow> unicode_escape c = unicode_escape d \<and> r = r'"
  by (simp add: unicode_escape_def)

lemma unicode_escape_hd: "\<exists>t. unicode_escape c = 92 # 117 # t"
  by (simp add: unicode_escape_def)

lemma escape_char_prefix:
  assumes "escape_char c @ r = escape_char d @ r'"
  shows "c = d \<and> r = r'"
proof -
  note hds = unicode_escape_hd [of c] unicode_escape_hd [of d]
  show ?thesis
    by (cases c rule: escape_char_cases; cases d rule: escape_char_cases)
      (use assms hds in \<open>auto dest: short_escapes_Some(2) unicode_escape_inj unicode_escape_prefix\<close>)
qed

lemma escape_char_hd: "\<exists>h t. escape_char c = h # t \<and> h \<noteq> 34"
  by (cases c rule: escape_char_cases) (auto simp: unicode_escape_def)

lemma escaped_body_prefix:
  "concat (map escape_char xs) @ 34 # r = concat (map escape_char ys) @ 34 # r' \<Longrightarrow>
     xs = ys \<and> r = r'"
proof (induction xs arbitrary: ys)
  case Nil
  then show ?case using escape_char_hd by (cases ys) (auto, metis append_Cons list.inject)
next
  case (Cons x xs)
  show ?case
  proof (cases ys)
    case Nil
    then show ?thesis using Cons.prems escape_char_hd [of x] by auto
  next
    case (Cons y ys')
    then show ?thesis using Cons.prems Cons.IH [of ys'] escape_char_prefix [of x _ y] by auto
  qed
qed

lemma escape_prefix: "escape nfc s @ r = escape nfc t @ r' \<Longrightarrow> nfc s = nfc t \<and> r = r'"
  by (auto simp: escape_def dest: escaped_body_prefix)

definition is_digit :: "nat \<Rightarrow> bool" where
  "is_digit c \<longleftrightarrow> 48 \<le> c \<and> c \<le> 57"

lemma nat_text_digits: "list_all is_digit (nat_text n)"
proof (induction n rule: nat_text.induct)
  case (1 n)
  have "is_digit (48 + n mod 10)" "n < 10 \<Longrightarrow> is_digit (48 + n)"
    using mod_less_divisor [of 10 n] by (auto simp: is_digit_def)
  with 1 show ?case by (subst nat_text.simps) simp
qed

lemma nat_text_nonempty: "nat_text n \<noteq> []"
  by (subst nat_text.simps) simp

definition digits_value :: "ustring \<Rightarrow> nat" where
  "digits_value ds = foldl (\<lambda>a d. 10 * a + (d - 48)) 0 ds"

lemma digits_value_nat_text: "digits_value (nat_text n) = n"
proof (induction n rule: nat_text.induct)
  case (1 n)
  show ?case
  proof (cases "n < 10")
    case True
    then show ?thesis by (subst nat_text.simps) (simp add: digits_value_def)
  next
    case False
    with 1 have "digits_value (nat_text (n div 10)) = n div 10" by simp
    with False show ?thesis by (subst nat_text.simps) (simp add: digits_value_def)
  qed
qed

definition digit_free :: "ustring \<Rightarrow> bool" where
  "digit_free s \<longleftrightarrow> (case s of [] \<Rightarrow> True | c # _ \<Rightarrow> \<not> is_digit c)"

lemma takeWhile_digits: "list_all is_digit ds \<Longrightarrow> digit_free r \<Longrightarrow> takeWhile is_digit (ds @ r) = ds"
  by (induction ds) (auto simp: digit_free_def split: list.splits)

lemma nat_text_prefix:
  assumes "nat_text m @ r = nat_text n @ r'" "digit_free r" "digit_free r'"
  shows "m = n \<and> r = r'"
proof -
  have "nat_text m = nat_text n"
    using assms takeWhile_digits [OF nat_text_digits] by metis
  then show ?thesis using assms(1) digits_value_nat_text by (metis append_eq_append_conv)
qed

lemma nat_text_hd: "\<exists>h t. nat_text n = h # t \<and> is_digit h"
  using nat_text_nonempty [of n] nat_text_digits [of n] by (cases "nat_text n") auto

lemma int_text_hd: "\<exists>h t. int_text i = h # t \<and> (is_digit h \<or> h = 45)"
  using nat_text_hd [of "nat i"] by (cases "i < 0") (auto simp: int_text_def)

lemma int_text_prefix:
  assumes "int_text i @ r = int_text j @ r'" "digit_free r" "digit_free r'"
  shows "i = j \<and> r = r'"
proof -
  have minus: "45 # xs \<noteq> nat_text n @ ys" for xs n ys
    using nat_text_hd [of n] by (auto simp: is_digit_def)
  note minus' = minus [symmetric]
  show ?thesis
  proof (cases "i < 0"; cases "j < 0")
    assume "i < 0" "j < 0"
    then show ?thesis using assms(1) nat_text_prefix [OF _ assms(2,3), of "nat (- i)" "nat (- j)"]
      by (auto simp: int_text_def)
  next
    assume "\<not> i < 0" "\<not> j < 0"
    then show ?thesis using assms(1) nat_text_prefix [OF _ assms(2,3), of "nat i" "nat j"]
      by (auto simp: int_text_def)
  qed (use assms(1) minus minus' in \<open>simp_all add: int_text_def\<close>)
qed

section \<open>What a value says once normalised\<close>

text \<open>
  \<open>canon\<close> is the specification of the encoding: strings normalised, the pairs of an object under
  their normalised keys in code point order.
\<close>

function canon :: "(ustring \<Rightarrow> ustring) \<Rightarrow> pyval \<Rightarrow> pyval" where
  "canon nfc PNone = PNone"
| "canon nfc (PBool b) = PBool b"
| "canon nfc (PInt i) = PInt i"
| "canon nfc (PFloat f) = PFloat f"
| "canon nfc (PStr s) = PStr (nfc s)"
| "canon nfc (PList vs) = PList (map (canon nfc) vs)"
| "canon nfc (PDict d) = PDict (map (\<lambda>(key, item). (key, canon nfc item)) (normalised_pairs nfc d))"
  by pat_completeness auto
termination
  by (relation "measure (\<lambda>(nfc, v). size v)")
    (use normalised_pairs_size in \<open>auto simp: less_Suc_eq_le intro: size_list_estimation'\<close>)

definition encodes :: "(ustring \<Rightarrow> ustring) \<Rightarrow> pyval \<Rightarrow> bool" where
  "encodes nfc v \<longleftrightarrow> (\<exists>s. encode nfc v = Inr s)"

abbreviation encoded :: "(ustring \<Rightarrow> ustring) \<Rightarrow> pyval \<Rightarrow> ustring" where
  "encoded nfc v \<equiv> projr (encode nfc v)"

lemma encodes_Inr: "encodes nfc v \<Longrightarrow> encode nfc v = Inr (encoded nfc v)"
  by (auto simp: encodes_def)

lemma traverse_encode:
  "traverse (encode nfc) vs = Inr ss \<longleftrightarrow> (\<forall>v \<in> set vs. encodes nfc v) \<and> ss = map (encoded nfc) vs"
  by (induction vs arbitrary: ss) (auto simp: outcome_simps encodes_def)

lemma encode_members_encode:
  "encode_members nfc (encode nfc) seen ps = Inr parts \<longleftrightarrow>
     distinct (keys ps) \<and> seen \<inter> set (keys ps) = {} \<and> (\<forall>v \<in> set (vals ps). encodes nfc v) \<and>
     parts = map (\<lambda>(k, v). escape nfc k @ [58] @ encoded nfc v) ps"
proof (induction ps arbitrary: seen parts)
  case Nil
  then show ?case by auto
next
  case (Cons p ps)
  obtain k v where p: "p = (k, v)" by (cases p)
  show ?case
  proof (cases "encode nfc v")
    case (Inl e)
    then show ?thesis using p by (auto simp: encodes_def)
  next
    case (Inr s)
    then show ?thesis using p by (auto simp: Cons.IH and_then_Inr encodes_def [of nfc v])
  qed
qed

lemma encodes_simps [simp]:
  "encodes nfc PNone" "encodes nfc (PBool b)" "encodes nfc (PInt i)" "encodes nfc (PStr s)"
  "\<not> encodes nfc (PFloat f)"
  "encodes nfc (PList vs) \<longleftrightarrow> (\<forall>v \<in> set vs. encodes nfc v)"
  "encodes nfc (PDict d) \<longleftrightarrow>
     distinct (keys (normalised_pairs nfc d)) \<and> (\<forall>v \<in> set (vals (normalised_pairs nfc d)). encodes nfc v)"
  by (auto simp: encodes_def [of _ "PDict _"] encodes_def [of _ "PList _"] encodes_def [of _ "PInt _"]
      encodes_def [of _ PNone] encodes_def [of _ "PBool _"] encodes_def [of _ "PStr _"]
      encodes_def [of _ "PFloat _"] and_then_Inr traverse_encode encode_members_encode)

lemma encoded_simps [simp]:
  "encodes nfc (PList vs) \<Longrightarrow> encode nfc (PList vs) = Inr ([91] @ comma_join (map (encoded nfc) vs) @ [93])"
  "encodes nfc (PDict d) \<Longrightarrow> encode nfc (PDict d) = Inr ([123] @
     comma_join (map (\<lambda>(k, v). escape nfc k @ [58] @ encoded nfc v) (normalised_pairs nfc d)) @ [125])"
proof -
  assume "encodes nfc (PList vs)"
  then have "traverse (encode nfc) vs = Inr (map (encoded nfc) vs)" by (simp add: traverse_encode)
  then show "encode nfc (PList vs) = Inr ([91] @ comma_join (map (encoded nfc) vs) @ [93])" by simp
next
  assume "encodes nfc (PDict d)"
  then have "encode_members nfc (encode nfc) {} (normalised_pairs nfc d) =
      Inr (map (\<lambda>(k, v). escape nfc k @ [58] @ encoded nfc v) (normalised_pairs nfc d))"
    by (simp add: encode_members_encode)
  then show "encode nfc (PDict d) = Inr ([123] @
     comma_join (map (\<lambda>(k, v). escape nfc k @ [58] @ encoded nfc v) (normalised_pairs nfc d)) @ [125])"
    by simp
qed

text \<open>The first character tells the kinds of values apart.\<close>

fun head_of :: "pyval \<Rightarrow> nat \<Rightarrow> bool" where
  "head_of PNone h \<longleftrightarrow> h = 110"
| "head_of (PBool b) h \<longleftrightarrow> h = (if b then 116 else 102)"
| "head_of (PInt i) h \<longleftrightarrow> is_digit h \<or> h = 45"
| "head_of (PFloat f) h \<longleftrightarrow> False"
| "head_of (PStr s) h \<longleftrightarrow> h = 34"
| "head_of (PList vs) h \<longleftrightarrow> h = 91"
| "head_of (PDict d) h \<longleftrightarrow> h = 123"

lemma encoded_hd: "encodes nfc v \<Longrightarrow> \<exists>h t. encoded nfc v = h # t \<and> head_of v h"
  using int_text_hd
  by (cases v) (auto simp: lit_def escape_def simp del: encodes_simps(6,7) encode.simps(6,7))

lemma head_of_not_closing: "head_of v h \<Longrightarrow> h \<noteq> 93 \<and> h \<noteq> 125"
  by (cases v) (auto simp: is_digit_def)

lemma comma_join_tail: "is \<noteq> [] \<Longrightarrow> 44 # comma_join (map E is) = concat (map (\<lambda>i. 44 # E i) is)"
proof (induction "is")
  case (Cons i "is")
  then show ?case by (cases "is") simp_all
qed simp

lemma comma_tail_prefix:
  assumes pre: "\<And>i j x y. i \<in> set is \<Longrightarrow> j \<in> set js \<Longrightarrow> E i @ x = E j @ y \<Longrightarrow>
      digit_free x \<Longrightarrow> digit_free y \<Longrightarrow> C i = C j \<and> x = y"
    and z: "z \<noteq> 44" "\<not> is_digit z"
    and eq: "concat (map (\<lambda>i. 44 # E i) is) @ z # x = concat (map (\<lambda>i. 44 # E i) js) @ z # y"
  shows "map C is = map C js \<and> x = y"
  using pre eq
proof (induction "is" arbitrary: js)
  case Nil
  then show ?case using z by (cases js) auto
next
  case (Cons i "is")
  show ?case
  proof (cases js)
    case Nil
    then show ?thesis using Cons.prems(2) z by auto
  next
    case js: (Cons j js')
    let ?t = "\<lambda>ks w. concat (map (\<lambda>i. 44 # E i) ks) @ z # w"
    have free: "digit_free (?t ks w)" for ks w
      using z by (cases ks) (auto simp: digit_free_def is_digit_def)
    have "E i @ ?t is x = E j @ ?t js' y"
      using Cons.prems(2) js by simp
    then have "C i = C j \<and> ?t is x = ?t js' y"
      by (rule Cons.prems(1) [rotated 2]) (simp_all add: js free)
    moreover from this have "map C is = map C js' \<and> x = y"
    proof (intro Cons.IH)
      show "C ia = C ja \<and> xa = ya" if "ia \<in> set is" "ja \<in> set js'" "E ia @ xa = E ja @ ya"
        "digit_free xa" "digit_free ya" for ia ja xa ya
        by (rule Cons.prems(1)) (use that js in auto)
    qed simp
    ultimately show ?thesis using js by simp
  qed
qed

lemma comma_join_prefix:
  assumes pre: "\<And>i j x y. i \<in> set is \<Longrightarrow> j \<in> set js \<Longrightarrow> E i @ x = E j @ y \<Longrightarrow>
      digit_free x \<Longrightarrow> digit_free y \<Longrightarrow> C i = C j \<and> x = y"
    and hd: "\<And>i. i \<in> set is \<union> set js \<Longrightarrow> \<exists>h t. E i = h # t \<and> h \<noteq> z"
    and z: "z \<noteq> 44" "\<not> is_digit z"
    and eq: "comma_join (map E is) @ z # x = comma_join (map E js) @ z # y"
  shows "map C is = map C js \<and> x = y"
proof -
  have opens: "\<exists>h t. comma_join (map E ks) = h # t \<and> h \<noteq> z"
    if "ks \<noteq> []" "set ks \<subseteq> set is \<union> set js" for ks
    using that hd [of "List.hd ks"] by (cases ks rule: list.exhaust; cases "tl ks") auto
  consider "is = []" "js = []" | "is = []" "js \<noteq> []" | "is \<noteq> []" "js = []" | "is \<noteq> []" "js \<noteq> []" by blast
  then show ?thesis
  proof cases
    case 4
    then have "concat (map (\<lambda>i. 44 # E i) is) @ z # x = concat (map (\<lambda>i. 44 # E i) js) @ z # y"
      using eq by (simp flip: comma_join_tail)
    then show ?thesis using comma_tail_prefix [of "is" js E C z x y] pre z by blast
  qed (use eq opens [of "is"] opens [of js] in auto)
qed

lemma head_of_disjoint:
  assumes "head_of v h" "head_of w h"
  shows "v = PNone \<and> w = PNone \<or> (\<exists>b. v = PBool b \<and> w = PBool b) \<or> (\<exists>i j. v = PInt i \<and> w = PInt j)
    \<or> (\<exists>s t. v = PStr s \<and> w = PStr t) \<or> (\<exists>vs ws. v = PList vs \<and> w = PList ws)
    \<or> (\<exists>d e. v = PDict d \<and> w = PDict e)"
  using assms by (cases v; cases w) (auto simp: is_digit_def split: if_splits)

lemma normalised_key: "(k, v) \<in> set (normalised_pairs nfc d) \<Longrightarrow> (\<And>s. nfc (nfc s) = nfc s) \<Longrightarrow> nfc k = k"
  by (auto simp: normalised_pairs_def)

text \<open>
  No encoding is a proper prefix of another that a separator or the end of the text follows, so the
  text determines the value it encodes.
\<close>

lemma encode_prefix:
  assumes idem: "\<And>s. nfc (nfc s) = nfc s"
  shows "encodes nfc v \<Longrightarrow> encodes nfc w \<Longrightarrow> encoded nfc v @ x = encoded nfc w @ y \<Longrightarrow>
    digit_free x \<Longrightarrow> digit_free y \<Longrightarrow> canon nfc v = canon nfc w \<and> x = y"
proof (induction "size v" arbitrary: v w x y rule: less_induct)
  case less
  obtain h t t' where "encoded nfc v = h # t" "head_of v h" "encoded nfc w = h # t'" "head_of w h"
    using encoded_hd [OF less.prems(1)] encoded_hd [OF less.prems(2)] less.prems(3) by auto
  from head_of_disjoint [OF this(2,4)] consider (same) "v = w" "\<nexists>vs. v = PList vs" "\<nexists>d. v = PDict d"
    | (int) i j where "v = PInt i" "w = PInt j" | (str) s s' where "v = PStr s" "w = PStr s'"
    | (list) vs ws where "v = PList vs" "w = PList ws" | (dict) d e where "v = PDict d" "w = PDict e"
    by auto
  then show ?case
  proof cases
    case same
    then show ?thesis using less.prems(3) by simp
  next
    case int
    then show ?thesis using less.prems(3-5) int_text_prefix by auto
  next
    case str
    then show ?thesis using less.prems(3) escape_prefix by auto
  next
    case list
    have "map (canon nfc) vs = map (canon nfc) ws \<and> x = y"
    proof (rule comma_join_prefix [where E = "encoded nfc" and z = 93])
      show "canon nfc i = canon nfc j \<and> a = b"
        if "i \<in> set vs" "j \<in> set ws" "encoded nfc i @ a = encoded nfc j @ b" "digit_free a" "digit_free b"
        for i j a b
        using that less.prems(1,2) list
        by (intro less.hyps) (auto simp: less_Suc_eq_le intro: size_list_estimation')
      show "\<exists>h t. encoded nfc i = h # t \<and> h \<noteq> 93" if "i \<in> set vs \<union> set ws" for i
        using that less.prems(1,2) list encoded_hd [of nfc i] head_of_not_closing by fastforce
      show "comma_join (map (encoded nfc) vs) @ 93 # x = comma_join (map (encoded nfc) ws) @ 93 # y"
        using less.prems(1-3) unfolding list by (simp del: encode.simps)
    qed (simp_all add: is_digit_def)
    then show ?thesis using list by simp
  next
    case dict
    let ?E = "\<lambda>(k, v). escape nfc k @ [58] @ encoded nfc v"
    let ?C = "\<lambda>(k, v). (k, canon nfc v)"
    have "map ?C (normalised_pairs nfc d) = map ?C (normalised_pairs nfc e) \<and> x = y"
    proof (rule comma_join_prefix [where E = ?E and z = 125])
      fix p q a b
      assume pq: "p \<in> set (normalised_pairs nfc d)" "q \<in> set (normalised_pairs nfc e)"
        and eq: "?E p @ a = ?E q @ b" and free: "digit_free a" "digit_free b"
      obtain k i l j where p: "p = (k, i)" and q: "q = (l, j)" by (metis surj_pair)
      from eq have "nfc k = nfc l" and tail: "encoded nfc i @ a = encoded nfc j @ b"
        using escape_prefix [of nfc k "58 # encoded nfc i @ a" l "58 # encoded nfc j @ b"] p q by auto
      moreover have "nfc k = k" "nfc l = l" using normalised_key pq p q idem by blast+
      moreover have "canon nfc i = canon nfc j \<and> a = b"
        using tail free pq p q less.prems(1,2) normalised_pairs_size dict
        by (intro less.hyps) fastforce+
      ultimately show "?C p = ?C q \<and> a = b" using p q by simp
    next
      show "\<exists>h t. ?E p = h # t \<and> h \<noteq> 125" for p by (cases p) (simp add: escape_def)
      show "comma_join (map ?E (normalised_pairs nfc d)) @ 125 # x
          = comma_join (map ?E (normalised_pairs nfc e)) @ 125 # y"
        using less.prems(1-3) unfolding dict by (simp del: encode.simps)
    qed (simp_all add: is_digit_def)
    then show ?thesis using dict by simp
  qed
qed

text \<open>The encoding does not look past \<open>canon\<close>.\<close>

lemma normalised_pairs_canon:
  assumes idem: "\<And>s. nfc (nfc s) = nfc s"
  shows "normalised_pairs nfc (map (\<lambda>(k, v). (k, f v)) (normalised_pairs nfc d))
    = map (\<lambda>(k, v). (k, f v)) (normalised_pairs nfc d)"
proof -
  have "map (\<lambda>(k, v). (nfc k, v)) (map (\<lambda>(k, v). (k, f v)) (normalised_pairs nfc d))
      = map (\<lambda>(k, v). (k, f v)) (normalised_pairs nfc d)"
    using normalised_key [OF _ idem] by auto
  moreover have "sorted (keys (map (\<lambda>(k, v). (k, f v)) (normalised_pairs nfc d)))"
    by (simp add: normalised_pairs_def comp_def case_prod_unfold)
  ultimately show ?thesis
    unfolding normalised_pairs_def [of nfc "map _ (normalised_pairs nfc d)"]
    by (simp only: sort_key_id_if_sorted)
qed

lemma encode_members_map:
  assumes "\<And>v. v \<in> set (vals ps) \<Longrightarrow> enc (f v) = enc v"
  shows "encode_members nfc enc seen (map (\<lambda>(k, v). (k, f v)) ps) = encode_members nfc enc seen ps"
  using assms by (induction ps arbitrary: seen) auto

lemma encode_canon:
  assumes idem: "\<And>s. nfc (nfc s) = nfc s"
  shows "encode nfc (canon nfc v) = encode nfc v"
proof (induction "size v" arbitrary: v rule: less_induct)
  case less
  show ?case
  proof (cases v)
    case (PList vs)
    then have "traverse (encode nfc) (map (canon nfc) vs) = traverse (encode nfc) vs"
      unfolding traverse_map
      by (intro traverse_cong less) (auto simp: less_Suc_eq_le intro: size_list_estimation')
    then show ?thesis using PList by simp
  next
    case (PDict d)
    then have "encode nfc (canon nfc i) = encode nfc i" if "i \<in> set (vals (normalised_pairs nfc d))" for i
      using that normalised_pairs_size by (intro less) fastforce
    then have "encode_members nfc (encode nfc) {} (map (\<lambda>(k, v). (k, canon nfc v)) (normalised_pairs nfc d))
        = encode_members nfc (encode nfc) {} (normalised_pairs nfc d)"
      by (intro encode_members_map) auto
    then show ?thesis using PDict by (simp add: normalised_pairs_canon [OF idem])
  qed (simp_all add: escape_def idem)
qed

section \<open>UTF-8\<close>

lemma utf8_char_cases:
  assumes "utf8_char c = Inr p"
  obtains (one) "p = [c]" "c < 128"
  | (two) "p = [192 + c div 64, 128 + c mod 64]" "c div 64 < 32"
  | (three) "p = [224 + c div 64 div 64, 128 + c div 64 mod 64, 128 + c mod 64]" "c div 64 div 64 < 16"
  | (four) "p = [240 + c div 64 div 64 div 64, 128 + c div 64 div 64 mod 64, 128 + c div 64 mod 64,
      128 + c mod 64]"
  using assms by (auto simp: utf8_char_def simp flip: div_mult2_eq split: if_splits)

lemma div_mod_eq: "a mod 64 = b mod 64 \<Longrightarrow> a div 64 = b div 64 \<Longrightarrow> a = b" for a b :: nat
  by (metis div_mult_mod_eq)

lemma utf8_char_prefix:
  assumes "utf8_char c = Inr p" "utf8_char d = Inr q" "p @ r = q @ r'"
  shows "c = d \<and> r = r'"
  using assms(1)
proof (cases rule: utf8_char_cases)
  case one
  from assms(2) show ?thesis by (cases rule: utf8_char_cases) (use one assms(3) in auto)
next
  case two
  from assms(2) show ?thesis
    by (cases rule: utf8_char_cases) (use two assms(3) in \<open>auto intro!: div_mod_eq [of c d]\<close>)
next
  case three
  from assms(2) show ?thesis
    by (cases rule: utf8_char_cases)
      (use three assms(3) in \<open>auto intro!: div_mod_eq [of c d] div_mod_eq [of "c div 64" "d div 64"]\<close>)
next
  case four
  from assms(2) show ?thesis
    by (cases rule: utf8_char_cases)
      (use four assms(3) in \<open>auto intro!: div_mod_eq [of c d] div_mod_eq [of "c div 64" "d div 64"]
        div_mod_eq [of "c div 64 div 64" "d div 64 div 64"]\<close>)
qed

lemma utf8_char_nonempty: "utf8_char c \<noteq> Inr []"
  by (simp add: utf8_char_def)

lemma utf8_Cons:
  "utf8 (c # s) = Inr bs \<longleftrightarrow> (\<exists>p ps. utf8_char c = Inr p \<and> utf8 s = Inr ps \<and> bs = p @ ps)"
  by (auto simp: utf8_def and_then_Inr)

lemma utf8_inj: "utf8 s = Inr bs \<Longrightarrow> utf8 t = Inr bs \<Longrightarrow> s = t"
proof (induction s arbitrary: t bs)
  case Nil
  then show ?case using utf8_char_nonempty by (cases t) (auto simp: utf8_Cons, auto simp: utf8_def)
next
  case (Cons c s)
  then obtain p ps where p: "utf8_char c = Inr p" "utf8 s = Inr ps" "bs = p @ ps"
    by (auto simp: utf8_Cons)
  show ?case
  proof (cases t)
    case Nil
    then show ?thesis using Cons.prems(2) p utf8_char_nonempty by (auto simp: utf8_def)
  next
    case t: (Cons d t')
    then obtain q qs where q: "utf8_char d = Inr q" "utf8 t' = Inr qs" "bs = q @ qs"
      using Cons.prems(2) by (auto simp: utf8_Cons)
    then show ?thesis using p t Cons.IH utf8_char_prefix [OF p(1) q(1), of ps qs] by auto
  qed
qed

section \<open>The contract of the encoding\<close>

lemma canonical_bytes_canon:
  assumes "\<And>s. nfc (nfc s) = nfc s"
  shows "canonical_bytes nfc (canon nfc v) = canonical_bytes nfc v"
  by (simp add: canonical_bytes_def canonical_str_def encode_canon [OF assms])

lemma canonical_bytes_inj:
  assumes idem: "\<And>s. nfc (nfc s) = nfc s"
    and "canonical_bytes nfc v = Inr bs" "canonical_bytes nfc w = Inr bs"
  shows "canon nfc v = canon nfc w"
proof -
  obtain s where s: "encode nfc v = Inr s" "encode nfc w = Inr s"
    using assms(2,3) utf8_inj by (auto simp: canonical_bytes_def canonical_str_def outcome_simps)
  then have "encodes nfc v" "encodes nfc w" by (auto simp: encodes_def)
  then show ?thesis using s encode_prefix [OF idem, of v w "[]" "[]"] by (simp add: digit_free_def)
qed

section \<open>Which values have a canonical form\<close>

definition text_ok :: "ustring \<Rightarrow> bool" where
  "text_ok s \<longleftrightarrow> (\<forall>c \<in> set s. \<not> (55296 \<le> c \<and> c \<le> 57343))"

lemma text_ok_simps [simp]:
  "text_ok []" "text_ok (c # s) \<longleftrightarrow> \<not> (55296 \<le> c \<and> c \<le> 57343) \<and> text_ok s"
  "text_ok (s @ t) \<longleftrightarrow> text_ok s \<and> text_ok t"
  "text_ok (concat ss) \<longleftrightarrow> (\<forall>s \<in> set ss. text_ok s)"
  by (auto simp: text_ok_def)

fun has_canonical_form :: "(ustring \<Rightarrow> ustring) \<Rightarrow> pyval \<Rightarrow> bool" where
  "has_canonical_form nfc (PStr s) \<longleftrightarrow> text_ok (nfc s)"
| "has_canonical_form nfc (PFloat f) \<longleftrightarrow> False"
| "has_canonical_form nfc (PList vs) \<longleftrightarrow> (\<forall>v \<in> set vs. has_canonical_form nfc v)"
| "has_canonical_form nfc (PDict d) \<longleftrightarrow> distinct (map nfc (keys d)) \<and>
     (\<forall>(k, v) \<in> set d. text_ok (nfc k) \<and> has_canonical_form nfc v)"
| "has_canonical_form nfc _ \<longleftrightarrow> True"

lemma utf8_total: "(\<exists>bs. utf8 s = Inr bs) \<longleftrightarrow> text_ok s"
  by (induction s) (auto simp: utf8_Cons, auto simp: utf8_def utf8_char_def)

lemma hex_char_ok: "d < 16 \<Longrightarrow> hex_char d < 55296"
  by (simp add: hex_char_def)

lemma text_ok_escape_char: "text_ok (escape_char c) \<longleftrightarrow> text_ok [c]"
proof (cases c rule: escape_char_cases)
  case (short k)
  then show ?thesis by (auto simp: short_escapes_def split: if_splits)
next
  case unicode
  then show ?thesis using hex_char_ok by (auto simp: unicode_escape_def not_le intro!: disjI1)
qed auto

lemma text_ok_escape: "text_ok (escape nfc s) \<longleftrightarrow> text_ok (nfc s)"
proof -
  have "text_ok (concat (map escape_char xs)) \<longleftrightarrow> text_ok xs" for xs
    by (induction xs) (auto simp: text_ok_escape_char)
  then show ?thesis by (simp add: escape_def)
qed

lemma text_ok_comma_join: "text_ok (comma_join ss) \<longleftrightarrow> (\<forall>s \<in> set ss. text_ok s)"
  by (induction ss rule: comma_join.induct) auto

lemma text_ok_digits: "list_all is_digit s \<Longrightarrow> text_ok s"
  by (induction s) (auto simp: is_digit_def)

lemma text_ok_int_text: "text_ok (int_text i)"
  using nat_text_digits by (auto simp: int_text_def intro: text_ok_digits)

lemma normalised_keys: "distinct (keys (normalised_pairs nfc d)) \<longleftrightarrow> distinct (map nfc (keys d))"
proof -
  have "distinct (keys (normalised_pairs nfc d)) \<longleftrightarrow> distinct (keys (map (\<lambda>(key, item). (nfc key, item)) d))"
    unfolding normalised_pairs_def by (rule distinct_map_mset) simp
  then show ?thesis by (simp add: case_prod_unfold comp_def)
qed

lemma encodes_text_ok:
  assumes idem: "\<And>s. nfc (nfc s) = nfc s"
  shows "encodes nfc v \<and> text_ok (encoded nfc v) \<longleftrightarrow> has_canonical_form nfc v"
proof (induction "size v" arbitrary: v rule: less_induct)
  case less
  show ?case
  proof (cases v)
    case (PList vs)
    have "encodes nfc w \<and> text_ok (encoded nfc w) \<longleftrightarrow> has_canonical_form nfc w" if "w \<in> set vs" for w
      using that PList by (intro less) (auto simp: less_Suc_eq_le intro: size_list_estimation')
    then show ?thesis using PList
      by (auto simp: text_ok_comma_join simp del: encode.simps)
  next
    case (PDict d)
    let ?ps = "normalised_pairs nfc d"
    have ps: "set ?ps = (\<lambda>(k, w). (nfc k, w)) ` set d" by (simp add: normalised_pairs_def)
    have IH: "encodes nfc w \<and> text_ok (encoded nfc w) \<longleftrightarrow> has_canonical_form nfc w" if "(k, w) \<in> set d" for k w
    proof (rule less)
      show "size w < size v" using that PDict normalised_pairs_size [of "nfc k" w nfc d] ps by force
    qed
    have "text_ok (encoded nfc v) \<longleftrightarrow> (\<forall>(k, w) \<in> set ?ps. text_ok (nfc k) \<and> text_ok (encoded nfc w))"
      if "encodes nfc v"
      using that unfolding PDict
      by (simp add: text_ok_comma_join text_ok_escape case_prod_unfold del: encodes_simps(7) encode.simps)
    moreover have "encodes nfc v \<longleftrightarrow> distinct (map nfc (keys d)) \<and> (\<forall>(k, w) \<in> set ?ps. encodes nfc w)"
      unfolding PDict encodes_simps(7) normalised_keys by auto
    ultimately have "encodes nfc v \<and> text_ok (encoded nfc v) \<longleftrightarrow> distinct (map nfc (keys d)) \<and>
       (\<forall>(k, w) \<in> set ?ps. encodes nfc w) \<and> (\<forall>(k, w) \<in> set ?ps. text_ok (nfc k) \<and> text_ok (encoded nfc w))"
      by blast
    also have "\<dots> \<longleftrightarrow> distinct (map nfc (keys d)) \<and>
        (\<forall>(k, w) \<in> set d. text_ok (nfc k) \<and> (encodes nfc w \<and> text_ok (encoded nfc w)))"
      unfolding ps by (auto simp: idem case_prod_unfold)
    also have "\<dots> \<longleftrightarrow> has_canonical_form nfc v"
      unfolding PDict has_canonical_form.simps
      by (intro arg_cong2 [where f = "(\<and>)"] ball_cong refl) (clarsimp simp: IH)
    finally show ?thesis .
  qed (simp_all add: text_ok_escape text_ok_int_text lit_def)
qed

lemma canonical_bytes_total:
  assumes idem: "\<And>s. nfc (nfc s) = nfc s"
  shows "(\<exists>bs. canonical_bytes nfc v = Inr bs) \<longleftrightarrow> has_canonical_form nfc v"
  unfolding encodes_text_ok [OF idem, symmetric]
  by (cases "encode nfc v") (auto simp: canonical_bytes_def canonical_str_def utf8_total encodes_def)

text \<open>
  C20. Two values that both have a canonical form have the same bytes exactly when they are the same
  value once strings are normalised and keys are sorted, so two implementations that agree on the
  bytes agree on the model and a changed model changes its bytes.
\<close>

theorem canonical_bytes_eq_iff:
  assumes "\<And>s. nfc (nfc s) = nfc s"
    and "canonical_bytes nfc v = Inr bs" "canonical_bytes nfc w = Inr bs'"
  shows "bs = bs' \<longleftrightarrow> canon nfc v = canon nfc w"
  using canonical_bytes_inj [OF assms(1), of v bs w] canonical_bytes_canon [OF assms(1), of v]
    canonical_bytes_canon [OF assms(1), of w] assms(2,3) by auto

text \<open>A letter with a combining ring and the composed letter, in objects of different key order.\<close>

definition ring_nfc :: "ustring \<Rightarrow> ustring" where
  "ring_nfc s = (if s = [65, 778] then [197] else s)"

theorem canonical_bytes_eq_iff_witness:
  "canonical_bytes ring_nfc (PDict [([98], PInt (-7)), ([97], PStr [65, 778])]) =
     canonical_bytes ring_nfc (PDict [([97], PStr [197]), ([98], PInt (-7))]) \<and>
   canon ring_nfc (PDict [([98], PInt (-7)), ([97], PStr [65, 778])]) =
     canon ring_nfc (PDict [([97], PStr [197]), ([98], PInt (-7))])"
proof -
  let ?bs = "[123, 34, 97, 34, 58, 34, 195, 133, 34, 44, 34, 98, 34, 58, 45, 55, 125]"
  have "canonical_bytes ring_nfc (PDict [([98], PInt (-7)), ([97], PStr [65, 778])]) = Inr ?bs"
    "canonical_bytes ring_nfc (PDict [([97], PStr [197]), ([98], PInt (-7))]) = Inr ?bs"
    by code_simp+
  then show ?thesis
    using canonical_bytes_eq_iff [of ring_nfc "PDict [([98], PInt (-7)), ([97], PStr [65, 778])]" ?bs
        "PDict [([97], PStr [197]), ([98], PInt (-7))]" ?bs]
    by (simp add: ring_nfc_def)
qed

text \<open>
  C26. A value has canonical bytes exactly when it holds no float, no object with two keys that
  normalise to one and no text with a lone surrogate: nothing else is refused and nothing is coerced.
\<close>

theorem canonical_bytes_defined_iff:
  assumes "\<And>s. nfc (nfc s) = nfc s"
  shows "(\<exists>bs. canonical_bytes nfc v = Inr bs) \<longleftrightarrow> has_canonical_form nfc v"
  using assms by (rule canonical_bytes_total)

theorem canonical_bytes_defined_iff_witness:
  "(\<nexists>bs. canonical_bytes ring_nfc (PDict [([65, 778], PInt 1), ([197], PInt 1)]) = Inr bs) \<and>
   (\<exists>bs. canonical_bytes ring_nfc (PDict [([65], PInt 1), ([197], PList [PBool True, PNone])]) = Inr bs)"
proof -
  have "ring_nfc (ring_nfc s) = ring_nfc s" for s by (simp add: ring_nfc_def)
  note iff = canonical_bytes_defined_iff [of ring_nfc, OF this]
  show ?thesis unfolding iff by (simp add: ring_nfc_def)
qed

end
