(* ===== verification/Model.thy ===== *)
theory Model
  imports UnionFind Canonical
begin

text \<open>
  The logical model of \<open>model.py\<close>: the specifications an entity declaration resolves to, the seven
  refusals both front doors go through, the canonical IR and its version, the merging of pairwise
  atomicity and the neutral document a model is declared with.

  \<open>refuse_iff\<close> says what the refusals refuse without mentioning an order, and
  \<open>assemble_order_free\<close> that the model, its IR and its version do not depend on the order anything
  was declared in.
\<close>

section \<open>Specifications\<close>

record field_spec =
  fname :: ustring
  ftype :: ustring
  fnullable :: bool

record relation_spec =
  rname :: ustring
  rsource :: ustring
  rtarget :: ustring

record entity_spec =
  ename :: ustring
  efields :: "field_spec list"
  ekey :: "ustring list"
  epii :: "ustring list"
  eresidency :: "ustring option"

type_synonym cost = "(ustring, ustring) dict option"

record logical_model =
  mentities :: "entity_spec list"
  mrelations :: "relation_spec list"
  matomic :: "ustring list list"
  mcost_ceiling :: cost
  mir :: pyval
  mversion :: ustring

definition CONTRACT :: int where
  "CONTRACT = 1"

datatype declaration_error =
    NoEntities
  | NoFields ustring
  | DuplicateEntity ustring
  | UnknownSide ustring ustring
  | DuplicateRelation ustring ustring
  | DuplicateFields ustring
  | NoKey ustring
  | KeyNotFields ustring
  | KeyRepeated ustring
  | PiiNotFields ustring
  | AtomicUnknown ustring ustring
  | AtomicItself ustring
  | BadCostCeiling
  | NotCanonical canonical_error
  | Malformed string
  | UnionFindError uf_error

text \<open>\<open>LogicalModel.entity\<close>: the first entity of the name, or \<open>KeyError\<close>.\<close>

definition entity_of :: "logical_model \<Rightarrow> ustring \<Rightarrow> entity_spec option" where
  "entity_of m name = List.find (\<lambda>spec. ename spec = name) (mentities m)"

section \<open>The refusals of a declaration\<close>

fun refuse_entities :: "ustring set \<Rightarrow> entity_spec list \<Rightarrow> declaration_error + unit" where
  "refuse_entities seen [] = Inr ()"
| "refuse_entities seen (spec # specs) =
     (if efields spec = [] then Inl (NoFields (ename spec))
      else if ename spec \<in> seen then Inl (DuplicateEntity (ename spec))
      else refuse_entities (insert (ename spec) seen) specs)"

fun refuse_relations ::
  "ustring set \<Rightarrow> (ustring \<times> ustring) set \<Rightarrow> relation_spec list \<Rightarrow> declaration_error + unit" where
  "refuse_relations known named [] = Inr ()"
| "refuse_relations known named (rel # rels) =
     (if rsource rel \<notin> known then Inl (UnknownSide (rname rel) (rsource rel))
      else if rtarget rel \<notin> known then Inl (UnknownSide (rname rel) (rtarget rel))
      else if (rsource rel, rname rel) \<in> named then Inl (DuplicateRelation (rsource rel) (rname rel))
      else refuse_relations known (insert (rsource rel, rname rel) named) rels)"

definition refuse_spec :: "entity_spec \<Rightarrow> declaration_error + unit" where
  "refuse_spec spec =
     (let fields = map fname (efields spec)
      in if \<not> distinct fields then Inl (DuplicateFields (ename spec))
         else if ekey spec = [] then Inl (NoKey (ename spec))
         else if \<not> list_all (\<lambda>k. k \<in> set fields) (ekey spec) then Inl (KeyNotFields (ename spec))
         else if \<not> distinct (ekey spec) then Inl (KeyRepeated (ename spec))
         else if \<not> list_all (\<lambda>p. p \<in> set fields) (epii spec) then Inl (PiiNotFields (ename spec))
         else Inr ())"

definition refuse_a_declaration_that_is_not_a_model ::
  "entity_spec list \<Rightarrow> relation_spec list \<Rightarrow> declaration_error + unit" where
  "refuse_a_declaration_that_is_not_a_model entities relations =
     (if entities = [] then Inl NoEntities
      else and_then (refuse_entities {} entities) (\<lambda>_.
           and_then (refuse_relations (set (map ename entities)) {} relations) (\<lambda>_.
           and_then (traverse refuse_spec entities) (\<lambda>_. Inr ()))))"

section \<open>The IR and the version\<close>

definition field_ir :: "field_spec \<Rightarrow> pyval" where
  "field_ir f = PDict [(lit ''name'', PStr (fname f)), (lit ''type'', PStr (ftype f)),
     (lit ''nullable'', PBool (fnullable f))]"

text \<open>\<open>[{"field": k, "position": i} for i, k in enumerate(s.key)]\<close>\<close>

definition key_ir :: "ustring list \<Rightarrow> pyval" where
  "key_ir key = PList (map (\<lambda>(i, k). PDict [(lit ''field'', PStr k), (lit ''position'', PInt (int i))])
     (enumerate 0 key))"

definition option_ir :: "ustring option \<Rightarrow> pyval" where
  "option_ir v = (case v of None \<Rightarrow> PNone | Some s \<Rightarrow> PStr s)"

definition entity_ir :: "entity_spec \<Rightarrow> pyval" where
  "entity_ir s = PDict [(lit ''name'', PStr (ename s)),
     (lit ''fields'', PList (map field_ir (efields s))),
     (lit ''key'', key_ir (ekey s)),
     (lit ''pii'', PList (map PStr (epii s))),
     (lit ''residency'', option_ir (eresidency s))]"

definition relation_ir :: "relation_spec \<Rightarrow> pyval" where
  "relation_ir r = PDict [(lit ''name'', PStr (rname r)), (lit ''from'', PStr (rsource r)),
     (lit ''to'', PStr (rtarget r))]"

definition cost_ir :: "cost \<Rightarrow> pyval" where
  "cost_ir c = (case c of None \<Rightarrow> PNone | Some d \<Rightarrow> PDict (map (\<lambda>(k, v). (k, PStr v)) d))"

definition model_ir ::
  "entity_spec list \<Rightarrow> relation_spec list \<Rightarrow> ustring list list \<Rightarrow> cost \<Rightarrow> pyval" where
  "model_ir specs rels atomic cost = PDict [(lit ''contract'', PInt CONTRACT),
     (lit ''entities'', PList (map entity_ir specs)),
     (lit ''relations'', PList (map relation_ir rels)),
     (lit ''atomic'', PList (map (\<lambda>group. PList (map PStr group)) atomic)),
     (lit ''cost_ceiling'', cost_ir cost)]"

definition relation_key :: "relation_spec \<Rightarrow> ustring \<times> ustring \<times> ustring" where
  "relation_key r = (rsource r, rname r, rtarget r)"

definition ordered_spec :: "entity_spec \<Rightarrow> entity_spec" where
  "ordered_spec spec = spec\<lparr>efields := sort_key fname (efields spec), epii := sort (epii spec)\<rparr>"

definition assemble ::
  "(ustring \<Rightarrow> ustring) \<Rightarrow> (nat list \<Rightarrow> ustring) \<Rightarrow> entity_spec list \<Rightarrow> relation_spec list \<Rightarrow>
     ustring list list \<Rightarrow> cost \<Rightarrow> declaration_error + logical_model" where
  "assemble nfc sha256 entities relations atomic cost =
     and_then (refuse_a_declaration_that_is_not_a_model entities relations) (\<lambda>_.
       let specs = map ordered_spec (sort_key ename entities);
           rels = sort_key relation_key relations;
           ir = model_ir specs rels atomic cost
       in case digest16 nfc sha256 ir of
            Inl e \<Rightarrow> Inl (NotCanonical e)
          | Inr version \<Rightarrow>
              Inr \<lparr>mentities = specs, mrelations = rels, matomic = atomic, mcost_ceiling = cost,
                   mir = ir, mversion = version\<rparr>)"

section \<open>Pairwise atomicity, merged\<close>

text \<open>A declaration as far as atomicity reads it: its name and what it is atomic with.\<close>

type_synonym atomic_decl = "ustring \<times> ustring list"

fun atomic_edges ::
  "ustring set \<Rightarrow> atomic_decl list \<Rightarrow> declaration_error + (ustring \<times> ustring) list" where
  "atomic_edges known [] = Inr []"
| "atomic_edges known ((name, withs) # decls) =
     and_then (traverse (\<lambda>other.
         if other \<notin> known then Inl (AtomicUnknown name other)
         else if other = name then Inl (AtomicItself name)
         else Inr (name, other)) withs) (\<lambda>es.
     and_then (atomic_edges known decls) (\<lambda>rest. Inr (es @ rest)))"

definition normalise_atomic :: "atomic_decl list \<Rightarrow> declaration_error + ustring list list" where
  "normalise_atomic decls =
     (let names = map fst decls
      in and_then (atomic_edges (set names) decls) (\<lambda>edges.
         let touched = remdups (concat (map (\<lambda>(a, b). [a, b]) edges));
             merged = and_then (union_all (uf_union (length names)) (uf_init names) edges) (\<lambda>parent.
               fill_buckets (uf_find (length names)) parent [] (sort touched))
         in case merged of
              Inl e \<Rightarrow> Inl (UnionFindError e)
            | Inr buckets \<Rightarrow> Inr (sort (map sort (vals buckets)))))"

section \<open>The neutral declaration\<close>

definition checked_cost_ceiling :: "pyval \<Rightarrow> declaration_error + cost" where
  "checked_cost_ceiling raw =
     (case raw of
        PNone \<Rightarrow> Inr None
      | PDict d \<Rightarrow>
          if set (keys d) = {lit ''amount'', lit ''currency''}
             \<and> list_all (\<lambda>(k, v). case v of PStr s \<Rightarrow> True | _ \<Rightarrow> False) d
          then Inr (Some (map (\<lambda>(k, v). (k, case v of PStr s \<Rightarrow> s | _ \<Rightarrow> [])) d))
          else Inl BadCostCeiling
      | _ \<Rightarrow> Inl BadCostCeiling)"

definition neutral_field :: "field_spec \<Rightarrow> pyval" where
  "neutral_field f = PDict ([(lit ''name'', PStr (fname f)), (lit ''type'', PStr (ftype f))]
     @ (if fnullable f then [(lit ''nullable'', PBool True)] else []))"

definition neutral_entity :: "entity_spec \<Rightarrow> pyval" where
  "neutral_entity spec = PDict ([(lit ''name'', PStr (ename spec)),
       (lit ''fields'', PList (map neutral_field (efields spec))),
       (lit ''key'', PList (map PStr (ekey spec)))]
     @ (if epii spec \<noteq> [] then [(lit ''pii'', PList (map PStr (epii spec)))] else [])
     @ (case eresidency spec of None \<Rightarrow> [] | Some r \<Rightarrow> [(lit ''residency'', PStr r)]))"

definition neutral_declaration :: "logical_model \<Rightarrow> pyval" where
  "neutral_declaration m = PDict ([(lit ''entities'', PList (map neutral_entity (mentities m)))]
     @ (if mrelations m \<noteq> [] then [(lit ''relations'', PList (map relation_ir (mrelations m)))] else [])
     @ (if matomic m \<noteq> [] then [(lit ''atomic'', PList (map (\<lambda>group. PList (map PStr group)) (matomic m)))]
        else [])
     @ (case mcost_ceiling m of None \<Rightarrow> []
        | Some d \<Rightarrow> [(lit ''cost_ceiling'', PDict (map (\<lambda>(k, v). (k, PStr v)) d))]))"

section \<open>What the refusals refuse\<close>

definition spec_ok :: "entity_spec \<Rightarrow> bool" where
  "spec_ok spec \<longleftrightarrow> distinct (map fname (efields spec)) \<and> efields spec \<noteq> [] \<and> ekey spec \<noteq> [] \<and>
     distinct (ekey spec) \<and> set (ekey spec) \<subseteq> fname ` set (efields spec) \<and>
     set (epii spec) \<subseteq> fname ` set (efields spec)"

definition declaration_ok :: "entity_spec list \<Rightarrow> relation_spec list \<Rightarrow> bool" where
  "declaration_ok entities relations \<longleftrightarrow> entities \<noteq> [] \<and> distinct (map ename entities) \<and>
     (\<forall>spec \<in> set entities. spec_ok spec) \<and>
     (\<forall>r \<in> set relations. rsource r \<in> ename ` set entities \<and> rtarget r \<in> ename ` set entities) \<and>
     distinct (map (\<lambda>r. (rsource r, rname r)) relations)"

lemma refuse_entities_iff:
  "refuse_entities seen specs = Inr () \<longleftrightarrow>
     (\<forall>s \<in> set specs. efields s \<noteq> []) \<and> distinct (map ename specs) \<and> seen \<inter> ename ` set specs = {}"
  by (induction specs arbitrary: seen) auto

lemma refuse_relations_iff:
  "refuse_relations known named rels = Inr () \<longleftrightarrow>
     (\<forall>r \<in> set rels. rsource r \<in> known \<and> rtarget r \<in> known) \<and>
     distinct (map (\<lambda>r. (rsource r, rname r)) rels) \<and>
     named \<inter> (\<lambda>r. (rsource r, rname r)) ` set rels = {}"
  by (induction rels arbitrary: named) auto

lemma refuse_spec_iff: "efields spec \<noteq> [] \<Longrightarrow> refuse_spec spec = Inr () \<longleftrightarrow> spec_ok spec"
  by (auto simp: refuse_spec_def spec_ok_def Let_def list_all_iff)

lemma traverse_unit: "(\<exists>us. traverse f xs = Inr us) \<longleftrightarrow> (\<forall>x \<in> set xs. \<exists>u. f x = Inr u)"
  by (induction xs) (auto simp: and_then_Inr)

lemma refuse_iff:
  "refuse_a_declaration_that_is_not_a_model entities relations = Inr () \<longleftrightarrow>
     declaration_ok entities relations"
proof -
  have "(\<forall>s \<in> set entities. \<exists>u. refuse_spec s = Inr u) \<longleftrightarrow> (\<forall>s \<in> set entities. spec_ok s)"
    if "\<forall>s \<in> set entities. efields s \<noteq> []"
    using that refuse_spec_iff by (metis (full_types) old.unit.exhaust)
  then show ?thesis
    using traverse_unit [of refuse_spec entities]
    by (auto simp: refuse_a_declaration_that_is_not_a_model_def and_then_Inr refuse_entities_iff
        refuse_relations_iff declaration_ok_def spec_ok_def)
qed

section \<open>Every well-formed declaration becomes a model\<close>

text \<open>
  The only other way out of \<open>assemble\<close> is text that has no UTF-8 form, or a cost ceiling with two
  keys that normalise to one.
\<close>

definition cost_text_ok :: "(ustring \<Rightarrow> ustring) \<Rightarrow> cost \<Rightarrow> bool" where
  "cost_text_ok nfc cost \<longleftrightarrow> (case cost of None \<Rightarrow> True
     | Some d \<Rightarrow> distinct (map nfc (keys d)) \<and> (\<forall>(k, v) \<in> set d. text_ok (nfc k) \<and> text_ok (nfc v)))"

definition spec_text_ok :: "(ustring \<Rightarrow> ustring) \<Rightarrow> entity_spec \<Rightarrow> bool" where
  "spec_text_ok nfc s \<longleftrightarrow> text_ok (nfc (ename s)) \<and>
     (\<forall>f \<in> set (efields s). text_ok (nfc (fname f)) \<and> text_ok (nfc (ftype f))) \<and>
     (\<forall>k \<in> set (ekey s). text_ok (nfc k)) \<and> (\<forall>k \<in> set (epii s). text_ok (nfc k)) \<and>
     (\<forall>r. eresidency s = Some r \<longrightarrow> text_ok (nfc r))"

definition declaration_text_ok ::
  "(ustring \<Rightarrow> ustring) \<Rightarrow> entity_spec list \<Rightarrow> relation_spec list \<Rightarrow> ustring list list \<Rightarrow> cost \<Rightarrow> bool" where
  "declaration_text_ok nfc es rs atomic cost \<longleftrightarrow> (\<forall>s \<in> set es. spec_text_ok nfc s) \<and>
     (\<forall>r \<in> set rs. text_ok (nfc (rname r)) \<and> text_ok (nfc (rsource r)) \<and> text_ok (nfc (rtarget r))) \<and>
     (\<forall>g \<in> set atomic. \<forall>n \<in> set g. text_ok (nfc n)) \<and> cost_text_ok nfc cost"

lemma lit_text_ok [simp]: "text_ok (lit s)"
  by (auto simp: text_ok_def lit_def of_char_def dest: less_le_trans)

lemma entity_ir_form:
  assumes "\<And>s. nfc (lit s) = lit s"
  shows "has_canonical_form nfc (entity_ir s) \<longleftrightarrow> spec_text_ok nfc s"
proof -
  have "has_canonical_form nfc (PList (map field_ir (efields s))) \<longleftrightarrow>
      (\<forall>f \<in> set (efields s). text_ok (nfc (fname f)) \<and> text_ok (nfc (ftype f)))"
    by (simp add: field_ir_def assms)
  moreover have "has_canonical_form nfc (key_ir (ekey s)) \<longleftrightarrow> (\<forall>k \<in> set (ekey s). text_ok (nfc k))"
  proof -
    have "set (ekey s) = snd ` set (enumerate 0 (ekey s))" by (metis list.set_map map_snd_enumerate)
    then show ?thesis by (simp add: key_ir_def assms case_prod_unfold)
  qed
  moreover have "has_canonical_form nfc (option_ir (eresidency s)) \<longleftrightarrow>
      (\<forall>r. eresidency s = Some r \<longrightarrow> text_ok (nfc r))"
    by (auto simp: option_ir_def split: option.splits)
  ultimately show ?thesis by (simp add: entity_ir_def assms spec_text_ok_def)
qed

lemma model_ir_form:
  assumes ascii: "\<And>s. nfc (lit s) = lit s"
  shows "has_canonical_form nfc (model_ir es rs atomic cost) \<longleftrightarrow> declaration_text_ok nfc es rs atomic cost"
proof -
  have "has_canonical_form nfc (cost_ir cost) \<longleftrightarrow> cost_text_ok nfc cost"
    by (auto simp: cost_ir_def cost_text_ok_def case_prod_unfold comp_def split: option.splits)
  moreover have "has_canonical_form nfc (PList (map relation_ir rs)) \<longleftrightarrow>
      (\<forall>r \<in> set rs. text_ok (nfc (rname r)) \<and> text_ok (nfc (rsource r)) \<and> text_ok (nfc (rtarget r)))"
    by (simp add: relation_ir_def ascii)
  ultimately show ?thesis
    by (simp add: model_ir_def ascii declaration_text_ok_def entity_ir_form [OF ascii])
qed

lemma spec_text_ok_ordered [simp]: "spec_text_ok nfc (ordered_spec s) \<longleftrightarrow> spec_text_ok nfc s"
  by (simp add: spec_text_ok_def ordered_spec_def)

lemma assemble_returns_iff:
  assumes idem: "\<And>s. nfc (nfc s) = nfc s" and ascii: "\<And>s. nfc (lit s) = lit s"
  shows "(\<exists>m. assemble nfc sha256 es rs atomic cost = Inr m) \<longleftrightarrow>
    declaration_ok es rs \<and> declaration_text_ok nfc es rs atomic cost"
proof -
  let ?ir = "model_ir (map ordered_spec (sort_key ename es)) (sort_key relation_key rs) atomic cost"
  have "(\<exists>bs. canonical_bytes nfc ?ir = Inr bs) \<longleftrightarrow> declaration_text_ok nfc es rs atomic cost"
    unfolding canonical_bytes_total [OF idem] by (simp add: model_ir_form [OF ascii] declaration_text_ok_def)
  then show ?thesis using refuse_iff [of es rs]
    by (auto simp: assemble_def Let_def digest16_def and_then_Inr split: sum.splits)
qed

section \<open>Nothing depends on the order of a declaration\<close>

text \<open>The same entity declared with its fields and its \<open>pii\<close> in another order.\<close>

definition same_spec :: "entity_spec \<Rightarrow> entity_spec \<Rightarrow> bool" where
  "same_spec s t \<longleftrightarrow> ename s = ename t \<and> ekey s = ekey t \<and> eresidency s = eresidency t \<and>
     mset (efields s) = mset (efields t) \<and> mset (epii s) = mset (epii t)"

lemma same_spec_ordered:
  assumes "same_spec s t" "spec_ok s"
  shows "ordered_spec s = ordered_spec t"
proof -
  have "sort_key fname (efields s) = sort_key fname (efields t)"
    using assms by (intro sort_key_eq_of_mset_eq) (auto simp: same_spec_def spec_ok_def distinct_map)
  moreover have "sort (epii s) = sort (epii t)"
    using assms by (intro sort_key_eq_of_mset_eq) (auto simp: same_spec_def)
  ultimately show ?thesis using assms by (auto simp: ordered_spec_def same_spec_def)
qed

lemma same_spec_ok:
  assumes "same_spec s t"
  shows "spec_ok s \<longleftrightarrow> spec_ok t"
proof -
  have "distinct (map fname (efields s)) = distinct (map fname (efields t))"
    "set (efields s) = set (efields t)" "set (epii s) = set (epii t)" "ekey s = ekey t"
    using assms distinct_map_mset [of "efields s" "efields t"]
    by (auto simp: same_spec_def dest: mset_eq_setD)
  then show ?thesis by (auto simp: spec_ok_def)
qed

definition same_declaration ::
  "entity_spec list \<times> relation_spec list \<Rightarrow> entity_spec list \<times> relation_spec list \<Rightarrow> bool" where
  "same_declaration d e \<longleftrightarrow>
     (\<exists>specs. mset specs = mset (fst e) \<and> list_all2 same_spec (fst d) specs) \<and>
     mset (snd d) = mset (snd e)"

lemma ename_ordered_spec [simp]: "ename (ordered_spec s) = ename s"
  by (simp add: ordered_spec_def)

lemma same_declaration_ok:
  assumes "same_declaration (es, rs) (es', rs')" "declaration_ok es rs"
  shows "declaration_ok es' rs'"
    and "map ordered_spec (sort_key ename es) = map ordered_spec (sort_key ename es')"
    and "sort_key relation_key rs = sort_key relation_key rs'"
proof -
  obtain specs where specs: "mset specs = mset es'" "list_all2 same_spec es specs"
    and rels: "mset rs = mset rs'"
    using assms(1) by (auto simp: same_declaration_def)
  from specs(2) have names: "map ename es = map ename specs"
    by (induction rule: list_all2_induct) (auto simp: same_spec_def)
  from specs(2) have ok: "(\<forall>s \<in> set es. spec_ok s) \<longleftrightarrow> (\<forall>s \<in> set specs. spec_ok s)"
    by (induction rule: list_all2_induct) (auto simp: same_spec_ok)
  have "\<forall>s \<in> set es. spec_ok s" using assms(2) by (simp add: declaration_ok_def)
  with specs(2) have ordered: "map ordered_spec es = map ordered_spec specs"
    by (induction rule: list_all2_induct) (auto simp: same_spec_ordered)
  have sets: "set specs = set es'" "set rs = set rs'" using specs(1) rels by (auto dest: mset_eq_setD)
  have dist: "distinct (map ename es')"
    using assms(2) distinct_map_mset [OF specs(1), of ename] names by (simp add: declaration_ok_def)
  have "ename ` set es = ename ` set es'" using names sets(1) by (metis list.set_map)
  moreover have "es' \<noteq> []" using specs assms(2) by (auto simp: declaration_ok_def)
  ultimately show "declaration_ok es' rs'"
    using assms(2) dist ok sets distinct_map_mset [OF rels, of "\<lambda>r. (rsource r, rname r)"]
    by (auto simp: declaration_ok_def)
  have "sort_key ename (map ordered_spec es) = sort_key ename (map ordered_spec es')"
    unfolding ordered using specs(1) dist sets(1)
    by (intro sort_key_eq_of_mset_eq) (auto simp: inj_on_def distinct_map)
  then show "map ordered_spec (sort_key ename es) = map ordered_spec (sort_key ename es')"
    by (simp add: map_sort_key [where g = ename])
  have "inj_on relation_key (set rs)"
    using assms(2) by (auto simp: inj_on_def declaration_ok_def relation_key_def distinct_map)
  then show "sort_key relation_key rs = sort_key relation_key rs'"
    using rels by (intro sort_key_eq_of_mset_eq)
qed

lemma assemble_same:
  assumes "declaration_ok es rs" and "same_declaration (es, rs) (es', rs')"
  shows "assemble nfc sha256 es rs atomic cost = assemble nfc sha256 es' rs' atomic cost"
  using same_declaration_ok [OF assms(2,1)] refuse_iff [of es rs] refuse_iff [of es' rs'] assms(1)
  by (simp add: assemble_def)

section \<open>The merged groups are the connected components\<close>

lemma atomic_pairs_Inr:
  "traverse (\<lambda>other. if other \<notin> known then Inl (AtomicUnknown name other)
       else if other = name then Inl (AtomicItself name) else Inr (name, other)) withs = Inr ws \<longleftrightarrow>
     (\<forall>other \<in> set withs. other \<in> known \<and> other \<noteq> name) \<and> ws = map (Pair name) withs"
  by (induction withs arbitrary: ws) (auto simp: and_then_Inr)

lemma atomic_edges_Inr:
  "atomic_edges known decls = Inr es \<longleftrightarrow>
     (\<forall>(name, withs) \<in> set decls. \<forall>other \<in> set withs. other \<in> known \<and> other \<noteq> name) \<and>
     es = concat (map (\<lambda>(name, withs). map (Pair name) withs) decls)"
proof (induction decls arbitrary: es)
  case (Cons d decls)
  then show ?case by (cases d) (auto simp: and_then_Inr atomic_pairs_Inr)
qed auto

definition atomic_graph :: "atomic_decl list \<Rightarrow> (ustring \<times> ustring) set" where
  "atomic_graph decls = {(name, other). \<exists>withs. (name, withs) \<in> set decls \<and> other \<in> set withs}"

lemma normalise_atomic_groups:
  assumes "atomic_edges (set (map fst decls)) decls = Inr es"
  shows "\<exists>gs. normalise_atomic decls = Inr gs \<and> sorted gs \<and>
    (\<forall>g \<in> set gs. sorted g \<and> distinct g \<and> g \<noteq> [] \<and>
       (\<forall>x \<in> set g. set g = {y \<in> Field (atomic_graph decls). linked (atomic_graph decls) x y})) \<and>
    (\<Union>g \<in> set gs. set g) = Field (atomic_graph decls)"
proof -
  let ?names = "map fst decls" and ?touched = "remdups (concat (map (\<lambda>(a, b). [a, b]) es))"
  have graph: "set es = atomic_graph decls" using assms by (force simp: atomic_edges_Inr atomic_graph_def)
  have sub: "set es \<subseteq> set ?names \<times> set ?names"
    using assms by (force simp: atomic_edges_Inr)
  have touched: "set ?touched = Field (atomic_graph decls)"
    unfolding graph [symmetric] by (force simp: Field_def Domain_def Range_def)
  have listed: "set (sort ?touched) \<subseteq> set ?names" using sub by force
  obtain parent bs where
    run: "union_all (uf_union (length ?names)) (uf_init ?names) es = Inr parent"
      "fill_buckets (uf_find (length ?names)) parent [] (sort ?touched) = Inr bs"
    and nonempty: "\<And>r ms. (r, ms) \<in> set bs \<Longrightarrow> ms \<noteq> []"
    and members: "\<And>r ms x. (r, ms) \<in> set bs \<Longrightarrow> x \<in> set ms \<Longrightarrow>
      set ms = {y \<in> set (sort ?touched). linked (set es) x y}"
    and dist: "\<And>r ms. (r, ms) \<in> set bs \<Longrightarrow> distinct (sort ?touched) \<Longrightarrow> distinct ms"
    and cover: "(\<Union>b \<in> set bs. set (snd b)) = set (sort ?touched)"
    by (rule components_as_sets [OF sub listed]) blast
  let ?gs = "sort (map sort (vals bs))"
  have "normalise_atomic decls = Inr ?gs"
    using assms run by (simp add: normalise_atomic_def Let_def)
  moreover have "sorted g \<and> distinct g \<and> g \<noteq> [] \<and>
      (\<forall>x \<in> set g. set g = {y \<in> Field (atomic_graph decls). linked (atomic_graph decls) x y})"
    if "g \<in> set ?gs" for g
  proof -
    obtain r ms where ms: "(r, ms) \<in> set bs" "g = sort ms" using \<open>g \<in> set ?gs\<close> by auto
    have "distinct ms" by (rule dist [OF ms(1)]) simp
    moreover have "set ms = {y \<in> Field (atomic_graph decls). linked (atomic_graph decls) x y}"
      if "x \<in> set ms" for x
      using members [OF ms(1) that] unfolding set_sort touched graph .
    ultimately show ?thesis using nonempty [OF ms(1)] ms(2) by (simp add: sort_key_eq_Nil)
  qed
  moreover have "(\<Union>g \<in> set ?gs. set g) = Field (atomic_graph decls)"
    using cover unfolding set_sort touched by simp
  ultimately show ?thesis by (intro exI [of _ ?gs]) simp
qed

section \<open>What a declaration becomes\<close>

text \<open>
  C25. \<open>assemble\<close> returns a model exactly for the well-formed declarations: at least one entity, names
  unique, every entity with fields (none twice), a non-empty key and a \<open>pii\<close> made of its fields (no
  key field twice), every relation between declared entities and declared once, and text that can be
  encoded. Nothing else is refused.
\<close>

theorem assemble_accepts_exactly:
  assumes "\<And>s. nfc (nfc s) = nfc s" and "\<And>s. nfc (lit s) = lit s"
  shows "(\<exists>m. assemble nfc sha256 es rs atomic cost = Inr m) \<longleftrightarrow>
    declaration_ok es rs \<and> declaration_text_ok nfc es rs atomic cost"
  using assemble_returns_iff [OF assms] .

text \<open>
  C21. The model, its IR and its version do not depend on the order in which entities, their fields,
  their \<open>pii\<close> or the relations were declared.
\<close>

theorem assemble_order_free:
  assumes "declaration_ok es rs" and "same_declaration (es, rs) (es', rs')"
  shows "assemble nfc sha256 es rs atomic cost = assemble nfc sha256 es' rs' atomic cost"
  using assms by (rule assemble_same)

definition witness_spec :: "ustring \<Rightarrow> bool \<Rightarrow> entity_spec" where
  "witness_spec name flip =
     (let fs = [\<lparr>fname = [97], ftype = lit ''string'', fnullable = False\<rparr>,
                \<lparr>fname = [98], ftype = lit ''int64'', fnullable = True\<rparr>]
      in \<lparr>ename = name, efields = (if flip then rev fs else fs), ekey = [[97]], epii = [], eresidency = None\<rparr>)"

theorem assemble_order_free_witness:
  "assemble id id [witness_spec [69] False, witness_spec [70] True] [] [] None =
   assemble id id [witness_spec [70] False, witness_spec [69] True] [] [] None"
proof (rule assemble_order_free)
  show "declaration_ok [witness_spec [69] False, witness_spec [70] True] []"
    by (simp add: declaration_ok_def spec_ok_def witness_spec_def Let_def)
  have "list_all2 same_spec [witness_spec [69] False, witness_spec [70] True]
      [witness_spec [69] True, witness_spec [70] False]"
    by (simp add: same_spec_def witness_spec_def Let_def)
  then show "same_declaration ([witness_spec [69] False, witness_spec [70] True], [])
      ([witness_spec [70] False, witness_spec [69] True], [])"
    unfolding same_declaration_def
    by (intro conjI exI [of _ "[witness_spec [69] True, witness_spec [70] False]"]) simp_all
qed

theorem assemble_accepts_exactly_witness:
  "(\<exists>m. assemble id id [witness_spec [69] False] [] [] None = Inr m) \<and>
   (\<nexists>m. assemble id id [witness_spec [55296] False] [] [] None = Inr m)"
  using assemble_accepts_exactly [of id id "[witness_spec [69] False]" "[]" "[]" None]
    assemble_accepts_exactly [of id id "[witness_spec [55296] False]" "[]" "[]" None]
  by (simp add: declaration_ok_def spec_ok_def witness_spec_def Let_def declaration_text_ok_def
      spec_text_ok_def cost_text_ok_def)

text \<open>
  The declared atomicity is merged into groups: every group is a connected component of the graph
  of \<open>atomic_with\<close>, sorted and without repetition, and together they hold exactly the entities that
  appear in some declared atomicity.
\<close>

theorem normalise_atomic_components:
  assumes "\<forall>(name, withs) \<in> set decls. \<forall>other \<in> set withs. other \<in> set (map fst decls) \<and> other \<noteq> name"
  shows "\<exists>gs. normalise_atomic decls = Inr gs \<and> sorted gs \<and>
    (\<forall>g \<in> set gs. sorted g \<and> distinct g \<and> g \<noteq> [] \<and>
       (\<forall>x \<in> set g. set g = {y \<in> Field (atomic_graph decls). linked (atomic_graph decls) x y})) \<and>
    (\<Union>g \<in> set gs. set g) = Field (atomic_graph decls)"
  by (rule normalise_atomic_groups) (use assms in \<open>simp add: atomic_edges_Inr\<close>)

definition witness_atomic :: "atomic_decl list" where
  "witness_atomic = [([97], [[98]]), ([98], []), ([99], [[98]]), ([100], [])]"

theorem normalise_atomic_components_witness:
  "normalise_atomic witness_atomic = Inr [[[97], [98], [99]]] \<and>
   {[97], [98], [99]} = Field (atomic_graph witness_atomic)"
proof -
  have run: "normalise_atomic witness_atomic = Inr [[[97], [98], [99]]]" by code_simp
  have "\<forall>(name, withs) \<in> set witness_atomic. \<forall>other \<in> set withs.
      other \<in> set (map fst witness_atomic) \<and> other \<noteq> name"
    by (simp add: witness_atomic_def)
  from normalise_atomic_components [OF this] obtain gs where
    "normalise_atomic witness_atomic = Inr gs" "(\<Union>g \<in> set gs. set g) = Field (atomic_graph witness_atomic)"
    by blast
  then show ?thesis using run by auto
qed

end
