(* ===== verification/Colocation.thy ===== *)
theory Colocation
  imports Model
begin

text \<open>
  Colocation groups (\<open>groups.py\<close>): the connected components of the graph that has an edge for
  every relation and for every declared atomicity.
\<close>

record group =
  gname :: ustring
  gmembers :: "ustring list"

text \<open>The edges in the order the two loops visit them; \<open>atomic[0]\<close> of an empty group raises.\<close>

definition atomic_star :: "ustring list \<Rightarrow> uf_error + (ustring \<times> ustring) list" where
  "atomic_star atomic =
     (case atomic of [] \<Rightarrow> Inl IndexError | first # rest \<Rightarrow> Inr (map (\<lambda>other. (first, other)) rest))"

definition colocation_edges :: "logical_model \<Rightarrow> uf_error + (ustring \<times> ustring) list" where
  "colocation_edges m =
     and_then (traverse atomic_star (matomic m)) (\<lambda>stars.
       Inr (map (\<lambda>r. (rsource r, rtarget r)) (sort_key relation_key (mrelations m)) @ concat stars))"

definition group_of_bucket :: "ustring list \<Rightarrow> group" where
  "group_of_bucket members = \<lparr>gname = Min (set members), gmembers = sort members\<rparr>"

definition colocation_groups :: "logical_model \<Rightarrow> uf_error + group list" where
  "colocation_groups m =
     (let names = sort (map ename (mentities m)); fuel = length names
      in and_then (colocation_edges m) (\<lambda>edges.
         and_then (union_all (uf_union fuel) (uf_init names) edges) (\<lambda>parent.
         and_then (fill_buckets (uf_find fuel) parent [] names) (\<lambda>buckets.
           Inr (sort_key gname (map group_of_bucket (vals buckets)))))))"

definition group_of :: "group list \<Rightarrow> ustring \<Rightarrow> uf_error + group" where
  "group_of groups entity =
     (case List.find (\<lambda>g. entity \<in> set (gmembers g)) groups of
        None \<Rightarrow> Inl KeyError | Some g \<Rightarrow> Inr g)"

section \<open>Colocation groups are the connected components\<close>

definition model_ok :: "logical_model \<Rightarrow> bool" where
  "model_ok m \<longleftrightarrow> distinct (map ename (mentities m)) \<and>
     (\<forall>r \<in> set (mrelations m). rsource r \<in> ename ` set (mentities m) \<and> rtarget r \<in> ename ` set (mentities m)) \<and>
     (\<forall>a \<in> set (matomic m). a \<noteq> [] \<and> set a \<subseteq> ename ` set (mentities m))"

text \<open>The colocation graph, without an order: relations, and all pairs of an atomic group.\<close>

definition colocated :: "logical_model \<Rightarrow> (ustring \<times> ustring) set" where
  "colocated m = (\<lambda>r. (rsource r, rtarget r)) ` set (mrelations m) \<union> (\<Union>a \<in> set (matomic m). set a \<times> set a)"

lemma colocation_edges_ok:
  assumes "model_ok m"
  shows "\<exists>es. colocation_edges m = Inr es \<and> set es \<subseteq> ename ` set (mentities m) \<times> ename ` set (mentities m) \<and>
    (\<forall>x y. linked (set es) x y \<longleftrightarrow> linked (colocated m) x y)"
proof -
  let ?star = "\<lambda>a. map (\<lambda>other. (hd a, other)) (tl a)"
  let ?es = "map (\<lambda>r. (rsource r, rtarget r)) (sort_key relation_key (mrelations m)) @ concat (map ?star (matomic m))"
  have "traverse atomic_star (matomic m) = Inr (map ?star (matomic m))"
    using assms by (intro traverse_pure) (auto simp: model_ok_def atomic_star_def split: list.splits)
  then have eq: "colocation_edges m = Inr ?es" by (simp add: colocation_edges_def)
  have sub: "set ?es \<subseteq> colocated m" "colocated m \<subseteq> ename ` set (mentities m) \<times> ename ` set (mentities m)"
    using assms by (fastforce simp: colocated_def model_ok_def dest: list.set_sel)+
  have star: "linked (set ?es) (hd a) b" if "a \<in> set (matomic m)" "b \<in> set a" for a b
  proof (cases "b = hd a")
    case False
    then have "b \<in> set (tl a)" using that(2) by (cases a) auto
    then show ?thesis using that(1) by (intro linked_edge) auto
  qed simp
  have edge: "linked (set ?es) a b" if ab: "(a, b) \<in> colocated m" for a b
  proof -
    consider "(a, b) \<in> (\<lambda>r. (rsource r, rtarget r)) ` set (mrelations m)"
      | g where "g \<in> set (matomic m)" "a \<in> set g" "b \<in> set g"
      using ab unfolding colocated_def by blast
    then show ?thesis
    proof cases
      case 1
      then show ?thesis by (intro linked_edge) auto
    next
      case 2
      then show ?thesis using linked_trans [OF linked_sym [OF star] star] by blast
    qed
  qed
  have "linked (set ?es) x y" if "linked (colocated m) x y" for x y
    by (rule linked_within [OF that edge])
  then show ?thesis using eq sub linked_mono [OF sub(1)] by (meson order.trans)
qed

text \<open>What a caller may rely on: the groups partition the entities into connected components.\<close>

definition groups_spec :: "logical_model \<Rightarrow> group list \<Rightarrow> bool" where
  "groups_spec m gs \<longleftrightarrow>
     (\<forall>g \<in> set gs. gmembers g \<noteq> [] \<and> sorted (gmembers g) \<and> distinct (gmembers g) \<and>
        gname g = hd (gmembers g) \<and>
        (\<forall>x \<in> set (gmembers g).
           set (gmembers g) = {y \<in> ename ` set (mentities m). linked (colocated m) x y})) \<and>
     (\<Union>g \<in> set gs. set (gmembers g)) = ename ` set (mentities m) \<and>
     sorted (map gname gs) \<and> distinct (map gname gs)"

lemma hd_sort:
  assumes "xs \<noteq> []"
  shows "hd (sort xs) = Min (set xs)"
proof -
  obtain y ys where y: "sort xs = y # ys" using assms by (cases "sort xs") auto
  then have "sorted (y # ys)" by (metis sorted_sort)
  then have "Min (set (y # ys)) = y" by (intro Min_eqI) auto
  then show ?thesis using y by (metis list.sel(1) set_sort)
qed

lemma colocation_groups_spec:
  assumes ok: "model_ok m"
  shows "\<exists>gs. colocation_groups m = Inr gs \<and> groups_spec m gs"
proof -
  define names where "names = sort (map ename (mentities m))"
  have names: "set names = ename ` set (mentities m)" "distinct names"
    using ok by (auto simp: names_def model_ok_def)
  obtain es where es: "colocation_edges m = Inr es" "set es \<subseteq> set names \<times> set names"
    and link: "\<And>x y. linked (set es) x y \<longleftrightarrow> linked (colocated m) x y"
    using colocation_edges_ok [OF ok] names(1) by auto
  obtain parent bs where
    run: "union_all (uf_union (length names)) (uf_init names) es = Inr parent"
      "fill_buckets (uf_find (length names)) parent [] names = Inr bs" "distinct (keys bs)"
    and nonempty: "\<And>r ms. (r, ms) \<in> set bs \<Longrightarrow> ms \<noteq> []"
    and members: "\<And>r ms x. (r, ms) \<in> set bs \<Longrightarrow> x \<in> set ms \<Longrightarrow>
      set ms = {y \<in> set names. linked (set es) x y}"
    and dist: "\<And>r ms. (r, ms) \<in> set bs \<Longrightarrow> distinct names \<Longrightarrow> distinct ms"
    and cover: "(\<Union>b \<in> set bs. set (snd b)) = set names"
    and disj: "\<And>r ms r' ms' x. (r, ms) \<in> set bs \<Longrightarrow> (r', ms') \<in> set bs \<Longrightarrow> x \<in> set ms \<Longrightarrow>
      x \<in> set ms' \<Longrightarrow> r = r'"
    by (rule components_as_sets [OF es(2) order_refl]) blast
  let ?gs = "sort_key gname (map group_of_bucket (vals bs))"
  have result: "colocation_groups m = Inr ?gs"
    using es(1) run by (simp add: colocation_groups_def Let_def names_def)
  have mem: "gmembers g \<noteq> [] \<and> sorted (gmembers g) \<and> distinct (gmembers g) \<and> gname g = hd (gmembers g) \<and>
      (\<forall>x \<in> set (gmembers g). set (gmembers g) = {y \<in> ename ` set (mentities m). linked (colocated m) x y})"
    if g: "g \<in> set ?gs" for g
  proof -
    obtain r ms where ms: "(r, ms) \<in> set bs" "g = group_of_bucket ms" using g by auto
    have "set ms = {y \<in> set names. linked (colocated m) x y}" if "x \<in> set ms" for x
      using members [OF ms(1) that] by (simp add: link)
    then show ?thesis
      using nonempty [OF ms(1)] dist [OF ms(1) names(2)] hd_sort [of ms] names(1)
      unfolding ms(2) group_of_bucket_def by auto
  qed
  have cov: "(\<Union>g \<in> set ?gs. set (gmembers g)) = ename ` set (mentities m)"
    using cover names(1) by (simp add: group_of_bucket_def)
  have "inj_on (\<lambda>(r, ms). Min (set ms)) (set bs)"
  proof (clarsimp simp: inj_on_def)
    fix r ms r' ms'
    assume a: "(r, ms) \<in> set bs" "(r', ms') \<in> set bs" "Min (set ms) = Min (set ms')"
    then have "Min (set ms) \<in> set ms" "Min (set ms) \<in> set ms'"
      using nonempty by (metis List.finite_set Min_in set_empty)+
    then have "r = r'" using disj a by blast
    then show "r = r' \<and> ms = ms'" using a run(3) by (auto dest: eq_key_imp_eq_value)
  qed
  then have "distinct (map (\<lambda>(r, ms). Min (set ms)) bs)"
    using run(3) by (simp add: distinct_map)
  moreover have "map (\<lambda>(r, ms). Min (set ms)) bs = map gname (map group_of_bucket (vals bs))"
    by (simp add: group_of_bucket_def case_prod_unfold)
  ultimately have "distinct (map gname ?gs)"
    using distinct_map_mset [OF mset_sort] by metis
  then show ?thesis using result mem cov unfolding groups_spec_def
    by (intro exI [of _ ?gs] conjI ballI) (simp_all only: sorted_sort_key simp_thms)
qed

lemma assemble_Inr:
  assumes "assemble nfc sha256 es rs atomic cost = Inr m"
  shows "declaration_ok es rs" "mentities m = map ordered_spec (sort_key ename es)"
    "mrelations m = sort_key relation_key rs" "matomic m = atomic" "mcost_ceiling m = cost"
  using assms refuse_iff [of es rs]
  by (auto simp: assemble_def Let_def and_then_Inr split: sum.splits)

lemma assemble_model_ok:
  assumes "assemble nfc sha256 es rs atomic cost = Inr m"
    and "\<forall>a \<in> set atomic. a \<noteq> [] \<and> set a \<subseteq> ename ` set es"
  shows "model_ok m"
proof -
  have "ename ` set (mentities m) = ename ` set es" "map ename (mentities m) = map ename (sort_key ename es)"
    using assemble_Inr(2) [OF assms(1)] by (auto simp: image_image)
  moreover from this have "distinct (map ename (mentities m))"
    using assemble_Inr(1) [OF assms(1)] distinct_map_mset [of "sort_key ename es" es ename]
    by (simp add: declaration_ok_def)
  ultimately show ?thesis
    using assemble_Inr(1,3,4) [OF assms(1)] assms(2) by (simp add: model_ok_def declaration_ok_def)
qed

text \<open>
  C22. The colocation groups of an assembled model are the connected components of its relations and
  atomicities: each group is named by its least member, its members are sorted, every entity is in
  exactly the group of what it is linked with, and the groups are listed by name without repetition.
  The path-halving union-find never meets an unknown name and never runs out of steps.
\<close>

theorem colocation_groups_components:
  assumes "assemble nfc sha256 es rs atomic cost = Inr m"
    and "\<forall>a \<in> set atomic. a \<noteq> [] \<and> set a \<subseteq> ename ` set es"
  shows "\<exists>gs. colocation_groups m = Inr gs \<and> groups_spec m gs"
  by (rule colocation_groups_spec [OF assemble_model_ok [OF assms]])

definition witness_entities :: "entity_spec list" where
  "witness_entities = map (\<lambda>n. witness_spec n False) [[99], [97], [98], [100]]"

definition witness_relations :: "relation_spec list" where
  "witness_relations = [\<lparr>rname = [114], rsource = [98], rtarget = [100]\<rparr>]"

lemma witness_model_assembled:
  "\<exists>m. assemble id id witness_entities witness_relations [[[99], [97]]] None = Inr m"
  unfolding assemble_returns_iff [of id, simplified]
  by (simp add: declaration_ok_def spec_ok_def witness_spec_def Let_def declaration_text_ok_def
      spec_text_ok_def cost_text_ok_def witness_entities_def witness_relations_def)

theorem colocation_groups_components_witness:
  "\<exists>m. assemble id id witness_entities witness_relations [[[99], [97]]] None = Inr m \<and>
     colocation_groups m =
       Inr [\<lparr>gname = [97], gmembers = [[97], [99]]\<rparr>, \<lparr>gname = [98], gmembers = [[98], [100]]\<rparr>] \<and>
     groups_spec m
       [\<lparr>gname = [97], gmembers = [[97], [99]]\<rparr>, \<lparr>gname = [98], gmembers = [[98], [100]]\<rparr>]"
proof -
  obtain m where m: "assemble id id witness_entities witness_relations [[[99], [97]]] None = Inr m"
    using witness_model_assembled by blast
  have run: "colocation_groups m =
     Inr [\<lparr>gname = [97], gmembers = [[97], [99]]\<rparr>, \<lparr>gname = [98], gmembers = [[98], [100]]\<rparr>]"
    unfolding colocation_groups_def colocation_edges_def assemble_Inr [OF m] by code_simp
  have "\<forall>a \<in> set [[[99::nat], [97]]]. a \<noteq> [] \<and> set a \<subseteq> ename ` set witness_entities"
    by code_simp
  from colocation_groups_components [OF m this] m run show ?thesis by auto
qed

end
