(* ===== verification/Shapes.thy ===== *)
theory Shapes
  imports Colocation
begin

text \<open>
  Operation shapes (\<open>shapes.py\<close>): the finite set of things an application can ask of a model, each
  with the identifier a routing table names it by.
\<close>

datatype shape_kind =
    POINT_READ | RANGE_READ | AGGREGATE | FULL_SCAN | RELATION_WALK | WRITE | BULK_WRITE | SEARCH

fun kind_text :: "shape_kind \<Rightarrow> ustring" where
  "kind_text POINT_READ = lit ''point_read''"
| "kind_text RANGE_READ = lit ''range_read''"
| "kind_text AGGREGATE = lit ''aggregate''"
| "kind_text FULL_SCAN = lit ''full_scan''"
| "kind_text RELATION_WALK = lit ''relation_walk''"
| "kind_text WRITE = lit ''write''"
| "kind_text BULK_WRITE = lit ''bulk_write''"
| "kind_text SEARCH = lit ''search''"

definition WRITE_KINDS :: "shape_kind set" where
  "WRITE_KINDS = {WRITE, BULK_WRITE}"

definition SOURCE_ONLY_KINDS :: "shape_kind set" where
  "SOURCE_ONLY_KINDS = {SEARCH}"

definition ordered_prefixes :: "ustring list" where
  "ordered_prefixes = map lit
     [''int32'', ''int64'', ''float32'', ''float64'', ''decimal'', ''date'', ''timestamp'']"

definition is_ordered :: "ustring \<Rightarrow> bool" where
  "is_ordered neutral_type \<longleftrightarrow> list_ex (starts_with neutral_type) ordered_prefixes"

record operation_shape =
  sh_group :: ustring
  sh_kind :: shape_kind
  sh_entity :: ustring
  sh_fields :: "ustring list"
  sh_target :: "ustring option"
  sh_id :: ustring

datatype shape_error = GroupError uf_error | ShapeNotCanonical canonical_error

definition shape_ir ::
  "ustring \<Rightarrow> shape_kind \<Rightarrow> ustring \<Rightarrow> ustring list \<Rightarrow> ustring option \<Rightarrow> pyval" where
  "shape_ir grp kind entity flds target = PDict [(lit ''group'', PStr grp),
     (lit ''kind'', PStr (kind_text kind)), (lit ''entity'', PStr entity),
     (lit ''fields'', PList (map PStr flds)), (lit ''target'', option_ir target)]"

text \<open>\<open>OperationShape(...)\<close> with its \<open>__post_init__\<close>, which computes the identifier once.\<close>

definition mk_shape ::
  "(ustring \<Rightarrow> ustring) \<Rightarrow> (nat list \<Rightarrow> ustring) \<Rightarrow> ustring \<Rightarrow> shape_kind \<Rightarrow> ustring \<Rightarrow> ustring list \<Rightarrow>
     ustring option \<Rightarrow> shape_error + operation_shape" where
  "mk_shape nfc sha256 grp kind entity flds target =
     (case digest16 nfc sha256 (shape_ir grp kind entity flds target) of
        Inl e \<Rightarrow> Inl (ShapeNotCanonical e)
      | Inr i \<Rightarrow> Inr \<lparr>sh_group = grp, sh_kind = kind, sh_entity = entity, sh_fields = flds,
                      sh_target = target, sh_id = i\<rparr>)"

text \<open>The shapes of one entity before their identifiers: kind and fields, in the order appended.\<close>

definition entity_kinds :: "entity_spec \<Rightarrow> (shape_kind \<times> ustring list) list" where
  "entity_kinds spec =
     [(POINT_READ, sort (ekey spec)), (WRITE, []), (BULK_WRITE, []), (FULL_SCAN, []), (AGGREGATE, [])]
     @ map (\<lambda>f. (RANGE_READ, [fname f])) (filter (\<lambda>f. is_ordered (ftype f)) (efields spec))
     @ (if list_ex (\<lambda>f. ftype f = lit ''string'') (efields spec) then [(SEARCH, [])] else [])"

definition entity_shapes ::
  "(ustring \<Rightarrow> ustring) \<Rightarrow> (nat list \<Rightarrow> ustring) \<Rightarrow> group list \<Rightarrow> entity_spec \<Rightarrow>
     shape_error + operation_shape list" where
  "entity_shapes nfc sha256 groups spec =
     (case group_of groups (ename spec) of
        Inl e \<Rightarrow> Inl (GroupError e)
      | Inr g \<Rightarrow> traverse (\<lambda>(kind, flds). mk_shape nfc sha256 (gname g) kind (ename spec) flds None)
                  (entity_kinds spec))"

definition relation_shape ::
  "(ustring \<Rightarrow> ustring) \<Rightarrow> (nat list \<Rightarrow> ustring) \<Rightarrow> group list \<Rightarrow> relation_spec \<Rightarrow>
     shape_error + operation_shape" where
  "relation_shape nfc sha256 groups rel =
     (case group_of groups (rsource rel) of
        Inl e \<Rightarrow> Inl (GroupError e)
      | Inr g \<Rightarrow> mk_shape nfc sha256 (gname g) RELATION_WALK (rsource rel) [rname rel] (Some (rtarget rel)))"

definition shape_key :: "operation_shape \<Rightarrow> ustring \<times> ustring \<times> ustring \<times> ustring list \<times> ustring" where
  "shape_key s = (sh_group s, sh_entity s, kind_text (sh_kind s), sh_fields s,
     case sh_target s of None \<Rightarrow> [] | Some t \<Rightarrow> t)"

definition enumerate_shapes ::
  "(ustring \<Rightarrow> ustring) \<Rightarrow> (nat list \<Rightarrow> ustring) \<Rightarrow> logical_model \<Rightarrow> shape_error + operation_shape list"
where
  "enumerate_shapes nfc sha256 m =
     (case colocation_groups m of
        Inl e \<Rightarrow> Inl (GroupError e)
      | Inr groups \<Rightarrow>
          and_then (traverse (entity_shapes nfc sha256 groups) (mentities m)) (\<lambda>per_entity.
          and_then (traverse (relation_shape nfc sha256 groups) (mrelations m)) (\<lambda>walks.
            Inr (sort_key shape_key (concat per_entity @ walks)))))"

section \<open>Every shape belongs to the group of its entity\<close>

lemma mk_shape_Inr:
  "mk_shape nfc sha256 grp kind entity flds target = Inr s \<Longrightarrow>
     sh_group s = grp \<and> sh_kind s = kind \<and> sh_entity s = entity \<and> sh_fields s = flds \<and>
     sh_target s = target \<and>
     digest16 nfc sha256 (shape_ir grp kind entity flds target) = Inr (sh_id s)"
  by (auto simp: mk_shape_def split: sum.splits)

lemma traverse_mem: "traverse f xs = Inr ys \<Longrightarrow> y \<in> set ys \<Longrightarrow> \<exists>x \<in> set xs. f x = Inr y"
  by (auto simp: traverse_Inr list_all2_iff in_set_conv_nth set_zip) (metis nth_mem)

lemma traverse_mem': "traverse f xs = Inr ys \<Longrightarrow> x \<in> set xs \<Longrightarrow> \<exists>y \<in> set ys. f x = Inr y"
  by (auto simp: traverse_Inr list_all2_iff in_set_conv_nth set_zip) (metis nth_mem)

lemma group_of_Inr: "group_of gs x = Inr g \<Longrightarrow> g \<in> set gs \<and> x \<in> set (gmembers g)"
  by (auto simp: group_of_def find_Some_iff split: option.splits)

lemma enumerate_shapes_group:
  assumes "colocation_groups m = Inr gs" "enumerate_shapes nfc sha256 m = Inr shapes" "s \<in> set shapes"
  shows "\<exists>g \<in> set gs. group_of gs (sh_entity s) = Inr g \<and> sh_group s = gname g"
proof -
  obtain pe walks where run: "traverse (entity_shapes nfc sha256 gs) (mentities m) = Inr pe"
    "traverse (relation_shape nfc sha256 gs) (mrelations m) = Inr walks"
    "shapes = sort_key shape_key (concat pe @ walks)"
    using assms(1,2) by (auto simp: enumerate_shapes_def and_then_Inr)
  consider ss where "ss \<in> set pe" "s \<in> set ss" | "s \<in> set walks" using assms(3) run(3) by auto
  then show ?thesis
  proof cases
    case 1
    then obtain spec where "entity_shapes nfc sha256 gs spec = Inr ss"
      using traverse_mem [OF run(1)] by blast
    then obtain g where g: "group_of gs (ename spec) = Inr g" and
      "traverse (\<lambda>(kind, flds). mk_shape nfc sha256 (gname g) kind (ename spec) flds None)
         (entity_kinds spec) = Inr ss"
      by (auto simp: entity_shapes_def split: sum.splits)
    then obtain kind flds where s: "mk_shape nfc sha256 (gname g) kind (ename spec) flds None = Inr s"
      using traverse_mem [OF _ 1(2)] by fastforce
    show ?thesis using g group_of_Inr [OF g] mk_shape_Inr [OF s] by auto
  next
    case 2
    then obtain rel where "relation_shape nfc sha256 gs rel = Inr s" using traverse_mem [OF run(2)] by blast
    then obtain g where g: "group_of gs (rsource rel) = Inr g"
      and s: "mk_shape nfc sha256 (gname g) RELATION_WALK (rsource rel) [rname rel] (Some (rtarget rel)) = Inr s"
      by (auto simp: relation_shape_def split: sum.splits)
    show ?thesis using g group_of_Inr [OF g] mk_shape_Inr [OF s] by auto
  qed
qed

section \<open>The enumeration is complete and total\<close>

text \<open>What an enumeration lists, apart from the group and the identifier.\<close>

type_synonym asked = "ustring \<times> shape_kind \<times> ustring list \<times> ustring option"

definition asked :: "operation_shape \<Rightarrow> asked" where
  "asked s = (sh_entity s, sh_kind s, sh_fields s, sh_target s)"

definition entity_asks :: "entity_spec \<Rightarrow> asked list" where
  "entity_asks spec = map (\<lambda>(kind, flds). (ename spec, kind, flds, None)) (entity_kinds spec)"

definition relation_ask :: "relation_spec \<Rightarrow> asked" where
  "relation_ask rel = (rsource rel, RELATION_WALK, [rname rel], Some (rtarget rel))"

definition asks :: "logical_model \<Rightarrow> asked list" where
  "asks m = concat (map entity_asks (mentities m)) @ map relation_ask (mrelations m)"

lemma traverse_asked:
  assumes "traverse f xs = Inr ys" and "\<And>x y. f x = Inr y \<Longrightarrow> g y = h x"
  shows "map g ys = map h xs"
  using assms by (induction xs arbitrary: ys) (auto simp: and_then_Inr)

lemma entity_shapes_asked: "entity_shapes nfc sha256 gs spec = Inr ss \<Longrightarrow> map asked ss = entity_asks spec"
  unfolding entity_asks_def
  by (auto simp: entity_shapes_def asked_def split: sum.splits dest!: mk_shape_Inr elim!: traverse_asked)

lemma relation_shape_asked: "relation_shape nfc sha256 gs rel = Inr s \<Longrightarrow> asked s = relation_ask rel"
  by (auto simp: relation_shape_def relation_ask_def asked_def split: sum.splits dest!: mk_shape_Inr)

lemma enumerate_shapes_asked:
  assumes "enumerate_shapes nfc sha256 m = Inr shapes"
  shows "mset (map asked shapes) = mset (asks m)" "sorted (map shape_key shapes)"
proof -
  obtain gs pe walks where run: "traverse (entity_shapes nfc sha256 gs) (mentities m) = Inr pe"
    "traverse (relation_shape nfc sha256 gs) (mrelations m) = Inr walks"
    "shapes = sort_key shape_key (concat pe @ walks)"
    using assms by (auto simp: enumerate_shapes_def and_then_Inr split: sum.splits)
  have "map (map asked) pe = map entity_asks (mentities m)"
    by (rule traverse_asked [OF run(1) entity_shapes_asked])
  moreover have "map asked walks = map relation_ask (mrelations m)"
    by (rule traverse_asked [OF run(2) relation_shape_asked])
  ultimately have "map asked (concat pe @ walks) = asks m" by (simp add: asks_def map_concat)
  then show "mset (map asked shapes) = mset (asks m)" unfolding run(3) by (metis mset_map mset_sort)
  show "sorted (map shape_key shapes)" unfolding run(3) by simp
qed

lemma entity_asks_distinct:
  assumes "spec_ok spec"
  shows "distinct (entity_asks spec)"
proof -
  have "distinct (map fname (filter (\<lambda>f. is_ordered (ftype f)) (efields spec)))"
    using assms by (simp add: spec_ok_def distinct_map inj_on_def)
  then have "distinct (entity_kinds spec)"
    by (auto simp: entity_kinds_def distinct_map inj_on_def)
  then show ?thesis by (auto simp: entity_asks_def distinct_map inj_on_def)
qed

lemma fst_entity_asks: "a \<in> set (entity_asks spec) \<Longrightarrow> fst a = ename spec \<and> fst (snd a) \<noteq> RELATION_WALK"
  by (auto simp: entity_asks_def entity_kinds_def split: if_splits)

lemma asks_distinct:
  assumes "distinct (map ename (mentities m))" "\<forall>spec \<in> set (mentities m). spec_ok spec"
    "distinct (map (\<lambda>r. (rsource r, rname r)) (mrelations m))"
  shows "distinct (asks m)"
proof -
  have "distinct (concat (map entity_asks specs))"
    if "distinct (map ename specs)" "\<forall>spec \<in> set specs. spec_ok spec" for specs
    using that
  proof (induction specs)
    case (Cons s specs)
    have "set (entity_asks s) \<inter> (\<Union>t \<in> set specs. set (entity_asks t)) = {}"
      using Cons.prems(1) fst_entity_asks by fastforce
    then show ?case using Cons entity_asks_distinct by simp
  qed simp
  moreover have "distinct (map relation_ask (mrelations m))"
    using assms(3) by (auto simp: relation_ask_def distinct_map inj_on_def)
  moreover have "relation_ask r \<notin> set (entity_asks spec)" for r spec
    using fst_entity_asks by (fastforce simp: relation_ask_def)
  ultimately show ?thesis using assms(1,2) by (auto simp: asks_def)
qed


lemma spec_ok_ordered [simp]: "spec_ok (ordered_spec s) \<longleftrightarrow> spec_ok s"
proof -
  have "distinct (map fname (sort_key fname (efields s))) = distinct (map fname (efields s))"
    by (rule distinct_map_mset) simp
  then show ?thesis by (simp add: spec_ok_def ordered_spec_def)
qed

lemma group_of_total:
  assumes "groups_spec m gs" "x \<in> ename ` set (mentities m)"
  shows "\<exists>g. group_of gs x = Inr g \<and> gname g \<in> ename ` set (mentities m)"
proof -
  obtain g where "g \<in> set gs" "x \<in> set (gmembers g)" using assms by (force simp: groups_spec_def)
  then have "List.find (\<lambda>g. x \<in> set (gmembers g)) gs \<noteq> None" by (auto simp: find_None_iff)
  then obtain g' where g': "group_of gs x = Inr g'" by (auto simp: group_of_def)
  then have "g' \<in> set gs" using group_of_Inr by blast
  then have "gname g' \<in> ename ` set (mentities m)" using assms(1)
    by (auto simp: groups_spec_def) (metis (no_types, lifting) UN_I list.set_sel(1) imageE)
  then show ?thesis using g' by blast
qed

lemma mk_shape_total:
  assumes idem: "\<And>s. nfc (nfc s) = nfc s" and ascii: "\<And>s. nfc (lit s) = lit s"
    and "text_ok (nfc grp)" "text_ok (nfc entity)" "\<forall>f \<in> set flds. text_ok (nfc f)"
    "\<forall>t. target = Some t \<longrightarrow> text_ok (nfc t)"
  shows "\<exists>s. mk_shape nfc sha256 grp kind entity flds target = Inr s"
proof -
  have "text_ok (nfc (kind_text kind))" by (cases kind) (simp_all add: ascii)
  then have "has_canonical_form nfc (shape_ir grp kind entity flds target)"
    using assms(3-) by (auto simp: shape_ir_def ascii option_ir_def split: option.splits)
  then show ?thesis
    unfolding canonical_bytes_total [OF idem, symmetric] by (auto simp: mk_shape_def digest16_def)
qed

lemma traverse_total: "(\<And>x. x \<in> set xs \<Longrightarrow> \<exists>y. f x = Inr y) \<Longrightarrow> \<exists>ys. traverse f xs = Inr ys"
proof (induction xs)
  case (Cons x xs)
  then obtain y ys where "f x = Inr y" "traverse f xs = Inr ys" by (meson list.set_intros)
  then show ?case by simp
qed simp

lemma enumerate_shapes_total:
  assumes idem: "\<And>s. nfc (nfc s) = nfc s" and ascii: "\<And>s. nfc (lit s) = lit s"
    and m: "assemble nfc sha256 es rs atomic cost = Inr m"
    and atomic: "\<forall>a \<in> set atomic. a \<noteq> [] \<and> set a \<subseteq> ename ` set es"
  shows "\<exists>shapes. enumerate_shapes nfc sha256 m = Inr shapes"
proof -
  have ok: "declaration_ok es rs" "declaration_text_ok nfc es rs atomic cost"
    using assemble_returns_iff [of nfc, OF idem ascii] m by blast+
  have ents: "set (mentities m) = ordered_spec ` set es" "set (mrelations m) = set rs"
    using assemble_Inr [OF m] by auto
  have names: "ename ` set (mentities m) = ename ` set es" using ents by (auto simp: image_image)
  obtain gs where gs: "colocation_groups m = Inr gs" "groups_spec m gs"
    using colocation_groups_spec [OF assemble_model_ok [OF m atomic]] by blast
  have texts: "text_ok (nfc x)" if "x \<in> ename ` set es" for x
    using that ok(2) by (auto simp: declaration_text_ok_def spec_text_ok_def)
  have "\<exists>ss. entity_shapes nfc sha256 gs spec = Inr ss" if spec: "spec \<in> set (mentities m)" for spec
  proof -
    obtain g where g: "group_of gs (ename spec) = Inr g" "gname g \<in> ename ` set es"
      using group_of_total [OF gs(2)] spec names by blast
    have "spec_text_ok nfc spec" using spec ents(1) ok(2) by (auto simp: declaration_text_ok_def)
    then have "\<exists>s. mk_shape nfc sha256 (gname g) kind (ename spec) flds None = Inr s"
      if "(kind, flds) \<in> set (entity_kinds spec)" for kind flds
      using that texts g(2)
      by (intro mk_shape_total idem ascii)
        (auto simp: entity_kinds_def spec_text_ok_def split: if_splits)
    then show ?thesis using g(1) by (auto simp: entity_shapes_def intro!: traverse_total)
  qed
  moreover have "\<exists>s. relation_shape nfc sha256 gs rel = Inr s" if "rel \<in> set (mrelations m)" for rel
  proof -
    have rel: "rsource rel \<in> ename ` set es" "rtarget rel \<in> ename ` set es" "text_ok (nfc (rname rel))"
      using that ents(2) ok by (auto simp: declaration_ok_def declaration_text_ok_def)
    obtain g where g: "group_of gs (rsource rel) = Inr g" "gname g \<in> ename ` set es"
      using group_of_total [OF gs(2), of "rsource rel"] rel(1) unfolding names by metis
    have "\<exists>s. mk_shape nfc sha256 (gname g) RELATION_WALK (rsource rel) [rname rel] (Some (rtarget rel)) = Inr s"
      using rel texts g(2) by (intro mk_shape_total idem ascii) simp_all
    then show ?thesis using g(1) by (simp add: relation_shape_def)
  qed
  ultimately obtain pe walks where "traverse (entity_shapes nfc sha256 gs) (mentities m) = Inr pe"
    "traverse (relation_shape nfc sha256 gs) (mrelations m) = Inr walks"
    by (meson traverse_total)
  then show ?thesis by (simp add: enumerate_shapes_def gs(1))
qed

lemma enumerate_shapes_distinct:
  assumes "assemble nfc sha256 es rs atomic cost = Inr m"
    and "\<forall>a \<in> set atomic. a \<noteq> [] \<and> set a \<subseteq> ename ` set es"
    and shapes: "enumerate_shapes nfc sha256 m = Inr shapes"
  shows "distinct (map asked shapes)"
proof -
  have "model_ok m" by (rule assemble_model_ok [OF assms(1,2)])
  moreover have "\<forall>spec \<in> set (mentities m). spec_ok spec"
    using assemble_Inr(1,2) [OF assms(1)] by (auto simp: declaration_ok_def)
  moreover have "distinct (map (\<lambda>r. (rsource r, rname r)) (mrelations m))"
    using assemble_Inr(1,3) [OF assms(1)] distinct_map_mset [of "sort_key relation_key rs" rs "\<lambda>r. (rsource r, rname r)"]
    by (simp add: declaration_ok_def)
  ultimately have "distinct (asks m)" by (intro asks_distinct) (simp_all add: model_ok_def)
  then show ?thesis
    using enumerate_shapes_asked(1) [OF shapes] mset_eq_imp_distinct_iff by blast
qed

lemma enumerate_shapes_id:
  assumes "enumerate_shapes nfc sha256 m = Inr shapes" "s \<in> set shapes"
  shows "digest16 nfc sha256 (shape_ir (sh_group s) (sh_kind s) (sh_entity s) (sh_fields s) (sh_target s)) = Inr (sh_id s)"
proof -
  obtain gs pe walks where run: "traverse (entity_shapes nfc sha256 gs) (mentities m) = Inr pe"
    "traverse (relation_shape nfc sha256 gs) (mrelations m) = Inr walks"
    "shapes = sort_key shape_key (concat pe @ walks)"
    using assms(1) by (auto simp: enumerate_shapes_def and_then_Inr split: sum.splits)
  have "\<exists>g k e fs t. mk_shape nfc sha256 g k e fs t = Inr s"
  proof (cases "s \<in> set walks")
    case True
    then obtain r where "relation_shape nfc sha256 gs r = Inr s" using traverse_mem [OF run(2)] by blast
    then show ?thesis by (fastforce simp: relation_shape_def split: sum.splits)
  next
    case False
    then obtain ss where mem: "ss \<in> set pe" "s \<in> set ss" using assms(2) run(3) by auto
    then obtain spec where ss: "s \<in> set ss" "entity_shapes nfc sha256 gs spec = Inr ss"
      using traverse_mem [OF run(1) mem(1)] by blast
    then obtain g where "group_of gs (ename spec) = Inr g" and
      g: "traverse (\<lambda>(kind, flds). mk_shape nfc sha256 (gname g) kind (ename spec) flds None) (entity_kinds spec) = Inr ss"
      by (auto simp: entity_shapes_def split: sum.splits)
    obtain x where "(\<lambda>(kind, flds). mk_shape nfc sha256 (gname g) kind (ename spec) flds None) x = Inr s"
      using traverse_mem [OF g ss(1)] by blast
    then show ?thesis by (cases x) fastforce
  qed
  then obtain g k e fs t where "mk_shape nfc sha256 g k e fs t = Inr s" by blast
  from mk_shape_Inr [OF this] show ?thesis by auto
qed



end
