(* ===== verification/Loader.thy ===== *)
theory Loader
  imports Shapes
begin

text \<open>
  The neutral front door (\<open>testing/loader.py\<close>): a parsed JSON declaration is checked and handed to
  the same \<open>assemble\<close> the decorators go through.

  The Unicode tables behind \<open>str.isdigit\<close>, \<open>int\<close> and \<open>str.strip\<close> are a parameter, \<open>unicode\<close>; what is
  used of them is what they say about ASCII, \<open>ascii_tables\<close>. A \<open>ValueError\<close> that escapes the loader
  is a result of its own, because the loader promises a \<open>DeclarationError\<close> for every bad document.
\<close>

section \<open>Reading a document\<close>

text \<open>\<open>raw.get(key)\<close>\<close>

definition dict_get :: "(ustring \<times> pyval) list \<Rightarrow> string \<Rightarrow> pyval" where
  "dict_get d k = (case map_of d (lit k) of None \<Rightarrow> PNone | Some v \<Rightarrow> v)"

fun is_str :: "pyval \<Rightarrow> bool" where
  "is_str (PStr s) \<longleftrightarrow> True"
| "is_str _ \<longleftrightarrow> False"

fun str_of :: "pyval \<Rightarrow> ustring" where
  "str_of (PStr s) = s"
| "str_of _ = []"

fun as_dict :: "pyval \<Rightarrow> (ustring \<times> pyval) list option" where
  "as_dict (PDict d) = Some d"
| "as_dict _ = None"

section \<open>Types\<close>

definition NEUTRAL_TYPES :: "ustring list" where
  "NEUTRAL_TYPES = map lit [''bool'', ''int32'', ''int64'', ''float32'', ''float64'', ''string'', ''bytes'',
     ''uuid'', ''date'', ''timestamp'', ''timestamptz'', ''json'']"

record unicode =
  udigit :: "nat \<Rightarrow> bool"
  udecimal :: "nat \<Rightarrow> nat option"
  uspace :: "nat \<Rightarrow> bool"

definition ascii_tables :: "unicode \<Rightarrow> bool" where
  "ascii_tables u \<longleftrightarrow> (\<forall>c < 128. udigit u c = is_digit c \<and>
     udecimal u c = (if is_digit c then Some (c - 48) else None) \<and> (is_digit c \<longrightarrow> \<not> uspace u c))"

datatype load_error = Declaration declaration_error | ValueError

abbreviation malformed :: "string \<Rightarrow> load_error + 'a" where
  "malformed what \<equiv> Inl (Declaration (Malformed what))"

text \<open>\<open>body.split(",")\<close>\<close>

fun split_on :: "nat \<Rightarrow> ustring \<Rightarrow> ustring list" where
  "split_on sep [] = [[]]"
| "split_on sep (c # s) =
     (if c = sep then [] # split_on sep s
      else case split_on sep s of [] \<Rightarrow> [[c]] | p # ps \<Rightarrow> (c # p) # ps)"

definition strip :: "unicode \<Rightarrow> ustring \<Rightarrow> ustring" where
  "strip u s = rev (dropWhile (uspace u) (rev (dropWhile (uspace u) s)))"

definition isdigit :: "unicode \<Rightarrow> ustring \<Rightarrow> bool" where
  "isdigit u s \<longleftrightarrow> s \<noteq> [] \<and> list_all (udigit u) s"

text \<open>
  \<open>int(p)\<close> of a text that is digits once stripped. A digit that has no decimal value (a superscript)
  is refused, and so is a text longer than the interpreter's \<open>int_max_str_digits\<close>.
\<close>

definition int_max_str_digits :: nat where
  "int_max_str_digits = 4300"

definition py_int :: "unicode \<Rightarrow> ustring \<Rightarrow> load_error + nat" where
  "py_int u p =
     (let ds = strip u p
      in if length ds > int_max_str_digits \<or> list_ex (\<lambda>c. udecimal u c = None) ds then Inl ValueError
         else Inr (foldl (\<lambda>a c. 10 * a + the (udecimal u c)) 0 ds))"

definition check_type :: "unicode \<Rightarrow> ustring \<Rightarrow> load_error + ustring" where
  "check_type u neutral =
     (if neutral \<in> set NEUTRAL_TYPES then Inr neutral
      else if starts_with neutral (lit ''decimal'') then
        if starts_with neutral (lit ''decimal('') \<and> last neutral = 41 then
          let body = butlast (drop 8 neutral); parts = split_on 44 body
          in case parts of
               [a, b] \<Rightarrow>
                 if isdigit u (strip u a) \<and> isdigit u (strip u b) then
                   and_then (py_int u a) (\<lambda>digits. and_then (py_int u b) (\<lambda>scale.
                     if body = nat_text digits @ [44] @ nat_text scale \<and> 1 \<le> digits \<and> scale \<le> digits
                     then Inr neutral else malformed ''decimal''))
                 else malformed ''decimal''
             | _ \<Rightarrow> malformed ''decimal''
        else malformed ''decimal''
      else malformed ''type'')"

section \<open>Entities\<close>

definition check_field :: "pyval \<Rightarrow> load_error + unit" where
  "check_field field =
     (case field of
        PDict d \<Rightarrow>
          if \<not> is_str (dict_get d ''name'') then malformed ''field''
          else if \<not> is_str (dict_get d ''type'') then malformed ''field type''
          else (case map_of d (lit ''nullable'') of
                  None \<Rightarrow> Inr () | Some (PBool b) \<Rightarrow> Inr () | Some _ \<Rightarrow> malformed ''nullable'')
      | _ \<Rightarrow> malformed ''field'')"

definition check_key_part :: "pyval \<Rightarrow> load_error + unit" where
  "check_key_part part =
     (case part of
        PDict d \<Rightarrow> if lit ''field'' \<in> set (keys d) \<and> lit ''position'' \<in> set (keys d)
                   then malformed ''key is the IR form'' else malformed ''key''
      | PStr s \<Rightarrow> Inr ()
      | _ \<Rightarrow> malformed ''key'')"

definition check_shape :: "(ustring \<times> pyval) list \<Rightarrow> load_error + unit" where
  "check_shape raw =
     (case dict_get raw ''fields'' of
        PList flds \<Rightarrow>
          and_then (traverse check_field flds) (\<lambda>_.
          and_then (case dict_get raw ''key'' of
                      PNone \<Rightarrow> Inr []
                    | PList parts \<Rightarrow> traverse check_key_part parts
                    | _ \<Rightarrow> malformed ''key'') (\<lambda>_.
          and_then (case dict_get raw ''pii'' of
                      PNone \<Rightarrow> Inr ()
                    | PList vs \<Rightarrow> require (list_all is_str vs) (Declaration (Malformed ''pii''))
                    | _ \<Rightarrow> malformed ''pii'') (\<lambda>_.
            case dict_get raw ''residency'' of
              PNone \<Rightarrow> Inr () | PStr s \<Rightarrow> Inr () | _ \<Rightarrow> malformed ''residency'')))
      | _ \<Rightarrow> malformed ''fields'')"

text \<open>The strings of a list already checked, nothing when it is absent: \<open>raw.get(name) or ()\<close>.\<close>

definition strings_of :: "pyval \<Rightarrow> ustring list" where
  "strings_of v = (case v of PList vs \<Rightarrow> map str_of vs | _ \<Rightarrow> [])"

definition field_from :: "unicode \<Rightarrow> pyval \<Rightarrow> load_error + field_spec" where
  "field_from u f =
     (case f of
        PDict d \<Rightarrow>
          and_then (check_type u (str_of (dict_get d ''type''))) (\<lambda>t.
            Inr \<lparr>fname = str_of (dict_get d ''name''), ftype = t,
                 fnullable = (map_of d (lit ''nullable'') = Some (PBool True))\<rparr>)
      | _ \<Rightarrow> malformed ''field'')"

definition entity_from :: "unicode \<Rightarrow> pyval \<Rightarrow> load_error + entity_spec" where
  "entity_from u raw =
     (case raw of
        PDict d \<Rightarrow>
          (case dict_get d ''name'' of
             PStr name \<Rightarrow>
               if name = [] then malformed ''entity name''
               else and_then (check_shape d) (\<lambda>_.
                    and_then (traverse (field_from u) (case dict_get d ''fields'' of PList fs \<Rightarrow> fs | _ \<Rightarrow> []))
                      (\<lambda>flds.
                        Inr \<lparr>ename = name, efields = sort_key fname flds, ekey = strings_of (dict_get d ''key''),
                             epii = sort (strings_of (dict_get d ''pii'')),
                             eresidency = (case dict_get d ''residency'' of PStr r \<Rightarrow> Some r | _ \<Rightarrow> None)\<rparr>))
           | _ \<Rightarrow> malformed ''entity name'')
      | _ \<Rightarrow> malformed ''entity'')"

section \<open>Relations and atomic groups\<close>

definition relation_from :: "ustring set \<Rightarrow> pyval \<Rightarrow> load_error + relation_spec" where
  "relation_from names raw =
     (case raw of
        PDict d \<Rightarrow>
          (case (dict_get d ''name'', dict_get d ''from'', dict_get d ''to'') of
             (PStr name, PStr source, PStr target) \<Rightarrow>
               if source \<notin> names then Inl (Declaration (UnknownSide name source))
               else if target \<notin> names then Inl (Declaration (UnknownSide name target))
               else Inr \<lparr>rname = name, rsource = source, rtarget = target\<rparr>
           | _ \<Rightarrow> malformed ''relation'')
      | _ \<Rightarrow> malformed ''relation'')"

definition relations_from :: "(ustring \<times> pyval) list \<Rightarrow> ustring set \<Rightarrow> load_error + relation_spec list" where
  "relations_from data names =
     (case dict_get data ''relations'' of
        PNone \<Rightarrow> Inr []
      | PList raws \<Rightarrow> traverse (relation_from names) raws
      | _ \<Rightarrow> malformed ''relations'')"

fun atomic_groups :: "ustring set \<Rightarrow> ustring set \<Rightarrow> pyval list \<Rightarrow> load_error + ustring list list" where
  "atomic_groups names placed [] = Inr []"
| "atomic_groups names placed (raw # raws) =
     (case raw of
        PList vs \<Rightarrow>
          if \<not> list_all is_str vs then malformed ''atomic group''
          else
            let members = sort (map str_of vs)
            in if list_ex (\<lambda>m. m \<notin> names) members then malformed ''atomic group names unknown entities''
               else if \<not> distinct members \<or> length members < 2 then malformed ''atomic group is too small''
               else if list_ex (\<lambda>m. m \<in> placed) members then malformed ''atomic groups overlap''
               else and_then (atomic_groups names (placed \<union> set members) raws) (\<lambda>rest. Inr (members # rest))
      | _ \<Rightarrow> malformed ''atomic group'')"

definition atomic_from :: "pyval \<Rightarrow> ustring set \<Rightarrow> load_error + ustring list list" where
  "atomic_from raw names =
     (case raw of
        PNone \<Rightarrow> Inr []
      | PList raws \<Rightarrow> and_then (atomic_groups names {} raws) (\<lambda>groups. Inr (sort groups))
      | _ \<Rightarrow> malformed ''atomic'')"

text \<open>A \<open>DeclarationError\<close> of the model, as the loader's.\<close>

definition declared :: "declaration_error + 'a \<Rightarrow> load_error + 'a" where
  "declared r = (case r of Inl e \<Rightarrow> Inl (Declaration e) | Inr x \<Rightarrow> Inr x)"

definition model_from_neutral ::
  "unicode \<Rightarrow> (ustring \<Rightarrow> ustring) \<Rightarrow> (nat list \<Rightarrow> ustring) \<Rightarrow> pyval \<Rightarrow> load_error + logical_model" where
  "model_from_neutral u nfc sha256 data =
     (case data of
        PDict d \<Rightarrow>
          (case dict_get d ''entities'' of
             PList raws \<Rightarrow>
               and_then (traverse (entity_from u) raws) (\<lambda>entities.
               let names = set (map ename entities)
               in and_then (relations_from d names) (\<lambda>relations.
                  and_then (atomic_from (dict_get d ''atomic'') names) (\<lambda>atomic.
                  and_then (declared (checked_cost_ceiling (dict_get d ''cost_ceiling''))) (\<lambda>cost.
                    declared (assemble nfc sha256 entities relations atomic cost)))))
           | _ \<Rightarrow> malformed ''entities'')
      | _ \<Rightarrow> malformed ''document'')"

section \<open>Which type names are accepted\<close>

definition decimal_name :: "nat \<Rightarrow> nat \<Rightarrow> ustring" where
  "decimal_name digits scale = lit ''decimal('' @ nat_text digits @ [44] @ nat_text scale @ [41]"

lemma split_on_plain: "sep \<notin> set s \<Longrightarrow> split_on sep s = [s]"
  by (induction s) auto

lemma split_on_append: "sep \<notin> set s \<Longrightarrow> split_on sep (s @ sep # t) = s # split_on sep t"
  by (induction s) auto

lemma digits_ascii: "list_all is_digit ds \<Longrightarrow> c \<in> set ds \<Longrightarrow> 48 \<le> c \<and> c \<le> 57"
  by (auto simp: list_all_iff is_digit_def)

lemma strip_digits:
  assumes "ascii_tables u" "list_all is_digit ds"
  shows "strip u ds = ds"
proof -
  have "\<not> uspace u c" if "c \<in> set ds" for c
    using assms that digits_ascii [OF assms(2) that] by (auto simp: ascii_tables_def list_all_iff)
  then have "dropWhile (uspace u) ds = ds" "dropWhile (uspace u) (rev ds) = rev ds"
    by (metis dropWhile_eq_self_iff hd_in_set, metis dropWhile_eq_self_iff hd_in_set set_rev)
  then show ?thesis by (simp add: strip_def)
qed

lemma isdigit_digits: "ascii_tables u \<Longrightarrow> isdigit u (nat_text n)"
  using nat_text_digits [of n] nat_text_nonempty [of n]
  by (auto simp: isdigit_def list_all_iff ascii_tables_def dest!: bspec [where P = is_digit])
    (simp add: is_digit_def)

lemma foldl_decimal:
  assumes "ascii_tables u" "list_all is_digit ds"
  shows "foldl (\<lambda>a c. 10 * a + the (udecimal u c)) z ds = foldl (\<lambda>a d. 10 * a + (d - 48)) z ds"
  using assms(2)
  by (induction ds arbitrary: z) (use assms(1) in \<open>auto simp: ascii_tables_def is_digit_def\<close>)

lemma py_int_nat_text:
  assumes "ascii_tables u" "length (nat_text n) \<le> int_max_str_digits"
  shows "py_int u (nat_text n) = Inr n"
proof -
  have "udecimal u c \<noteq> None" if "c \<in> set (nat_text n)" for c
    using assms(1) that digits_ascii [OF nat_text_digits that] nat_text_digits [of n]
    by (auto simp: ascii_tables_def list_all_iff)
  then show ?thesis
    using assms(2) strip_digits [OF assms(1) nat_text_digits] foldl_decimal [OF assms(1) nat_text_digits]
      digits_value_nat_text [of n]
    by (auto simp: py_int_def Let_def list_ex_iff digits_value_def not_less)
qed

lemma comma_not_digit: "44 \<notin> set (nat_text n)"
  using digits_ascii [OF nat_text_digits] by fastforce

lemma starts_with_append [simp]: "starts_with (p @ s) p"
  by (simp add: starts_with_def)

lemma starts_withD: "starts_with s p \<Longrightarrow> s = p @ drop (length p) s"
  by (metis append_take_drop_id starts_with_def)

lemma check_type_decimal:
  assumes "ascii_tables u" "length (nat_text p) \<le> int_max_str_digits" "length (nat_text q) \<le> int_max_str_digits"
    "1 \<le> p" "q \<le> p"
  shows "check_type u (decimal_name p q) = Inr (decimal_name p q)"
proof -
  let ?n = "decimal_name p q"
  have 1: "starts_with ?n (lit ''decimal('')" "starts_with ?n (lit ''decimal'')"
    by (simp_all add: decimal_name_def starts_with_def lit_def)
  have 2: "last ?n = 41" "butlast (drop 8 ?n) = nat_text p @ [44] @ nat_text q"
    by (simp_all add: decimal_name_def butlast_append)
  have 3: "split_on 44 (nat_text p @ [44] @ nat_text q) = [nat_text p, nat_text q]"
    by (simp add: split_on_append split_on_plain comma_not_digit)
  show ?thesis
    unfolding check_type_def Let_def 2 3
    using assms 1 strip_digits [OF assms(1) nat_text_digits] isdigit_digits [OF assms(1)]
    by (simp add: py_int_nat_text 2)
qed

lemma check_type_Inr:
  assumes "check_type u s = Inr t" "ascii_tables u"
  shows "t = s \<and> (s \<in> set NEUTRAL_TYPES \<or> (\<exists>p q. 1 \<le> p \<and> q \<le> p \<and>
    length (nat_text p) \<le> int_max_str_digits \<and> length (nat_text q) \<le> int_max_str_digits \<and>
    s = decimal_name p q))"
proof (cases "s \<in> set NEUTRAL_TYPES")
  case False
  then have st: "starts_with s (lit ''decimal('')" "last s = 41" and t: "t = s"
    using assms(1) by (auto simp: check_type_def Let_def and_then_Inr split: if_splits list.splits)
  obtain p q a b where pq: "butlast (drop 8 s) = nat_text p @ [44] @ nat_text q" "1 \<le> p" "q \<le> p"
    and ab: "split_on 44 (butlast (drop 8 s)) = [a, b]" "py_int u a = Inr p" "py_int u b = Inr q"
    using assms(1) False by (auto simp: check_type_def Let_def and_then_Inr split: if_splits list.splits)
  have "a = nat_text p" "b = nat_text q"
    using ab(1) unfolding pq(1) by (simp_all add: split_on_append split_on_plain comma_not_digit)
  then have len: "length (nat_text p) \<le> int_max_str_digits" "length (nat_text q) \<le> int_max_str_digits"
    using ab(2,3) strip_digits [OF assms(2) nat_text_digits]
    by (auto simp: py_int_def Let_def split: if_splits)
  have "s = lit ''decimal('' @ drop 8 s" using starts_withD [OF st(1)] by (simp add: eval_nat_numeral)
  moreover have "drop 8 s \<noteq> []" using pq(1) by auto
  then have "drop 8 s = (nat_text p @ [44] @ nat_text q) @ [41]"
    using pq(1) st(2) calculation by (metis append_butlast_last_id last_appendR)
  ultimately have "s = decimal_name p q" by (simp add: decimal_name_def)
  then show ?thesis using pq(2,3) t len by blast
qed (use assms(1) in \<open>simp add: check_type_def\<close>)


lemma check_type_iff:
  assumes "ascii_tables u"
  shows "check_type u s = Inr t \<longleftrightarrow> t = s \<and> (s \<in> set NEUTRAL_TYPES \<or> (\<exists>p q. 1 \<le> p \<and> q \<le> p \<and>
    length (nat_text p) \<le> int_max_str_digits \<and> length (nat_text q) \<le> int_max_str_digits \<and>
    s = decimal_name p q))" (is "_ \<longleftrightarrow> ?ok")
proof
  assume ?ok
  moreover have "s \<in> set NEUTRAL_TYPES \<Longrightarrow> check_type u s = Inr s" by (simp add: check_type_def)
  ultimately show "check_type u s = Inr t" using check_type_decimal [OF assms] by blast
qed (rule check_type_Inr [OF _ assms])

section \<open>The round trip\<close>

lemma dict_get_simps [simp]:
  "dict_get [] k = PNone"
  "dict_get ((k', v) # d) k = (if lit k = k' then v else dict_get d k)"
  by (simp_all add: dict_get_def)

lemma field_round_trip:
  "check_field (neutral_field f) = Inr ()"
  "check_type u (ftype f) = Inr (ftype f) \<Longrightarrow> field_from u (neutral_field f) = Inr f"
  by (simp_all add: check_field_def field_from_def neutral_field_def)

lemma strings_of_strs [simp]: "strings_of (PList (map PStr xs)) = xs" "strings_of PNone = []"
  by (simp_all add: strings_of_def comp_def)

lemma entity_round_trip:
  assumes "ename s \<noteq> []" "\<forall>f \<in> set (efields s). check_type u (ftype f) = Inr (ftype f)"
    "sorted (map fname (efields s))" "sorted (epii s)"
  shows "entity_from u (neutral_entity s) = Inr s"
proof -
  have "traverse check_field (map neutral_field (efields s)) = Inr (map (\<lambda>_. ()) (efields s))"
    unfolding traverse_map using assms(2) by (intro traverse_pure) (simp add: field_round_trip)
  moreover have "traverse check_key_part (map PStr (ekey s)) = Inr (map (\<lambda>_. ()) (ekey s))"
    unfolding traverse_map by (intro traverse_pure) (simp add: check_key_part_def)
  moreover have "traverse (field_from u) (map neutral_field (efields s)) = Inr (efields s)"
    unfolding traverse_map using assms(2) by (intro traverse_id) (simp add: field_round_trip)
  ultimately show ?thesis using assms
    by (cases "eresidency s")
      (auto simp: entity_from_def neutral_entity_def check_shape_def list_all_iff sort_key_id_if_sorted)
qed


text \<open>What a model must satisfy for its neutral document to be one the loader accepts.\<close>

definition atomic_listed :: "ustring set \<Rightarrow> ustring list list \<Rightarrow> bool" where
  "atomic_listed names atomic \<longleftrightarrow> sorted atomic \<and>
     (\<forall>g \<in> set atomic. sorted g \<and> distinct g \<and> 2 \<le> length g \<and> set g \<subseteq> names) \<and>
     distinct (concat atomic)"

definition cost_listed :: "cost \<Rightarrow> bool" where
  "cost_listed cost \<longleftrightarrow>
     (case cost of None \<Rightarrow> True | Some d \<Rightarrow> set (keys d) = {lit ''amount'', lit ''currency''})"

definition loadable :: "unicode \<Rightarrow> entity_spec list \<Rightarrow> ustring list list \<Rightarrow> cost \<Rightarrow> bool" where
  "loadable u es atomic cost \<longleftrightarrow>
     (\<forall>s \<in> set es. ename s \<noteq> [] \<and> (\<forall>f \<in> set (efields s). check_type u (ftype f) = Inr (ftype f))) \<and>
     atomic_listed (ename ` set es) atomic \<and> cost_listed cost"

lemma atomic_groups_round_trip:
  assumes "\<forall>g \<in> set atomic. sorted g \<and> distinct g \<and> 2 \<le> length g \<and> set g \<subseteq> names"
    "distinct (concat atomic)" "placed \<inter> set (concat atomic) = {}"
  shows "atomic_groups names placed (map (\<lambda>g. PList (map PStr g)) atomic) = Inr atomic"
  using assms
proof (induction atomic arbitrary: placed)
  case (Cons g atomic)
  have "atomic_groups names (placed \<union> set g) (map (\<lambda>g. PList (map PStr g)) atomic) = Inr atomic"
    using Cons.prems by (intro Cons.IH) auto
  moreover have "\<not> list_ex (\<lambda>m. m \<notin> names) g" "\<not> list_ex (\<lambda>m. m \<in> placed) g" "sort g = g"
    using Cons.prems by (auto simp: list_ex_iff sort_key_id_if_sorted)
  ultimately show ?case using Cons.prems by (simp add: list_all_iff Let_def comp_def)
qed simp

lemma atomic_round_trip:
  assumes "atomic_listed names atomic"
  shows "atomic_from (PList (map (\<lambda>g. PList (map PStr g)) atomic)) names = Inr atomic"
  using assms atomic_groups_round_trip [of atomic names "{}"]
  by (simp add: atomic_listed_def atomic_from_def sort_key_id_if_sorted)

lemma cost_round_trip:
  assumes "cost_listed (Some d)"
  shows "checked_cost_ceiling (PDict (map (\<lambda>(k, v). (k, PStr v)) d)) = Inr (Some d)"
  using assms
  by (auto simp: cost_listed_def checked_cost_ceiling_def list_all_iff case_prod_unfold comp_def)

lemma relation_round_trip:
  assumes "rsource r \<in> names" "rtarget r \<in> names"
  shows "relation_from names (relation_ir r) = Inr r"
  using assms by (simp add: relation_from_def relation_ir_def)

lemma assemble_again:
  assumes m: "assemble nfc sha256 es rs atomic cost = Inr m"
  shows "assemble nfc sha256 (mentities m) (mrelations m) atomic cost = Inr m"
proof -
  have "mset (map ordered_spec es) = mset (mentities m)" using assemble_Inr(2) [OF m] by simp
  moreover have "list_all2 same_spec es (map ordered_spec es)"
    by (simp add: list_all2_conv_all_nth same_spec_def ordered_spec_def)
  moreover have "mset rs = mset (mrelations m)" using assemble_Inr(3) [OF m] by simp
  ultimately have "same_declaration (es, rs) (mentities m, mrelations m)"
    unfolding same_declaration_def fst_conv snd_conv by blast
  then show ?thesis using m assemble_same [of es rs] assemble_Inr(1) [OF m] by metis
qed

lemma neutral_round_trip:
  assumes m: "assemble nfc sha256 es rs atomic cost = Inr m" and ok: "loadable u es atomic cost"
  shows "model_from_neutral u nfc sha256 (neutral_declaration m) = Inr m"
proof -
  note Inr = assemble_Inr [OF m]
  have names: "ename ` set (mentities m) = ename ` set es" using Inr(2) by (auto simp: image_image)
  have "entity_from u (neutral_entity s) = Inr s" if s: "s \<in> set (mentities m)" for s
  proof -
    obtain t where t: "t \<in> set es" "s = ordered_spec t" using s Inr(2) by auto
    then show ?thesis using ok
      by (intro entity_round_trip) (auto simp: loadable_def ordered_spec_def)
  qed
  then have ents: "traverse (entity_from u) (map neutral_entity (mentities m)) = Inr (mentities m)"
    unfolding traverse_map by (rule traverse_id)
  have "relation_from (ename ` set es) (relation_ir r) = Inr r" if "r \<in> set (mrelations m)" for r
    using that Inr(1,3) by (intro relation_round_trip) (auto simp: declaration_ok_def)
  then have rels: "traverse (relation_from (ename ` set es)) (map relation_ir (mrelations m)) = Inr (mrelations m)"
    unfolding traverse_map by (rule traverse_id)
  have atomic: "atomic_from (PList (map (\<lambda>g. PList (map PStr g)) atomic)) (ename ` set es) = Inr atomic"
    using ok by (intro atomic_round_trip) (simp add: loadable_def)
  have again: "assemble nfc sha256 (mentities m) (mrelations m) atomic cost = Inr m"
    by (rule assemble_again [OF m])
  show ?thesis
    using ents rels atomic again ok names Inr(4,5)
    unfolding model_from_neutral_def neutral_declaration_def relations_from_def
    by (cases cost) (auto simp: declared_def loadable_def cost_round_trip atomic_from_def checked_cost_ceiling_def [of PNone])
qed


section \<open>The contract of the loader\<close>

text \<open>
  The loader accepts exactly the type names of the vocabulary and \<open>decimal(p,s)\<close> in its one written
  form, with at least one digit and a scale no larger than the precision, and hands the name on as it
  was written.
\<close>

theorem check_type_accepts_exactly:
  assumes "ascii_tables u"
  shows "check_type u s = Inr t \<longleftrightarrow> t = s \<and> (s \<in> set NEUTRAL_TYPES \<or> (\<exists>p q. 1 \<le> p \<and> q \<le> p \<and>
    length (nat_text p) \<le> int_max_str_digits \<and> length (nat_text q) \<le> int_max_str_digits \<and>
    s = decimal_name p q))"
  using assms by (rule check_type_iff)

text \<open>The tables of ASCII, with the superscript two (a digit without a decimal value) added.\<close>

definition latin_tables :: unicode where
  "latin_tables = \<lparr>udigit = (\<lambda>c. is_digit c \<or> c = 178),
     udecimal = (\<lambda>c. if is_digit c then Some (c - 48) else None), uspace = (\<lambda>c. c = 32 \<or> (9 \<le> c \<and> c \<le> 13))\<rparr>"

lemma latin_tables_ascii: "ascii_tables latin_tables"
  by (simp add: ascii_tables_def latin_tables_def is_digit_def)

theorem check_type_accepts_exactly_witness:
  "check_type latin_tables (lit ''decimal(12,2)'') = Inr (lit ''decimal(12,2)'')"
proof -
  have n: "nat_text 12 = [49, 50]" "nat_text 2 = [50]" by code_simp+
  have bounds: "(1::nat) \<le> 12" "(2::nat) \<le> 12" "length (nat_text 12) \<le> int_max_str_digits"
    "length (nat_text 2) \<le> int_max_str_digits"
    by (simp_all add: n int_max_str_digits_def)
  have "lit ''decimal(12,2)'' = decimal_name 12 2"
    by (simp add: decimal_name_def n lit_def)
  then show ?thesis
    using check_type_accepts_exactly [OF latin_tables_ascii, of "lit ''decimal(12,2)''" "lit ''decimal(12,2)''"]
    by (metis (no_types, lifting) bounds)
qed

text \<open>
  A precision written with a digit that has no decimal value, such as a superscript, is not
  refused as a malformed declaration: the loader lets the bare \<open>ValueError\<close> of \<open>int\<close> out.
\<close>

theorem check_type_value_error:
  assumes "ascii_tables u" "udigit u c" "udecimal u c = None" "\<not> uspace u c"
  shows "check_type u (lit ''decimal('' @ [c, 44, 49, 41]) = Inl ValueError"
proof -
  have "c \<ge> 128"
  proof (rule ccontr)
    assume "\<not> c \<ge> 128"
    then have "udigit u c = is_digit c" "udecimal u c = (if is_digit c then Some (c - 48) else None)"
      using assms(1) by (simp_all add: ascii_tables_def)
    then show False using assms(2,3) by simp
  qed
  then have c: "c \<noteq> 44" by simp
  have "\<not> uspace u 49" "udigit u 49" using assms(1) by (simp_all add: ascii_tables_def is_digit_def)
  then show ?thesis using assms c
    by (simp add: check_type_def NEUTRAL_TYPES_def starts_with_def lit_def isdigit_def strip_def
        py_int_def int_max_str_digits_def)
qed

theorem check_type_value_error_witness:
  "check_type latin_tables (lit ''decimal('' @ [178, 44, 49, 41]) = Inl ValueError"
  by (rule check_type_value_error [OF latin_tables_ascii]) (simp_all add: latin_tables_def is_digit_def)

text \<open>
  C24. The neutral declaration written from a model is loaded back as that model, IR and version
  included, by the other front door.
\<close>

theorem neutral_declaration_round_trip:
  assumes "assemble nfc sha256 es rs atomic cost = Inr m" and "loadable u es atomic cost"
  shows "model_from_neutral u nfc sha256 (neutral_declaration m) = Inr m"
  using assms by (rule neutral_round_trip)

theorem neutral_declaration_round_trip_witness:
  "\<exists>m. assemble id id witness_entities witness_relations [[[97], [99]]] None = Inr m \<and>
     model_from_neutral latin_tables id id (neutral_declaration m) = Inr m"
proof -
  obtain m where m: "assemble id id witness_entities witness_relations [[[97], [99]]] None = Inr m"
    using assemble_returns_iff [of id id witness_entities witness_relations "[[[97], [99]]]" None]
    by (auto simp: declaration_ok_def spec_ok_def witness_spec_def Let_def declaration_text_ok_def
      spec_text_ok_def cost_text_ok_def witness_entities_def witness_relations_def)
  have "loadable latin_tables witness_entities [[[97], [99]]] None"
    by (auto simp: loadable_def witness_entities_def witness_spec_def Let_def atomic_listed_def
        cost_listed_def check_type_def NEUTRAL_TYPES_def)
  then show ?thesis using m neutral_declaration_round_trip [OF m] by blast
qed

end
