(* ===== verification/Books.thy ===== *)
theory Books
  imports Prelude
begin

text \<open>
  The book stream of \<open>books.py\<close>: one side of an order book at a time, sent whole or as its changes.

  The sink is the orderbook engine behind a session, code outside this module, so it is a parameter:
  \<open>sink e msg\<close> says whether the send of \<open>msg\<close> went through and what the engine's state \<open>e\<close> became.
  The two clocks are parameters too, as sequences of readings; the policy clock is rational. Levels
  and times arrive as Python values and are checked as the module checks them. A call that raises
  after it changed the stream (a failed send) returns the changed stream with the exception.
\<close>

section \<open>Levels and sides\<close>

datatype side = Bid | Ask

type_synonym level = "int \<times> int \<times> int"
type_synonym book = "(int, int \<times> int) dict"

datatype book_error = BookValueError string | SinkError

fun side_text :: "side \<Rightarrow> ustring" where
  "side_text Bid = lit ''bid''"
| "side_text Ask = lit ''ask''"

definition side_of :: "ustring \<Rightarrow> book_error + side" where
  "side_of s = (if s = lit ''bid'' then Inr Bid else if s = lit ''ask'' then Inr Ask
     else Inl (BookValueError ''side''))"

definition best_first :: "side \<Rightarrow> int list \<Rightarrow> int list" where
  "best_first s prices = (if s = Bid then rev (sort prices) else sort prices)"

definition level_of :: "pyval list \<Rightarrow> book_error + level" where
  "level_of raw =
     (case raw of
        [PInt price, PInt quantity, PInt cnt] \<Rightarrow>
          if quantity < 0 \<or> cnt < 0 then Inl (BookValueError ''negative'')
          else Inr (price, quantity, cnt)
      | [_, _, _] \<Rightarrow> Inl (BookValueError ''not an integer'')
      | _ \<Rightarrow> Inl (BookValueError ''a level is (price, quantity, order count)''))"

fun whole_side_from :: "book \<Rightarrow> pyval list list \<Rightarrow> book_error + book" where
  "whole_side_from out [] = Inr out"
| "whole_side_from out (raw # raws) =
     and_then (level_of raw) (\<lambda>(price, quantity, cnt).
       if quantity = 0 then Inl (BookValueError ''a quantity of 0'')
       else if price \<in> set (keys out) then Inl (BookValueError ''a price twice'')
       else whole_side_from (AList.update price (quantity, cnt) out) raws)"

definition whole_side :: "pyval list list \<Rightarrow> book_error + book" where
  "whole_side levels = whole_side_from [] levels"

text \<open>\<open>book[p]\<close>\<close>

definition entry :: "book \<Rightarrow> int \<Rightarrow> int \<times> int" where
  "entry book p = the (map_of book p)"

definition levels_of :: "side \<Rightarrow> book \<Rightarrow> level list" where
  "levels_of s book = map (\<lambda>p. (p, entry book p)) (best_first s (keys book))"

definition raw_level :: "level \<Rightarrow> pyval list" where
  "raw_level = (\<lambda>(price, quantity, cnt). [PInt price, PInt quantity, PInt cnt])"

text \<open>The two comprehensions of \<open>book_diff\<close>: the removals, then the prices that are new or changed.\<close>

definition side_diff :: "side \<Rightarrow> book \<Rightarrow> book \<Rightarrow> level list" where
  "side_diff s old new =
     map (\<lambda>p. (p, 0, 0)) (best_first s (filter (\<lambda>p. p \<notin> set (keys new)) (keys old)))
     @ map (\<lambda>p. (p, entry new p))
         (best_first s (filter (\<lambda>p. map_of old p \<noteq> map_of new p) (keys new)))"

definition book_diff :: "ustring \<Rightarrow> pyval list list \<Rightarrow> pyval list list \<Rightarrow> book_error + level list" where
  "book_diff sd before after =
     and_then (side_of sd) (\<lambda>s.
     and_then (whole_side before) (\<lambda>old.
     and_then (whole_side after) (\<lambda>new. Inr (side_diff s old new))))"

fun seen_changes :: "(int, level) dict \<Rightarrow> pyval list list \<Rightarrow> book_error + (int, level) dict" where
  "seen_changes seen [] = Inr seen"
| "seen_changes seen (raw # raws) =
     and_then (level_of raw) (\<lambda>level.
       if fst level \<in> set (keys seen) then Inl (BookValueError ''a price is changed twice'')
       else seen_changes (AList.update (fst level) level seen) raws)"

definition ordered_changes :: "ustring \<Rightarrow> pyval list list \<Rightarrow> book_error + level list" where
  "ordered_changes sd changes =
     and_then (side_of sd) (\<lambda>s.
     and_then (seen_changes [] changes) (\<lambda>seen.
       let removals = best_first s (keys (filter (\<lambda>(p, lv). fst (snd lv) = 0) seen));
           rest = best_first s (keys (filter (\<lambda>(p, lv). fst (snd lv) \<noteq> 0) seen))
       in Inr (map (\<lambda>p. (p, 0, 0)) removals @ map (\<lambda>p. the (map_of seen p)) rest)))"

section \<open>The policy and the state\<close>

record resync =
  r_updates :: nat
  r_seconds :: rat

definition mk_resync :: "pyval \<Rightarrow> pyval \<Rightarrow> book_error + resync" where
  "mk_resync updates seconds =
     (case updates of
        PInt n \<Rightarrow>
          if n < 0 then Inl (BookValueError ''resync updates'')
          else let secs = (case seconds of PInt i \<Rightarrow> Some (of_int i) | PBool b \<Rightarrow> Some (of_bool b)
                             | PFloat (Finite r) \<Rightarrow> Some r | _ \<Rightarrow> None)
               in (case secs of
                     Some r \<Rightarrow> if r < 0 then Inl (BookValueError ''resync seconds'')
                               else Inr \<lparr>r_updates = nat n, r_seconds = r\<rparr>
                   | None \<Rightarrow> Inl (BookValueError ''resync seconds''))
      | _ \<Rightarrow> Inl (BookValueError ''resync updates''))"

record side_state =
  sd_book :: book
  sent_whole :: bool
  unsure :: bool
  since_whole :: nat
  whole_at :: rat
  last_ns :: int

definition new_side :: side_state where
  "new_side = \<lparr>sd_book = [], sent_whole = False, unsure = False, since_whole = 0, whole_at = 0, last_ns = -1\<rparr>"

record stream_stats =
  n_updates :: nat
  n_whole :: nat
  n_changes :: nat
  n_unchanged :: nat
  levels_whole :: nat
  levels_changes :: nat

record stream =
  full_mode :: bool
  policy :: resync
  max_levels :: nat
  side_st :: "side \<Rightarrow> side_state"
  stats :: stream_stats
  clock_reads :: nat
  wall_reads :: nat

definition ENGINE_DEPTH :: nat where
  "ENGINE_DEPTH = 1000"

definition MAX_TIMESTAMP_NS :: int where
  "MAX_TIMESTAMP_NS = 2 ^ 63 - 1"

definition no_stats :: stream_stats where
  "no_stats = \<lparr>n_updates = 0, n_whole = 0, n_changes = 0, n_unchanged = 0, levels_whole = 0, levels_changes = 0\<rparr>"

definition mk_stream :: "ustring \<Rightarrow> resync \<Rightarrow> pyval \<Rightarrow> book_error + stream" where
  "mk_stream mode resync depth =
     (if mode \<noteq> lit ''full'' \<and> mode \<noteq> lit ''incremental'' then Inl (BookValueError ''mode'')
      else case depth of
             PInt n \<Rightarrow> if n < 1 then Inl (BookValueError ''max_levels'')
                       else Inr \<lparr>full_mode = (mode = lit ''full''), policy = resync, max_levels = nat n,
                                 side_st = (\<lambda>_. new_side), stats = no_stats, clock_reads = 0, wall_reads = 0\<rparr>
           | _ \<Rightarrow> Inl (BookValueError ''max_levels''))"

definition stream_book :: "stream \<Rightarrow> ustring \<Rightarrow> book_error + level list" where
  "stream_book str sd = and_then (side_of sd) (\<lambda>s. Inr (levels_of s (sd_book (side_st str s))))"

definition set_side :: "side \<Rightarrow> side_state \<Rightarrow> stream \<Rightarrow> stream" where
  "set_side s st str = str\<lparr>side_st := (side_st str)(s := st)\<rparr>"

section \<open>What a stream sends\<close>

datatype message = Whole side "level list" int | Changes side "level list" int

type_synonym 'e sink = "'e \<Rightarrow> message \<Rightarrow> bool \<times> 'e"

text \<open>The clocks: the n-th reading of the policy clock and of this machine's clock.\<close>

record clocks =
  policy_clock :: "nat \<Rightarrow> rat"
  wall_clock_ns :: "nat \<Rightarrow> int"

text \<open>\<open>_stamp\<close>: the time of an update, recorded as the side's last unless it is only being computed.\<close>

definition stamp :: "clocks \<Rightarrow> side \<Rightarrow> pyval \<Rightarrow> bool \<Rightarrow> stream \<Rightarrow> book_error + int \<times> stream" where
  "stamp clk s timestamp_ns rec str =
     (let st = side_st str s;
          record = (\<lambda>t str'. if rec then set_side s ((side_st str' s)\<lparr>last_ns := t\<rparr>) str' else str')
      in case timestamp_ns of
           PNone \<Rightarrow>
             let t = max (wall_clock_ns clk (wall_reads str)) (last_ns st)
             in Inr (t, record t (str\<lparr>wall_reads := wall_reads str + 1\<rparr>))
         | PInt t \<Rightarrow>
             if \<not> (0 \<le> t \<and> t \<le> MAX_TIMESTAMP_NS) then Inl (BookValueError ''timestamp_ns'')
             else if t < last_ns st then Inl (BookValueError ''timestamp_ns is earlier'')
             else Inr (t, record t str)
         | _ \<Rightarrow> Inl (BookValueError ''timestamp_ns''))"

text \<open>\<open>_due\<close>: the policy clock is read only when the other clauses do not settle it.\<close>

definition due :: "clocks \<Rightarrow> side \<Rightarrow> stream \<Rightarrow> bool \<times> stream" where
  "due clk s str =
     (let st = side_st str s; r = policy str
      in if \<not> sent_whole st \<or> unsure st then (True, str)
         else if r_updates r \<noteq> 0 \<and> since_whole st \<ge> r_updates r then (True, str)
         else if r_seconds r = 0 then (False, str)
         else (policy_clock clk (clock_reads str) - whole_at st \<ge> r_seconds r,
               str\<lparr>clock_reads := clock_reads str + 1\<rparr>))"

type_synonym 'e called = "book_error option \<times> stream \<times> 'e"

definition send_whole :: "clocks \<Rightarrow> 'e sink \<Rightarrow> side \<Rightarrow> book \<Rightarrow> int \<Rightarrow> stream \<Rightarrow> 'e \<Rightarrow> 'e called" where
  "send_whole clk sink s new t str e =
     (let levels = take (max_levels str) (levels_of s new);
          st = (side_st str s)\<lparr>sd_book := new\<rparr>
      in case sink e (Whole s levels t) of
           (False, e') \<Rightarrow> (Some SinkError, set_side s (st\<lparr>unsure := True\<rparr>) str, e')
         | (True, e') \<Rightarrow>
             (None,
              (set_side s (st\<lparr>unsure := False, sent_whole := True, since_whole := 0,
                              whole_at := policy_clock clk (clock_reads str)\<rparr>) str)
                \<lparr>clock_reads := clock_reads str + 1,
                 stats := (stats str)\<lparr>n_whole := n_whole (stats str) + 1,
                                     levels_whole := levels_whole (stats str) + length levels\<rparr>\<rparr>,
              e'))"

definition send_changes ::
  "'e sink \<Rightarrow> side \<Rightarrow> book \<Rightarrow> level list \<Rightarrow> int \<Rightarrow> stream \<Rightarrow> 'e \<Rightarrow> 'e called" where
  "send_changes sink s new levels t str e =
     (let st = (side_st str s)\<lparr>sd_book := new, since_whole := since_whole (side_st str s) + 1\<rparr>
      in if levels = []
         then (None, (set_side s st str)\<lparr>stats := (stats str)\<lparr>n_unchanged := n_unchanged (stats str) + 1\<rparr>\<rparr>, e)
         else case sink e (Changes s levels t) of
                (False, e') \<Rightarrow> (Some SinkError, set_side s (st\<lparr>unsure := True\<rparr>) str, e')
              | (True, e') \<Rightarrow>
                  (None,
                   (set_side s st str)
                     \<lparr>stats := (stats str)\<lparr>n_changes := n_changes (stats str) + 1,
                                          levels_changes := levels_changes (stats str) + length levels\<rparr>\<rparr>,
                   e'))"

definition counted :: "stream \<Rightarrow> stream" where
  "counted str = str\<lparr>stats := (stats str)\<lparr>n_updates := n_updates (stats str) + 1\<rparr>\<rparr>"

definition refused :: "book_error \<Rightarrow> stream \<Rightarrow> 'e \<Rightarrow> 'e called" where
  "refused err str e = (Some err, str, e)"

definition update_checked ::
  "clocks \<Rightarrow> 'e sink \<Rightarrow> side \<Rightarrow> book \<Rightarrow> int \<Rightarrow> stream \<Rightarrow> 'e \<Rightarrow> 'e called" where
  "update_checked clk sink s new t str e =
     (if full_mode str then send_whole clk sink s new t str e
      else case due clk s str of
             (True, str') \<Rightarrow> send_whole clk sink s new t str' e
           | (False, str') \<Rightarrow>
               (case book_diff (side_text s) (map raw_level (levels_of s (sd_book (side_st str' s))))
                       (map raw_level (levels_of s new)) of
                  Inl err \<Rightarrow> refused err str' e
                | Inr diff \<Rightarrow>
                    if length diff > length new then send_whole clk sink s new t str' e
                    else send_changes sink s new diff t str' e))"

definition update ::
  "clocks \<Rightarrow> 'e sink \<Rightarrow> ustring \<Rightarrow> pyval list list \<Rightarrow> pyval \<Rightarrow> stream \<Rightarrow> 'e \<Rightarrow> 'e called" where
  "update clk sink sd levels timestamp_ns str e =
     (case side_of sd of
        Inl err \<Rightarrow> refused err str e
      | Inr s \<Rightarrow>
          (case whole_side levels of
             Inl err \<Rightarrow> refused err str e
           | Inr new \<Rightarrow>
               if length new > max_levels str then refused (BookValueError ''too deep'') str e
               else case stamp clk s timestamp_ns True str of
                      Inl err \<Rightarrow> refused err str e
                    | Inr (t, str') \<Rightarrow> update_checked clk sink s new t (counted str') e))"

text \<open>The loop of \<open>apply\<close> over the ordered changes.\<close>

fun apply_changes :: "book \<Rightarrow> level list \<Rightarrow> book" where
  "apply_changes new [] = new"
| "apply_changes new ((price, quantity, cnt) # rest) =
     apply_changes (if quantity = 0 then AList.delete price new else AList.update price (quantity, cnt) new) rest"

definition apply_checked ::
  "clocks \<Rightarrow> 'e sink \<Rightarrow> side \<Rightarrow> level list \<Rightarrow> int \<Rightarrow> stream \<Rightarrow> 'e \<Rightarrow> 'e called" where
  "apply_checked clk sink s ordered t str e =
     (let new = apply_changes (sd_book (side_st str s)) ordered
      in case due clk s str of
           (d, str') \<Rightarrow>
             if d \<or> length ordered > min (length new) (max_levels str')
             then send_whole clk sink s new t str' e
             else send_changes sink s new ordered t str' e)"

definition apply_book ::
  "clocks \<Rightarrow> 'e sink \<Rightarrow> ustring \<Rightarrow> pyval list list \<Rightarrow> pyval \<Rightarrow> stream \<Rightarrow> 'e \<Rightarrow> 'e called" where
  "apply_book clk sink sd changes timestamp_ns str e =
     (case side_of sd of
        Inl err \<Rightarrow> refused err str e
      | Inr s \<Rightarrow>
          if full_mode str then refused (BookValueError ''a full stream'') str e
          else (case ordered_changes (side_text s) changes of
                  Inl err \<Rightarrow> refused err str e
                | Inr ordered \<Rightarrow>
                    (case stamp clk s timestamp_ns True str of
                       Inl err \<Rightarrow> refused err str e
                     | Inr (t, str') \<Rightarrow> apply_checked clk sink s ordered t (counted str') e)))"

text \<open>\<open>resync\<close>: every time is settled before anything is sent.\<close>

fun resync_stamps ::
  "clocks \<Rightarrow> pyval \<Rightarrow> side list \<Rightarrow> stream \<Rightarrow> book_error + (side \<times> int) list \<times> stream" where
  "resync_stamps clk timestamp_ns [] str = Inr ([], str)"
| "resync_stamps clk timestamp_ns (s # ss) str =
     and_then (if timestamp_ns = PNone \<and> last_ns (side_st str s) \<ge> 0 then Inr (last_ns (side_st str s), str)
               else stamp clk s timestamp_ns False str) (\<lambda>(t, str').
     and_then (resync_stamps clk timestamp_ns ss str') (\<lambda>(stamps, str''). Inr ((s, t) # stamps, str'')))"

fun resync_sends :: "clocks \<Rightarrow> 'e sink \<Rightarrow> (side \<times> int) list \<Rightarrow> stream \<Rightarrow> 'e \<Rightarrow> 'e called" where
  "resync_sends clk sink [] str e = (None, str, e)"
| "resync_sends clk sink ((s, t) # stamps) str e =
     (let st = side_st str s; str' = set_side s (st\<lparr>last_ns := max (last_ns st) t\<rparr>) str
      in case send_whole clk sink s (sd_book st) t str' e of
           (Some err, str'', e') \<Rightarrow> (Some err, str'', e')
         | (None, str'', e') \<Rightarrow> resync_sends clk sink stamps str'' e')"

definition resync_sides :: "ustring option \<Rightarrow> book_error + side list" where
  "resync_sides sd = (case sd of None \<Rightarrow> Inr [Bid, Ask] | Some x \<Rightarrow> and_then (side_of x) (\<lambda>s. Inr [s]))"

definition resync_stream ::
  "clocks \<Rightarrow> 'e sink \<Rightarrow> ustring option \<Rightarrow> pyval \<Rightarrow> stream \<Rightarrow> 'e \<Rightarrow> 'e called" where
  "resync_stream clk sink sd timestamp_ns str e =
     (case resync_sides sd of
        Inl err \<Rightarrow> refused err str e
      | Inr ss \<Rightarrow>
          (case resync_stamps clk timestamp_ns ss str of
             Inl err \<Rightarrow> refused err str e
           | Inr (stamps, str') \<Rightarrow> resync_sends clk sink stamps str' e))"

section \<open>How the engine reads an update\<close>

text \<open>
  The engine's reading of an update, as its documentation states it: each level sets the quantity of
  its price, a quantity of 0 removes the price and a price the update does not name stays.
\<close>

type_synonym engine_side = "int \<Rightarrow> (int \<times> int) option"

definition set_level :: "level \<Rightarrow> engine_side \<Rightarrow> engine_side" where
  "set_level l m = m(fst l := (if fst (snd l) = 0 then None else Some (snd l)))"

fun engine_apply :: "level list \<Rightarrow> engine_side \<Rightarrow> engine_side" where
  "engine_apply [] m = m"
| "engine_apply (l # ls) m = engine_apply ls (set_level l m)"

lemma set_level_apply: "set_level l m x = (if x = fst l then if fst (snd l) = 0 then None else Some (snd l) else m x)"
  by (simp add: set_level_def)

lemma engine_apply_append: "engine_apply (xs @ ys) m = engine_apply ys (engine_apply xs m)"
  by (induction xs m rule: engine_apply.induct) auto

lemma map_of_apply_changes: "map_of (apply_changes b ls) = engine_apply ls (map_of b)"
  by (induction b ls rule: apply_changes.induct) (auto simp: delete_conv' set_level_def simp del: fun_upd_apply)

lemma engine_apply_removals:
  "engine_apply (map (\<lambda>p. (p, 0, 0)) ps) m = (\<lambda>x. if x \<in> set ps then None else m x)"
  by (induction ps arbitrary: m) (auto simp: set_level_apply)

lemma engine_apply_sets:
  "(\<And>p. p \<in> set ps \<Longrightarrow> fst (f p) \<noteq> 0) \<Longrightarrow>
   engine_apply (map (\<lambda>p. (p, f p)) ps) m = (\<lambda>x. if x \<in> set ps then Some (f x) else m x)"
  by (induction ps arbitrary: m) (auto simp: fun_eq_iff set_level_apply)

text \<open>A book of a stream: every price once, every quantity positive.\<close>

definition book_ok :: "book \<Rightarrow> bool" where
  "book_ok b \<longleftrightarrow> distinct (keys b) \<and> (\<forall>(p, q, c) \<in> set b. 0 < q \<and> 0 \<le> c)"

lemma book_ok_Nil [simp]: "book_ok []"
  by (simp add: book_ok_def)

lemma set_best_first [simp]: "set (best_first s ps) = set ps"
  by (simp add: best_first_def)

lemma length_best_first [simp]: "length (best_first s ps) = length ps"
  by (simp add: best_first_def)

lemma distinct_best_first [simp]: "distinct (best_first s ps) = distinct ps"
  by (simp add: best_first_def)

lemma entry_Some: "map_of b p = Some v \<Longrightarrow> entry b p = v"
  by (simp add: entry_def)

lemma book_okD:
  assumes "book_ok b" "p \<in> set (keys b)"
  shows "map_of b p = Some (entry b p)" "0 < fst (entry b p)" "0 \<le> snd (entry b p)"
proof -
  obtain v where v: "map_of b p = Some v" using assms(2) by (metis map_of_eq_None_iff option.exhaust set_map)
  then have "(p, v) \<in> set b" by (rule map_of_SomeD)
  then show "map_of b p = Some (entry b p)" "0 < fst (entry b p)" "0 \<le> snd (entry b p)"
    using assms(1) v by (auto simp: book_ok_def entry_Some)
qed

lemma map_of_book: "book_ok b \<Longrightarrow> map_of b x = (if x \<in> set (keys b) then Some (entry b x) else None)"
  using book_okD(1) map_of_eq_None_iff [of b x] by auto

lemma entry_nonzero: "book_ok b \<Longrightarrow> p \<in> set (keys b) \<Longrightarrow> fst (entry b p) \<noteq> 0"
  using book_okD(2) by fastforce

lemma side_diff_correct:
  assumes "book_ok old" "book_ok new"
  shows "engine_apply (side_diff s old new) (map_of old) = map_of new"
proof -
  let ?C = "best_first s (filter (\<lambda>p. map_of old p \<noteq> map_of new p) (keys new))"
  have sets: "engine_apply (map (\<lambda>p. (p, entry new p)) ?C) m = (\<lambda>x. if x \<in> set ?C then Some (entry new x) else m x)" for m
    by (rule engine_apply_sets) (use entry_nonzero [OF assms(2)] in simp)
  show ?thesis
    unfolding side_diff_def engine_apply_append engine_apply_removals sets
    by (rule ext) (simp add: map_of_book [OF assms(1)] map_of_book [OF assms(2)])
qed

section \<open>An update never needs more room than the larger of the two sides\<close>

definition removals_first :: "level list \<Rightarrow> bool" where
  "removals_first ls \<longleftrightarrow> (\<exists>ps rest. ls = map (\<lambda>p. (p, 0, 0)) ps @ rest \<and> (\<forall>l \<in> set rest. fst (snd l) \<noteq> 0))"

lemma dom_engine_apply_mono:
  "\<forall>l \<in> set ls. fst (snd l) \<noteq> 0 \<Longrightarrow> dom m \<subseteq> dom (engine_apply ls m)"
proof (induction ls m rule: engine_apply.induct)
  case (2 l ls m)
  then have "dom (set_level l m) \<subseteq> dom (engine_apply (l # ls) m)" by simp
  moreover have "dom m \<subseteq> dom (set_level l m)" using "2.prems" by (auto simp: set_level_apply dom_def)
  ultimately show ?case by blast
qed simp

lemma finite_dom_engine_apply: "finite (dom m) \<Longrightarrow> finite (dom (engine_apply ls m))"
  by (induction ls m rule: engine_apply.induct) (auto simp: set_level_def)

lemma removals_first_room:
  assumes "removals_first ls" "finite (dom m)"
  shows "card (dom (engine_apply (take n ls) m)) \<le> max (card (dom m)) (card (dom (engine_apply ls m)))"
proof -
  obtain ps rest where ls: "ls = map (\<lambda>p. (p, 0, 0)) ps @ rest" and rest: "\<forall>l \<in> set rest. fst (snd l) \<noteq> 0"
    using assms(1) by (auto simp: removals_first_def)
  show ?thesis
  proof (cases "n \<le> length ps")
    case True
    then have "take n ls = map (\<lambda>p. (p, 0, 0)) (take n ps)" by (simp add: ls take_map)
    then have "dom (engine_apply (take n ls) m) \<subseteq> dom m"
      by (auto simp: engine_apply_removals split: if_splits)
    then show ?thesis using card_mono [OF assms(2)] by (simp add: le_max_iff_disj)
  next
    case False
    let ?m = "engine_apply (map (\<lambda>p. (p, 0, 0)) ps) m"
    have "take n ls = map (\<lambda>p. (p, 0, 0)) ps @ take (n - length ps) rest" using False by (simp add: ls)
    then have eq: "engine_apply (take n ls) m = engine_apply (take (n - length ps) rest) ?m"
      by (simp add: engine_apply_append)
    have "engine_apply ls m = engine_apply (drop (n - length ps) rest) (engine_apply (take n ls) m)"
      unfolding eq by (metis append.assoc append_take_drop_id engine_apply_append ls)
    then have "dom (engine_apply (take n ls) m) \<subseteq> dom (engine_apply ls m)"
      using rest by (metis dom_engine_apply_mono in_set_dropD)
    then show ?thesis using card_mono [OF finite_dom_engine_apply [OF assms(2)]] by (simp add: le_max_iff_disj)
  qed
qed

lemma removals_first_side_diff:
  assumes "book_ok new"
  shows "removals_first (side_diff s old new)"
  unfolding removals_first_def side_diff_def
  by (intro exI conjI, rule refl) (use entry_nonzero [OF assms] in \<open>auto simp del: split_paired_Ex\<close>)

section \<open>Checked input\<close>

lemma level_of_Inr: "level_of raw = Inr (p, q, c) \<longleftrightarrow> raw = [PInt p, PInt q, PInt c] \<and> 0 \<le> q \<and> 0 \<le> c"
  by (auto simp: level_of_def split: list.splits pyval.splits)

lemma level_of_raw [simp]: "0 \<le> q \<Longrightarrow> 0 \<le> c \<Longrightarrow> level_of (raw_level (p, q, c)) = Inr (p, q, c)"
  by (simp add: level_of_Inr raw_level_def)

lemma AList_update_new: "k \<notin> set (keys d) \<Longrightarrow> AList.update k v d = d @ [(k, v)]"
  by (induction d) auto

lemma whole_side_from_Inr:
  "whole_side_from out raws = Inr b \<Longrightarrow> book_ok out \<Longrightarrow> book_ok b"
proof (induction out raws rule: whole_side_from.induct)
  case (2 out raw raws)
  then obtain p q c where l: "level_of raw = Inr (p, q, c)" "q \<noteq> 0" "p \<notin> set (keys out)"
    "whole_side_from (AList.update p (q, c) out) raws = Inr b"
    by (auto simp: and_then_Inr split: if_splits)
  have "book_ok (AList.update p (q, c) out)"
    using "2.prems"(2) l level_of_Inr [of raw p q c] by (auto simp: AList_update_new book_ok_def)
  then show ?case using "2.IH" [OF l(1) refl refl l(2,3) l(4)] by simp
qed simp

lemma whole_side_ok: "whole_side raws = Inr b \<Longrightarrow> book_ok b"
  unfolding whole_side_def by (erule whole_side_from_Inr) simp

lemma whole_side_from_levels:
  assumes "\<forall>(p, q, c) \<in> set ls. 0 < q \<and> 0 \<le> c" "distinct (keys out @ map fst ls)"
  shows "whole_side_from out (map raw_level ls) = Inr (out @ ls)"
  using assms
proof (induction ls arbitrary: out)
  case (Cons l ls)
  obtain p q c where l: "l = (p, q, c)" by (cases l)
  then have "whole_side_from (out @ [l]) (map raw_level ls) = Inr ((out @ [l]) @ ls)"
    using Cons.prems by (intro Cons.IH) auto
  then show ?case using Cons.prems l by (auto simp: AList_update_new)
qed simp

lemma levels_of_book:
  assumes "book_ok b"
  shows "book_ok (levels_of s b)" "map_of (levels_of s b) = map_of b" "length (levels_of s b) = length b"
    "set (keys (levels_of s b)) = set (keys b)" "keys (levels_of s b) = best_first s (keys b)"
proof -
  have keys: "keys (levels_of s b) = best_first s (keys b)"
    by (simp add: levels_of_def comp_def)
  then show "keys (levels_of s b) = best_first s (keys b)" "set (keys (levels_of s b)) = set (keys b)" by simp_all
  show "length (levels_of s b) = length b" by (simp add: levels_of_def)
  show "book_ok (levels_of s b)"
    unfolding book_ok_def
  proof (intro conjI ballI, unfold keys)
    show "distinct (best_first s (keys b))" using assms by (simp add: book_ok_def)
    fix l assume "l \<in> set (levels_of s b)"
    then obtain p where "p \<in> set (keys b)" "l = (p, entry b p)" by (auto simp: levels_of_def)
    then show "case l of (p, q, c) \<Rightarrow> 0 < q \<and> 0 \<le> c"
      using book_okD(2,3) [OF assms, of p] by (cases "entry b p") simp
  qed
  have "map_of (map (\<lambda>p. (p, entry b p)) ps) x =
      (if x \<in> set ps then Some (entry b x) else None)" for ps x
    by (induction ps) auto
  then show "map_of (levels_of s b) = map_of b"
    by (intro ext) (simp add: levels_of_def map_of_book [OF assms])
qed

lemma whole_side_levels_of:
  assumes "book_ok b"
  shows "whole_side (map raw_level (levels_of s b)) = Inr (levels_of s b)"
  using levels_of_book(1) [OF assms, of s] whole_side_from_levels [of "levels_of s b" "[]"]
  by (auto simp: whole_side_def book_ok_def)

lemma side_of_text [simp]: "side_of (side_text s) = Inr s"
  by (cases s) (simp_all add: side_of_def)

lemma book_diff_levels_of:
  assumes "book_ok old" "book_ok new"
  shows "book_diff (side_text s) (map raw_level (levels_of s old)) (map raw_level (levels_of s new)) =
    Inr (side_diff s (levels_of s old) (levels_of s new))"
  using assms by (simp add: book_diff_def whole_side_levels_of)

lemma seen_changes_Inr:
  "seen_changes seen raws = Inr out \<Longrightarrow>
   distinct (keys seen) \<and> (\<forall>(p, lv) \<in> set seen. fst lv = p \<and> 0 \<le> fst (snd lv) \<and> 0 \<le> snd (snd lv)) \<Longrightarrow>
   distinct (keys out) \<and> (\<forall>(p, lv) \<in> set out. fst lv = p \<and> 0 \<le> fst (snd lv) \<and> 0 \<le> snd (snd lv))"
proof (induction seen raws rule: seen_changes.induct)
  case (2 seen raw raws)
  then obtain p q c where l: "level_of raw = Inr (p, q, c)" "p \<notin> set (keys seen)"
    "seen_changes (AList.update p (p, q, c) seen) raws = Inr out"
    by (auto simp: and_then_Inr split: if_splits)
  show ?case
    by (rule "2.IH" [OF l(1) _ _])
      (use "2.prems"(2) l level_of_Inr [of raw p q c] in \<open>auto simp: AList_update_new\<close>)
qed simp

lemma ordered_changes_Inr:
  assumes "ordered_changes sd changes = Inr ls"
  shows "removals_first ls" "distinct (map fst ls)" "\<forall>(p, q, c) \<in> set ls. 0 \<le> q \<and> 0 \<le> c"
proof -
  obtain s seen where seen: "seen_changes [] changes = Inr seen"
    and ls: "ls = map (\<lambda>p. (p, 0, 0)) (best_first s (keys (filter (\<lambda>(p, lv). fst (snd lv) = 0) seen)))
      @ map (\<lambda>p. the (map_of seen p)) (best_first s (keys (filter (\<lambda>(p, lv). fst (snd lv) \<noteq> 0) seen)))"
      (is "_ = ?R @ ?C")
    using assms by (auto simp: ordered_changes_def and_then_Inr Let_def)
  have ok: "distinct (keys seen)" "\<forall>(p, lv) \<in> set seen. fst lv = p \<and> 0 \<le> fst (snd lv) \<and> 0 \<le> snd (snd lv)"
    using seen_changes_Inr [OF seen] by auto
  have C: "\<exists>p. (p, l) \<in> set seen \<and> fst (snd l) \<noteq> 0 \<and> fst l = p" if "l \<in> set ?C" for l
    using that ok by (force simp: dest: map_of_is_SomeI)
  have fstC: "map fst ?C = best_first s (keys (filter (\<lambda>(p, lv). fst (snd lv) \<noteq> 0) seen))"
  proof -
    have "fst (the (map_of seen p)) = p" if "p \<in> set (keys seen)" for p
      using that ok by (force dest: map_of_is_SomeI)
    then have idem: "map (\<lambda>p. fst (the (map_of seen p))) ps = ps" if "set ps \<subseteq> set (keys seen)" for ps
      using that by (intro map_idI) blast
    show ?thesis unfolding map_map comp_def by (rule idem) auto
  qed
  show "removals_first ls" unfolding removals_first_def ls using C by blast
  have "0 \<le> fst (snd l) \<and> 0 \<le> snd (snd l)" if "l \<in> set ls" for l
  proof (cases "l \<in> set ?C")
    case True
    then show ?thesis using C [OF True] ok(2) by auto
  next
    case False
    then show ?thesis using that unfolding ls by auto
  qed
  then show "\<forall>(p, q, c) \<in> set ls. 0 \<le> q \<and> 0 \<le> c" by auto
  show "distinct (map fst ls)"
    unfolding ls map_append fstC using ok(1)
    by (auto simp: distinct_map inj_on_def comp_def dest: eq_key_imp_eq_value)
qed


section \<open>The stream and the engine stay in step\<close>

text \<open>What the engine's two sides are after an update it accepted.\<close>

fun engine_step :: "message \<Rightarrow> (side \<Rightarrow> engine_side) \<Rightarrow> side \<Rightarrow> engine_side" where
  "engine_step (Whole s ls t) a = a(s := engine_apply ls Map.empty)"
| "engine_step (Changes s ls t) a = a(s := engine_apply ls (a s))"

fun side_of_message :: "message \<Rightarrow> side" where
  "side_of_message (Whole s ls t) = s"
| "side_of_message (Changes s ls t) = s"

fun levels_of_message :: "message \<Rightarrow> level list" where
  "levels_of_message (Whole s ls t) = ls"
| "levels_of_message (Changes s ls t) = ls"

fun time_of_message :: "message \<Rightarrow> int" where
  "time_of_message (Whole s ls t) = t"
| "time_of_message (Changes s ls t) = t"

text \<open>A side has room for an update when no prefix of it makes the side deeper than the engine keeps.\<close>

definition has_room :: "nat \<Rightarrow> level list \<Rightarrow> engine_side \<Rightarrow> bool" where
  "has_room depth ls m \<longleftrightarrow> (\<forall>n. card (dom (engine_apply (take n ls) m)) \<le> depth)"

fun message_fits :: "nat \<Rightarrow> message \<Rightarrow> (side \<Rightarrow> engine_side) \<Rightarrow> bool" where
  "message_fits depth (Whole s ls t) a \<longleftrightarrow> has_room depth ls Map.empty"
| "message_fits depth (Changes s ls t) a \<longleftrightarrow> has_room depth ls (a s)"

text \<open>
  The documented behaviour of the engine behind the sink: a send that goes through, of an update
  there is room for, changes the side as the update says, and no send touches the other side. Of a
  send that failed nothing is known about its own side.
\<close>

definition sink_applies :: "nat \<Rightarrow> ('e \<Rightarrow> side \<Rightarrow> engine_side) \<Rightarrow> 'e sink \<Rightarrow> bool" where
  "sink_applies depth view sink \<longleftrightarrow>
     (\<forall>e msg ok e'. sink e msg = (ok, e') \<longrightarrow>
        (\<forall>s. s \<noteq> side_of_message msg \<longrightarrow> view e' s = view e s) \<and>
        (ok \<longrightarrow> message_fits depth msg (view e) \<longrightarrow> view e' = engine_step msg (view e)))"

definition in_step :: "('e \<Rightarrow> side \<Rightarrow> engine_side) \<Rightarrow> side \<Rightarrow> stream \<Rightarrow> 'e \<Rightarrow> bool" where
  "in_step view s str e \<longleftrightarrow>
     (sent_whole (side_st str s) \<and> \<not> unsure (side_st str s) \<longrightarrow> view e s = map_of (sd_book (side_st str s)))"

definition shallow :: "stream \<Rightarrow> bool" where
  "shallow str \<longleftrightarrow> (\<forall>s. length (sd_book (side_st str s)) \<le> max_levels str)"

definition books_ok :: "stream \<Rightarrow> bool" where
  "books_ok str \<longleftrightarrow> (\<forall>s. book_ok (sd_book (side_st str s)))"

lemma card_dom_map_of: "book_ok b \<Longrightarrow> card (dom (map_of b)) = length b"
  by (simp add: book_ok_def dom_map_of_conv_image_fst distinct_card flip: set_map)

lemma has_room_removals_first:
  assumes "removals_first ls" "book_ok old" "book_ok new" "engine_apply ls (map_of old) = map_of new"
    "length old \<le> depth" "length new \<le> depth"
  shows "has_room depth ls (map_of old)"
  unfolding has_room_def
proof
  fix n
  show "card (dom (engine_apply (take n ls) (map_of old))) \<le> depth"
    using removals_first_room [OF assms(1), of "map_of old" n] assms(4-6)
      card_dom_map_of [OF assms(2)] card_dom_map_of [OF assms(3)]
    by (simp add: finite_dom_map_of)
qed

lemma card_dom_engine_apply: "finite (dom m) \<Longrightarrow> card (dom (engine_apply ls m)) \<le> card (dom m) + length ls"
proof (induction ls m rule: engine_apply.induct)
  case (2 l ls m)
  have "dom (set_level l m) \<subseteq> insert (fst l) (dom m)" by (auto simp: set_level_apply dom_def split: if_splits)
  then have "card (dom (set_level l m)) \<le> card (insert (fst l) (dom m))" "finite (dom (set_level l m))"
    using "2.prems" by (simp_all add: card_mono finite_subset)
  moreover have "card (insert (fst l) (dom m)) \<le> Suc (card (dom m))"
    using "2.prems" by (simp add: card_insert_if)
  ultimately show ?case using "2.IH" by simp
qed simp

lemma engine_apply_whole:
  assumes "book_ok b"
  shows "engine_apply (levels_of s b) Map.empty = map_of b"
proof -
  have "engine_apply (map (\<lambda>p. (p, entry b p)) (best_first s (keys b))) Map.empty =
      (\<lambda>x. if x \<in> set (best_first s (keys b)) then Some (entry b x) else None)"
    by (rule engine_apply_sets) (use entry_nonzero [OF assms] in simp)
  then show ?thesis by (intro ext) (simp add: levels_of_def map_of_book [OF assms])
qed

lemma has_room_whole: "length ls \<le> depth \<Longrightarrow> has_room depth ls Map.empty"
  unfolding has_room_def using card_dom_engine_apply [of Map.empty "take n ls" for n]
  by (auto intro: order.trans)


text \<open>What a call may change of a stream: one side, the statistics and how often the clocks were read.\<close>

definition only_side :: "side \<Rightarrow> stream \<Rightarrow> stream \<Rightarrow> bool" where
  "only_side s str str' \<longleftrightarrow> max_levels str' = max_levels str \<and> full_mode str' = full_mode str \<and>
     policy str' = policy str \<and> (\<forall>s'. s' \<noteq> s \<longrightarrow> side_st str' s' = side_st str s')"

lemma only_side_refl [simp]: "only_side s str str"
  by (simp add: only_side_def)

lemma only_side_trans: "only_side s a b \<Longrightarrow> only_side s b c \<Longrightarrow> only_side s a c"
  by (simp add: only_side_def)

lemma set_side_simps [simp]:
  "side_st (set_side s st str) = (side_st str)(s := st)" "max_levels (set_side s st str) = max_levels str"
  "full_mode (set_side s st str) = full_mode str" "policy (set_side s st str) = policy str"
  "stats (set_side s st str) = stats str" "clock_reads (set_side s st str) = clock_reads str"
  "wall_reads (set_side s st str) = wall_reads str"
  by (simp_all add: set_side_def)

lemma stamp_Inr:
  assumes "stamp clk s ts rec str = Inr (t, str')"
  shows "only_side s str str'" "last_ns (side_st str s) \<le> t"
    "side_st str' s = (if rec then (side_st str s)\<lparr>last_ns := t\<rparr> else side_st str s)"
  using assms by (auto simp: stamp_def Let_def only_side_def split: pyval.splits if_splits)

lemma due_cases:
  assumes "due clk s str = (d, str')"
  shows "side_st str' = side_st str" "only_side s str str'"
    "\<not> d \<longrightarrow> sent_whole (side_st str s) \<and> \<not> unsure (side_st str s)"
  using assms by (auto simp: due_def Let_def only_side_def split: if_splits)

lemma counted_simps [simp]:
  "side_st (counted str) = side_st str" "max_levels (counted str) = max_levels str"
  "full_mode (counted str) = full_mode str" "policy (counted str) = policy str"
  by (simp_all add: counted_def)

lemma only_side_counted [simp]: "only_side s str (counted str)"
  by (simp add: only_side_def)

lemma send_whole_effect:
  assumes "send_whole clk sink s new t str e = (r, str', e')"
  shows "only_side s str str'" "sd_book (side_st str' s) = new" "last_ns (side_st str' s) = last_ns (side_st str s)"
    "\<exists>ok. sink e (Whole s (take (max_levels str) (levels_of s new)) t) = (ok, e') \<and>
       (\<not> ok \<longrightarrow> unsure (side_st str' s))"
    "r = None \<or> r = Some SinkError"
  using assms
  by (auto simp: send_whole_def Let_def only_side_def split: prod.splits bool.splits)

lemma send_changes_effect:
  assumes "send_changes sink s new ls t str e = (r, str', e')"
  shows "only_side s str str'" "sd_book (side_st str' s) = new" "last_ns (side_st str' s) = last_ns (side_st str s)"
    "ls = [] \<and> e' = e \<and> unsure (side_st str' s) = unsure (side_st str s) \<or>
     ls \<noteq> [] \<and> (\<exists>ok. sink e (Changes s ls t) = (ok, e') \<and> (\<not> ok \<longrightarrow> unsure (side_st str' s)))"
    "r = None \<or> r = Some SinkError"
  using assms
  by (auto simp: send_changes_def Let_def only_side_def split: prod.splits bool.splits if_splits)

lemma sink_appliesD:
  assumes "sink_applies depth view sink" "sink e msg = (ok, e')"
  shows "s \<noteq> side_of_message msg \<Longrightarrow> view e' s = view e s"
    and "ok \<Longrightarrow> message_fits depth msg (view e) \<Longrightarrow> view e' = engine_step msg (view e)"
  using assms by (auto simp: sink_applies_def)

lemma send_whole_in_step:
  assumes sink: "sink_applies depth view sink" and run: "send_whole clk sink s new t str e = (r, str', e')"
    and new: "book_ok new" "length new \<le> max_levels str" "max_levels str \<le> depth"
    and others: "\<And>s'. s' \<noteq> s \<Longrightarrow> in_step view s' str e"
  shows "in_step view s' str' e'"
proof -
  note eff = send_whole_effect [OF run]
  have "length (levels_of s new) = length new" by (rule levels_of_book(3) [OF new(1)])
  then have take: "take (max_levels str) (levels_of s new) = levels_of s new" using new(2) by simp
  obtain ok where ok: "sink e (Whole s (levels_of s new) t) = (ok, e')" "\<not> ok \<longrightarrow> unsure (side_st str' s)"
    using eff(4) unfolding take by blast
  show ?thesis
  proof (cases "s' = s")
    case True
    have "message_fits depth (Whole s (levels_of s new) t) (view e)"
      using new levels_of_book(3) [OF new(1), of s] by (simp add: has_room_whole)
    then show ?thesis
      using sink_appliesD(2) [OF sink ok(1)] ok(2) eff(2) True engine_apply_whole [OF new(1)]
      by (auto simp: in_step_def)
  next
    case False
    then show ?thesis
      using others [OF False] sink_appliesD(1) [OF sink ok(1), of s'] eff(1) by (simp add: in_step_def only_side_def)
  qed
qed

lemma send_changes_in_step:
  assumes sink: "sink_applies depth view sink" and run: "send_changes sink s new ls t str e = (r, str', e')"
    and sure: "sent_whole (side_st str s)" "\<not> unsure (side_st str s)"
    and books: "book_ok (sd_book (side_st str s))" "book_ok new"
      "length (sd_book (side_st str s)) \<le> depth" "length new \<le> depth"
    and ls: "removals_first ls" "engine_apply ls (map_of (sd_book (side_st str s))) = map_of new"
    and all: "\<And>s'. in_step view s' str e"
  shows "in_step view s' str' e'"
proof -
  note eff = send_changes_effect [OF run]
  have now: "view e s = map_of (sd_book (side_st str s))" using all [of s] sure by (simp add: in_step_def)
  have room: "has_room depth ls (view e s)"
    unfolding now by (rule has_room_removals_first [OF ls(1) books(1,2) ls(2) books(3,4)])
  show ?thesis
  proof (cases "s' = s")
    case True
    show ?thesis
    proof (cases "ls = []")
      case nil: True
      then show ?thesis using eff(2,4) ls(2) now True by (simp add: in_step_def)
    next
      case False
      then obtain ok where ok: "sink e (Changes s ls t) = (ok, e')" "\<not> ok \<longrightarrow> unsure (side_st str' s)"
        using eff(4) by blast
      then show ?thesis
        using sink_appliesD(2) [OF sink ok(1)] room eff(2) True ls(2) now by (auto simp: in_step_def)
    qed
  next
    case False
    have "view e' s' = view e s'" using eff(4) sink_appliesD(1) [OF sink] False by fastforce
    then show ?thesis using all [of s'] eff(1) False by (simp add: in_step_def only_side_def)
  qed
qed

lemma side_diff_levels_of:
  assumes "book_ok old" "book_ok new"
  shows "removals_first (side_diff s (levels_of s old) (levels_of s new))"
    "engine_apply (side_diff s (levels_of s old) (levels_of s new)) (map_of old) = map_of new"
  using removals_first_side_diff [OF levels_of_book(1) [OF assms(2)]]
    side_diff_correct [OF levels_of_book(1) [OF assms(1)] levels_of_book(1) [OF assms(2)], of s]
    levels_of_book(2) [OF assms(1)] levels_of_book(2) [OF assms(2)]
  by simp_all

lemma apply_changes_ok:
  assumes "book_ok b" "\<forall>(p, q, c) \<in> set ls. 0 \<le> q \<and> 0 \<le> c"
  shows "book_ok (apply_changes b ls)"
  using assms
proof (induction b ls rule: apply_changes.induct)
  case (2 new price quantity cnt rest)
  have "book_ok (if quantity = 0 then AList.delete price new else AList.update price (quantity, cnt) new)"
  proof (cases "quantity = 0")
    case True
    have "set (AList.delete price new) \<subseteq> set new" by (auto simp: AList.delete_eq)
    then show ?thesis using True "2.prems"(1) by (auto simp: book_ok_def distinct_delete)
  next
    case False
    have "set (AList.update price (quantity, cnt) new) \<subseteq> insert (price, quantity, cnt) (set new)"
      by (induction new) auto
    then show ?thesis using False "2.prems" by (fastforce simp: book_ok_def distinct_update)
  qed
  then show ?case using 2 by simp
qed simp


text \<open>Any sequence of calls, each with whatever arguments, accepted, refused or failed in the sink.\<close>

datatype stream_call =
    UpdateCall ustring "pyval list list" pyval
  | ApplyCall ustring "pyval list list" pyval
  | ResyncCall "ustring option" pyval

fun perform :: "clocks \<Rightarrow> 'e sink \<Rightarrow> stream_call \<Rightarrow> stream \<Rightarrow> 'e \<Rightarrow> 'e called" where
  "perform clk sink (UpdateCall sd levels ts) str e = update clk sink sd levels ts str e"
| "perform clk sink (ApplyCall sd changes ts) str e = apply_book clk sink sd changes ts str e"
| "perform clk sink (ResyncCall sd ts) str e = resync_stream clk sink sd ts str e"

text \<open>A call that raises without sending anything gives the stream and the engine back as they were.\<close>

lemma called_cases:
  fixes sink :: "'e sink"
  assumes "perform clk sink c str e = (r, str', e')"
  obtains (unchanged) err where "r = Some err" "str' = str" "e' = e"
  | (updated) s new t str1 where "book_ok new" "length new \<le> max_levels str"
      "only_side s str str1" "last_ns (side_st str s) \<le> t" "side_st str1 s = (side_st str s)\<lparr>last_ns := t\<rparr>"
      "update_checked clk sink s new t str1 e = (r, str', e')"
  | (applied) s ls t str1 where "removals_first ls" "\<forall>(p, q, c) \<in> set ls. 0 \<le> q \<and> 0 \<le> c"
      "only_side s str str1" "last_ns (side_st str s) \<le> t" "side_st str1 s = (side_st str s)\<lparr>last_ns := t\<rparr>"
      "apply_checked clk sink s ls t str1 e = (r, str', e')"
  | (resynced) ss stamps str1 where "distinct ss" "resync_stamps clk (case c of ResyncCall _ ts \<Rightarrow> ts | _ \<Rightarrow> PNone) ss str = Inr (stamps, str1)"
      "resync_sends clk sink stamps str1 e = (r, str', e')"
proof (cases c)
  case (UpdateCall sd levels ts)
  show ?thesis
  proof (cases "\<exists>err. r = Some err \<and> str' = str \<and> e' = e")
    case False
    then obtain s new t str1 where call: "whole_side levels = Inr new" "length new \<le> max_levels str"
      "stamp clk s ts True str = Inr (t, str1)" "update_checked clk sink s new t (counted str1) e = (r, str', e')"
      using assms UpdateCall
      by (auto simp: update_def refused_def not_less split: sum.splits if_splits prod.splits)
    show ?thesis
      by (rule updated [OF whole_side_ok [OF call(1)] call(2) only_side_trans [OF stamp_Inr(1) [OF call(3)] only_side_counted]
            stamp_Inr(2) [OF call(3)] _ call(4)])
        (simp add: stamp_Inr(3) [OF call(3)])
  qed (use unchanged in blast)
next
  case (ApplyCall sd changes ts)
  show ?thesis
  proof (cases "\<exists>err. r = Some err \<and> str' = str \<and> e' = e")
    case False
    then obtain s ls t str1 where call: "ordered_changes (side_text s) changes = Inr ls"
      "stamp clk s ts True str = Inr (t, str1)" "apply_checked clk sink s ls t (counted str1) e = (r, str', e')"
      using assms ApplyCall
      by (auto simp: apply_book_def refused_def split: sum.splits if_splits prod.splits)
    show ?thesis
      by (rule applied [OF ordered_changes_Inr(1,3) [OF call(1)] only_side_trans [OF stamp_Inr(1) [OF call(2)] only_side_counted]
            stamp_Inr(2) [OF call(2)] _ call(3)])
        (simp add: stamp_Inr(3) [OF call(2)])
  qed (use unchanged in blast)
next
  case (ResyncCall sd ts)
  show ?thesis
  proof (cases "\<exists>err. r = Some err \<and> str' = str \<and> e' = e")
    case False
    then obtain ss stamps str1 where call: "resync_sides sd = Inr ss" "resync_stamps clk ts ss str = Inr (stamps, str1)"
      "resync_sends clk sink stamps str1 e = (r, str', e')"
      using assms ResyncCall
      by (auto simp: resync_stream_def refused_def split: sum.splits prod.splits)
    then have "distinct ss" by (auto simp: resync_sides_def and_then_Inr split: option.splits)
    then show ?thesis using resynced [of ss] call(2,3) ResyncCall by simp
  qed (use unchanged in blast)
qed

lemma resync_stamps_Inr:
  assumes "resync_stamps clk ts ss str = Inr (stamps, str')"
  shows "map fst stamps = ss" "\<forall>(s, t) \<in> set stamps. last_ns (side_st str s) \<le> t"
    "side_st str' = side_st str" "max_levels str' = max_levels str"
    "full_mode str' = full_mode str" "policy str' = policy str"
proof -
  have "map fst stamps = ss \<and> (\<forall>(s, t) \<in> set stamps. last_ns (side_st str s) \<le> t) \<and>
      side_st str' = side_st str \<and> max_levels str' = max_levels str \<and>
      full_mode str' = full_mode str \<and> policy str' = policy str"
    using assms
  proof (induction ss arbitrary: str stamps)
    case (Cons s ss)
    then obtain t str1 rest where run: "stamps = (s, t) # rest" "resync_stamps clk ts ss str1 = Inr (rest, str')"
      and st: "(if ts = PNone \<and> last_ns (side_st str s) \<ge> 0 then Inr (last_ns (side_st str s), str)
               else stamp clk s ts False str) = Inr (t, str1)"
      by (auto simp: and_then_Inr split: if_splits)
    have one: "last_ns (side_st str s) \<le> t \<and> side_st str1 = side_st str \<and> max_levels str1 = max_levels str \<and>
        full_mode str1 = full_mode str \<and> policy str1 = policy str"
    proof (cases "ts = PNone \<and> last_ns (side_st str s) \<ge> 0")
      case False
      have "stamp clk s ts False str = Inr (t, str1)" using st unfolding if_not_P [OF False] .
      then show ?thesis using stamp_Inr [of clk s ts False str t str1]
        by (auto simp: only_side_def fun_eq_iff)
    qed (use st in auto)
    show ?case using Cons.IH [OF run(2)] one run(1) by simp
  qed simp
  then show "map fst stamps = ss" "\<forall>(s, t) \<in> set stamps. last_ns (side_st str s) \<le> t"
    "side_st str' = side_st str" "max_levels str' = max_levels str"
    "full_mode str' = full_mode str" "policy str' = policy str"
    by simp_all
qed


lemma resync_sends_frame:
  assumes "resync_sends clk sink stamps str e = (r, str', e')"
  shows "sd_book (side_st str' s) = sd_book (side_st str s)" "max_levels str' = max_levels str"
    "r = None \<or> r = Some SinkError"
proof -
  have "(\<forall>s. sd_book (side_st str' s) = sd_book (side_st str s)) \<and> max_levels str' = max_levels str \<and>
      (r = None \<or> r = Some SinkError)"
    using assms
  proof (induction stamps arbitrary: str e)
    case (Cons st stamps)
    obtain s t where st: "st = (s, t)" by (cases st)
    let ?str = "set_side s ((side_st str s)\<lparr>last_ns := max (last_ns (side_st str s)) t\<rparr>) str"
    obtain r1 str1 e1 where one: "send_whole clk sink s (sd_book (side_st str s)) t ?str e = (r1, str1, e1)"
      by (metis prod_cases3)
    note eff = send_whole_effect [OF one]
    have "(\<forall>s'. sd_book (side_st str1 s') = sd_book (side_st str s')) \<and> max_levels str1 = max_levels str"
      using eff(1,2) by (auto simp: only_side_def)
    then show ?case using Cons one st eff(5) by (cases r1) (auto simp: Let_def)
  qed simp
  then show "sd_book (side_st str' s) = sd_book (side_st str s)" "max_levels str' = max_levels str"
    "r = None \<or> r = Some SinkError" by auto
qed

lemma resync_sends_in_step:
  assumes sink: "sink_applies depth view sink" and run: "resync_sends clk sink stamps str e = (r, str', e')"
    and ok: "books_ok str" "shallow str" "max_levels str \<le> depth" "\<And>s. in_step view s str e"
  shows "in_step view s str' e'"
  using run ok
proof (induction stamps arbitrary: str e)
  case (Cons st stamps)
  obtain s' t where st: "st = (s', t)" by (cases st)
  let ?str = "set_side s' ((side_st str s')\<lparr>last_ns := max (last_ns (side_st str s')) t\<rparr>) str"
  obtain r1 str1 e1 where one: "send_whole clk sink s' (sd_book (side_st str s')) t ?str e = (r1, str1, e1)"
    by (metis prod_cases3)
  note eff = send_whole_effect [OF one]
  have step: "in_step view x str1 e1" for x
    by (rule send_whole_in_step [OF sink one])
      (use Cons.prems in \<open>auto simp: books_ok_def shallow_def in_step_def\<close>)
  have "sd_book (side_st str1 x) = sd_book (side_st str x)" "max_levels str1 = max_levels str" for x
    using eff(1,2) by (auto simp: only_side_def)
  then have "books_ok str1" "shallow str1" "max_levels str1 \<le> depth"
    using Cons.prems(2-4) by (simp_all add: books_ok_def shallow_def)
  then show ?case using Cons.IH [of str1 e1] Cons.prems(1) one st step by (cases r1) (auto simp: Let_def)
qed simp

definition world_ok :: "nat \<Rightarrow> ('e \<Rightarrow> side \<Rightarrow> engine_side) \<Rightarrow> stream \<Rightarrow> 'e \<Rightarrow> bool" where
  "world_ok depth view str e \<longleftrightarrow> books_ok str \<and> shallow str \<and> max_levels str \<le> depth \<and> (\<forall>s. in_step view s str e)"

lemma stamped_world:
  assumes "world_ok depth view str e" "only_side s str str1" "side_st str1 s = (side_st str s)\<lparr>last_ns := t\<rparr>"
  shows "world_ok depth view str1 e"
proof -
  have "sd_book (side_st str1 x) = sd_book (side_st str x) \<and> sent_whole (side_st str1 x) = sent_whole (side_st str x)
      \<and> unsure (side_st str1 x) = unsure (side_st str x)" for x
    using assms(2,3) by (cases "x = s") (auto simp: only_side_def)
  then show ?thesis using assms(1,2)
    by (simp add: world_ok_def books_ok_def shallow_def in_step_def only_side_def)
qed

lemma same_sides_world:
  "side_st str' = side_st str \<Longrightarrow> only_side s str str' \<Longrightarrow> world_ok depth view str e \<Longrightarrow> world_ok depth view str' e"
  by (auto simp: world_ok_def books_ok_def shallow_def in_step_def only_side_def)

lemma only_side_world:
  assumes "only_side s str str'" "books_ok str" "book_ok (sd_book (side_st str' s))" "shallow str'"
    "max_levels str \<le> depth" "\<And>x. in_step view x str' e'"
  shows "world_ok depth view str' e'"
proof -
  have "book_ok (sd_book (side_st str' x))" for x
    using assms(1-3) by (cases "x = s") (auto simp: books_ok_def only_side_def)
  then show ?thesis using assms by (simp add: world_ok_def books_ok_def only_side_def)
qed

lemma send_whole_world:
  assumes "sink_applies depth view sink" "send_whole clk sink s new t str e = (r, str', e')"
    "world_ok depth view str e" "book_ok new" "shallow str'"
  shows "world_ok depth view str' e'"
proof -
  note eff = send_whole_effect [OF assms(2)]
  have len: "length new \<le> max_levels str"
    using assms(5) eff(1,2) by (auto simp: shallow_def only_side_def)
  show ?thesis
    by (rule only_side_world [OF eff(1) _ _ assms(5) _ send_whole_in_step [OF assms(1,2,4) len]])
      (use assms(3,4) eff(2) in \<open>auto simp: world_ok_def\<close>)
qed

lemma send_changes_world:
  assumes "sink_applies depth view sink" "send_changes sink s new ls t str e = (r, str', e')"
    "world_ok depth view str e" "book_ok new" "shallow str'"
    "sent_whole (side_st str s)" "\<not> unsure (side_st str s)"
    "removals_first ls" "engine_apply ls (map_of (sd_book (side_st str s))) = map_of new"
  shows "world_ok depth view str' e'"
proof -
  note eff = send_changes_effect [OF assms(2)]
  have len: "length new \<le> max_levels str" "length (sd_book (side_st str s)) \<le> max_levels str"
    using assms(3,5) eff(1,2) by (auto simp: shallow_def only_side_def world_ok_def)
  have "in_step view x str' e'" for x
    by (rule send_changes_in_step [OF assms(1,2,6,7) _ assms(4) _ _ assms(8,9)])
      (use assms(3) len in \<open>auto simp: world_ok_def books_ok_def\<close>)
  then show ?thesis
    by (intro only_side_world [OF eff(1)]) (use assms(3-5) eff(2) in \<open>auto simp: world_ok_def\<close>)
qed


lemma update_checked_cases:
  assumes run: "update_checked clk sink s new t str e = (r, str', e')"
    and ok: "book_ok (sd_book (side_st str s))" "book_ok new"
  obtains (whole) str1 where "side_st str1 = side_st str" "only_side s str str1"
      "send_whole clk sink s new t str1 e = (r, str', e')"
  | (changes) str1 ls where "side_st str1 = side_st str" "only_side s str str1"
      "sent_whole (side_st str s)" "\<not> unsure (side_st str s)" "removals_first ls"
      "engine_apply ls (map_of (sd_book (side_st str s))) = map_of new" "length ls \<le> length new"
      "send_changes sink s new ls t str1 e = (r, str', e')"
proof (cases "full_mode str")
  case True
  then show ?thesis using run whole [of str] by (simp add: update_checked_def)
next
  case False
  obtain d str1 where d: "due clk s str = (d, str1)" by (cases "due clk s str")
  note due = due_cases [OF d]
  let ?diff = "side_diff s (levels_of s (sd_book (side_st str s))) (levels_of s new)"
  have run': "(if d \<or> length ?diff > length new then send_whole clk sink s new t str1 e
      else send_changes sink s new ?diff t str1 e) = (r, str', e')"
    using run False d book_diff_levels_of [OF ok] due(1) by (cases d) (auto simp: update_checked_def)
  show ?thesis
  proof (cases "d \<or> length ?diff > length new")
    case True
    show ?thesis using run' due(1,2) unfolding if_P [OF True] by (intro whole)
  next
    case small: False
    have "send_changes sink s new ?diff t str1 e = (r, str', e')" using run' unfolding if_not_P [OF small] .
    then show ?thesis
      using changes [OF due(1,2) _ _ side_diff_levels_of [OF ok, of s]] due(3) small by simp
  qed
qed

lemma apply_checked_cases:
  assumes run: "apply_checked clk sink s ls t str e = (r, str', e')"
  obtains (whole) str1 where "side_st str1 = side_st str" "only_side s str str1"
      "send_whole clk sink s (apply_changes (sd_book (side_st str s)) ls) t str1 e = (r, str', e')"
  | (changes) str1 where "side_st str1 = side_st str" "only_side s str str1"
      "sent_whole (side_st str s)" "\<not> unsure (side_st str s)" "length ls \<le> max_levels str"
      "send_changes sink s (apply_changes (sd_book (side_st str s)) ls) ls t str1 e = (r, str', e')"
proof -
  obtain d str1 where d: "due clk s str = (d, str1)" by (cases "due clk s str")
  note due = due_cases [OF d]
  let ?new = "apply_changes (sd_book (side_st str s)) ls"
  have run': "(if d \<or> length ls > min (length ?new) (max_levels str1) then send_whole clk sink s ?new t str1 e
      else send_changes sink s ?new ls t str1 e) = (r, str', e')"
    using run d by (simp add: apply_checked_def Let_def)
  show ?thesis
  proof (cases "d \<or> length ls > min (length ?new) (max_levels str1)")
    case True
    show ?thesis using run' due(1,2) unfolding if_P [OF True] by (intro whole)
  next
    case False
    have "length ls \<le> max_levels str" using False due(2) by (auto simp: only_side_def)
    moreover have "send_changes sink s ?new ls t str1 e = (r, str', e')" using run' unfolding if_not_P [OF False] .
    ultimately show ?thesis using changes [OF due(1,2)] due(3) False by simp
  qed
qed

lemma perform_world:
  assumes sink: "sink_applies depth view sink" and run: "perform clk sink c str e = (r, str', e')"
    and ok: "world_ok depth view str e" and shallow: "shallow str'"
  shows "world_ok depth view str' e'"
  using run
proof (cases rule: called_cases)
  case unchanged
  then show ?thesis using ok by simp
next
  case (updated s new t str1)
  have ok1: "world_ok depth view str1 e" by (rule stamped_world [OF ok updated(3,5)])
  then have old: "book_ok (sd_book (side_st str1 s))" by (simp add: world_ok_def books_ok_def)
  from updated(6) old updated(1) show ?thesis
  proof (cases rule: update_checked_cases)
    case (whole str2)
    then show ?thesis
      using send_whole_world [OF sink _ same_sides_world [OF whole(1,2) ok1] updated(1) shallow] by blast
  next
    case (changes str2 ls)
    then show ?thesis
      using send_changes_world [OF sink changes(8) same_sides_world [OF changes(1,2) ok1] updated(1) shallow]
      by simp
  qed
next
  case (applied s ls t str1)
  have ok1: "world_ok depth view str1 e" by (rule stamped_world [OF ok applied(3,5)])
  let ?new = "apply_changes (sd_book (side_st str1 s)) ls"
  have new: "book_ok ?new"
    using ok1 by (intro apply_changes_ok [OF _ applied(2)]) (simp add: world_ok_def books_ok_def)
  from applied(6) show ?thesis
  proof (cases rule: apply_checked_cases)
    case (whole str2)
    then show ?thesis
      using send_whole_world [OF sink _ same_sides_world [OF whole(1,2) ok1] new shallow] by blast
  next
    case (changes str2)
    then show ?thesis
      using send_changes_world [OF sink changes(6) same_sides_world [OF changes(1,2) ok1] new shallow _ _ applied(1)]
      by (simp add: map_of_apply_changes)
  qed
next
  case (resynced ss stamps str1)
  note st = resync_stamps_Inr [OF resynced(2)]
  have ok1: "world_ok depth view str1 e"
    using ok st(3,4) by (simp add: world_ok_def books_ok_def shallow_def in_step_def)
  then have "in_step view s str' e'" for s
    using resync_sends_in_step [OF sink resynced(3)] by (simp add: world_ok_def)
  then show ?thesis
    using ok1 shallow resync_sends_frame [OF resynced(3)] by (simp add: world_ok_def books_ok_def)
qed

text \<open>The runs in which no side the stream holds is ever deeper than the engine keeps.\<close>

inductive runs :: "clocks \<Rightarrow> 'e sink \<Rightarrow> stream \<Rightarrow> 'e \<Rightarrow> stream \<Rightarrow> 'e \<Rightarrow> bool"
  for clk :: clocks and sink :: "'e sink" and str0 :: stream and e0 :: 'e where
  opened: "runs clk sink str0 e0 str0 e0"
| called: "runs clk sink str0 e0 str e \<Longrightarrow> perform clk sink c str e = (r, str', e') \<Longrightarrow> shallow str' \<Longrightarrow>
    runs clk sink str0 e0 str' e'"

lemma mk_stream_world:
  assumes "mk_stream mode pol depth0 = Inr str" "max_levels str \<le> depth"
  shows "world_ok depth view str e"
  using assms
  by (auto simp: mk_stream_def world_ok_def books_ok_def shallow_def in_step_def new_side_def
      split: if_splits pyval.splits)

lemma runs_world:
  assumes "runs clk sink str0 e0 str e" "sink_applies depth view sink" "world_ok depth view str0 e0"
  shows "world_ok depth view str e"
  using assms(1)
proof (induction rule: runs.induct)
  case opened
  show ?case by (rule assms(3))
next
  case (called str e c r str' e')
  show ?case by (rule perform_world [OF assms(2) called.hyps(2) called.IH called.hyps(3)])
qed

section \<open>What reaches the engine\<close>

text \<open>The sink with a log of everything it was handed, sent or failed.\<close>

definition logged :: "'e sink \<Rightarrow> ('e \<times> message list) sink" where
  "logged sink = (\<lambda>(e, sent) msg. case sink e msg of (ok, e') \<Rightarrow> (ok, (e', sent @ [msg])))"

definition times_of :: "side \<Rightarrow> message list \<Rightarrow> int list" where
  "times_of s sent = map time_of_message (filter (\<lambda>msg. side_of_message msg = s) sent)"

definition log_ok :: "stream \<Rightarrow> message list \<Rightarrow> bool" where
  "log_ok str sent \<longleftrightarrow>
     (\<forall>s. sorted (times_of s sent) \<and> (\<forall>t \<in> set (times_of s sent). t \<le> last_ns (side_st str s))) \<and>
     (\<forall>msg \<in> set sent. length (levels_of_message msg) \<le> max_levels str)"

lemma log_ok_snoc:
  assumes "log_ok str sent" "only_side s str str'" "last_ns (side_st str' s) = t"
    "side_of_message msg = s" "time_of_message msg = t" "last_ns (side_st str s) \<le> t"
    "length (levels_of_message msg) \<le> max_levels str"
  shows "log_ok str' (sent @ [msg])"
  unfolding log_ok_def
proof (intro conjI allI)
  fix x
  show "sorted (times_of x (sent @ [msg]))"
    using assms by (auto simp: log_ok_def times_of_def sorted_append only_side_def dest: order.trans)
  show "\<forall>t \<in> set (times_of x (sent @ [msg])). t \<le> last_ns (side_st str' x)"
    using assms by (cases "x = s") (auto simp: log_ok_def times_of_def only_side_def intro: order.trans)
next
  show "\<forall>m \<in> set (sent @ [msg]). length (levels_of_message m) \<le> max_levels str'"
    using assms by (auto simp: log_ok_def only_side_def)
qed

lemma log_ok_later:
  assumes "log_ok str sent" "only_side s str str'" "last_ns (side_st str s) \<le> last_ns (side_st str' s)"
  shows "log_ok str' sent"
proof -
  have "last_ns (side_st str x) \<le> last_ns (side_st str' x)" for x
    using assms(2,3) by (cases "x = s") (auto simp: only_side_def)
  moreover have "max_levels str' = max_levels str" using assms(2) by (simp add: only_side_def)
  ultimately show ?thesis using assms(1) unfolding log_ok_def by (metis order.trans)
qed

lemma send_whole_log:
  assumes "send_whole clk (logged sink) s new t str (e, sent) = (r, str', e', sent')"
    "log_ok str sent" "last_ns (side_st str s) = t"
  shows "log_ok str' sent'"
proof -
  note eff = send_whole_effect [OF assms(1)]
  have "sent' = sent @ [Whole s (take (max_levels str) (levels_of s new)) t]"
    using eff(4) by (auto simp: logged_def split: prod.splits)
  then show ?thesis using eff(1,3) assms(2,3) by (auto intro!: log_ok_snoc [OF assms(2)])
qed

lemma send_changes_log:
  assumes "send_changes (logged sink) s new ls t str (e, sent) = (r, str', e', sent')"
    "log_ok str sent" "last_ns (side_st str s) = t" "length ls \<le> max_levels str"
  shows "log_ok str' sent'"
proof -
  note eff = send_changes_effect [OF assms(1)]
  show ?thesis
  proof (cases "ls = []")
    case True
    then show ?thesis using eff assms(2) by (auto intro: log_ok_later)
  next
    case False
    then have "sent' = sent @ [Changes s ls t]" using eff(4) by (auto simp: logged_def split: prod.splits)
    then show ?thesis using eff(1,3) assms(2-4) by (auto intro!: log_ok_snoc [OF assms(2)])
  qed
qed


lemma same_sides_log:
  "side_st str' = side_st str \<Longrightarrow> only_side s str str' \<Longrightarrow> log_ok str sent \<Longrightarrow> log_ok str' sent"
  by (rule log_ok_later [of str sent s]) simp_all

lemma resync_sends_log:
  assumes "resync_sends clk (logged sink) stamps str (e, sent) = (r, str', e', sent')"
    "log_ok str sent" "distinct (map fst stamps)" "\<forall>(s, t) \<in> set stamps. last_ns (side_st str s) \<le> t"
  shows "log_ok str' sent'"
  using assms
proof (induction stamps arbitrary: str e sent)
  case (Cons st stamps)
  obtain s t where st: "st = (s, t)" by (cases st)
  let ?str = "set_side s ((side_st str s)\<lparr>last_ns := max (last_ns (side_st str s)) t\<rparr>) str"
  obtain r1 str1 e1 sent1 where one:
    "send_whole clk (logged sink) s (sd_book (side_st str s)) t ?str (e, sent) = (r1, str1, e1, sent1)"
    by (metis prod_cases4)
  have t: "last_ns (side_st ?str s) = t" using Cons.prems(4) st by simp
  have "log_ok ?str sent"
    by (rule log_ok_later [OF Cons.prems(2), of s]) (simp_all add: only_side_def)
  then have ok1: "log_ok str1 sent1" using send_whole_log [OF one] t by blast
  have "last_ns (side_st str1 x) = last_ns (side_st str x)" if "x \<in> set (map fst stamps)" for x
  proof -
    have "x \<noteq> s" using that Cons.prems(3) st by auto
    then show ?thesis using send_whole_effect(1) [OF one] by (simp add: only_side_def)
  qed
  then have "\<forall>(s, t) \<in> set stamps. last_ns (side_st str1 s) \<le> t" using Cons.prems(4) by force
  then show ?case using Cons.IH [of str1 e1 sent1] Cons.prems(1,3) one st ok1 by (cases r1) (auto simp: Let_def)
qed simp

lemma perform_books:
  assumes run: "perform clk sink c str e = (r, str', e')" and ok: "books_ok str"
  shows "books_ok str'" "max_levels str' = max_levels str" "\<And>err. r = Some (BookValueError err) \<Longrightarrow> str' = str \<and> e' = e"
proof -
  have effect: "books_ok str' \<and> max_levels str' = max_levels str \<and> (\<forall>err. r \<noteq> Some (BookValueError err))"
    if "only_side s str str'" "book_ok (sd_book (side_st str' s))" "r = None \<or> r = Some SinkError" for s
    using that ok unfolding books_ok_def only_side_def by (metis book_error.distinct(1) option.distinct(1) option.inject)
  have "books_ok str' \<and> max_levels str' = max_levels str \<and>
      (\<forall>err. r = Some (BookValueError err) \<longrightarrow> str' = str \<and> e' = e)"
    using run
  proof (cases rule: called_cases)
    case unchanged
    then show ?thesis using ok by simp
  next
    case (updated s new t str1)
    have "book_ok (sd_book (side_st str1 s))" using ok updated(5) by (simp add: books_ok_def)
    from updated(6) this updated(1) show ?thesis
    proof (cases rule: update_checked_cases)
      case (whole str2)
      note eff = send_whole_effect [OF whole(3)]
      show ?thesis
        using effect [OF only_side_trans [OF updated(3) only_side_trans [OF whole(2) eff(1)]]] eff(2,5) updated(1)
        by simp
    next
      case (changes str2 ls)
      note eff = send_changes_effect [OF changes(8)]
      show ?thesis
        using effect [OF only_side_trans [OF updated(3) only_side_trans [OF changes(2) eff(1)]]] eff(2,5) updated(1)
        by simp
    qed
  next
    case (applied s ls t str1)
    have new: "book_ok (apply_changes (sd_book (side_st str1 s)) ls)"
      using ok applied(5) by (intro apply_changes_ok [OF _ applied(2)]) (simp add: books_ok_def)
    from applied(6) show ?thesis
    proof (cases rule: apply_checked_cases)
      case (whole str2)
      note eff = send_whole_effect [OF whole(3)]
      show ?thesis
        using effect [OF only_side_trans [OF applied(3) only_side_trans [OF whole(2) eff(1)]]] eff(2,5) new by simp
    next
      case (changes str2)
      note eff = send_changes_effect [OF changes(6)]
      show ?thesis
        using effect [OF only_side_trans [OF applied(3) only_side_trans [OF changes(2) eff(1)]]] eff(2,5) new by simp
    qed
  next
    case (resynced ss stamps str1)
    then show ?thesis
      using resync_sends_frame [OF resynced(3)] resync_stamps_Inr [OF resynced(2)] ok by (auto simp: books_ok_def)
  qed
  then show "books_ok str'" "max_levels str' = max_levels str"
    "\<And>err. r = Some (BookValueError err) \<Longrightarrow> str' = str \<and> e' = e" by simp_all
qed

lemma perform_log:
  assumes run: "perform clk (logged sink) c str (e, sent) = (r, str', e', sent')" and ok: "log_ok str sent" "books_ok str"
  shows "log_ok str' sent'"
  using run
proof (cases rule: called_cases)
  case unchanged
  then show ?thesis using ok by simp
next
  case (updated s new t str1)
  have ok1: "log_ok str1 sent" "last_ns (side_st str1 s) = t" "book_ok (sd_book (side_st str1 s))"
    using log_ok_later [OF ok(1) updated(3)] updated(4,5) ok(2) by (simp_all add: books_ok_def)
  from updated(6) ok1(3) updated(1) show ?thesis
  proof (cases rule: update_checked_cases)
    case (whole str2)
    then show ?thesis using send_whole_log [OF whole(3) same_sides_log [OF whole(1,2) ok1(1)]] ok1(2) by simp
  next
    case (changes str2 ls)
    then show ?thesis
      using send_changes_log [OF changes(8) same_sides_log [OF changes(1,2) ok1(1)]] ok1(2) updated(2,3)
      by (simp add: only_side_def)
  qed
next
  case (applied s ls t str1)
  have ok1: "log_ok str1 sent" "last_ns (side_st str1 s) = t"
    using log_ok_later [OF ok(1) applied(3)] applied(4,5) by simp_all
  from applied(6) show ?thesis
  proof (cases rule: apply_checked_cases)
    case (whole str2)
    then show ?thesis using send_whole_log [OF whole(3) same_sides_log [OF whole(1,2) ok1(1)]] ok1(2) by simp
  next
    case (changes str2)
    then show ?thesis
      using send_changes_log [OF changes(6) same_sides_log [OF changes(1,2) ok1(1)]] ok1(2)
      by (simp add: only_side_def)
  qed
next
  case (resynced ss stamps str1)
  note st = resync_stamps_Inr [OF resynced(2)]
  have "log_ok str1 sent" using ok(1) st(3,4) by (simp add: log_ok_def)
  then show ?thesis using resync_sends_log [OF resynced(3)] st(1-3) resynced(1) by simp
qed

fun perform_all :: "clocks \<Rightarrow> 'e sink \<Rightarrow> stream_call list \<Rightarrow> stream \<Rightarrow> 'e \<Rightarrow> stream \<times> 'e" where
  "perform_all clk sink [] str e = (str, e)"
| "perform_all clk sink (c # cs) str e = (case perform clk sink c str e of (r, str', e') \<Rightarrow> perform_all clk sink cs str' e')"

lemma perform_all_books:
  assumes "perform_all clk sink cs str e = (str', e')" "books_ok str"
  shows "books_ok str' \<and> max_levels str' = max_levels str"
  using assms
proof (induction cs arbitrary: str e)
  case (Cons c cs)
  obtain r str1 e1 where one: "perform clk sink c str e = (r, str1, e1)" by (metis prod_cases3)
  then show ?case using Cons.IH [of str1 e1] Cons.prems perform_books [OF one] by simp
qed simp

lemma perform_all_log:
  assumes "perform_all clk (logged sink) cs str (e, sent) = (str', e', sent')" "log_ok str sent" "books_ok str"
  shows "log_ok str' sent'"
  using assms
proof (induction cs arbitrary: str e sent)
  case (Cons c cs)
  obtain r str1 e1 sent1 where one: "perform clk (logged sink) c str (e, sent) = (r, str1, e1, sent1)"
    by (metis prod_cases4)
  have "perform_all clk (logged sink) cs str1 (e1, sent1) = (str', e', sent')" using Cons.prems(1) one by simp
  from Cons.IH [OF this] perform_log [OF one] perform_books [OF one] Cons.prems(2,3) show ?case by simp
qed simp


section \<open>The contract of a book stream\<close>

lemma mk_stream_start:
  assumes "mk_stream mode pol depth = Inr str"
  shows "books_ok str" "log_ok str []"
  using assms
  by (auto simp: mk_stream_def books_ok_def new_side_def log_ok_def times_of_def split: if_splits pyval.splits)

lemma side_diff_empty:
  assumes "book_ok old" "book_ok new"
  shows "side_diff s old new = [] \<longleftrightarrow> map_of old = map_of new"
proof
  assume "side_diff s old new = []"
  then show "map_of old = map_of new" using side_diff_correct [OF assms, of s] by simp
next
  assume eq: "map_of old = map_of new"
  then have "set (keys old) = set (keys new)" by (metis dom_map_of_conv_image_fst set_map)
  then show "side_diff s old new = []"
    using eq by (simp add: side_diff_def best_first_def filter_empty_conv)
qed




text \<open>
  C35. A refused call, whatever was wrong with it, leaves the stream and the engine as they were: the
  book, the times, the statistics and what was sent.
\<close>

theorem refused_call_changes_nothing:
  assumes "mk_stream mode pol d = Inr str0" and "perform_all clk sink cs str0 e0 = (str, e)"
    and "perform clk sink c str e = (Some (BookValueError err), str', e')"
  shows "str' = str \<and> e' = e"
  using perform_books(3) [OF assms(3)] perform_all_books [OF assms(2)] mk_stream_start(1) [OF assms(1)] by simp

text \<open>
  C36. Over any sequence of calls the times of a side's updates never go back, and no update carries
  more levels than the engine's depth.
\<close>

theorem stream_times_and_sizes:
  assumes "mk_stream mode pol d = Inr str0"
    and "perform_all clk (logged sink) cs str0 (e0, []) = (str, e, sent)"
  shows "sorted (times_of s sent) \<and> (\<forall>msg \<in> set sent. length (levels_of_message msg) \<le> max_levels str0)"
  using perform_all_log [OF assms(2)] perform_all_books [OF assms(2)] mk_stream_start [OF assms(1)]
  by (auto simp: log_ok_def)


text \<open>A run to apply the theorems to: an engine that accepts everything but the time 13.\<close>

definition book_clocks :: clocks where
  "book_clocks = \<lparr>policy_clock = (\<lambda>n. of_nat n), wall_clock_ns = (\<lambda>n. int n)\<rparr>"

definition book_sink :: "(side \<Rightarrow> engine_side) sink" where
  "book_sink e msg = (if time_of_message msg = 13 then (False, e) else (True, engine_step msg e))"

definition book_stream :: stream where
  "book_stream = \<lparr>full_mode = False, policy = \<lparr>r_updates = 1000, r_seconds = 60\<rparr>, max_levels = 2,
     side_st = (\<lambda>_. new_side), stats = no_stats, clock_reads = 0, wall_reads = 0\<rparr>"

lemma book_stream_made: "mk_stream (lit ''incremental'') \<lparr>r_updates = 1000, r_seconds = 60\<rparr> (PInt 2) = Inr book_stream"
  by (simp add: mk_stream_def book_stream_def)

lemma book_sink_applies: "sink_applies depth (\<lambda>e. e) book_sink"
proof -
  have "engine_step msg e s = e s" if "s \<noteq> side_of_message msg" for msg e s
    using that by (cases msg) auto
  then show ?thesis by (auto simp: sink_applies_def book_sink_def split: if_splits)
qed

definition first_call :: stream_call where
  "first_call = UpdateCall (lit ''bid'') [[PInt 10, PInt 5, PInt 1]] (PInt 12)"

lemmas book_run_simps = first_call_def update_def side_of_def whole_side_def level_of_def stamp_def
  MAX_TIMESTAMP_NS_def update_checked_def due_def counted_def send_whole_def levels_of_def best_first_def
  entry_def book_sink_def book_stream_def new_side_def refused_def logged_def


theorem refused_call_changes_nothing_witness:
  "perform book_clocks book_sink (UpdateCall (lit ''bid'') [[PInt 1, PInt 0, PInt 0]] PNone) book_stream (\<lambda>_. Map.empty)
     = (Some (BookValueError ''a quantity of 0''), book_stream, \<lambda>_. Map.empty)"
proof -
  obtain str e where p: "perform book_clocks book_sink (UpdateCall (lit ''bid'') [[PInt 1, PInt 0, PInt 0]] PNone)
      book_stream (\<lambda>_. Map.empty) = (Some (BookValueError ''a quantity of 0''), str, e)"
    by (simp add: update_def side_of_def whole_side_def level_of_def refused_def)
  have "perform_all book_clocks book_sink [] book_stream (\<lambda>_. Map.empty) = (book_stream, \<lambda>_. Map.empty)" by simp
  from refused_call_changes_nothing [OF book_stream_made this p] p show ?thesis by simp
qed

theorem stream_times_and_sizes_witness:
  "\<exists>str e sent. perform_all book_clocks (logged book_sink) [first_call] book_stream (\<lambda>_. Map.empty, []) = (str, e, sent) \<and>
     sent = [Whole Bid [(10, 5, 1)] 12] \<and> sorted (times_of Bid sent)"
proof -
  obtain str e sent where p: "perform_all book_clocks (logged book_sink) [first_call] book_stream
      (\<lambda>_. Map.empty, []) = (str, e, sent)"
    by (metis prod_cases3)
  moreover from this have "sent = [Whole Bid [(10, 5, 1)] 12]"
    by (auto simp: book_run_simps Let_def)
  moreover have "sorted (times_of Bid sent)"
    using stream_times_and_sizes [OF book_stream_made p] by blast
  ultimately show ?thesis by blast
qed

end
