(* ===== verification/Physical.thy ===== *)
theory Physical
  imports Loader
begin

text \<open>
  The physical design vocabulary a placement map can carry (\<open>physical.py\<close>): the order of a key, a
  time partition and index methods, checked where the map arrives, and the reading of names back
  from ClickHouse's catalogue. The place an error was found at (\<open>where\<close>) is left out of the error.
\<close>

section \<open>Errors and layouts\<close>

datatype layout_error =
    NoColumnType
  | LayoutValueError
  | NotAnIndexName
  | FixedMismatch
  | LayoutKeyError

datatype map_error = MapError string | MapCanonical canonical_error | MapGroups uf_error | MapShapes shape_error
  | MapDeclaration declaration_error | MapLayout layout_error

abbreviation map_error :: "string \<Rightarrow> map_error + 'a" where
  "map_error what \<equiv> Inl (MapError what)"

type_synonym index = "(ustring \<times> pyval) list"

record physical_layout =
  tables :: "(ustring, ustring) dict"
  columns :: "(ustring, (ustring, ustring) dict) dict"
  indexes :: "index list"
  partition_by :: "(ustring, ustring \<times> ustring) dict"
  key_order :: "(ustring, ustring list) dict"

section \<open>The vocabulary\<close>

definition PHYSICAL_DESIGN_SINCE :: int where
  "PHYSICAL_DESIGN_SINCE = 5"

definition GRANULARITIES :: "ustring list" where
  "GRANULARITIES = map lit [''day'', ''month'', ''year'']"

definition TEMPORAL_TYPES :: "ustring list" where
  "TEMPORAL_TYPES = map lit [''date'', ''timestamptz'']"

definition POSTGRES_METHODS :: "ustring list" where
  "POSTGRES_METHODS = map lit [''brin'', ''btree'']"

definition CLICKHOUSE_METHODS :: "ustring list" where
  "CLICKHOUSE_METHODS = map lit [''bloom_filter'', ''minmax'', ''set'']"

definition INDEX_METHODS :: "ustring list" where
  "INDEX_METHODS = sort (POSTGRES_METHODS @ CLICKHOUSE_METHODS)"

definition LEGACY_INDEX_KEYS :: "ustring set" where
  "LEGACY_INDEX_KEYS = {lit ''entity'', lit ''name'', lit ''columns''}"

definition INDEX_KEYS :: "ustring set" where
  "INDEX_KEYS = LEGACY_INDEX_KEYS \<union> {lit ''method'', lit ''granularity'', lit ''max_rows''}"

definition PARTITION_FUNCTIONS :: "(ustring, ustring) dict" where
  "PARTITION_FUNCTIONS = [(lit ''day'', lit ''toDate''), (lit ''month'', lit ''toYYYYMM''), (lit ''year'', lit ''toYear'')]"

section \<open>Parsing\<close>

fun nonempty_str :: "pyval \<Rightarrow> bool" where
  "nonempty_str (PStr s) \<longleftrightarrow> s \<noteq> []"
| "nonempty_str _ \<longleftrightarrow> False"

definition key_order_entry :: "(ustring, ustring) dict \<Rightarrow> ustring \<times> pyval \<Rightarrow> map_error + ustring \<times> ustring list" where
  "key_order_entry tbls = (\<lambda>(entity, cols).
     if entity \<notin> set (keys tbls) then map_error ''key_order names an entity without a table''
     else case cols of
            PList cs \<Rightarrow>
              if cs = [] \<or> \<not> list_all nonempty_str cs then map_error ''key_order is a list of column names''
              else if \<not> distinct (map str_of cs) then map_error ''key_order names a column twice''
              else Inr (entity, map str_of cs)
          | _ \<Rightarrow> map_error ''key_order is a list of column names'')"

definition parse_key_order :: "pyval \<Rightarrow> (ustring, ustring) dict \<Rightarrow> map_error + (ustring, ustring list) dict" where
  "parse_key_order raw tbls =
     (case raw of
        PDict d \<Rightarrow> traverse (key_order_entry tbls) (sort_key fst d)
      | _ \<Rightarrow> map_error ''key_order maps an entity to its key columns'')"

definition partition_entry ::
  "(ustring, ustring) dict \<Rightarrow> ustring \<times> pyval \<Rightarrow> map_error + ustring \<times> (ustring \<times> ustring)" where
  "partition_entry tbls = (\<lambda>(entity, spec).
     if entity \<notin> set (keys tbls) then map_error ''partition_by names an entity without a table''
     else case spec of
            PDict d \<Rightarrow>
              if set (keys d) \<noteq> {lit ''field'', lit ''granularity''} then map_error ''partition_by keys''
              else if \<not> nonempty_str (dict_get d ''field'') then map_error ''partition_by field''
              else (case dict_get d ''granularity'' of
                      PStr g \<Rightarrow> if g \<in> set GRANULARITIES then Inr (entity, (str_of (dict_get d ''field''), g))
                                else map_error ''partition_by granularity''
                    | _ \<Rightarrow> map_error ''partition_by granularity'')
          | _ \<Rightarrow> map_error ''partition_by keys'')"

definition parse_partition_by ::
  "pyval \<Rightarrow> (ustring, ustring) dict \<Rightarrow> map_error + (ustring, ustring \<times> ustring) dict" where
  "parse_partition_by raw tbls =
     (case raw of
        PDict d \<Rightarrow> traverse (partition_entry tbls) (sort_key fst d)
      | _ \<Rightarrow> map_error ''partition_by maps an entity to a field and a granularity'')"

text \<open>\<open>_integer(value) and low <= value <= high\<close>\<close>

fun int_within :: "int \<Rightarrow> int \<Rightarrow> pyval \<Rightarrow> bool" where
  "int_within low high (PInt i) \<longleftrightarrow> low \<le> i \<and> i \<le> high"
| "int_within low high _ \<longleftrightarrow> False"

text \<open>The structural half of an index: its entity, its name and its columns.\<close>

definition index_structure ::
  "(ustring, ustring) dict \<Rightarrow> (ustring, (ustring, ustring) dict) dict \<Rightarrow> ustring set \<Rightarrow> index \<Rightarrow> map_error + unit" where
  "index_structure tbls coldecl names idx =
     (case dict_get idx ''entity'' of
        PStr entity \<Rightarrow>
          if entity \<notin> set (keys tbls) then map_error ''index entity''
          else if \<not> nonempty_str (dict_get idx ''name'') then map_error ''index name''
          else if str_of (dict_get idx ''name'') \<in> names then map_error ''index name reused''
          else (case dict_get idx ''columns'' of
                  PList cs \<Rightarrow>
                    if cs = [] \<or> \<not> list_all nonempty_str cs \<or> \<not> distinct (map str_of cs)
                    then map_error ''index columns''
                    else (case map_of coldecl entity of
                            Some types \<Rightarrow>
                              if types \<noteq> [] \<and> list_ex (\<lambda>c. str_of c \<notin> set (keys types)) cs
                              then map_error ''index on a missing column'' else Inr ()
                          | None \<Rightarrow> Inr ())
                | _ \<Rightarrow> map_error ''index columns'')
      | _ \<Rightarrow> map_error ''index entity'')"

text \<open>The method of an index and the keys that belong to it.\<close>

definition index_method_check :: "index \<Rightarrow> map_error + unit" where
  "index_method_check idx =
     (let m = (case map_of idx (lit ''method'') of None \<Rightarrow> PStr (lit ''btree'') | Some v \<Rightarrow> v);
          cols = length (strings_of (dict_get idx ''columns''))
      in if \<not> (is_str m \<and> str_of m \<in> set INDEX_METHODS) then map_error ''index method''
         else if str_of m \<in> set CLICKHOUSE_METHODS \<and> \<not> int_within 1 1024 (dict_get idx ''granularity'')
         then map_error ''index granularity''
         else if str_of m \<in> set CLICKHOUSE_METHODS \<and> cols \<noteq> 1 then map_error ''index of one column''
         else if str_of m \<notin> set CLICKHOUSE_METHODS \<and> lit ''granularity'' \<in> set (keys idx)
         then map_error ''granularity belongs to data-skipping indexes''
         else if str_of m = lit ''set'' \<and> \<not> int_within 1 65536 (dict_get idx ''max_rows'')
         then map_error ''index max_rows''
         else if str_of m \<noteq> lit ''set'' \<and> lit ''max_rows'' \<in> set (keys idx)
         then map_error ''max_rows belongs to set indexes''
         else Inr ())"

fun parse_index_list ::
  "(ustring, ustring) dict \<Rightarrow> (ustring, (ustring, ustring) dict) dict \<Rightarrow> int \<Rightarrow> ustring set \<Rightarrow> pyval list \<Rightarrow>
     map_error + index list" where
  "parse_index_list tbls coldecl contract names [] = Inr []"
| "parse_index_list tbls coldecl contract names (raw # raws) =
     (case raw of
        PDict idx \<Rightarrow>
          let allowed = (if contract \<ge> PHYSICAL_DESIGN_SINCE then INDEX_KEYS else LEGACY_INDEX_KEYS)
          in if \<not> set (keys idx) \<subseteq> allowed then map_error ''index keys''
             else and_then (index_structure tbls coldecl names idx) (\<lambda>_.
                  and_then (index_method_check idx) (\<lambda>_.
                  and_then (parse_index_list tbls coldecl contract
                              (insert (str_of (dict_get idx ''name'')) names) raws) (\<lambda>rest.
                    Inr (idx # rest))))
      | _ \<Rightarrow> map_error ''an index is an object'')"

definition parse_indexes ::
  "pyval \<Rightarrow> (ustring, ustring) dict \<Rightarrow> (ustring, (ustring, ustring) dict) dict \<Rightarrow> int \<Rightarrow> map_error + index list" where
  "parse_indexes raw tbls coldecl contract =
     (case raw of
        PNone \<Rightarrow> Inr []
      | PList raws \<Rightarrow> parse_index_list tbls coldecl contract {} raws
      | _ \<Rightarrow> map_error ''indexes is a list'')"

section \<open>The rules that need the model\<close>

definition check_against_model ::
  "ustring list \<Rightarrow> (ustring, ustring) dict \<Rightarrow> ustring list option \<Rightarrow> (ustring \<times> ustring) option \<Rightarrow> map_error + unit"
where
  "check_against_model key field_types ordered part =
     (if (case ordered of None \<Rightarrow> False | Some o' \<Rightarrow> sort o' \<noteq> sort key) then map_error ''key_order is not the key''
      else case part of
             None \<Rightarrow> Inr ()
           | Some (field_name, _) \<Rightarrow>
               if field_name \<notin> set key then map_error ''partition_by outside the key''
               else (case map_of field_types field_name of
                       Some kind \<Rightarrow> require (kind \<in> set TEMPORAL_TYPES) (MapError ''partition_by needs a time'')
                     | None \<Rightarrow> map_error ''partition_by needs a time''))"

definition effective_key ::
  "ustring \<Rightarrow> ustring list \<Rightarrow> (ustring, ustring list) dict \<Rightarrow> map_error + ustring list" where
  "effective_key entity key orders =
     (case map_of orders entity of
        None \<Rightarrow> Inr key
      | Some ordered \<Rightarrow> if sort ordered \<noteq> sort key then map_error ''key_order is not the key'' else Inr ordered)"

definition partition_expression ::
  "ustring list \<Rightarrow> (ustring \<times> ustring) option \<Rightarrow> map_error + (ustring \<times> ustring) option" where
  "partition_expression key part =
     (case part of
        None \<Rightarrow> Inr None
      | Some (field_name, granularity) \<Rightarrow>
          if field_name \<notin> set key then map_error ''partition_by outside the key''
          else (case map_of PARTITION_FUNCTIONS granularity of
                  None \<Rightarrow> map_error ''KeyError''
                | Some f \<Rightarrow> Inr (Some (f, field_name))))"

section \<open>Reading names back from the catalogue\<close>

definition quote_backtick :: "ustring \<Rightarrow> ustring" where
  "quote_backtick identifier =
     [96] @ concat (map (\<lambda>c. if c = 92 \<or> c = 96 then [92, c] else [c]) identifier) @ [96]"

text \<open>The inside of a quoted name, to its closing backtick: the name and the rest of the text.\<close>

fun quoted_name :: "ustring \<Rightarrow> (ustring \<times> ustring) option" where
  "quoted_name [] = None"
| "quoted_name (c # s) =
     (if c = 92 then
        (case s of [] \<Rightarrow> None | d # s' \<Rightarrow> map_option (\<lambda>(n, r). (d # n, r)) (quoted_name s'))
      else if c = 96 then Some ([], s)
      else map_option (\<lambda>(n, r). (c # n, r)) (quoted_name s))"

definition bare_start :: "nat \<Rightarrow> bool" where
  "bare_start c \<longleftrightarrow> (65 \<le> c \<and> c \<le> 90) \<or> (97 \<le> c \<and> c \<le> 122) \<or> c = 95"

definition bare_char :: "nat \<Rightarrow> bool" where
  "bare_char c \<longleftrightarrow> bare_start c \<or> (48 \<le> c \<and> c \<le> 57)"

definition bare_name :: "ustring \<Rightarrow> (ustring \<times> ustring) option" where
  "bare_name s = (case s of
     [] \<Rightarrow> None
   | c # r \<Rightarrow> if bare_start c then Some (c # takeWhile bare_char r, dropWhile bare_char r) else None)"

definition one_name :: "ustring \<Rightarrow> (ustring \<times> ustring) option" where
  "one_name s = (case s of [] \<Rightarrow> None | c # r \<Rightarrow> if c = 96 then quoted_name r else bare_name s)"

lemma quoted_name_shorter: "quoted_name s = Some (n, r) \<Longrightarrow> length r < length s"
proof (induction s arbitrary: n rule: quoted_name.induct)
  case (2 c s)
  then show ?case by (fastforce split: if_splits list.splits)
qed simp

lemma one_name_shorter: "one_name s = Some (n, r) \<Longrightarrow> length r < length s"
  by (auto simp: one_name_def bare_name_def split: list.splits if_splits
      dest!: quoted_name_shorter intro: le_less_trans [OF length_dropWhile_le])

text \<open>\<open>_parse_names\<close>: the text from the current position on; \<open>None\<close> is the \<open>ValueError\<close>.\<close>

function parse_names :: "ustring \<Rightarrow> ustring list option" where
  "parse_names s =
     (if s = [] then Some []
      else case one_name s of
             None \<Rightarrow> None
           | Some (n, r) \<Rightarrow>
               if r = [] then Some [n]
               else if take 2 r = [44, 32] \<and> length r > 2 then map_option ((#) n) (parse_names (drop 2 r))
               else None)"
  by pat_completeness auto
termination
  by (relation "measure length") (auto dest: one_name_shorter)

declare parse_names.simps [simp del]

definition parenthesised :: "ustring \<Rightarrow> ustring option" where
  "parenthesised s = (if length s < 3 \<or> hd s \<noteq> 40 \<or> last s \<noteq> 41 then None else Some (butlast (tl s)))"

definition parse_identifier_list :: "ustring \<Rightarrow> ustring list option" where
  "parse_identifier_list s = (case parenthesised s of None \<Rightarrow> parse_names s | Some inner \<Rightarrow> parse_names inner)"

section \<open>Names written in backticks are read back\<close>

lemma quoted_name_quote:
  "quoted_name (concat (map (\<lambda>c. if c = 92 \<or> c = 96 then [92, c] else [c]) n) @ 96 # r) = Some (n, r)"
  by (induction n) auto

lemma one_name_quote: "one_name (quote_backtick n @ r) = Some (n, r)"
  using quoted_name_quote [of n r] by (simp add: one_name_def quote_backtick_def)

text \<open>\<open>", ".join(...)\<close>\<close>

fun comma_space_join :: "ustring list \<Rightarrow> ustring" where
  "comma_space_join [] = []"
| "comma_space_join [x] = x"
| "comma_space_join (x # y # zs) = x @ [44, 32] @ comma_space_join (y # zs)"

lemma quote_backtick_nonempty [simp]: "quote_backtick n \<noteq> []"
  by (simp add: quote_backtick_def)

lemma comma_space_join_nonempty: "ns \<noteq> [] \<Longrightarrow> comma_space_join (map quote_backtick ns) \<noteq> []"
  by (cases "map quote_backtick ns" rule: comma_space_join.cases) auto

lemma parse_names_quoted: "parse_names (comma_space_join (map quote_backtick ns)) = Some ns"
proof (induction ns)
  case (Cons n ns)
  show ?case
  proof (cases ns)
    case Nil
    then show ?thesis using one_name_quote [of n "[]"] by (simp add: parse_names.simps)
  next
    case (Cons m ms)
    let ?rest = "comma_space_join (map quote_backtick ns)"
    have "comma_space_join (map quote_backtick (n # ns)) = quote_backtick n @ [44, 32] @ ?rest"
      using Cons by simp
    moreover have "?rest \<noteq> []" using Cons comma_space_join_nonempty [of ns] by simp
    ultimately show ?thesis
      using one_name_quote [of n "[44, 32] @ ?rest"] Cons.IH
      by (simp add: parse_names.simps [of "quote_backtick n @ _"])
  qed
qed (simp add: parse_names.simps)

lemma hd_join_quoted: "ns \<noteq> [] \<Longrightarrow> hd (comma_space_join (map quote_backtick ns)) = 96"
  by (cases "map quote_backtick ns" rule: comma_space_join.cases) (auto simp: quote_backtick_def)

text \<open>
  A list of names written the way the library writes them, each in backticks with the backtick and
  the backslash escaped, alone or in one pair of parentheses, is read back as those names.
\<close>

theorem identifier_list_round_trip:
  "parse_identifier_list (comma_space_join (map quote_backtick ns)) = Some ns \<and>
   parse_identifier_list ([40] @ comma_space_join (map quote_backtick (n # ns)) @ [41]) = Some (n # ns)"
proof
  have "parenthesised (comma_space_join (map quote_backtick ns)) = None"
    using hd_join_quoted [of ns] by (cases "ns = []") (auto simp: parenthesised_def)
  then show "parse_identifier_list (comma_space_join (map quote_backtick ns)) = Some ns"
    by (simp add: parse_identifier_list_def parse_names_quoted)
  have "comma_space_join (map quote_backtick (n # ns)) \<noteq> []" by (rule comma_space_join_nonempty) simp
  then have "parenthesised ([40] @ comma_space_join (map quote_backtick (n # ns)) @ [41]) =
      Some (comma_space_join (map quote_backtick (n # ns)))"
    by (cases "comma_space_join (map quote_backtick (n # ns))") (auto simp: parenthesised_def)
  then show "parse_identifier_list ([40] @ comma_space_join (map quote_backtick (n # ns)) @ [41]) = Some (n # ns)"
    using parse_names_quoted [of "n # ns"] by (simp add: parse_identifier_list_def)
qed

section \<open>A physical design keeps the key\<close>

lemma sort_eq_mset: "sort xs = sort ys \<longleftrightarrow> mset xs = mset ys"
  by (metis mset_sort sort_key_eq_of_mset_eq inj_on_id2 id_apply inj_on_def)

text \<open>
  A key order and a partition that passed the check against the model leave the identity of a row
  alone: the physical key exists and is a rearrangement of the declared key, and the partition is
  computed by a known function from one of the key's own columns, which is a date or a zoned time.
\<close>

theorem physical_design_keeps_the_key:
  assumes "check_against_model key field_types (map_of orders entity) part = Inr ()"
    and "\<forall>f g. part = Some (f, g) \<longrightarrow> g \<in> set GRANULARITIES"
  shows "(\<exists>ordered. effective_key entity key orders = Inr ordered \<and> mset ordered = mset key) \<and>
    (\<exists>expr. partition_expression key part = Inr expr \<and>
      (case part of None \<Rightarrow> expr = None
       | Some (f, g) \<Rightarrow> f \<in> set key \<and> (\<exists>kind \<in> set TEMPORAL_TYPES. map_of field_types f = Some kind) \<and>
           (\<exists>fn. expr = Some (fn, f))))"
proof
  show "\<exists>ordered. effective_key entity key orders = Inr ordered \<and> mset ordered = mset key"
    using assms(1)
    by (auto simp: check_against_model_def effective_key_def sort_eq_mset split: option.splits if_splits)
  show "\<exists>expr. partition_expression key part = Inr expr \<and>
      (case part of None \<Rightarrow> expr = None
       | Some (f, g) \<Rightarrow> f \<in> set key \<and> (\<exists>kind \<in> set TEMPORAL_TYPES. map_of field_types f = Some kind) \<and>
           (\<exists>fn. expr = Some (fn, f)))"
    using assms
    by (auto simp: check_against_model_def partition_expression_def PARTITION_FUNCTIONS_def GRANULARITIES_def
        require_Inr split: option.splits if_splits)
qed

theorem physical_design_keeps_the_key_witness:
  "effective_key [69] [[97], [98]] [([69], [[98], [97]])] = Inr [[98], [97]] \<and>
   partition_expression [[97], [98]] (Some ([98], lit ''month'')) = Inr (Some (lit ''toYYYYMM'', [98]))"
proof -
  have "check_against_model [[97], [98]] [([97], lit ''int64''), ([98], lit ''date'')]
      (map_of [([69::nat], [[98], [97]])] [69]) (Some ([98], lit ''month'')) = Inr ()"
    by code_simp
  from physical_design_keeps_the_key [OF this] have
    "\<exists>ordered. effective_key [69] [[97], [98]] [([69], [[98], [97]])] = Inr ordered \<and> mset ordered = mset [[97], [98]]"
    by (simp add: GRANULARITIES_def)
  then have "\<exists>ordered. effective_key [69] [[97], [98]] [([69], [[98], [97]])] = Inr ordered" by blast
  then show ?thesis by (auto simp: effective_key_def partition_expression_def PARTITION_FUNCTIONS_def split: if_splits)
qed

end
