(* ===== verification/Layout.thy ===== *)
theory Layout
  imports Physical
begin

text \<open>
  The obvious schema of a group in one engine (\<open>layout.py\<close>): the columns a group's tables need, the
  column type of each neutral type per dialect, the fixed shape of the orderbook engine and the
  layout derived from them. \<open>str.lower\<close> and Unicode normalisation are parameters of \<open>snake_case\<close>; a
  message is a value that says which refusal it is.
\<close>

datatype dialect = Postgres | Clickhouse | Orderbook | Elasticsearch

definition POSTGRES_TYPES :: "(ustring, ustring) dict" where
  "POSTGRES_TYPES = map (\<lambda>(a, b). (lit a, lit b))
     [(''bool'', ''boolean''), (''int32'', ''integer''), (''int64'', ''bigint''), (''float32'', ''real''),
      (''float64'', ''double precision''), (''string'', ''text''), (''bytes'', ''bytea''), (''uuid'', ''uuid''),
      (''date'', ''date''), (''timestamp'', ''timestamp''), (''timestamptz'', ''timestamptz''), (''json'', ''jsonb'')]"

definition CLICKHOUSE_TYPES :: "(ustring, ustring) dict" where
  "CLICKHOUSE_TYPES = map (\<lambda>(a, b). (lit a, lit b))
     [(''bool'', ''Bool''), (''int32'', ''Int32''), (''int64'', ''Int64''), (''float32'', ''Float32''),
      (''float64'', ''Float64''), (''string'', ''String''), (''uuid'', ''UUID''), (''date'', ''Date32''),
      (''timestamp'', ''DateTime64(6)''), (''timestamptz'', ''DateTime64(6, '' @ [CHR 0x27] @ ''UTC'' @ [CHR 0x27] @ '')'')]"

definition ORDERBOOK_TYPES :: "(ustring, ustring) dict" where
  "ORDERBOOK_TYPES = map (\<lambda>(a, b). (lit a, lit b))
     [(''string'', ''char*''), (''int32'', ''uint32_t''), (''int64'', ''int64_t'')]"

definition ELASTICSEARCH_TYPES :: "(ustring, ustring) dict" where
  "ELASTICSEARCH_TYPES = map (\<lambda>(a, b). (lit a, lit b))
     [(''bool'', ''boolean''), (''int32'', ''integer''), (''int64'', ''long''), (''float32'', ''float''),
      (''float64'', ''double''), (''string'', ''keyword''), (''uuid'', ''keyword/uuid''), (''date'', ''date''),
      (''timestamp'', ''long/timestamp''), (''timestamptz'', ''long/timestamptz'')]"

fun dialect_types :: "dialect \<Rightarrow> (ustring, ustring) dict" where
  "dialect_types Postgres = POSTGRES_TYPES"
| "dialect_types Clickhouse = CLICKHOUSE_TYPES"
| "dialect_types Orderbook = ORDERBOOK_TYPES"
| "dialect_types Elasticsearch = ELASTICSEARCH_TYPES"

text \<open>\<open>_DECIMAL[dialect].format(digits=..., scale=...)\<close>, where the dialect has one.\<close>

fun decimal_type :: "dialect \<Rightarrow> ustring \<Rightarrow> ustring \<Rightarrow> ustring option" where
  "decimal_type Postgres digits scale = Some (lit ''numeric('' @ digits @ [44] @ scale @ [41])"
| "decimal_type Clickhouse digits scale = Some (lit ''Decimal('' @ digits @ [44, 32] @ scale @ [41])"
| "decimal_type Orderbook digits scale = None"
| "decimal_type Elasticsearch digits scale = Some (lit ''long/decimal('' @ digits @ [44] @ scale @ [41])"

fun decimal_limit :: "dialect \<Rightarrow> nat option" where
  "decimal_limit Elasticsearch = Some 18"
| "decimal_limit _ = None"

text \<open>
  \<open>_column_type\<close>. The body of a decimal must split in two at its comma; its digits are read with
  \<open>int\<close> only where the dialect has a limit.
\<close>

definition column_type :: "unicode \<Rightarrow> ustring \<Rightarrow> dialect \<Rightarrow> layout_error + ustring" where
  "column_type u neutral dialect =
     (if starts_with neutral (lit ''decimal('') then
        (case split_on 44 (butlast (drop 8 neutral)) of
           [digits, scale] \<Rightarrow>
             (case decimal_limit dialect of
                Some limit \<Rightarrow>
                  (case (if isdigit u (strip u digits) then py_int u digits else Inl ValueError) of
                     Inl _ \<Rightarrow> Inl LayoutValueError
                   | Inr n \<Rightarrow>
                       if n > limit then Inl NoColumnType
                       else (case decimal_type dialect digits scale of None \<Rightarrow> Inl NoColumnType | Some t \<Rightarrow> Inr t))
              | None \<Rightarrow> (case decimal_type dialect digits scale of None \<Rightarrow> Inl NoColumnType | Some t \<Rightarrow> Inr t))
         | _ \<Rightarrow> Inl LayoutValueError)
      else case map_of (dialect_types dialect) neutral of None \<Rightarrow> Inl NoColumnType | Some t \<Rightarrow> Inr t)"

text \<open>\<open>can_store\<close>: \<open>False\<close> for a \<open>DeclarationError\<close>, and any other exception passes through.\<close>

definition can_store :: "unicode \<Rightarrow> ustring \<Rightarrow> dialect \<Rightarrow> layout_error + bool" where
  "can_store u neutral dialect =
     (case column_type u neutral dialect of
        Inr t \<Rightarrow> Inr True
      | Inl NoColumnType \<Rightarrow> Inr False
      | Inl e \<Rightarrow> Inl e)"

section \<open>Names\<close>

definition lower_or_digit :: "nat \<Rightarrow> bool" where
  "lower_or_digit c \<longleftrightarrow> (97 \<le> c \<and> c \<le> 122) \<or> (48 \<le> c \<and> c \<le> 57)"

definition upper_ascii :: "nat \<Rightarrow> bool" where
  "upper_ascii c \<longleftrightarrow> 65 \<le> c \<and> c \<le> 90"

definition lower_ascii :: "nat \<Rightarrow> bool" where
  "lower_ascii c \<longleftrightarrow> 97 \<le> c \<and> c \<le> 122"

text \<open>\<open>_CAMEL_BOUNDARY.sub("_", s)\<close>: an underscore at every empty match between two characters.\<close>

fun camel_split :: "ustring \<Rightarrow> ustring" where
  "camel_split (a # b # s) =
     (if (lower_or_digit a \<and> upper_ascii b) \<or>
         (upper_ascii a \<and> upper_ascii b \<and> (case s of c # _ \<Rightarrow> lower_ascii c | [] \<Rightarrow> False))
      then a # 95 # camel_split (b # s) else a # camel_split (b # s))"
| "camel_split s = s"

definition snake_case :: "(ustring \<Rightarrow> ustring) \<Rightarrow> (ustring \<Rightarrow> ustring) \<Rightarrow> ustring \<Rightarrow> ustring" where
  "snake_case nfc lower name = lower (camel_split (nfc name))"

definition INDEX_NAME_LIMIT :: nat where
  "INDEX_NAME_LIMIT = 255"

text \<open>Whether a name is refused as an Elasticsearch index; a surrogate makes \<open>encode\<close> raise.\<close>

definition index_name_refused :: "(ustring \<Rightarrow> ustring) \<Rightarrow> ustring \<Rightarrow> layout_error + bool" where
  "index_name_refused lower name =
     (if name = [] \<or> name = [46] \<or> name = [46, 46] then Inr True
      else if name \<noteq> lower name then Inr True
      else if hd name \<in> {45, 95, 43} then Inr True
      else if set name \<inter> set (lit [CHR 0x5C, CHR 0x2F, CHR 0x2A, CHR 0x3F, CHR 0x22, CHR 0x3C, CHR 0x3E, CHR 0x7C,
                                   CHR 0x2C, CHR 0x23, CHR 0x20, CHR 0x3A]) \<noteq> {} then Inr True
      else case utf8 name of Inl _ \<Rightarrow> Inl LayoutValueError | Inr bs \<Rightarrow> Inr (length bs > INDEX_NAME_LIMIT))"

section \<open>Columns\<close>

text \<open>\<open>model.entity(name)\<close>, which raises \<open>KeyError\<close>\<close>

definition the_entity :: "logical_model \<Rightarrow> ustring \<Rightarrow> layout_error + entity_spec" where
  "the_entity m name = (case entity_of m name of None \<Rightarrow> Inl LayoutKeyError | Some s \<Rightarrow> Inr s)"

text \<open>The foreign key columns of one relation: \<open><relation>_<key field>\<close> with the key field's type.\<close>

definition relation_columns :: "logical_model \<Rightarrow> relation_spec \<Rightarrow> layout_error + (ustring \<times> ustring) list" where
  "relation_columns m rel =
     and_then (the_entity m (rtarget rel)) (\<lambda>target.
       traverse (\<lambda>k. case List.find (\<lambda>f. fname f = k) (efields target) of
                       None \<Rightarrow> Inl LayoutKeyError
                     | Some f \<Rightarrow> Inr (rname rel @ [95] @ k, ftype f)) (ekey target))"

definition entity_columns :: "logical_model \<Rightarrow> ustring \<Rightarrow> layout_error + (ustring, ustring) dict" where
  "entity_columns m name =
     and_then (the_entity m name) (\<lambda>spec.
     and_then (traverse (relation_columns m) (filter (\<lambda>r. rsource r = name) (mrelations m))) (\<lambda>rels.
       Inr (fold (\<lambda>(k, v) d. AList.update k v d) (concat rels)
              (fold (\<lambda>f d. AList.update (fname f) (ftype f) d) (efields spec) []))))"

definition neutral_columns :: "logical_model \<Rightarrow> group \<Rightarrow> layout_error + (ustring, (ustring, ustring) dict) dict" where
  "neutral_columns m g =
     traverse (\<lambda>name. and_then (entity_columns m name) (\<lambda>cols. Inr (name, cols))) (gmembers g)"

definition group_nullable :: "logical_model \<Rightarrow> group \<Rightarrow> layout_error + (ustring, ustring set) dict" where
  "group_nullable m g =
     traverse (\<lambda>name. and_then (the_entity m name) (\<lambda>spec.
       Inr (name, fname ` set (filter fnullable (efields spec))))) (gmembers g)"

definition stored_types :: "logical_model \<Rightarrow> group \<Rightarrow> layout_error + ustring list" where
  "stored_types m g =
     and_then (neutral_columns m g) (\<lambda>cols. Inr (sort (remdups (concat (map (\<lambda>(_, c). vals c) cols)))))"

section \<open>The engine with a fixed schema\<close>

definition ORDERBOOK_SHAPE :: "(ustring, ustring) dict" where
  "ORDERBOOK_SHAPE = map (\<lambda>(a, b). (lit a, lit b))
     [(''symbol'', ''string''), (''exchange'', ''string''), (''timestamp_ns'', ''int64''), (''side'', ''string''),
      (''level'', ''int32''), (''price'', ''int64''), (''quantity'', ''int64''), (''order_count'', ''int32''),
      (''sequence_number'', ''int64'')]"

definition ORDERBOOK_NULLABLE :: "ustring set" where
  "ORDERBOOK_NULLABLE = {lit ''sequence_number''}"

definition ORDERBOOK_TABLE :: ustring where
  "ORDERBOOK_TABLE = lit ''orderbook''"

text \<open>Whether a group cannot live in the orderbook engine: \<open>fixed_schema_mismatch\<close> returns a reason.\<close>

definition fixed_schema_mismatch ::
  "(ustring, (ustring, ustring) dict) dict \<Rightarrow> (ustring, ustring set) dict \<Rightarrow> bool" where
  "fixed_schema_mismatch cols nullable =
     (case cols of
        [(entity, coldecl)] \<Rightarrow>
          let shape = set (keys ORDERBOOK_SHAPE); has = set (keys coldecl);
              nulls = (case map_of nullable entity of None \<Rightarrow> {} | Some n \<Rightarrow> n) \<inter> shape
          in \<not> (shape - has = {} \<and> has - shape = {} \<and>
                (\<forall>name \<in> shape \<inter> has. map_of coldecl name = map_of ORDERBOOK_SHAPE name) \<and>
                nulls - ORDERBOOK_NULLABLE = {} \<and> (ORDERBOOK_NULLABLE \<inter> has) - nulls = {})
      | _ \<Rightarrow> True)"

section \<open>The default layout\<close>

definition typed_columns ::
  "unicode \<Rightarrow> dialect \<Rightarrow> (ustring, ustring) dict \<Rightarrow> layout_error + (ustring, ustring) dict" where
  "typed_columns u dialect cols =
     traverse (\<lambda>(column, neutral). and_then (column_type u neutral dialect) (\<lambda>t. Inr (column, t))) cols"

text \<open>The ClickHouse loop that wraps the optional fields outside the key in \<open>Nullable\<close>.\<close>

definition wrap_nullable :: "entity_spec \<Rightarrow> (ustring, ustring) dict \<Rightarrow> (ustring, ustring) dict" where
  "wrap_nullable spec cols =
     fold (\<lambda>f d. if fnullable f \<and> fname f \<notin> set (ekey spec)
                 then (case map_of d (fname f) of
                         None \<Rightarrow> d
                       | Some t \<Rightarrow> AList.update (fname f) (lit ''Nullable('' @ t @ [41]) d)
                 else d) (efields spec) cols"

definition relation_indexes ::
  "(ustring \<Rightarrow> ustring) \<Rightarrow> (ustring \<Rightarrow> ustring) \<Rightarrow> logical_model \<Rightarrow> ustring \<Rightarrow> layout_error + index list" where
  "relation_indexes nfc lower m name =
     traverse (\<lambda>rel. and_then (the_entity m (rtarget rel)) (\<lambda>target.
         Inr [(lit ''entity'', PStr name),
              (lit ''name'', PStr (snake_case nfc lower name @ [95] @ rname rel @ lit ''_idx'')),
              (lit ''columns'', PList (map (\<lambda>k. PStr (rname rel @ [95] @ k)) (ekey target)))]))
       (filter (\<lambda>r. rsource r = name) (mrelations m))"

definition entity_layout ::
  "unicode \<Rightarrow> (ustring \<Rightarrow> ustring) \<Rightarrow> (ustring \<Rightarrow> ustring) \<Rightarrow> logical_model \<Rightarrow> dialect \<Rightarrow>
     ustring \<times> (ustring, ustring) dict \<Rightarrow>
     layout_error + ustring \<times> ustring \<times> (ustring, ustring) dict \<times> index list" where
  "entity_layout u nfc lower m dialect = (\<lambda>(name, cols).
     let table = snake_case nfc lower name
     in and_then (if dialect = Elasticsearch
                  then and_then (index_name_refused lower table) (\<lambda>bad. require (\<not> bad) NotAnIndexName)
                  else Inr ()) (\<lambda>_.
        and_then (typed_columns u dialect cols) (\<lambda>typed.
        and_then (the_entity m name) (\<lambda>spec.
        and_then (if dialect = Postgres then relation_indexes nfc lower m name else Inr []) (\<lambda>idx.
          Inr (name, table, if dialect = Clickhouse then wrap_nullable spec typed else typed, idx))))))"

definition default_layout ::
  "unicode \<Rightarrow> (ustring \<Rightarrow> ustring) \<Rightarrow> (ustring \<Rightarrow> ustring) \<Rightarrow> logical_model \<Rightarrow> group \<Rightarrow> dialect \<Rightarrow>
     layout_error + physical_layout" where
  "default_layout u nfc lower m g dialect =
     and_then (neutral_columns m g) (\<lambda>neutral.
       if dialect = Orderbook then
         and_then (group_nullable m g) (\<lambda>nullable.
           if fixed_schema_mismatch neutral nullable then Inl FixedMismatch
           else and_then (typed_columns u dialect ORDERBOOK_SHAPE) (\<lambda>cols.
                  Inr \<lparr>tables = [(fst (hd neutral), ORDERBOOK_TABLE)], columns = [(fst (hd neutral), cols)],
                       indexes = [], partition_by = [], key_order = []\<rparr>))
       else
         and_then (traverse (entity_layout u nfc lower m dialect) neutral) (\<lambda>parts.
           Inr \<lparr>tables = map (\<lambda>(n, t, _, _). (n, t)) parts, columns = map (\<lambda>(n, _, c, _). (n, c)) parts,
                indexes = concat (map (\<lambda>(_, _, _, i). i) parts), partition_by = [], key_order = []\<rparr>))"

section \<open>A layout exists exactly when every stored type can be stored\<close>

lemma the_entity_Inr: "the_entity m name = Inr s \<longleftrightarrow> entity_of m name = Some s"
  by (auto simp: the_entity_def split: option.splits)

lemma traverse_defined: "(\<exists>ys. traverse f xs = Inr ys) \<longleftrightarrow> (\<forall>x \<in> set xs. \<exists>y. f x = Inr y)"
  by (rule traverse_unit)

lemma typed_columns_defined:
  "(\<exists>t. typed_columns u dialect cols = Inr t) \<longleftrightarrow> (\<forall>t \<in> set (vals cols). can_store u t dialect = Inr True)"
proof -
  have "(\<exists>y. (\<lambda>(column, neutral). and_then (column_type u neutral dialect) (\<lambda>t. Inr (column, t))) x = Inr y) \<longleftrightarrow>
      can_store u (snd x) dialect = Inr True" for x :: "ustring \<times> ustring"
    by (cases x) (auto simp: can_store_def and_then_Inr split: sum.splits layout_error.splits)
  then show ?thesis by (simp add: typed_columns_def traverse_defined)
qed

lemma entity_columns_defined:
  assumes "entity_columns m name = Inr cols"
  shows "\<exists>spec. the_entity m name = Inr spec" "\<exists>idx. relation_indexes nfc lower m name = Inr idx"
proof -
  obtain spec rels where run: "the_entity m name = Inr spec"
    "traverse (relation_columns m) (filter (\<lambda>r. rsource r = name) (mrelations m)) = Inr rels"
    using assms by (auto simp: entity_columns_def and_then_Inr)
  show "\<exists>spec. the_entity m name = Inr spec" using run(1) by blast
  have "\<exists>t. the_entity m (rtarget r) = Inr t" if "r \<in> set (filter (\<lambda>r. rsource r = name) (mrelations m))" for r
    using traverse_mem' [OF run(2) that] by (auto simp: relation_columns_def and_then_Inr)
  then show "\<exists>idx. relation_indexes nfc lower m name = Inr idx"
    unfolding relation_indexes_def traverse_defined by (auto simp: and_then_Inr)
qed

lemma entity_layout_defined:
  assumes "entity_columns m name = Inr cols" "dialect \<noteq> Elasticsearch"
  shows "(\<exists>l. entity_layout u nfc lower m dialect (name, cols) = Inr l) \<longleftrightarrow>
    (\<forall>t \<in> set (vals cols). can_store u t dialect = Inr True)"
proof -
  obtain spec idx where ok: "the_entity m name = Inr spec" "relation_indexes nfc lower m name = Inr idx"
    using entity_columns_defined(1) [OF assms(1)] entity_columns_defined(2) [OF assms(1), of nfc lower] by blast
  have "(\<exists>l. entity_layout u nfc lower m dialect (name, cols) = Inr l) \<longleftrightarrow> (\<exists>t. typed_columns u dialect cols = Inr t)"
    using ok assms(2)
    by (cases "typed_columns u dialect cols"; cases dialect) (simp_all add: entity_layout_def Let_def)
  then show ?thesis unfolding typed_columns_defined .
qed

lemma neutral_columns_Inr:
  assumes "neutral_columns m g = Inr cols" "(name, c) \<in> set cols"
  shows "entity_columns m name = Inr c"
  using traverse_mem [OF assms(1) [unfolded neutral_columns_def] assms(2)] by (auto simp: and_then_Inr)

lemma default_layout_defined:
  assumes "neutral_columns m g = Inr cols" "dialect \<noteq> Elasticsearch" "dialect \<noteq> Orderbook"
  shows "(\<exists>l. default_layout u nfc lower m g dialect = Inr l) \<longleftrightarrow>
    (\<forall>(name, c) \<in> set cols. \<forall>t \<in> set (vals c). can_store u t dialect = Inr True)"
proof -
  have "(\<exists>l. default_layout u nfc lower m g dialect = Inr l) \<longleftrightarrow>
      (\<exists>p. traverse (entity_layout u nfc lower m dialect) cols = Inr p)"
    using assms by (simp add: default_layout_def and_then_Inr)
  also have "\<dots> \<longleftrightarrow> (\<forall>x \<in> set cols. \<exists>l. entity_layout u nfc lower m dialect x = Inr l)"
    by (rule traverse_defined)
  also have "\<dots> \<longleftrightarrow> (\<forall>(name, c) \<in> set cols. \<forall>t \<in> set (vals c). can_store u t dialect = Inr True)"
    using entity_layout_defined [OF neutral_columns_Inr [OF assms(1)] assms(2)] by (fastforce intro!: ball_cong)
  finally show ?thesis .
qed


section \<open>Every declared type has a PostgreSQL column\<close>

lemma column_type_postgres:
  assumes "check_type u t = Inr t'" "ascii_tables u"
  shows "\<exists>c. column_type u t Postgres = Inr c"
proof (cases "t \<in> set NEUTRAL_TYPES")
  case True
  then show ?thesis
    by (auto simp: NEUTRAL_TYPES_def column_type_def POSTGRES_TYPES_def starts_with_def lit_def)
next
  case False
  then obtain p q where t: "t = decimal_name p q" using check_type_Inr [OF assms] by auto
  have "starts_with t (lit ''decimal('')" unfolding t decimal_name_def by simp
  moreover have "butlast (drop 8 t) = nat_text p @ [44] @ nat_text q"
    by (simp add: t decimal_name_def butlast_append)
  ultimately show ?thesis
    by (simp add: column_type_def split_on_append split_on_plain comma_not_digit)
qed

lemma entity_of_member:
  assumes "model_ok m" "s \<in> set (mentities m)"
  shows "entity_of m (ename s) = Some s"
proof -
  obtain t where t: "entity_of m (ename s) = Some t"
    using assms(2) by (cases "entity_of m (ename s)") (auto simp: entity_of_def find_None_iff)
  then have "t \<in> set (mentities m)" "ename t = ename s" by (auto simp: entity_of_def find_Some_iff)
  then have "t = s" using assms by (auto simp: model_ok_def distinct_map inj_on_def)
  then show ?thesis using t by simp
qed

lemma entity_of_name:
  assumes "model_ok m" "name \<in> ename ` set (mentities m)"
  shows "\<exists>s \<in> set (mentities m). entity_of m name = Some s \<and> ename s = name"
  using assms entity_of_member by auto

lemma find_field:
  assumes "k \<in> fname ` set fs"
  shows "\<exists>f \<in> set fs. List.find (\<lambda>f. fname f = k) fs = Some f \<and> fname f = k"
proof -
  obtain f where "List.find (\<lambda>f. fname f = k) fs = Some f"
    using assms by (cases "List.find (\<lambda>f. fname f = k) fs") (auto simp: find_None_iff)
  then show ?thesis by (auto simp: find_Some_iff)
qed

definition types_ok :: "unicode \<Rightarrow> logical_model \<Rightarrow> bool" where
  "types_ok u m \<longleftrightarrow> (\<forall>s \<in> set (mentities m). spec_ok s \<and> (\<forall>f \<in> set (efields s). check_type u (ftype f) = Inr (ftype f)))"

lemma relation_columns_total:
  assumes "model_ok m" "types_ok u m" "r \<in> set (mrelations m)"
  shows "\<exists>cs. relation_columns m r = Inr cs \<and> (\<forall>(c, t) \<in> set cs. check_type u t = Inr t)"
proof -
  obtain s where s: "s \<in> set (mentities m)" "entity_of m (rtarget r) = Some s"
    using entity_of_name [OF assms(1), of "rtarget r"] assms(1,3) by (auto simp: model_ok_def)
  let ?f = "\<lambda>k. case List.find (\<lambda>f. fname f = k) (efields s) of None \<Rightarrow> Inl LayoutKeyError
    | Some f \<Rightarrow> Inr (rname r @ [95] @ k, ftype f)"
  have col: "\<exists>f \<in> set (efields s). ?f k = Inr (rname r @ [95] @ k, ftype f)" if "k \<in> set (ekey s)" for k
  proof -
    have "k \<in> fname ` set (efields s)" using that assms(2) s(1) by (auto simp: types_ok_def spec_ok_def)
    from find_field [OF this] show ?thesis by auto
  qed
  then obtain cs where cs: "traverse ?f (ekey s) = Inr cs" using traverse_total [of "ekey s" ?f] by blast
  have "check_type u (snd c) = Inr (snd c)" if c: "c \<in> set cs" for c
  proof -
    obtain k where k: "k \<in> set (ekey s)" "?f k = Inr c" using traverse_mem [OF cs c] by blast
    then obtain f where "f \<in> set (efields s)" "snd c = ftype f" using col [OF k(1)] by auto
    then show ?thesis using assms(2) s(1) by (auto simp: types_ok_def)
  qed
  then show ?thesis using cs s(2) by (auto simp: relation_columns_def the_entity_def)
qed

lemma vals_fold_update:
  "set (vals (fold (\<lambda>(k, v) d. AList.update k v d) ps d)) \<subseteq> set (vals d) \<union> snd ` set ps"
proof (induction ps arbitrary: d)
  case (Cons p ps)
  have "set (vals (AList.update (fst p) (snd p) d)) \<subseteq> set (vals d) \<union> {snd p}"
    by (induction d) auto
  then have "set (vals (fold (\<lambda>(k, v) d. AList.update k v d) ps (AList.update (fst p) (snd p) d))) \<subseteq>
      (set (vals d) \<union> {snd p}) \<union> snd ` set ps"
    using Cons [of "AList.update (fst p) (snd p) d"] by blast
  then show ?case by (simp add: case_prod_unfold)
qed simp

lemma entity_columns_total:
  assumes "model_ok m" "types_ok u m" "s \<in> set (mentities m)"
  shows "\<exists>cols. entity_columns m (ename s) = Inr cols \<and> (\<forall>t \<in> set (vals cols). check_type u t = Inr t)"
proof -
  let ?rs = "filter (\<lambda>r. rsource r = ename s) (mrelations m)"
  obtain rels where rels: "traverse (relation_columns m) ?rs = Inr rels"
    using traverse_total [of ?rs "relation_columns m"] relation_columns_total [OF assms(1,2)] by fastforce
  have ok: "check_type u t = Inr t" if "(c, t) \<in> set (concat rels)" for c t
  proof -
    obtain cs where cs: "cs \<in> set rels" "(c, t) \<in> set cs" using \<open>(c, t) \<in> set (concat rels)\<close> by auto
    obtain r where r: "r \<in> set ?rs" "relation_columns m r = Inr cs" using traverse_mem [OF rels cs(1)] by blast
    then show ?thesis using relation_columns_total [OF assms(1,2), of r] cs(2) by auto
  qed
  let ?fields = "fold (\<lambda>f d. AList.update (fname f) (ftype f) d) (efields s) []"
  have "?fields = fold (\<lambda>(k, v) d. AList.update k v d) (map (\<lambda>f. (fname f, ftype f)) (efields s)) []"
    by (simp add: fold_map comp_def)
  then have "set (vals ?fields) \<subseteq> ftype ` set (efields s)"
    using vals_fold_update [of "map (\<lambda>f. (fname f, ftype f)) (efields s)" "[]"] by auto
  then have "set (vals (fold (\<lambda>(k, v) d. AList.update k v d) (concat rels) ?fields)) \<subseteq>
      ftype ` set (efields s) \<union> snd ` set (concat rels)"
    using vals_fold_update [of "concat rels" ?fields] by blast
  moreover have "check_type u t = Inr t" if t: "t \<in> ftype ` set (efields s) \<union> snd ` set (concat rels)" for t
  proof (cases "t \<in> ftype ` set (efields s)")
    case True
    then show ?thesis using assms(2,3) by (auto simp: types_ok_def)
  next
    case False
    then have "t \<in> snd ` set (concat rels)" using t by blast
    then obtain c where "(c, t) \<in> set (concat rels)" by (rule imageE) (metis prod.collapse)
    then show ?thesis by (rule ok)
  qed
  ultimately have vals: "\<forall>t \<in> set (vals (fold (\<lambda>(k, v) d. AList.update k v d) (concat rels) ?fields)).
      check_type u t = Inr t" by blast
  show ?thesis
    using rels entity_of_member [OF assms(1,3)] vals by (simp add: entity_columns_def the_entity_def)
qed

lemma neutral_columns_total:
  assumes "model_ok m" "types_ok u m" "set (gmembers g) \<subseteq> ename ` set (mentities m)"
  shows "\<exists>cols. neutral_columns m g = Inr cols \<and> (\<forall>(n, c) \<in> set cols. \<forall>t \<in> set (vals c). check_type u t = Inr t)"
proof -
  have one: "\<exists>c. entity_columns m n = Inr c \<and> (\<forall>t \<in> set (vals c). check_type u t = Inr t)"
    if "n \<in> set (gmembers g)" for n
    using that assms(3) entity_columns_total [OF assms(1,2)] by auto
  then obtain cols where cols: "neutral_columns m g = Inr cols"
    unfolding neutral_columns_def
    using traverse_total [of "gmembers g" "\<lambda>name. and_then (entity_columns m name) (\<lambda>cols. Inr (name, cols))"]
    by fastforce
  moreover have "\<forall>t \<in> set (vals c). check_type u t = Inr t" if "(n, c) \<in> set cols" for n c
  proof -
    have "n \<in> set (gmembers g)"
      using traverse_mem [OF cols [unfolded neutral_columns_def] that] by (auto simp: and_then_Inr)
    then show ?thesis using one [of n] neutral_columns_Inr [OF cols that] by auto
  qed
  ultimately show ?thesis by auto
qed

lemma default_layout_postgres:
  assumes "model_ok m" "types_ok u m" "ascii_tables u" "set (gmembers g) \<subseteq> ename ` set (mentities m)"
  shows "\<exists>l. default_layout u nfc lower m g Postgres = Inr l"
proof -
  obtain cols where cols: "neutral_columns m g = Inr cols"
    and ok: "\<forall>(n, c) \<in> set cols. \<forall>t \<in> set (vals c). check_type u t = Inr t"
    using neutral_columns_total [OF assms(1,2,4)] by blast
  have "can_store u t Postgres = Inr True" if "(n, c) \<in> set cols" "t \<in> set (vals c)" for n c t
  proof -
    have "check_type u t = Inr t" using that ok by blast
    from column_type_postgres [OF this assms(3)] show ?thesis by (auto simp: can_store_def)
  qed
  then show ?thesis using default_layout_defined [OF cols, of Postgres] by auto
qed

section \<open>The groups of a declared model can be laid out\<close>

lemma assembled_types_ok:
  assumes "assemble nfc sha256 es rs atomic cost = Inr m"
    and "\<forall>s \<in> set es. \<forall>f \<in> set (efields s). check_type u (ftype f) = Inr (ftype f)"
  shows "types_ok u m"
proof -
  have es: "\<forall>s \<in> set es. spec_ok s" and m: "mentities m = map ordered_spec (sort_key ename es)"
    using assemble_Inr(1,2) [OF assms(1)] by (auto simp: declaration_ok_def)
  have "spec_ok (ordered_spec s)" "\<forall>f \<in> set (efields (ordered_spec s)). check_type u (ftype f) = Inr (ftype f)"
    if "s \<in> set es" for s
    using that es assms(2) by (simp, simp add: ordered_spec_def)
  then show ?thesis unfolding types_ok_def m by auto
qed

lemma traverse_keys:
  assumes "traverse f xs = Inr ys" "\<forall>x y. f x = Inr y \<longrightarrow> k y = h x"
  shows "map k ys = map h xs"
  using assms by (induction xs arbitrary: ys) (auto simp: and_then_Inr)

lemma default_layout_tables:
  assumes "default_layout u nfc lower m g Postgres = Inr l"
  shows "map fst (tables l) = gmembers g"
proof -
  obtain cols parts where run: "neutral_columns m g = Inr cols"
    "traverse (entity_layout u nfc lower m Postgres) cols = Inr parts"
    "tables l = map (\<lambda>(n, t, _, _). (n, t)) parts"
    using assms by (auto simp: default_layout_def and_then_Inr)
  have "map fst parts = map fst cols"
    by (rule traverse_keys [OF run(2)]) (auto simp: entity_layout_def and_then_Inr Let_def)
  moreover have "map fst cols = map id (gmembers g)"
    by (rule traverse_keys [OF run(1) [unfolded neutral_columns_def]]) (auto simp: and_then_Inr)
  ultimately show ?thesis by (simp add: run(3) comp_def case_prod_unfold)
qed

text \<open>
  C38. A declaration whose field types the vocabulary admits and which assembles to a model has
  colocation groups, and every one of them has a layout in PostgreSQL: \<open>"auto"\<close> never fails there.
\<close>

theorem declared_groups_have_a_layout:
  assumes "assemble nfc sha256 es rs atomic cost = Inr m"
    and "\<forall>a \<in> set atomic. a \<noteq> [] \<and> set a \<subseteq> ename ` set es"
    and "\<forall>s \<in> set es. \<forall>f \<in> set (efields s). check_type u (ftype f) = Inr (ftype f)" and "ascii_tables u"
  shows "\<exists>gs. colocation_groups m = Inr gs \<and>
    (\<forall>g \<in> set gs. \<exists>l. default_layout u nfc lower m g Postgres = Inr l \<and> map fst (tables l) = gmembers g)"
proof -
  have ok: "model_ok m" by (rule assemble_model_ok [OF assms(1,2)])
  then obtain gs where gs: "colocation_groups m = Inr gs" "groups_spec m gs"
    using colocation_groups_spec by blast
  have "\<exists>l. default_layout u nfc lower m g Postgres = Inr l \<and> map fst (tables l) = gmembers g" if "g \<in> set gs" for g
  proof -
    have "set (gmembers g) \<subseteq> ename ` set (mentities m)" using gs(2) that by (auto simp: groups_spec_def)
    from default_layout_postgres [OF ok assembled_types_ok [OF assms(1,3)] assms(4) this]
    obtain l where l: "default_layout u nfc lower m g Postgres = Inr l" by blast
    then show ?thesis using default_layout_tables [OF l] by auto
  qed
  then show ?thesis using gs(1) by blast
qed

theorem declared_groups_have_a_layout_witness:
  "\<exists>m gs. assemble id id witness_entities witness_relations [[[99], [97]]] None = Inr m \<and>
     colocation_groups m = Inr gs \<and> (\<forall>g \<in> set gs. \<exists>l. default_layout latin_tables id id m g Postgres = Inr l)"
proof -
  obtain m where m: "assemble id id witness_entities witness_relations [[[99], [97]]] None = Inr m"
    using witness_model_assembled by blast
  have atomic: "\<forall>a \<in> set [[[99::nat], [97]]]. a \<noteq> [] \<and> set a \<subseteq> ename ` set witness_entities" by code_simp
  have types: "\<forall>s \<in> set witness_entities. \<forall>f \<in> set (efields s). check_type latin_tables (ftype f) = Inr (ftype f)"
    by code_simp
  from declared_groups_have_a_layout [OF m atomic types latin_tables_ascii, of id] m show ?thesis
    by (elim exE conjE) (intro exI conjI, assumption, assumption, fastforce)
qed


definition shadowed_entities :: "entity_spec list" where
  "shadowed_entities =
     [\<lparr>ename = [69], efields = [\<lparr>fname = [97], ftype = lit ''int64'', fnullable = False\<rparr>,
                               \<lparr>fname = [98, 95, 97], ftype = lit ''string'', fnullable = False\<rparr>],
       ekey = [[97]], epii = [], eresidency = None\<rparr>,
      \<lparr>ename = [70], efields = [\<lparr>fname = [97], ftype = lit ''int64'', fnullable = False\<rparr>],
       ekey = [[97]], epii = [], eresidency = None\<rparr>]"

text \<open>
  A relation's foreign key column silently replaces a declared field of the same name: an entity
  with a text field \<open>b_a\<close> and a relation \<open>b\<close> to an entity whose key \<open>a\<close> is a 64-bit integer assembles, and
  its layout stores the field \<open>b_a\<close> as the integer.
\<close>

theorem foreign_key_column_replaces_a_field:
  "\<exists>m l. assemble id id shadowed_entities [\<lparr>rname = [98], rsource = [69], rtarget = [70]\<rparr>] [] None = Inr m \<and>
     default_layout latin_tables id id m \<lparr>gname = [69], gmembers = [[69], [70]]\<rparr> Postgres = Inr l \<and>
     (\<exists>s \<in> set (mentities m). \<exists>f \<in> set (efields s). ename s = [69] \<and> fname f = [98, 95, 97] \<and> ftype f = lit ''string'') \<and>
     map_of (the (map_of (columns l) [69])) [98, 95, 97] = Some (lit ''bigint'')"
proof -
  obtain m where m: "assemble id id shadowed_entities [\<lparr>rname = [98], rsource = [69], rtarget = [70]\<rparr>] [] None = Inr m"
    using assemble_returns_iff [of id id shadowed_entities "[\<lparr>rname = [98], rsource = [69], rtarget = [70]\<rparr>]" "[]" None]
    by (auto simp: declaration_ok_def spec_ok_def Let_def declaration_text_ok_def
      spec_text_ok_def cost_text_ok_def shadowed_entities_def)
  let ?columns = "(case default_layout latin_tables id id m \<lparr>gname = [69], gmembers = [[69], [70]]\<rparr> Postgres of
     Inr l \<Rightarrow> map_of (the (map_of (columns l) [69])) [98, 95, 97] | Inl _ \<Rightarrow> None)"
  have "?columns = Some (lit ''bigint'')"
    unfolding default_layout_def entity_layout_def relation_indexes_def neutral_columns_def entity_columns_def
      relation_columns_def the_entity_def entity_of_def assemble_Inr [OF m] by code_simp
  moreover have "\<exists>s \<in> set (mentities m). \<exists>f \<in> set (efields s). ename s = [69] \<and> fname f = [98, 95, 97] \<and> ftype f = lit ''string''"
    unfolding assemble_Inr [OF m] by code_simp
  ultimately show ?thesis using m by (auto split: sum.splits)
qed

end
