(* ===== verification/Placement.thy ===== *)
theory Placement
  imports Layout
begin

text \<open>
  The placement map (\<open>placement.py\<close>): the one document that decides where data is written. It is
  parsed from a JSON value, verified when it is signed, and checked against the model it names.

  The base64 decoder and the Ed25519 check are the fields of a \<open>crypto\<close> parameter; whether the
  package that provides them is installed is its first field. A layout that asks to be derived is
  \<open>AUTO\<close>, the sentinel of the source; a map that has been loaded holds only derived and explicit
  layouts, so its type has no \<open>AUTO\<close> in it. Freezing the result against mutation leaves its value
  as it is and is not a step of the model, and neither are the log lines of \<open>load_map\<close>.
\<close>

section \<open>Copies, groups and maps\<close>

datatype layout_slot = AUTO | Laid physical_layout

record 'l materialization =
  mat_id :: ustring
  mat_engine :: ustring
  mat_layout :: 'l
  mat_lag :: "int option"

record 'l group_placement =
  gp_group :: ustring
  gp_source :: "'l materialization"
  gp_derived :: "'l materialization list"
  gp_also_write :: "'l materialization list"
  gp_write_epoch :: "int option"

record placement_map =
  pm_contract :: int
  pm_model_version :: ustring
  pm_map_version :: int
  pm_groups :: "(ustring, physical_layout group_placement) dict"
  pm_routing :: "(ustring, ustring) dict"
  pm_signed :: bool
  pm_verified_with :: "ustring option"
  pm_project_id :: "ustring option"
  pm_fingerprint :: "ustring option"

definition table_for :: "physical_layout \<Rightarrow> ustring \<Rightarrow> map_error + ustring" where
  "table_for l entity =
     (case map_of (tables l) entity of None \<Rightarrow> map_error ''the layout has no table'' | Some t \<Rightarrow> Inr t)"

definition is_source :: "'l materialization \<Rightarrow> bool" where
  "is_source mat \<longleftrightarrow> mat_lag mat = None"

definition all_copies :: "'l group_placement \<Rightarrow> 'l materialization list" where
  "all_copies p = gp_source p # gp_derived p"

definition by_id :: "'l group_placement \<Rightarrow> ustring \<Rightarrow> map_error + 'l materialization" where
  "by_id p i =
     (case List.find (\<lambda>mat. mat_id mat = i) (all_copies p) of
        None \<Rightarrow> map_error ''no such materialisation'' | Some mat \<Rightarrow> Inr mat)"

definition placement_of :: "placement_map \<Rightarrow> ustring \<Rightarrow> map_error + physical_layout group_placement" where
  "placement_of pm g =
     (case map_of (pm_groups pm) g of None \<Rightarrow> map_error ''no placement for group'' | Some p \<Rightarrow> Inr p)"

section \<open>Constants\<close>

definition MAP_CONTRACT :: int where
  "MAP_CONTRACT = 6"

definition UNFENCED_SINCE :: int where
  "UNFENCED_SINCE = 6"

definition ALSO_WRITE_SINCE :: int where
  "ALSO_WRITE_SINCE = 2"

definition MAP_CONTRACT_FLOOR :: int where
  "MAP_CONTRACT_FLOOR = 1"

definition WATERMARK_TABLE :: ustring where
  "WATERMARK_TABLE = lit ''sde_map_state''"

definition BACKFILL_TABLE :: ustring where
  "BACKFILL_TABLE = lit ''sde_backfill_state''"

definition RESERVED_TABLES :: "ustring list" where
  "RESERVED_TABLES = [WATERMARK_TABLE, BACKFILL_TABLE]"

definition DRAIN_TABLE :: ustring where
  "DRAIN_TABLE = lit ''__sde_fence_drains''"

definition EPOCH_COLUMN :: ustring where
  "EPOCH_COLUMN = lit ''__sde_write_epoch''"

definition MAX_EPOCH :: int where
  "MAX_EPOCH = 9007199254740991"

definition SAFE :: int where
  "SAFE = 2 ^ 53 - 1"

section \<open>Layouts\<close>

text \<open>\<open>bool(value)\<close>\<close>

fun truthy :: "pyval \<Rightarrow> bool" where
  "truthy PNone \<longleftrightarrow> False"
| "truthy (PBool b) \<longleftrightarrow> b"
| "truthy (PInt i) \<longleftrightarrow> i \<noteq> 0"
| "truthy (PFloat f) \<longleftrightarrow> f \<noteq> Finite 0"
| "truthy (PStr s) \<longleftrightarrow> s \<noteq> []"
| "truthy (PList vs) \<longleftrightarrow> vs \<noteq> []"
| "truthy (PDict d) \<longleftrightarrow> d \<noteq> []"

text \<open>\<open>raw.get(key, {})\<close>\<close>

definition dict_get_or_empty :: "(ustring \<times> pyval) list \<Rightarrow> string \<Rightarrow> pyval" where
  "dict_get_or_empty d k = (case map_of d (lit k) of None \<Rightarrow> PDict [] | Some v \<Rightarrow> v)"

definition column_types :: "ustring \<times> pyval \<Rightarrow> map_error + ustring \<times> (ustring, ustring) dict" where
  "column_types = (\<lambda>(entity, types).
     case types of
       PDict t \<Rightarrow>
         if list_all (\<lambda>(column, kind). nonempty_str kind) t
         then Inr (entity, map (\<lambda>(column, kind). (column, str_of kind)) t)
         else map_error ''a column type is a name''
     | _ \<Rightarrow> map_error ''columns of an entity'')"

definition parse_columns :: "pyval \<Rightarrow> map_error + (ustring, (ustring, ustring) dict) dict" where
  "parse_columns raw =
     (case raw of
        PNone \<Rightarrow> Inr []
      | PDict d \<Rightarrow> traverse column_types (sort_key fst d)
      | _ \<Rightarrow> map_error ''columns maps an entity to its columns'')"

text \<open>The physical design of a layout, which an earlier contract may not carry.\<close>

definition layout_design ::
  "int \<Rightarrow> (ustring \<times> pyval) list \<Rightarrow> (ustring, ustring) dict \<Rightarrow>
     map_error + (ustring, ustring list) dict \<times> (ustring, ustring \<times> ustring) dict" where
  "layout_design contract raw tbls =
     (if contract < PHYSICAL_DESIGN_SINCE then
        if truthy (dict_get raw ''partition_by'') then map_error ''partition_by before contract 5''
        else if lit ''key_order'' \<in> set (keys raw) then map_error ''key_order before contract 5''
        else Inr ([], [])
      else and_then (parse_key_order (dict_get_or_empty raw ''key_order'') tbls) (\<lambda>ordered.
           and_then (parse_partition_by (dict_get_or_empty raw ''partition_by'') tbls) (\<lambda>parts.
             Inr (ordered, parts))))"

definition parse_layout :: "int \<Rightarrow> pyval \<Rightarrow> map_error + layout_slot" where
  "parse_layout contract raw =
     (case raw of
        PDict d \<Rightarrow>
          if dict_get d ''auto'' = PBool True then
            (if length d \<noteq> 1 then map_error ''a layout is either auto or explicit'' else Inr AUTO)
          else
            (case dict_get d ''tables'' of
               PDict t \<Rightarrow>
                 if t = [] then map_error ''layout needs tables''
                 else if \<not> list_all (\<lambda>(entity, table). nonempty_str table) t then map_error ''a table name''
                 else if list_ex (\<lambda>(entity, table). str_of table \<in> set RESERVED_TABLES) t
                 then map_error ''a reserved table''
                 else
                   let tbls = map (\<lambda>(entity, table). (entity, str_of table)) t
                   in and_then (parse_columns (dict_get d ''columns'')) (\<lambda>cols.
                      and_then (layout_design contract d tbls) (\<lambda>(ordered, parts).
                      and_then (parse_indexes (dict_get d ''indexes'') tbls cols contract) (\<lambda>idx.
                        Inr (Laid \<lparr>tables = tbls, columns = cols, indexes = idx, partition_by = parts,
                                   key_order = ordered\<rparr>))))
             | _ \<Rightarrow> map_error ''layout needs tables'')
      | _ \<Rightarrow> map_error ''layout must be an object'')"

section \<open>Materialisations\<close>

fun lag_budget :: "pyval \<Rightarrow> map_error + int" where
  "lag_budget (PInt i) = (if i < 0 then map_error ''lag_budget_ms'' else Inr i)"
| "lag_budget (PFloat (Finite r)) =
     (if \<not> is_integer (Finite r) \<or> r < 0 then map_error ''lag_budget_ms'' else Inr \<lfloor>r\<rfloor>)"
| "lag_budget _ = map_error ''lag_budget_ms''"

definition parse_materialization :: "bool \<Rightarrow> int \<Rightarrow> pyval \<Rightarrow> map_error + layout_slot materialization" where
  "parse_materialization src contract raw =
     (case raw of
        PDict d \<Rightarrow>
          if \<not> (\<forall>required \<in> set [''id'', ''engine'', ''layout'']. lit required \<in> set (keys d))
          then map_error ''materialisation is missing a key''
          else
            let lag = dict_get d ''lag_budget_ms''
            in if src \<and> lag \<noteq> PNone then map_error ''the source cannot have a lag budget''
               else if \<not> src \<and> lag = PNone then map_error ''a derived copy needs a lag budget''
               else
                 and_then (parse_layout contract (dict_get d ''layout'')) (\<lambda>layout.
                 and_then (require (is_str (dict_get d ''id'')) (MapError ''a materialisation id'')) (\<lambda>_.
                 and_then (require (is_str (dict_get d ''engine'')) (MapError ''an engine name'')) (\<lambda>_.
                 and_then (if lag = PNone then Inr None else and_then (lag_budget lag) (\<lambda>l. Inr (Some l))) (\<lambda>budget.
                   Inr \<lparr>mat_id = str_of (dict_get d ''id''), mat_engine = str_of (dict_get d ''engine''),
                        mat_layout = layout, mat_lag = budget\<rparr>))))
      | _ \<Rightarrow> map_error ''a materialisation is an object'')"

text \<open>The loop of \<open>_also_write\<close> over its entries, with the ids already seen.\<close>

fun also_write_entries ::
  "ustring \<Rightarrow> 'l materialization list \<Rightarrow> ustring set \<Rightarrow> pyval list \<Rightarrow> map_error + 'l materialization list" where
  "also_write_entries src derived seen [] = Inr []"
| "also_write_entries src derived seen (entry # rest) =
     (case entry of
        PStr i \<Rightarrow>
          if i = src then map_error ''also_write names the source''
          else if i \<in> seen then map_error ''also_write names a copy twice''
          else (case List.find (\<lambda>mat. mat_id mat = i) derived of
                  None \<Rightarrow> map_error ''also_write names no derived copy''
                | Some mat \<Rightarrow>
                    and_then (also_write_entries src derived (insert i seen) rest) (\<lambda>ms. Inr (mat # ms)))
      | _ \<Rightarrow> map_error ''also_write holds ids'')"

definition also_write ::
  "pyval \<Rightarrow> int \<Rightarrow> 'l materialization \<Rightarrow> 'l materialization list \<Rightarrow> map_error + 'l materialization list" where
  "also_write raw contract src derived =
     (if raw = PNone then Inr []
      else if contract < ALSO_WRITE_SINCE then map_error ''also_write before contract 2''
      else case raw of
             PList entries \<Rightarrow>
               if entries = [] then map_error ''also_write is a non-empty list''
               else also_write_entries (mat_id src) derived {} entries
           | _ \<Rightarrow> map_error ''also_write is a non-empty list'')"

section \<open>Canonical payloads and signatures\<close>

primrec json_numbers :: "pyval \<Rightarrow> pyval" where
  "json_numbers PNone = PNone"
| "json_numbers (PBool b) = PBool b"
| "json_numbers (PInt i) = PInt i"
| "json_numbers (PFloat f) = (case f of Finite r \<Rightarrow> if is_integer f then PInt \<lfloor>r\<rfloor> else PFloat f | _ \<Rightarrow> PFloat f)"
| "json_numbers (PStr s) = PStr s"
| "json_numbers (PList vs) = PList (map json_numbers vs)"
| "json_numbers (PDict d) = PDict (map (map_prod id json_numbers) d)"

primrec unsafe_integer :: "pyval \<Rightarrow> bool" where
  "unsafe_integer PNone \<longleftrightarrow> False"
| "unsafe_integer (PBool b) \<longleftrightarrow> False"
| "unsafe_integer (PInt i) \<longleftrightarrow> \<bar>i\<bar> > SAFE"
| "unsafe_integer (PFloat f) \<longleftrightarrow> False"
| "unsafe_integer (PStr s) \<longleftrightarrow> False"
| "unsafe_integer (PList vs) \<longleftrightarrow> list_ex id (map unsafe_integer vs)"
| "unsafe_integer (PDict d) \<longleftrightarrow> list_ex snd (map (map_prod id unsafe_integer) d)"

definition without_signature :: "(ustring \<times> pyval) list \<Rightarrow> (ustring \<times> pyval) list" where
  "without_signature raw = filter (\<lambda>(key, v). key \<noteq> lit ''signature'') raw"

definition canonical_payload ::
  "(ustring \<Rightarrow> ustring) \<Rightarrow> (ustring \<times> pyval) list \<Rightarrow> int \<Rightarrow> bool \<Rightarrow> map_error + nat list" where
  "canonical_payload nfc raw contract signd =
     (let payload = PDict (without_signature raw)
      in if contract \<ge> 4 \<and> unsafe_integer payload then map_error ''contract 4 requires a canonical map''
         else case canonical_bytes nfc payload of
                Inr bs \<Rightarrow> Inr bs
              | Inl UnicodeEncodeError \<Rightarrow> Inl (MapCanonical UnicodeEncodeError)
              | Inl e \<Rightarrow>
                  if contract \<ge> 4 then map_error ''contract 4 requires a canonical map''
                  else if signd then map_error ''a signed map has no canonical form''
                  else Inl (MapCanonical e))"

definition scalar_nfc :: "(ustring \<Rightarrow> ustring) \<Rightarrow> ustring \<Rightarrow> bool" where
  "scalar_nfc nfc s \<longleftrightarrow> s = nfc s \<and> list_all (\<lambda>c. \<not> (55296 \<le> c \<and> c \<le> 57343)) s"

text \<open>\<open>_require_canonical_text\<close> returns rather than raises.\<close>

primrec canonical_text :: "(ustring \<Rightarrow> ustring) \<Rightarrow> pyval \<Rightarrow> bool" where
  "canonical_text nfc PNone \<longleftrightarrow> True"
| "canonical_text nfc (PBool b) \<longleftrightarrow> True"
| "canonical_text nfc (PInt i) \<longleftrightarrow> True"
| "canonical_text nfc (PFloat f) \<longleftrightarrow> True"
| "canonical_text nfc (PStr s) \<longleftrightarrow> scalar_nfc nfc s"
| "canonical_text nfc (PList vs) \<longleftrightarrow> list_all id (map (canonical_text nfc) vs)"
| "canonical_text nfc (PDict d) \<longleftrightarrow>
     list_all (\<lambda>(key, ok). scalar_nfc nfc key \<and> ok) (map (map_prod id (canonical_text nfc)) d)"

record crypto =
  cr_installed :: bool
  cr_b64decode :: "ustring \<Rightarrow> nat list option"
  cr_verify :: "nat list \<Rightarrow> nat list \<Rightarrow> nat list \<Rightarrow> bool"

datatype key_arg = BareKey "nat list" | KeySet "(ustring, nat list) dict"

definition key_pairs :: "key_arg \<Rightarrow> (ustring \<times> nat list) list" where
  "key_pairs k = (case k of BareKey bs \<Rightarrow> [([], bs)] | KeySet d \<Rightarrow> sort d)"

definition key_set :: "key_arg \<Rightarrow> map_error + (ustring \<times> nat list) list" where
  "key_set k =
     (if k = KeySet [] then map_error ''an empty set of public keys''
      else if list_all (\<lambda>(name, value). length value = 32) (key_pairs k) then Inr (key_pairs k)
      else map_error ''an Ed25519 public key is 32 bytes'')"

text \<open>The loop over the ordered keys: the name of the first that verifies.\<close>

definition first_verifying ::
  "crypto \<Rightarrow> nat list \<Rightarrow> nat list \<Rightarrow> (ustring \<times> nat list) list \<Rightarrow> map_error + ustring option" where
  "first_verifying cr signature payload ordered =
     (case List.find (\<lambda>(name, key). cr_verify cr key signature payload) ordered of
        None \<Rightarrow> map_error ''the signature does not verify''
      | Some (name, key) \<Rightarrow> Inr (if name = [] then None else Some name))"

definition key_ordering :: "pyval \<Rightarrow> (ustring \<times> nat list) list \<Rightarrow> (ustring \<times> nat list) list" where
  "key_ordering claimed ks =
     (case claimed of
        PStr c \<Rightarrow> filter (\<lambda>p. fst p = c) ks @ filter (\<lambda>p. fst p \<noteq> c) ks
      | _ \<Rightarrow> ks)"

definition decode_signature :: "crypto \<Rightarrow> (ustring \<times> pyval) list \<Rightarrow> map_error + nat list" where
  "decode_signature cr signature =
     (case map_of signature (lit ''value'') of
        Some (PStr v) \<Rightarrow>
          (case cr_b64decode cr v of None \<Rightarrow> map_error ''the signature is not base64'' | Some bs \<Rightarrow> Inr bs)
      | _ \<Rightarrow> map_error ''the signature is not base64'')"

text \<open>A packet envelope passes no contract and keeps the encoder's own rules.\<close>

definition signed_payload ::
  "(ustring \<Rightarrow> ustring) \<Rightarrow> (ustring \<times> pyval) list \<Rightarrow> int option \<Rightarrow> map_error + nat list" where
  "signed_payload nfc raw contract =
     (case contract of
        None \<Rightarrow> (case canonical_bytes nfc (PDict (without_signature raw)) of
                   Inl e \<Rightarrow> Inl (MapCanonical e) | Inr bs \<Rightarrow> Inr bs)
      | Some c \<Rightarrow> canonical_payload nfc raw c True)"

definition verify_signature ::
  "(ustring \<Rightarrow> ustring) \<Rightarrow> crypto \<Rightarrow> (ustring \<times> pyval) list \<Rightarrow> key_arg \<Rightarrow> int option \<Rightarrow> map_error + ustring option" where
  "verify_signature nfc cr raw public_key contract =
     (if \<not> cr_installed cr then map_error ''the signed extra is not installed''
      else case dict_get raw ''signature'' of
        PDict signature \<Rightarrow>
          if dict_get signature ''alg'' \<noteq> PStr (lit ''ed25519'') then map_error ''only ed25519''
          else
            and_then (decode_signature cr signature) (\<lambda>value.
            and_then (key_set public_key) (\<lambda>ks.
            and_then (signed_payload nfc raw contract) (\<lambda>payload.
              first_verifying cr value payload (key_ordering (dict_get signature ''key_id'') ks))))
      | _ \<Rightarrow> map_error ''only ed25519'')"

section \<open>Groups\<close>

definition parse_derived :: "int \<Rightarrow> pyval \<Rightarrow> map_error + layout_slot materialization list" where
  "parse_derived contract raw =
     (case raw of
        PNone \<Rightarrow> Inr []
      | PList ds \<Rightarrow> traverse (parse_materialization False contract) ds
      | _ \<Rightarrow> map_error ''derived is a list'')"

text \<open>The write generation of a group, \<open>None\<close> where it carries none.\<close>

definition parse_epoch :: "int \<Rightarrow> (ustring \<times> pyval) list \<Rightarrow> map_error + int option" where
  "parse_epoch contract body =
     (let has_epoch = lit ''write_epoch'' \<in> set (keys body);
          unfenced = (contract \<ge> UNFENCED_SINCE \<and> \<not> has_epoch)
      in if contract \<ge> 4 \<and> \<not> unfenced \<and> \<not> int_within 1 MAX_EPOCH (dict_get body ''write_epoch'')
         then map_error ''write_epoch is a positive safe integer''
         else if contract < 4 \<and> has_epoch then map_error ''write_epoch requires contract 4''
         else if unfenced \<and> (lit ''derived'' \<in> set (keys body) \<or> lit ''also_write'' \<in> set (keys body))
         then map_error ''a group without a write generation has only a source''
         else case dict_get body ''write_epoch'' of
                PInt e \<Rightarrow> Inr (if contract \<ge> 4 then Some e else None)
              | _ \<Rightarrow> Inr None)"

definition parse_group ::
  "int \<Rightarrow> ustring \<times> pyval \<Rightarrow> map_error + ustring \<times> layout_slot group_placement" where
  "parse_group contract = (\<lambda>(name, raw).
     case raw of
       PDict body \<Rightarrow>
         if lit ''source'' \<notin> set (keys body) then map_error ''a group needs a source''
         else
           and_then (parse_epoch contract body) (\<lambda>epoch.
           and_then (parse_materialization True contract (dict_get body ''source'')) (\<lambda>src.
           and_then (parse_derived contract (dict_get body ''derived'')) (\<lambda>derived.
           and_then (require (distinct (map mat_id (src # derived)))
                       (MapError ''two materialisations share an id'')) (\<lambda>_.
           and_then (also_write (dict_get body ''also_write'') contract src derived) (\<lambda>fan_out.
             Inr (name, \<lparr>gp_group = name, gp_source = src, gp_derived = derived,
                         gp_also_write = fan_out, gp_write_epoch = epoch\<rparr>))))))
     | _ \<Rightarrow> map_error ''a group needs a source'')"

text \<open>Every copy of a group with its layout replaced, \<open>also_write\<close> with the others.\<close>

definition with_layout :: "'l \<Rightarrow> 'k materialization \<Rightarrow> 'l materialization" where
  "with_layout l mat = \<lparr>mat_id = mat_id mat, mat_engine = mat_engine mat, mat_layout = l, mat_lag = mat_lag mat\<rparr>"

definition map_copies ::
  "('k materialization \<Rightarrow> map_error + 'l materialization) \<Rightarrow> 'k group_placement \<Rightarrow> map_error + 'l group_placement" where
  "map_copies f p =
     and_then (f (gp_source p)) (\<lambda>src.
     and_then (traverse f (gp_derived p)) (\<lambda>derived.
     and_then (traverse f (gp_also_write p)) (\<lambda>fan_out.
       Inr \<lparr>gp_group = gp_group p, gp_source = src, gp_derived = derived, gp_also_write = fan_out,
            gp_write_epoch = gp_write_epoch p\<rparr>)))"

definition fill_auto ::
  "unicode \<Rightarrow> (ustring \<Rightarrow> ustring) \<Rightarrow> (ustring \<Rightarrow> ustring) \<Rightarrow> logical_model \<Rightarrow> group \<Rightarrow>
     layout_slot materialization \<Rightarrow> map_error + physical_layout materialization" where
  "fill_auto u nfc lower m g mat =
     (case mat_layout mat of
        Laid l \<Rightarrow> Inr (with_layout l mat)
      | AUTO \<Rightarrow> (case default_layout u nfc lower m g Postgres of
                   Inl e \<Rightarrow> Inl (MapLayout e)
                 | Inr l \<Rightarrow> Inr (with_layout l mat)))"

definition resolve_auto ::
  "unicode \<Rightarrow> (ustring \<Rightarrow> ustring) \<Rightarrow> (ustring \<Rightarrow> ustring) \<Rightarrow> logical_model \<Rightarrow> group list \<Rightarrow>
     ustring \<times> layout_slot group_placement \<Rightarrow> map_error + ustring \<times> physical_layout group_placement" where
  "resolve_auto u nfc lower m gs = (\<lambda>(name, p).
     case List.find (\<lambda>g. gname g = name) gs of
       None \<Rightarrow> map_error ''KeyError''
     | Some g \<Rightarrow> and_then (map_copies (fill_auto u nfc lower m g) p) (\<lambda>p'. Inr (name, p')))"

text \<open>Without a model a layout that asks to be derived is refused.\<close>

definition require_laid ::
  "ustring \<times> layout_slot group_placement \<Rightarrow> map_error + ustring \<times> physical_layout group_placement" where
  "require_laid = (\<lambda>(name, p).
     and_then (map_copies (\<lambda>mat. case mat_layout mat of
                             Laid l \<Rightarrow> Inr (with_layout l mat)
                           | AUTO \<Rightarrow> map_error ''auto needs a model'') p) (\<lambda>p'. Inr (name, p')))"

definition refuse_shadowing :: "physical_layout group_placement \<Rightarrow> map_error + unit" where
  "refuse_shadowing p =
     require (list_all (\<lambda>c. mat_engine c = mat_engine (gp_source p) \<longrightarrow>
                set (vals (tables (mat_layout (gp_source p)))) \<inter> set (vals (tables (mat_layout c))) = {})
                (gp_derived p))
       (MapError ''a copy reuses the tables of the source'')"

definition check_physical_entity ::
  "logical_model \<Rightarrow> physical_layout \<Rightarrow> ustring \<Rightarrow> map_error + unit" where
  "check_physical_entity m l entity =
     (case entity_of m entity of
        None \<Rightarrow> map_error ''the physical design names an undeclared entity''
      | Some spec \<Rightarrow>
          check_against_model (ekey spec) (map (\<lambda>f. (fname f, ftype f)) (efields spec))
            (map_of (key_order l) entity) (map_of (partition_by l) entity))"

definition check_physical :: "logical_model \<Rightarrow> physical_layout group_placement \<Rightarrow> map_error + unit" where
  "check_physical m p =
     and_then (traverse (\<lambda>mat. traverse (check_physical_entity m (mat_layout mat))
                  (sort (remdups (keys (key_order (mat_layout mat)) @ keys (partition_by (mat_layout mat))))))
                (all_copies p)) (\<lambda>_. Inr ())"

section \<open>Routing targets\<close>

definition check_target ::
  "(ustring, physical_layout group_placement) dict \<Rightarrow> ustring \<times> pyval \<Rightarrow> map_error + unit" where
  "check_target gps = (\<lambda>(shape_id, target).
     if \<not> is_str target then map_error ''a routing entry is a materialisation id''
     else require (\<exists>(name, p) \<in> set gps. str_of target \<in> mat_id ` set (all_copies p))
            (MapError ''routing to an id no group declares''))"

text \<open>
  \<open>{shape.id: shape for shape in ...}\<close>, where a later shape replaces an earlier one of the same
  identifier.
\<close>

definition shapes_by_id :: "operation_shape list \<Rightarrow> ustring \<Rightarrow> operation_shape option" where
  "shapes_by_id shapes = map_of (rev (map (\<lambda>s. (sh_id s, s)) shapes))"

definition check_shape_target ::
  "(ustring, physical_layout group_placement) dict \<Rightarrow> operation_shape list \<Rightarrow> ustring \<times> pyval \<Rightarrow> map_error + unit" where
  "check_shape_target gps shapes = (\<lambda>(shape_id, target).
     case shapes_by_id shapes shape_id of
       None \<Rightarrow> map_error ''routing of an unknown shape''
     | Some s \<Rightarrow>
         if sh_kind s \<in> SOURCE_ONLY_KINDS then map_error ''routing of a search''
         else (case map_of gps (sh_group s) of
                 None \<Rightarrow> map_error ''routing to another group''
               | Some p \<Rightarrow>
                   if str_of target \<notin> mat_id ` set (all_copies p) then map_error ''routing to another group''
                   else require (sh_kind s \<in> WRITE_KINDS \<longrightarrow> str_of target = mat_id (gp_source p))
                          (MapError ''routing a write away from the source'')))"

definition check_routing_targets ::
  "(ustring \<Rightarrow> ustring) \<Rightarrow> (nat list \<Rightarrow> ustring) \<Rightarrow> (ustring \<times> pyval) list \<Rightarrow>
     (ustring, physical_layout group_placement) dict \<Rightarrow> logical_model option \<Rightarrow> map_error + unit" where
  "check_routing_targets nfc sha256 routing gps model =
     and_then (traverse (check_target gps) (sort_key fst routing)) (\<lambda>_.
       case model of
         None \<Rightarrow> Inr ()
       | Some m \<Rightarrow>
           (case enumerate_shapes nfc sha256 m of
              Inl e \<Rightarrow> Inl (MapShapes e)
            | Inr shapes \<Rightarrow>
                and_then (traverse (check_shape_target gps shapes) (sort_key fst routing)) (\<lambda>_. Inr ())))"

section \<open>The map\<close>

text \<open>A number a contract can be compared with: an integer, a boolean or a float.\<close>

fun at_least_four :: "pyval \<Rightarrow> bool" where
  "at_least_four (PInt i) \<longleftrightarrow> i \<ge> 4"
| "at_least_four (PFloat (Finite r)) \<longleftrightarrow> r \<ge> 4"
| "at_least_four (PFloat (Infinite negative)) \<longleftrightarrow> \<not> negative"
| "at_least_four _ \<longleftrightarrow> False"

definition read_numbers :: "(ustring \<times> pyval) list \<Rightarrow> (ustring \<times> pyval) list" where
  "read_numbers d = (if at_least_four (dict_get d ''contract'') then map (map_prod id json_numbers) d else d)"

definition read_contract :: "(ustring \<times> pyval) list \<Rightarrow> map_error + int" where
  "read_contract raw =
     (case dict_get raw ''contract'' of
        PInt c \<Rightarrow>
          if c > MAP_CONTRACT then map_error ''a contract of a later library''
          else if c < MAP_CONTRACT_FLOOR then map_error ''a contract no longer read''
          else Inr c
      | _ \<Rightarrow> map_error ''contract is not a version number'')"

definition read_project :: "int \<Rightarrow> (ustring \<times> pyval) list \<Rightarrow> map_error + ustring option" where
  "read_project contract raw =
     (if contract \<ge> 4 then
        (case dict_get raw ''project_id'' of
           PStr p \<Rightarrow> if hex_text 32 p then Inr (Some p) else map_error ''project_id''
         | _ \<Rightarrow> map_error ''project_id'')
      else if lit ''project_id'' \<in> set (keys raw) then map_error ''project_id requires contract 4''
      else Inr None)"

definition read_model_version :: "logical_model option \<Rightarrow> (ustring \<times> pyval) list \<Rightarrow> map_error + ustring" where
  "read_model_version model raw =
     (case dict_get raw ''model_version'' of
        PStr v \<Rightarrow>
          if v = [] then map_error ''model_version''
          else (case model of
                  None \<Rightarrow> Inr v
                | Some m \<Rightarrow> if mversion m = v then Inr v else map_error ''another model version'')
      | _ \<Rightarrow> map_error ''model_version'')"

definition read_map_version :: "(ustring \<times> pyval) list \<Rightarrow> map_error + int" where
  "read_map_version raw =
     (case dict_get raw ''map_version'' of
        PInt v \<Rightarrow> if v < 1 then map_error ''map_version'' else Inr v
      | _ \<Rightarrow> map_error ''map_version'')"

text \<open>Whether the map is signed, and with which key it verified.\<close>

definition read_signature ::
  "(ustring \<Rightarrow> ustring) \<Rightarrow> crypto \<Rightarrow> (ustring \<times> pyval) list \<Rightarrow> key_arg option \<Rightarrow> bool \<Rightarrow> int \<Rightarrow>
     map_error + bool \<times> ustring option" where
  "read_signature nfc cr raw public_key require_signature contract =
     (if dict_get raw ''signature'' = PNone then
        (if require_signature then map_error ''a signature was required'' else Inr (False, None))
      else case public_key of
             None \<Rightarrow> map_error ''a signed map and no key''
           | Some k \<Rightarrow> and_then (verify_signature nfc cr raw k (Some contract)) (\<lambda>name. Inr (True, name)))"

definition reserved_names :: "(ustring, physical_layout group_placement) dict \<Rightarrow> bool" where
  "reserved_names gps \<longleftrightarrow>
     (\<exists>(name, p) \<in> set gps. \<exists>mat \<in> set (all_copies p).
        (\<exists>(entity, cols) \<in> set (columns (mat_layout mat)). EPOCH_COLUMN \<in> set (keys cols)) \<or>
        DRAIN_TABLE \<in> set (vals (tables (mat_layout mat))))"

text \<open>The groups once their layouts are known, checked with the model or without it.\<close>

definition settle_groups ::
  "unicode \<Rightarrow> (ustring \<Rightarrow> ustring) \<Rightarrow> (ustring \<Rightarrow> ustring) \<Rightarrow> (nat list \<Rightarrow> ustring) \<Rightarrow> logical_model option \<Rightarrow>
     (ustring \<times> pyval) list \<Rightarrow> (ustring, layout_slot group_placement) dict \<Rightarrow>
     map_error + (ustring, physical_layout group_placement) dict" where
  "settle_groups u nfc lower sha256 model routing parsed =
     and_then (case model of
                 None \<Rightarrow> traverse require_laid parsed
               | Some m \<Rightarrow>
                   (case colocation_groups m of
                      Inl e \<Rightarrow> Inl (MapGroups e)
                    | Inr gs \<Rightarrow>
                        if \<not> gname ` set gs \<subseteq> set (keys parsed) then map_error ''a group has no placement''
                        else if \<not> set (keys parsed) \<subseteq> gname ` set gs then map_error ''an unknown group''
                        else traverse (resolve_auto u nfc lower m gs) parsed)) (\<lambda>gps.
     and_then (traverse (\<lambda>(name, p). refuse_shadowing p) gps) (\<lambda>_.
     and_then (case model of None \<Rightarrow> Inr [] | Some m \<Rightarrow> traverse (\<lambda>(name, p). check_physical m p) gps) (\<lambda>_.
     and_then (check_routing_targets nfc sha256 routing gps model) (\<lambda>_.
       Inr gps))))"

definition read_routing :: "(ustring \<times> pyval) list \<Rightarrow> map_error + (ustring \<times> pyval) list" where
  "read_routing raw =
     (if \<not> truthy (dict_get raw ''routing'') then Inr []
      else case dict_get raw ''routing'' of
             PDict r \<Rightarrow> Inr r
           | _ \<Rightarrow> map_error ''routing is a mapping'')"

definition read_groups ::
  "int \<Rightarrow> (ustring \<times> pyval) list \<Rightarrow> map_error + (ustring, layout_slot group_placement) dict" where
  "read_groups contract raw =
     (case dict_get raw ''groups'' of
        PDict d \<Rightarrow> if d = [] then map_error ''the map places no groups'' else traverse (parse_group contract) (sort_key fst d)
      | _ \<Rightarrow> map_error ''the map places no groups'')"

definition map_fingerprint ::
  "(ustring \<Rightarrow> ustring) \<Rightarrow> (nat list \<Rightarrow> ustring) \<Rightarrow> (ustring \<times> pyval) list \<Rightarrow> int \<Rightarrow> map_error + ustring option" where
  "map_fingerprint nfc sha256 raw contract =
     (case canonical_payload nfc raw contract False of
        Inr bs \<Rightarrow> Inr (Some (sha256 bs))
      | Inl (MapCanonical UnicodeEncodeError) \<Rightarrow> Inl (MapCanonical UnicodeEncodeError)
      | Inl (MapCanonical e) \<Rightarrow> Inr None
      | Inl e \<Rightarrow> Inl e)"

definition parse_map ::
  "unicode \<Rightarrow> (ustring \<Rightarrow> ustring) \<Rightarrow> (ustring \<Rightarrow> ustring) \<Rightarrow> (nat list \<Rightarrow> ustring) \<Rightarrow> crypto \<Rightarrow> pyval \<Rightarrow>
     logical_model option \<Rightarrow> key_arg option \<Rightarrow> bool \<Rightarrow> map_error + placement_map" where
  "parse_map u nfc lower sha256 cr doc model public_key require_signature =
     (case doc of
        PDict d \<Rightarrow>
          let raw = read_numbers d
          in and_then (read_contract raw) (\<lambda>contract.
             and_then (require (canonical_text nfc (PDict (without_signature raw)))
                         (MapError ''text is not NFC scalar text'')) (\<lambda>_.
             and_then (read_project contract raw) (\<lambda>project_id.
             and_then (read_model_version model raw) (\<lambda>model_version.
             and_then (read_map_version raw) (\<lambda>map_version.
             and_then (read_signature nfc cr raw public_key require_signature contract) (\<lambda>(is_signed, verified_with).
             and_then (read_groups contract raw) (\<lambda>parsed.
             and_then (read_routing raw) (\<lambda>routing.
             and_then (settle_groups u nfc lower sha256 model routing parsed) (\<lambda>gps.
             and_then (require (\<not> (contract \<ge> 4 \<and> reserved_names gps)) (MapError ''a reserved name'')) (\<lambda>_.
             and_then (map_fingerprint nfc sha256 raw contract) (\<lambda>fingerprint.
               Inr \<lparr>pm_contract = contract, pm_model_version = model_version, pm_map_version = map_version,
                    pm_groups = gps, pm_routing = map (\<lambda>(k, v). (k, str_of v)) routing,
                    pm_signed = is_signed, pm_verified_with = verified_with, pm_project_id = project_id,
                    pm_fingerprint = fingerprint\<rparr>)))))))))))
      | _ \<Rightarrow> map_error ''a placement map is an object'')"

section \<open>What a parsed group promises\<close>

definition group_ok :: "int \<Rightarrow> 'l group_placement \<Rightarrow> bool" where
  "group_ok contract p \<longleftrightarrow>
     is_source (gp_source p) \<and> (\<forall>d \<in> set (gp_derived p). \<exists>lag \<ge> 0. mat_lag d = Some lag) \<and>
     distinct (map mat_id (all_copies p)) \<and>
     set (gp_also_write p) \<subseteq> set (gp_derived p) \<and> distinct (map mat_id (gp_also_write p)) \<and>
     (gp_also_write p \<noteq> [] \<longrightarrow> contract \<ge> ALSO_WRITE_SINCE) \<and>
     (case gp_write_epoch p of
        Some e \<Rightarrow> contract \<ge> 4 \<and> 1 \<le> e \<and> e \<le> MAX_EPOCH
      | None \<Rightarrow> contract < 4 \<or> (contract \<ge> UNFENCED_SINCE \<and> gp_derived p = [] \<and> gp_also_write p = []))"

lemma lag_budget_nonneg: "lag_budget v = Inr l \<Longrightarrow> 0 \<le> l"
  by (induction v rule: lag_budget.induct) (auto split: if_splits)

lemma parse_materialization_Inr:
  assumes "parse_materialization src contract raw = Inr mat"
  shows "if src then is_source mat else \<exists>lag \<ge> 0. mat_lag mat = Some lag"
proof (cases raw)
  case (PDict d)
  obtain l budget where run: "(if dict_get d ''lag_budget_ms'' = PNone then Inr None
      else and_then (lag_budget (dict_get d ''lag_budget_ms'')) (\<lambda>l. Inr (Some l))) = (Inr budget :: map_error + _)"
    "mat_lag mat = budget" "src \<longrightarrow> dict_get d ''lag_budget_ms'' = PNone" "\<not> src \<longrightarrow> dict_get d ''lag_budget_ms'' \<noteq> PNone"
    using assms PDict
    by (auto simp: parse_materialization_def Let_def and_then_Inr split: if_splits)
  then show ?thesis
    by (auto simp: is_source_def and_then_Inr) (metis lag_budget_nonneg)
qed (use assms in \<open>simp_all add: parse_materialization_def\<close>)

lemma also_write_entries_Inr:
  assumes "also_write_entries src derived seen raws = Inr ms"
  shows "set ms \<subseteq> set derived \<and> distinct (map mat_id ms) \<and> mat_id ` set ms \<inter> insert src seen = {}"
  using assms
proof (induction raws arbitrary: seen ms)
  case (Cons raw raws)
  obtain i where raw: "raw = PStr i" using Cons.prems by (cases raw) auto
  obtain mat rest where run: "List.find (\<lambda>mat. mat_id mat = i) derived = Some mat" "i \<noteq> src" "i \<notin> seen"
    "also_write_entries src derived (insert i seen) raws = Inr rest" "ms = mat # rest"
    using Cons.prems unfolding raw by (auto simp: and_then_Inr split: if_splits option.splits)
  have "mat \<in> set derived" "mat_id mat = i" using run(1) by (auto simp: find_Some_iff)
  then show ?case using Cons.IH [OF run(4)] run(2,3,5) by auto
qed simp

lemma also_write_Inr:
  assumes "also_write raw contract src derived = Inr ms"
  shows "set ms \<subseteq> set derived \<and> distinct (map mat_id ms) \<and> (ms \<noteq> [] \<longrightarrow> contract \<ge> ALSO_WRITE_SINCE) \<and>
    (raw = PNone \<longrightarrow> ms = [])"
proof (cases raw)
  case (PList entries)
  then have run: "also_write_entries (mat_id src) derived {} entries = Inr ms" "contract \<ge> ALSO_WRITE_SINCE"
    using assms by (auto simp: also_write_def split: if_splits)
  show ?thesis using also_write_entries_Inr [OF run(1)] run(2) PList by simp
qed (use assms in \<open>auto simp: also_write_def split: if_splits\<close>)

lemma dict_get_absent: "lit k \<notin> set (keys d) \<Longrightarrow> dict_get d k = PNone"
  by (simp add: dict_get_def map_of_eq_None_iff [symmetric] split: option.splits)

lemma parse_epoch_Inr:
  assumes "parse_epoch contract body = Inr epoch"
  shows "case epoch of
      Some e \<Rightarrow> contract \<ge> 4 \<and> 1 \<le> e \<and> e \<le> MAX_EPOCH
    | None \<Rightarrow> contract < 4 \<or> (contract \<ge> UNFENCED_SINCE \<and> dict_get body ''derived'' = PNone \<and>
        dict_get body ''also_write'' = PNone)"
proof (cases "dict_get body ''write_epoch''")
  case (PInt e)
  then have "lit ''write_epoch'' \<in> set (keys body)" using dict_get_absent by fastforce
  then show ?thesis using assms PInt by (auto simp: parse_epoch_def Let_def split: if_splits)
qed (use assms in \<open>auto simp: parse_epoch_def Let_def dict_get_absent split: if_splits\<close>)

lemma parse_group_ok:
  assumes "parse_group contract (name, raw) = Inr (name', p)"
  shows "name' = name \<and> gp_group p = name \<and> group_ok contract p"
proof (cases raw)
  case (PDict body)
  obtain epoch src derived fan where run: "parse_epoch contract body = Inr epoch"
    "parse_materialization True contract (dict_get body ''source'') = Inr src"
    "parse_derived contract (dict_get body ''derived'') = Inr derived" "distinct (map mat_id (src # derived))"
    "also_write (dict_get body ''also_write'') contract src derived = Inr fan"
    "name' = name" "p = \<lparr>gp_group = name, gp_source = src, gp_derived = derived, gp_also_write = fan, gp_write_epoch = epoch\<rparr>"
    using assms PDict by (auto simp: parse_group_def and_then_Inr require_Inr split: if_splits)
  have "\<exists>lag \<ge> 0. mat_lag d = Some lag" if d: "d \<in> set derived" for d
  proof -
    obtain ds where "traverse (parse_materialization False contract) ds = Inr derived"
      using run(3) d by (auto simp: parse_derived_def split: pyval.splits)
    from traverse_mem [OF this d] obtain raw where "parse_materialization False contract raw = Inr d" by blast
    from parse_materialization_Inr [OF this] show ?thesis by simp
  qed
  moreover have "is_source src" using parse_materialization_Inr [OF run(2)] by simp
  moreover have "epoch = None \<Longrightarrow> contract < 4 \<or> (contract \<ge> UNFENCED_SINCE \<and> derived = [] \<and> fan = [])"
    using parse_epoch_Inr [OF run(1)] run(3,5) by (auto simp: parse_derived_def also_write_def)
  moreover have "\<And>e. epoch = Some e \<Longrightarrow> contract \<ge> 4 \<and> 1 \<le> e \<and> e \<le> MAX_EPOCH"
    using parse_epoch_Inr [OF run(1)] by simp
  ultimately show ?thesis
    using also_write_Inr [OF run(5)] run(4,6) unfolding run(7) group_ok_def all_copies_def
    by (simp split: option.splits)
qed (use assms in \<open>simp_all add: parse_group_def\<close>)

text \<open>Replacing layouts keeps all of it.\<close>

lemma map_copies_ok:
  assumes "map_copies f p = Inr q" "group_ok contract p"
    and "\<forall>mat mat'. f mat = Inr mat' \<longrightarrow> mat_id mat' = mat_id mat \<and> mat_lag mat' = mat_lag mat"
  shows "gp_group q = gp_group p \<and> group_ok contract q \<and> map mat_id (all_copies q) = map mat_id (all_copies p)"
proof -
  obtain src ds fan where run: "f (gp_source p) = Inr src" "traverse f (gp_derived p) = Inr ds"
    "traverse f (gp_also_write p) = Inr fan"
    "q = \<lparr>gp_group = gp_group p, gp_source = src, gp_derived = ds, gp_also_write = fan,
          gp_write_epoch = gp_write_epoch p\<rparr>"
    using assms(1) by (auto simp: map_copies_def and_then_Inr)
  have src: "mat_id src = mat_id (gp_source p)" "mat_lag src = mat_lag (gp_source p)" using assms(3) run(1) by auto
  have ids: "map mat_id ds = map mat_id (gp_derived p)" "map mat_id fan = map mat_id (gp_also_write p)"
    by (rule traverse_keys [OF run(2)], use assms(3) in blast)
      (rule traverse_keys [OF run(3)], use assms(3) in blast)
  have "\<exists>lag \<ge> 0. mat_lag d = Some lag" if d: "d \<in> set ds" for d
  proof -
    obtain x where "x \<in> set (gp_derived p)" "f x = Inr d" using traverse_mem [OF run(2) d] by blast
    then show ?thesis using assms(2,3) by (auto simp: group_ok_def)
  qed
  moreover have "set fan \<subseteq> set ds"
  proof
    fix d assume d: "d \<in> set fan"
    obtain x where "x \<in> set (gp_also_write p)" "f x = Inr d" using traverse_mem [OF run(3) d] by blast
    then show "d \<in> set ds" using assms(2) traverse_mem' [OF run(2), of x] by (auto simp: group_ok_def)
  qed
  moreover have "(ds = []) = (gp_derived p = [])" "(fan = []) = (gp_also_write p = [])"
    using ids by (metis map_is_Nil_conv)+
  ultimately show ?thesis
    using assms(2) ids src unfolding run(4) group_ok_def all_copies_def
    by (simp add: is_source_def split: option.splits)
qed

lemma fill_auto_keeps: "fill_auto u nfc lower m g mat = Inr mat' \<Longrightarrow> mat_id mat' = mat_id mat \<and> mat_lag mat' = mat_lag mat"
  by (auto simp: fill_auto_def with_layout_def split: layout_slot.splits sum.splits)

lemma resolve_auto_ok:
  assumes "resolve_auto u nfc lower m gs (name, p) = Inr (name', q)" "group_ok contract p"
  shows "name' = name \<and> gp_group q = gp_group p \<and> group_ok contract q"
proof -
  obtain g where run: "map_copies (fill_auto u nfc lower m g) p = Inr q" "name' = name"
    using assms(1) by (auto simp: resolve_auto_def and_then_Inr split: option.splits)
  then show ?thesis using map_copies_ok [OF run(1) assms(2)] fill_auto_keeps by blast
qed

lemma require_laid_ok:
  assumes "require_laid (name, p) = Inr (name', q)" "group_ok contract p"
  shows "name' = name \<and> gp_group q = gp_group p \<and> group_ok contract q"
proof -
  obtain f where run: "map_copies f p = Inr q" "name' = name"
    and f: "f = (\<lambda>mat. case mat_layout mat of Laid l \<Rightarrow> Inr (with_layout l mat) | AUTO \<Rightarrow> map_error ''auto needs a model'')"
    using assms(1) by (auto simp: require_laid_def and_then_Inr)
  have "\<forall>mat mat'. f mat = Inr mat' \<longrightarrow> mat_id mat' = mat_id mat \<and> mat_lag mat' = mat_lag mat"
    unfolding f by (auto simp: with_layout_def split: layout_slot.splits)
  from map_copies_ok [OF run(1) assms(2) this] run(2) show ?thesis by simp
qed

section \<open>What a loaded map promises\<close>

text \<open>No copy in the engine of the source stores into a table of the source.\<close>

definition no_shadowing :: "physical_layout group_placement \<Rightarrow> bool" where
  "no_shadowing p \<longleftrightarrow>
     (\<forall>d \<in> set (gp_derived p). mat_engine d = mat_engine (gp_source p) \<longrightarrow>
        set (vals (tables (mat_layout (gp_source p)))) \<inter> set (vals (tables (mat_layout d))) = {})"

definition map_ok :: "placement_map \<Rightarrow> bool" where
  "map_ok pm \<longleftrightarrow>
     MAP_CONTRACT_FLOOR \<le> pm_contract pm \<and> pm_contract pm \<le> MAP_CONTRACT \<and> 1 \<le> pm_map_version pm \<and>
     pm_groups pm \<noteq> [] \<and>
     (\<forall>(name, p) \<in> set (pm_groups pm). gp_group p = name \<and> group_ok (pm_contract pm) p \<and> no_shadowing p) \<and>
     (pm_project_id pm = None \<longleftrightarrow> pm_contract pm < 4) \<and>
     (pm_contract pm \<ge> 4 \<longrightarrow> pm_fingerprint pm \<noteq> None \<and> \<not> reserved_names (pm_groups pm))"

lemma read_groups_ok:
  assumes "read_groups contract raw = Inr parsed"
  shows "parsed \<noteq> [] \<and> (\<forall>(name, p) \<in> set parsed. gp_group p = name \<and> group_ok contract p)"
proof -
  obtain d where d: "d \<noteq> []" "traverse (parse_group contract) (sort_key fst d) = Inr parsed"
    using assms by (auto simp: read_groups_def split: pyval.splits if_splits)
  have "gp_group p = name \<and> group_ok contract p" if mem: "(name, p) \<in> set parsed" for name p
  proof -
    obtain x where x: "parse_group contract x = Inr (name, p)" using traverse_mem [OF d(2) mem] by blast
    show ?thesis using parse_group_ok [of contract "fst x" "snd x" name p] x by auto
  qed
  moreover have "length parsed = length d" using traverse_length [OF d(2)] by simp
  ultimately show ?thesis using d(1) by fastforce
qed

lemma settle_groups_ok:
  assumes "settle_groups u nfc lower sha256 model routing parsed = Inr gps"
    and "\<forall>(name, p) \<in> set parsed. gp_group p = name \<and> group_ok contract p"
  shows "keys gps = keys parsed" (is ?keys)
    and "\<forall>(name, p) \<in> set gps. gp_group p = name \<and> group_ok contract p \<and> no_shadowing p"
proof -
  obtain f :: "_ \<Rightarrow> map_error + _" where f: "traverse f parsed = Inr gps"
    and keep: "\<forall>name p name' q. f (name, p) = Inr (name', q) \<longrightarrow> group_ok contract p \<longrightarrow>
      name' = name \<and> gp_group q = gp_group p \<and> group_ok contract q"
  proof (cases model)
    case None
    then have "traverse require_laid parsed = Inr gps"
      using assms(1) by (auto simp: settle_groups_def and_then_Inr)
    then show ?thesis using that [of require_laid] require_laid_ok by blast
  next
    case (Some m)
    then obtain gs where "traverse (resolve_auto u nfc lower m gs) parsed = Inr gps"
      using assms(1) by (auto simp: settle_groups_def and_then_Inr split: sum.splits if_splits)
    then show ?thesis using that [of "resolve_auto u nfc lower m gs"] resolve_auto_ok by blast
  qed
  have ok: "gp_group (snd y) = fst y \<and> group_ok contract (snd y) \<and> fst y = fst x"
    if "x \<in> set parsed" "f x = Inr y" for x y
    using that keep [rule_format, of "fst x" "snd x" "fst y" "snd y"] assms(2) by force
  have shadow: "no_shadowing p" if mem: "(name, p) \<in> set gps" for name p
  proof -
    obtain us where us: "traverse (\<lambda>(name, p). refuse_shadowing p) gps = Inr us"
      using assms(1) by (auto simp: settle_groups_def and_then_Inr)
    show ?thesis using traverse_mem' [OF us mem]
      by (auto simp: refuse_shadowing_def require_Inr no_shadowing_def list_all_iff)
  qed
  have "fst (parsed ! i) = fst (gps ! i)" if "i < length gps" for i
    using that ok [of "parsed ! i" "gps ! i"] f by (simp add: traverse_Inr list_all2_conv_all_nth)
  then show ?keys using traverse_length [OF f] by (simp add: list_eq_iff_nth_eq)
  show "\<forall>(name, p) \<in> set gps. gp_group p = name \<and> group_ok contract p \<and> no_shadowing p"
  proof clarify
    fix name p assume mem: "(name, p) \<in> set gps"
    obtain x where "x \<in> set parsed" "f x = Inr (name, p)" using traverse_mem [OF f mem] by blast
    from ok [OF this] shadow [OF mem] show "gp_group p = name \<and> group_ok contract p \<and> no_shadowing p" by simp
  qed
qed

lemma parse_map_Inr:
  assumes "parse_map u nfc lower sha256 cr doc model public_key require_signature = Inr pm"
  obtains d raw parsed routing where "doc = PDict d" "raw = read_numbers d"
    "read_contract raw = Inr (pm_contract pm)"
    "canonical_text nfc (PDict (without_signature raw))"
    "read_project (pm_contract pm) raw = Inr (pm_project_id pm)"
    "read_model_version model raw = Inr (pm_model_version pm)"
    "read_map_version raw = Inr (pm_map_version pm)"
    "read_signature nfc cr raw public_key require_signature (pm_contract pm) = Inr (pm_signed pm, pm_verified_with pm)"
    "read_groups (pm_contract pm) raw = Inr parsed" "read_routing raw = Inr routing"
    "settle_groups u nfc lower sha256 model routing parsed = Inr (pm_groups pm)"
    "pm_contract pm \<ge> 4 \<longrightarrow> \<not> reserved_names (pm_groups pm)"
    "map_fingerprint nfc sha256 raw (pm_contract pm) = Inr (pm_fingerprint pm)"
    "pm_routing pm = map (\<lambda>(k, v). (k, str_of v)) routing"
proof (cases doc)
  case (PDict d)
  then show ?thesis
    using assms that [of d "read_numbers d"]
    by (auto simp: parse_map_def Let_def and_then_Inr require_Inr)
qed (use assms in \<open>simp_all add: parse_map_def\<close>)

lemma map_fingerprint_defined:
  "map_fingerprint nfc sha256 raw contract = Inr fp \<Longrightarrow> contract \<ge> 4 \<Longrightarrow> fp \<noteq> None"
  by (auto simp: map_fingerprint_def canonical_payload_def Let_def
      split: sum.splits map_error.splits canonical_error.splits if_splits)


text \<open>A generation-bearing map with a fan-out, to apply the theorems to.\<close>

definition sample_copy :: "string \<Rightarrow> string \<Rightarrow> string \<Rightarrow> (ustring \<times> pyval) list \<Rightarrow> pyval" where
  "sample_copy i engine table extra =
     PDict ([(lit ''id'', PStr (lit i)), (lit ''engine'', PStr (lit engine)),
             (lit ''layout'', PDict [(lit ''tables'', PDict [(lit ''E'', PStr (lit table))])])] @ extra)"

definition sample_map :: "pyval" where
  "sample_map = PDict
     [(lit ''contract'', PInt 5), (lit ''project_id'', PStr (replicate 32 97)), (lit ''model_version'', PStr (replicate 16 97)),
      (lit ''map_version'', PInt 7),
      (lit ''groups'', PDict [(lit ''E'', PDict
         [(lit ''source'', sample_copy ''s'' ''pg'' ''e'' []),
          (lit ''derived'', PList [sample_copy ''d'' ''ch'' ''e'' [(lit ''lag_budget_ms'', PInt 30)]]),
          (lit ''also_write'', PList [PStr (lit ''d'')]), (lit ''write_epoch'', PInt 3)])])]"

definition no_crypto :: crypto where
  "no_crypto = \<lparr>cr_installed = False, cr_b64decode = (\<lambda>_. None), cr_verify = (\<lambda>_ _ _. False)\<rparr>"


lemma parse_mapI:
  assumes "read_contract (read_numbers d) = Inr contract"
    and "canonical_text nfc (PDict (without_signature (read_numbers d)))"
    and "read_project contract (read_numbers d) = Inr project"
    and "read_model_version model (read_numbers d) = Inr mv" "read_map_version (read_numbers d) = Inr v"
    and "read_signature nfc cr (read_numbers d) public_key require_signature contract = Inr (sg, vw)"
    and "read_groups contract (read_numbers d) = Inr parsed" "read_routing (read_numbers d) = Inr routing"
    and "settle_groups u nfc lower sha256 model routing parsed = Inr gps" "\<not> reserved_names gps"
    and "has_canonical_form nfc (PDict (without_signature (read_numbers d)))"
    and "\<not> unsafe_integer (PDict (without_signature (read_numbers d)))" "\<And>s. nfc (nfc s) = nfc s"
  shows "\<exists>bs. parse_map u nfc lower sha256 cr (PDict d) model public_key require_signature =
    Inr \<lparr>pm_contract = contract, pm_model_version = mv, pm_map_version = v, pm_groups = gps,
         pm_routing = map (\<lambda>(k, v). (k, str_of v)) routing, pm_signed = sg, pm_verified_with = vw,
         pm_project_id = project, pm_fingerprint = Some (sha256 bs)\<rparr>"
proof -
  obtain bs where "canonical_bytes nfc (PDict (without_signature (read_numbers d))) = Inr bs"
    using canonical_bytes_total [OF assms(13)] assms(11) by blast
  then have "map_fingerprint nfc sha256 (read_numbers d) contract = Inr (Some (sha256 bs))"
    using assms(12) by (simp add: map_fingerprint_def canonical_payload_def)
  then show ?thesis using assms(1-10) by (intro exI [of _ bs]) (simp add: parse_map_def Let_def)
qed

definition sample_raw :: "(ustring \<times> pyval) list" where
  "sample_raw = the (as_dict sample_map)"

definition sample_placement :: "physical_layout group_placement" where
  "sample_placement =
     (let l = \<lparr>tables = [(lit ''E'', lit ''e'')], columns = [], indexes = [], partition_by = [], key_order = []\<rparr>;
          d = \<lparr>mat_id = lit ''d'', mat_engine = lit ''ch'', mat_layout = l, mat_lag = Some 30\<rparr>
      in \<lparr>gp_group = lit ''E'', gp_source = \<lparr>mat_id = lit ''s'', mat_engine = lit ''pg'', mat_layout = l, mat_lag = None\<rparr>,
          gp_derived = [d], gp_also_write = [d], gp_write_epoch = Some 3\<rparr>)"

lemma sample_map_parsed:
  "\<exists>bs. parse_map latin_tables id id sha256 no_crypto sample_map None None False =
     Inr \<lparr>pm_contract = 5, pm_model_version = replicate 16 97, pm_map_version = 7,
          pm_groups = [(lit ''E'', sample_placement)], pm_routing = [], pm_signed = False, pm_verified_with = None,
          pm_project_id = Some (replicate 32 97), pm_fingerprint = Some (sha256 bs)\<rparr>"
proof -
  have raw: "sample_map = PDict sample_raw" "read_numbers sample_raw = sample_raw" by code_simp+
  obtain parsed where parsed: "read_groups 5 sample_raw = Inr parsed"
    "settle_groups latin_tables id id sha256 None [] parsed = Inr [(lit ''E'', sample_placement)]"
  proof -
    have "case read_groups 5 sample_raw of
        Inr p \<Rightarrow> settle_groups latin_tables id id sha256 None [] p = Inr [(lit ''E'', sample_placement)] | Inl _ \<Rightarrow> False"
      by code_simp
    then show ?thesis using that by (auto split: sum.splits)
  qed
  have head: "read_contract sample_raw = Inr 5" "read_project 5 sample_raw = Inr (Some (replicate 32 97))"
    "read_model_version None sample_raw = Inr (replicate 16 97)" "read_map_version sample_raw = Inr 7"
    "dict_get sample_raw ''signature'' = PNone" "read_routing sample_raw = Inr []"
    "\<not> reserved_names [(lit ''E'', sample_placement)]"
    by code_simp+
  note defs = without_signature_def sample_raw_def sample_map_def sample_copy_def lit_def
  have scalar: "canonical_text id (PDict (without_signature sample_raw))"
    by (simp add: defs scalar_nfc_def list_all_iff)
  have safe: "\<not> unsafe_integer (PDict (without_signature sample_raw))" by (simp add: defs SAFE_def)
  have form: "has_canonical_form id (PDict (without_signature sample_raw))" by (simp add: defs text_ok_def)
  have sg: "read_signature id no_crypto sample_raw None False 5 = Inr (False, None)"
    by (simp add: read_signature_def head(5))
  have "\<exists>bs. parse_map latin_tables id id sha256 no_crypto (PDict sample_raw) None None False =
      Inr \<lparr>pm_contract = 5, pm_model_version = replicate 16 97, pm_map_version = 7,
         pm_groups = [(lit ''E'', sample_placement)], pm_routing = map (\<lambda>(k, v). (k, str_of v)) [], pm_signed = False,
         pm_verified_with = None, pm_project_id = Some (replicate 32 97), pm_fingerprint = Some (sha256 bs)\<rparr>"
    by (rule parse_mapI [of sample_raw, unfolded raw(2), OF head(1) scalar head(2-4) sg parsed(1) head(6) parsed(2)
          head(7) form safe]) simp
  then show ?thesis unfolding raw(1) by simp
qed

lemma sample_map_loads:
  "\<exists>pm. parse_map latin_tables id id sha256 no_crypto sample_map None None False = Inr pm \<and>
     pm_groups pm = [(lit ''E'', sample_placement)] \<and> pm_map_version pm = 7"
  using sample_map_parsed [of sha256] by auto


section \<open>Signatures\<close>

lemma find_SomeD: "List.find P xs = Some x \<Longrightarrow> x \<in> set xs \<and> P x"
  by (induction xs) (auto split: if_splits)

lemma first_verifying_Inr:
  assumes "first_verifying cr sv payload ks = Inr name"
  shows "\<exists>n key. (n, key) \<in> set ks \<and> cr_verify cr key sv payload \<and> name = (if n = [] then None else Some n)"
proof -
  obtain n key where "List.find (\<lambda>(name, key). cr_verify cr key sv payload) ks = Some (n, key)"
    "name = (if n = [] then None else Some n)"
    using assms by (auto simp: first_verifying_def split: option.splits)
  then show ?thesis using find_SomeD by fastforce
qed

lemma first_verifying_defined:
  "(\<exists>name. first_verifying cr sv payload ks = Inr name) \<longleftrightarrow> (\<exists>(n, key) \<in> set ks. cr_verify cr key sv payload)"
proof -
  have "(\<exists>name. first_verifying cr sv payload ks = Inr name) \<longleftrightarrow>
      List.find (\<lambda>(name, key). cr_verify cr key sv payload) ks \<noteq> None"
    by (auto simp: first_verifying_def split: option.splits)
  then show ?thesis by (auto simp: find_None_iff)
qed

lemma set_key_ordering [simp]: "set (key_ordering claimed ks) = set ks"
  by (auto simp: key_ordering_def split: pyval.splits)

lemma canonical_payload_Inr:
  "canonical_payload nfc raw contract signd = Inr bs \<Longrightarrow> canonical_bytes nfc (PDict (without_signature raw)) = Inr bs"
  by (auto simp: canonical_payload_def Let_def split: sum.splits canonical_error.splits if_splits)


text \<open>A signature block with its \<open>key_id\<close> replaced or removed.\<close>

definition hinted :: "pyval option \<Rightarrow> (ustring \<times> pyval) list \<Rightarrow> (ustring \<times> pyval) list" where
  "hinted hint s =
     (case hint of None \<Rightarrow> [] | Some h \<Rightarrow> [(lit ''key_id'', h)]) @ filter (\<lambda>(k, v). k \<noteq> lit ''key_id'') s"

definition signed_as :: "(ustring \<times> pyval) list \<Rightarrow> (ustring \<times> pyval) list \<Rightarrow> (ustring \<times> pyval) list" where
  "signed_as payload s = payload @ [(lit ''signature'', PDict s)]"

lemma map_of_filter_other: "k' \<noteq> k \<Longrightarrow> map_of (filter (\<lambda>(k, v). k \<noteq> k') s) k = map_of s k"
  by (induction s) auto

lemma dict_get_hinted: "lit k \<noteq> lit ''key_id'' \<Longrightarrow> dict_get (hinted hint s) k = dict_get s k"
  by (auto simp: hinted_def dict_get_def map_of_filter_other map_add_def split: option.splits)

lemma decode_signature_hinted: "decode_signature cr (hinted hint s) = decode_signature cr s"
  by (simp add: hinted_def decode_signature_def map_of_filter_other split: option.splits)

lemma verify_signature_defined:
  assumes "lit ''signature'' \<notin> set (keys payload)"
  shows "(\<exists>name. verify_signature nfc cr (signed_as payload s) k contract = Inr name) \<longleftrightarrow>
    cr_installed cr \<and> dict_get s ''alg'' = PStr (lit ''ed25519'') \<and>
    (\<exists>sv ks bs. decode_signature cr s = Inr sv \<and> key_set k = Inr ks \<and> signed_payload nfc payload contract = Inr bs \<and>
      (\<exists>(n, key) \<in> set ks. cr_verify cr key sv bs))"
proof -
  have plain: "without_signature payload = payload"
    using assms by (force simp: without_signature_def filter_id_conv)
  have sg: "dict_get (signed_as payload s) ''signature'' = PDict s"
    using assms by (simp add: signed_as_def dict_get_def map_of_append map_add_def map_of_eq_None_iff [THEN iffD2])
  have strip: "without_signature (signed_as payload s) = payload"
    using plain by (simp add: signed_as_def without_signature_def)
  then have same: "signed_payload nfc (signed_as payload s) contract = signed_payload nfc payload contract"
    by (simp add: signed_payload_def canonical_payload_def plain split: option.split)
  have "(\<exists>name. and_then (decode_signature cr s) (\<lambda>sv. and_then (key_set k) (\<lambda>ks.
          and_then (signed_payload nfc payload contract) (\<lambda>bs.
            first_verifying cr sv bs (key_ordering (dict_get s ''key_id'') ks)))) = Inr name) \<longleftrightarrow>
      (\<exists>sv ks bs. decode_signature cr s = Inr sv \<and> key_set k = Inr ks \<and> signed_payload nfc payload contract = Inr bs \<and>
        (\<exists>name. first_verifying cr sv bs (key_ordering (dict_get s ''key_id'') ks) = Inr name))"
    by (auto simp: and_then_Inr)
  then show ?thesis
    unfolding first_verifying_defined set_key_ordering by (simp add: verify_signature_def sg same)
qed

text \<open>
  C14. The \<open>key_id\<close> of a signature is only a hint. It is outside the signed bytes, so anybody can edit it;
  whatever it is changed to, removed included, the document verifies exactly when it did.
\<close>

theorem key_id_is_only_a_hint:
  assumes "lit ''signature'' \<notin> set (keys payload)"
  shows "(\<exists>name. verify_signature nfc cr (signed_as payload (hinted hint s)) k contract = Inr name) \<longleftrightarrow>
    (\<exists>name. verify_signature nfc cr (signed_as payload s) k contract = Inr name)"
  unfolding verify_signature_defined [OF assms] decode_signature_hinted
  by (simp add: dict_get_hinted)

text \<open>A signature over the sample map, checked by a function that compares with the payload.\<close>

definition echo_crypto :: crypto where
  "echo_crypto = \<lparr>cr_installed = True, cr_b64decode = Some, cr_verify = (\<lambda>key sv payload. sv = payload)\<rparr>"

definition echo_signature :: "ustring \<Rightarrow> (ustring \<times> pyval) list" where
  "echo_signature v = [(lit ''alg'', PStr (lit ''ed25519'')), (lit ''value'', PStr v), (lit ''key_id'', PStr (lit ''k1''))]"

lemma echo_signature_verifies:
  assumes "canonical_bytes id (PDict [(lit ''contract'', PInt 3)]) = Inr bs"
  shows "verify_signature id echo_crypto (signed_as [(lit ''contract'', PInt 3)] (echo_signature bs))
    (KeySet [(lit ''k1'', replicate 32 1)]) (Some 3) = Inr (Some (lit ''k1''))"
proof -
  have "canonical_payload id (signed_as [(lit ''contract'', PInt 3)] (echo_signature bs)) 3 True = Inr bs"
    using assms by (simp add: canonical_payload_def signed_as_def without_signature_def)
  then show ?thesis
    by (simp add: verify_signature_def signed_as_def echo_signature_def dict_get_def decode_signature_def echo_crypto_def
        key_set_def key_pairs_def key_ordering_def first_verifying_def signed_payload_def)
qed

theorem key_id_is_only_a_hint_witness:
  "\<exists>bs name. verify_signature id echo_crypto
     (signed_as [(lit ''contract'', PInt 3)] (hinted (Some (PStr (lit ''stolen''))) (echo_signature bs)))
     (KeySet [(lit ''k1'', replicate 32 1)]) (Some 3) = Inr name"
proof -
  obtain bs where bs: "canonical_bytes id (PDict [(lit ''contract'', PInt 3)]) = Inr bs"
    using canonical_bytes_total [of id "PDict [(lit ''contract'', PInt 3)]"] by (auto simp: text_ok_def lit_def)
  have "lit ''signature'' \<notin> set (keys [(lit ''contract'', PInt 3)])" by simp
  from key_id_is_only_a_hint [OF this, of id echo_crypto "Some (PStr (lit ''stolen''))" "echo_signature bs"
      "KeySet [(lit ''k1'', replicate 32 1)]" "Some 3"] echo_signature_verifies [OF bs]
  show ?thesis by blast
qed


end
