(* ===== verification/Routing.thy ===== *)
theory Routing
  imports Placement "HOL-Library.Countable"
begin

text \<open>
  Routing (\<open>routing.py\<close>): a lookup in the placement map and the conditions under which an operation
  goes to the source whatever the map says. The log lines are not modelled.
\<close>

definition resolve ::
  "placement_map \<Rightarrow> operation_shape \<Rightarrow> bool \<Rightarrow> bool \<Rightarrow> map_error + physical_layout materialization" where
  "resolve pm s in_write_transaction fresh =
     and_then (placement_of pm (sh_group s)) (\<lambda>p.
       if sh_kind s \<in> WRITE_KINDS \<or> sh_kind s \<in> SOURCE_ONLY_KINDS then Inr (gp_source p)
       else if in_write_transaction \<or> fresh then Inr (gp_source p)
       else case map_of (pm_routing pm) (sh_id s) of
              None \<Rightarrow> Inr (gp_source p)
            | Some target_id \<Rightarrow> by_id p target_id)"

section \<open>Every operation of the model has somewhere to go\<close>

lemma by_id_Inr:
  assumes "i \<in> mat_id ` set (all_copies p)"
  shows "\<exists>mat. by_id p i = Inr mat \<and> mat \<in> set (all_copies p) \<and> mat_id mat = i"
proof -
  obtain mat where "List.find (\<lambda>mat. mat_id mat = i) (all_copies p) = Some mat"
    using assms by (cases "List.find (\<lambda>mat. mat_id mat = i) (all_copies p)") (auto simp: find_None_iff)
  then show ?thesis using find_SomeD by (fastforce simp: by_id_def)
qed

lemma shapes_by_id_distinct:
  assumes "distinct (map sh_id shapes)" "s \<in> set shapes"
  shows "shapes_by_id shapes (sh_id s) = Some s"
  unfolding shapes_by_id_def
  by (rule map_of_is_SomeI) (use assms in \<open>simp_all add: rev_map [symmetric] comp_def\<close>)

lemma settled_with_model:
  assumes "settle_groups u nfc lower sha256 (Some m) routing parsed = Inr gps"
    and "\<forall>(name, p) \<in> set parsed. gp_group p = name \<and> group_ok contract p"
  shows "\<exists>gs shapes us. colocation_groups m = Inr gs \<and> gname ` set gs = set (keys gps) \<and>
    enumerate_shapes nfc sha256 m = Inr shapes \<and>
    traverse (check_shape_target gps shapes) (sort_key fst routing) = Inr us"
proof -
  have "\<exists>gs. colocation_groups m = Inr gs \<and> gname ` set gs = set (keys parsed)"
    using assms(1) by (auto simp: settle_groups_def and_then_Inr split: sum.splits if_splits)
  moreover have "\<exists>shapes us. enumerate_shapes nfc sha256 m = Inr shapes \<and>
      traverse (check_shape_target gps shapes) (sort_key fst routing) = Inr us"
    using assms(1) by (auto simp: settle_groups_def check_routing_targets_def and_then_Inr split: sum.splits)
  ultimately show ?thesis using settle_groups_ok(1) [OF assms] by auto
qed

lemma routed_target:
  assumes "traverse (check_shape_target gps shapes) (sort_key fst routing) = Inr us"
    and "map_of (map (\<lambda>(k, v). (k, str_of v)) routing) (sh_id s) = Some t"
    and "shapes_by_id shapes (sh_id s) = Some s" "map_of gps (sh_group s) = Some p"
  shows "t \<in> mat_id ` set (all_copies p) \<and> sh_kind s \<notin> SOURCE_ONLY_KINDS \<and>
    (sh_kind s \<in> WRITE_KINDS \<longrightarrow> t = mat_id (gp_source p))"
proof -
  have "(sh_id s, t) \<in> set (map (\<lambda>(k, v). (k, str_of v)) routing)" using assms(2) by (rule map_of_SomeD)
  then obtain v where v: "(sh_id s, v) \<in> set (sort_key fst routing)" "t = str_of v" by auto
  have "\<exists>x. check_shape_target gps shapes (sh_id s, v) = Inr x" using traverse_mem' [OF assms(1) v(1)] by blast
  then show ?thesis
    using assms(3,4) v(2) by (auto simp: check_shape_target_def require_Inr split: if_splits)
qed

section \<open>Identifiers tell shapes apart unless the digest collides\<close>

lemma shape_ir_inj:
  assumes "canon id (shape_ir g k e fs t) = canon id (shape_ir g' k' e' fs' t')"
  shows "g = g' \<and> k = k' \<and> e = e' \<and> fs = fs' \<and> t = t'"
proof -
  have keys: "normalised_pairs id [(lit ''group'', a), (lit ''kind'', b), (lit ''entity'', c), (lit ''fields'', d), (lit ''target'', f)]
      = [(lit ''entity'', c), (lit ''fields'', d), (lit ''group'', a), (lit ''kind'', b), (lit ''target'', f)]" for a b c d f
    by (simp add: normalised_pairs_def lit_def)
  have "kind_text k = kind_text k' \<Longrightarrow> k = k'" by (cases k; cases k') simp_all
  then show ?thesis
    using assms by (auto simp: shape_ir_def keys option_ir_def inj_map_eq_map [of PStr] inj_def comp_def split: option.splits)
qed

lemma shape_ids_distinct:
  assumes "assemble id sha256 es rs atomic cost = Inr m"
    and "\<forall>a \<in> set atomic. a \<noteq> [] \<and> set a \<subseteq> ename ` set es"
    and shapes: "enumerate_shapes id sha256 m = Inr shapes"
    and collision_free: "\<forall>bs bs'. take 16 (sha256 bs) = take 16 (sha256 bs') \<longrightarrow> bs = bs'"
  shows "distinct (map sh_id shapes)"
proof -
  have inj: "asked s = asked t" if st: "s \<in> set shapes" "t \<in> set shapes" "sh_id s = sh_id t" for s t
  proof -
    note ids = enumerate_shapes_id [OF shapes st(1)] enumerate_shapes_id [OF shapes st(2)]
    obtain bs bs' where run: "canonical_bytes id (shape_ir (sh_group s) (sh_kind s) (sh_entity s) (sh_fields s) (sh_target s)) = Inr bs"
      "canonical_bytes id (shape_ir (sh_group t) (sh_kind t) (sh_entity t) (sh_fields t) (sh_target t)) = Inr bs'"
      "take 16 (sha256 bs) = take 16 (sha256 bs')"
      using ids st(3) by (auto simp: digest16_def and_then_Inr)
    have "bs = bs'" using collision_free run(3) by blast
    then have same: "canonical_bytes id (shape_ir (sh_group t) (sh_kind t) (sh_entity t) (sh_fields t) (sh_target t)) = Inr bs"
      using run(2) by simp
    have "id (id x) = id x" for x :: ustring by simp
    from shape_ir_inj [OF canonical_bytes_inj [of id, OF this run(1) same]] show ?thesis
      unfolding asked_def by simp
  qed
  have "distinct (map asked shapes)" by (rule enumerate_shapes_distinct [OF assms(1-3)])
  then have shapes_distinct: "distinct shapes" and asked: "inj_on asked (set shapes)" by (simp_all add: distinct_map)
  have "inj_on sh_id (set shapes)"
    by (rule inj_onI) (rule inj_onD [OF asked inj])
  then show ?thesis using shapes_distinct by (simp add: distinct_map)
qed

section \<open>The routing contract\<close>

lemma shape_is_routed:
  assumes "parse_map u nfc lower sha256 cr doc (Some m) public_key require_signature = Inr pm"
    and "enumerate_shapes nfc sha256 m = Inr shapes" "distinct (map sh_id shapes)" "s \<in> set shapes"
  shows "\<exists>p mat. placement_of pm (sh_group s) = Inr p \<and> resolve pm s tx fresh = Inr mat \<and>
    mat \<in> set (all_copies p) \<and>
    (if sh_kind s \<in> WRITE_KINDS \<union> SOURCE_ONLY_KINDS \<or> tx \<or> fresh then mat = gp_source p
     else case map_of (pm_routing pm) (sh_id s) of None \<Rightarrow> mat = gp_source p | Some t \<Rightarrow> mat_id mat = t)"
  using assms(1)
proof (rule parse_map_Inr)
  fix raw parsed routing
  assume run: "read_groups (pm_contract pm) raw = Inr parsed"
    "settle_groups u nfc lower sha256 (Some m) routing parsed = Inr (pm_groups pm)"
    "pm_routing pm = map (\<lambda>(k, v). (k, str_of v)) routing"
  obtain gs us where gs: "colocation_groups m = Inr gs" "gname ` set gs = set (keys (pm_groups pm))"
    "traverse (check_shape_target (pm_groups pm) shapes) (sort_key fst routing) = Inr us"
    using settled_with_model [OF run(2) read_groups_ok [OF run(1), THEN conjunct2]] assms(2) by auto
  have "sh_group s \<in> set (keys (pm_groups pm))"
    using enumerate_shapes_group [OF gs(1) assms(2,4)] gs(2) by auto
  then obtain p where p: "map_of (pm_groups pm) (sh_group s) = Some p"
    by (cases "map_of (pm_groups pm) (sh_group s)") (auto simp: map_of_eq_None_iff)
  have src: "gp_source p \<in> set (all_copies p)" by (simp add: all_copies_def)
  show ?thesis
  proof (cases "map_of (pm_routing pm) (sh_id s)")
    case None
    then show ?thesis using p src by (auto simp: resolve_def placement_of_def)
  next
    case (Some t)
    have "t \<in> mat_id ` set (all_copies p)"
      using routed_target [OF gs(3) Some [unfolded run(3)] shapes_by_id_distinct [OF assms(3,4)] p] by blast
    from by_id_Inr [OF this] show ?thesis using p src Some by (auto simp: resolve_def placement_of_def)
  qed
qed

text \<open>
  C11. Once a map has loaded with its model, every operation the model admits can be routed: \<open>resolve\<close>
  returns a copy of the operation's own group and never raises. A write, a search, a read that asks
  for no staleness and a read inside a transaction that has written go to the source, and so does
  anything the routing table does not name; the rest goes to the copy the table names.
\<close>

theorem every_shape_is_routed:
  assumes "parse_map u nfc lower sha256 cr doc (Some m) public_key require_signature = Inr pm"
    and "enumerate_shapes nfc sha256 m = Inr shapes" "distinct (map sh_id shapes)" "s \<in> set shapes"
  shows "\<exists>p mat. placement_of pm (sh_group s) = Inr p \<and> resolve pm s tx fresh = Inr mat \<and>
    mat \<in> set (all_copies p) \<and>
    (if sh_kind s \<in> WRITE_KINDS \<union> SOURCE_ONLY_KINDS \<or> tx \<or> fresh then mat = gp_source p
     else case map_of (pm_routing pm) (sh_id s) of None \<Rightarrow> mat = gp_source p | Some t \<Rightarrow> mat_id mat = t)"
  by (rule shape_is_routed [OF assms])

text \<open>
  A model of one entity with two copies, its full scan routed to the second. The digest of the
  example is the list code of the bytes, which does not collide and is never a surrogate.
\<close>

definition code_sha :: "nat list \<Rightarrow> ustring" where
  "code_sha bs = [57344 + list_encode bs]"

definition routed_map :: "ustring \<Rightarrow> ustring \<Rightarrow> (ustring \<times> pyval) list" where
  "routed_map version shape =
     [(lit ''contract'', PInt 3), (lit ''model_version'', PStr version), (lit ''map_version'', PInt 1),
      (lit ''routing'', PDict [(shape, PStr (lit ''d''))]),
      (lit ''groups'', PDict [(lit ''E'', PDict
         [(lit ''source'', sample_copy ''s'' ''pg'' ''e'' []),
          (lit ''derived'', PList [sample_copy ''d'' ''ch'' ''e'' [(lit ''lag_budget_ms'', PInt 30)]])])])]"

definition routed_placement :: "'l \<Rightarrow> 'l group_placement" where
  "routed_placement l =
     \<lparr>gp_group = lit ''E'', gp_source = \<lparr>mat_id = lit ''s'', mat_engine = lit ''pg'', mat_layout = l, mat_lag = None\<rparr>,
      gp_derived = [\<lparr>mat_id = lit ''d'', mat_engine = lit ''ch'', mat_layout = l, mat_lag = Some 30\<rparr>],
      gp_also_write = [], gp_write_epoch = None\<rparr>"

definition plain_layout :: physical_layout where
  "plain_layout = \<lparr>tables = [(lit ''E'', lit ''e'')], columns = [], indexes = [], partition_by = [], key_order = []\<rparr>"

lemma code_sha_collision_free: "\<forall>bs bs'. take 16 (code_sha bs) = take 16 (code_sha bs') \<longrightarrow> bs = bs'"
  by (simp add: code_sha_def) (metis list_encode_inverse)

lemma code_digest: "digest16 nfc code_sha v = Inr i \<Longrightarrow> i \<noteq> [] \<and> text_ok i"
  by (auto simp: digest16_def and_then_Inr code_sha_def text_ok_def)

lemma routed_parts:
  "read_numbers (routed_map v s) = routed_map v s" "read_contract (routed_map v s) = Inr 3"
  "read_project 3 (routed_map v s) = Inr None" "read_map_version (routed_map v s) = Inr 1"
  "read_signature id no_crypto (routed_map v s) None False 3 = Inr (False, None)"
  "read_routing (routed_map v s) = Inr [(s, PStr (lit ''d''))]"
  "read_groups 3 (routed_map v s) = Inr [(lit ''E'', routed_placement (Laid plain_layout))]"
  "v \<noteq> [] \<Longrightarrow> mversion m = v \<Longrightarrow> read_model_version (Some m) (routed_map v s) = Inr v"
  "text_ok v \<Longrightarrow> text_ok s \<Longrightarrow> canonical_text id (PDict (without_signature (routed_map v s)))"
  "text_ok v \<Longrightarrow> text_ok s \<Longrightarrow> has_canonical_form id (PDict (without_signature (routed_map v s)))"
  "\<not> unsafe_integer (PDict (without_signature (routed_map v s)))"
proof -
  note defs = routed_map_def dict_get_def sample_copy_def
  show "read_numbers (routed_map v s) = routed_map v s" "read_contract (routed_map v s) = Inr 3"
    "read_project 3 (routed_map v s) = Inr None" "read_map_version (routed_map v s) = Inr 1"
    "read_signature id no_crypto (routed_map v s) None False 3 = Inr (False, None)"
    "read_routing (routed_map v s) = Inr [(s, PStr (lit ''d''))]"
    by (simp_all add: defs read_numbers_def read_contract_def read_project_def read_map_version_def read_signature_def
      read_routing_def MAP_CONTRACT_def MAP_CONTRACT_FLOOR_def)
  show "read_groups 3 (routed_map v s) = Inr [(lit ''E'', routed_placement (Laid plain_layout))]"
    by (simp add: defs read_groups_def parse_group_def parse_epoch_def parse_materialization_def parse_derived_def
      also_write_def parse_layout_def RESERVED_TABLES_def WATERMARK_TABLE_def BACKFILL_TABLE_def parse_columns_def
      layout_design_def PHYSICAL_DESIGN_SINCE_def parse_indexes_def UNFENCED_SINCE_def Let_def routed_placement_def
      plain_layout_def)
  show "v \<noteq> [] \<Longrightarrow> mversion m = v \<Longrightarrow> read_model_version (Some m) (routed_map v s) = Inr v"
    by (simp add: defs read_model_version_def)
  note plain = defs without_signature_def text_ok_def lit_def
  show "text_ok v \<Longrightarrow> text_ok s \<Longrightarrow> canonical_text id (PDict (without_signature (routed_map v s)))"
    by (simp add: plain scalar_nfc_def list_all_iff)
  show "text_ok v \<Longrightarrow> text_ok s \<Longrightarrow> has_canonical_form id (PDict (without_signature (routed_map v s)))"
    by (simp add: plain)
  show "\<not> unsafe_integer (PDict (without_signature (routed_map v s)))"
    by (simp add: plain SAFE_def)
qed

lemma routed_settled:
  assumes "colocation_groups m = Inr [\<lparr>gname = lit ''E'', gmembers = [lit ''E'']\<rparr>]"
    and "enumerate_shapes id code_sha m = Inr shapes" "distinct (map sh_id shapes)" "s \<in> set shapes"
    and "sh_group s = lit ''E''" "sh_kind s = FULL_SCAN"
  shows "settle_groups latin_tables id id code_sha (Some m) [(sh_id s, PStr (lit ''d''))]
      [(lit ''E'', routed_placement (Laid plain_layout))] = Inr [(lit ''E'', routed_placement plain_layout)]"
  using assms shapes_by_id_distinct [OF assms(3,4)]
  by (simp add: settle_groups_def routed_placement_def resolve_auto_def map_copies_def fill_auto_def with_layout_def
    refuse_shadowing_def check_physical_def all_copies_def plain_layout_def check_routing_targets_def check_target_def
    check_shape_target_def SOURCE_ONLY_KINDS_def WRITE_KINDS_def)

lemma routed_sample:
  "\<exists>m pm shapes s. assemble id code_sha [witness_spec (lit ''E'') False] [] [] None = Inr m \<and>
     parse_map latin_tables id id code_sha no_crypto (PDict (routed_map (mversion m) (sh_id s))) (Some m) None False = Inr pm \<and>
     enumerate_shapes id code_sha m = Inr shapes \<and> distinct (map sh_id shapes) \<and> s \<in> set shapes \<and> sh_kind s = FULL_SCAN \<and>
     pm_routing pm = [(sh_id s, lit ''d'')] \<and> pm_groups pm = [(lit ''E'', routed_placement plain_layout)] \<and> pm_contract pm = 3 \<and> \<not> pm_signed pm \<and>
     colocation_groups m = Inr [\<lparr>gname = lit ''E'', gmembers = [lit ''E'']\<rparr>]"
proof -
  obtain m where m: "assemble id code_sha [witness_spec (lit ''E'') False] [] [] None = Inr m"
    using assemble_returns_iff [of id code_sha "[witness_spec (lit ''E'') False]" "[]" "[]" None]
    by (auto simp: declaration_ok_def spec_ok_def witness_spec_def Let_def declaration_text_ok_def
      spec_text_ok_def cost_text_ok_def)
  have atomic: "\<forall>a \<in> set []. a \<noteq> [] \<and> set a \<subseteq> ename ` set [witness_spec (lit ''E'') False]" by simp
  obtain shapes where shapes: "enumerate_shapes id code_sha m = Inr shapes"
    using enumerate_shapes_total [OF _ _ m atomic] by auto
  have ids: "distinct (map sh_id shapes)"
    by (rule shape_ids_distinct [OF m atomic shapes code_sha_collision_free])
  have groups: "colocation_groups m = Inr [\<lparr>gname = lit ''E'', gmembers = [lit ''E'']\<rparr>]"
    unfolding colocation_groups_def colocation_edges_def assemble_Inr [OF m] by code_simp
  have "(lit ''E'', FULL_SCAN, [], None) \<in> set (asks m)"
    unfolding asks_def assemble_Inr [OF m] by (simp add: entity_asks_def entity_kinds_def witness_spec_def ordered_spec_def)
  then have "(lit ''E'', FULL_SCAN, [], None) \<in> set (map asked shapes)"
    using enumerate_shapes_asked(1) [OF shapes] by (metis mset_eq_setD)
  then obtain s where s: "s \<in> set shapes" "sh_kind s = FULL_SCAN" by (auto simp: asked_def)
  have grp: "sh_group s = lit ''E''" using enumerate_shapes_group [OF groups shapes s(1)] by simp
  have v: "mversion m \<noteq> []" "text_ok (mversion m)"
    using m code_digest by (auto simp: assemble_def Let_def and_then_Inr split: sum.splits)
  have i: "text_ok (sh_id s)" using enumerate_shapes_id [OF shapes s(1)] code_digest by blast
  note parts = routed_parts [where v = "mversion m" and s = "sh_id s"]
  have clean: "\<not> reserved_names [(lit ''E'', routed_placement plain_layout)]" by code_simp
  obtain pm where pm: "parse_map latin_tables id id code_sha no_crypto (PDict (routed_map (mversion m) (sh_id s))) (Some m) None False = Inr pm"
    "pm_routing pm = [(sh_id s, lit ''d'')]" "pm_groups pm = [(lit ''E'', routed_placement plain_layout)]" "pm_contract pm = 3" "\<not> pm_signed pm"
    using parse_mapI [of "routed_map (mversion m) (sh_id s)", unfolded parts(1), OF parts(2) parts(9) [OF v(2) i] parts(3)
        parts(8) [OF v(1) refl] parts(4,5,7,6) routed_settled [OF groups shapes ids s(1) grp s(2)] clean
        parts(10) [OF v(2) i] parts(11)] by auto
  show ?thesis
    by (rule exI [of _ m], rule exI [of _ pm], rule exI [of _ shapes], rule exI [of _ s]) (intro conjI m pm shapes ids s groups)
qed

theorem every_shape_is_routed_witness:
  "\<exists>m pm shapes s mat. assemble id code_sha [witness_spec (lit ''E'') False] [] [] None = Inr m \<and>
     parse_map latin_tables id id code_sha no_crypto (PDict (routed_map (mversion m) (sh_id s))) (Some m) None False = Inr pm \<and>
     enumerate_shapes id code_sha m = Inr shapes \<and> s \<in> set shapes \<and> sh_kind s = FULL_SCAN \<and>
     resolve pm s False False = Inr mat \<and> mat_id mat = lit ''d''"
proof -
  obtain m pm shapes s where sample: "assemble id code_sha [witness_spec (lit ''E'') False] [] [] None = Inr m"
    "parse_map latin_tables id id code_sha no_crypto (PDict (routed_map (mversion m) (sh_id s))) (Some m) None False = Inr pm"
    "enumerate_shapes id code_sha m = Inr shapes" "distinct (map sh_id shapes)" "s \<in> set shapes" "sh_kind s = FULL_SCAN"
    "pm_routing pm = [(sh_id s, lit ''d'')]"
    using routed_sample by blast
  obtain mat where "resolve pm s False False = Inr mat" "mat_id mat = lit ''d''"
    using every_shape_is_routed [OF sample(2-5), of False False] sample(6,7)
    by (auto simp: WRITE_KINDS_def SOURCE_ONLY_KINDS_def)
  then show ?thesis using sample(1-3,5,6) by blast
qed

end
