(* ===== verification/Memory.thy ===== *)
theory Memory
  imports Placement
begin

text \<open>
  The in-memory engine of \<open>testing/memory.py\<close>: the engine the conformance vectors run migrations
  against, and the one implementation of the engine protocols that is written wholly in this
  library. Its journal of calls is left out. A capability is a flag: the source removes the methods
  of an engine that lacks one.

  Values are the JSON values of a vector. Python's \<open>==\<close> compares numbers of every kind by value, a
  dictionary without its order, and a NaN with nothing; a container holding the very same NaN object
  on both sides, which Python calls equal by identity, is outside the model.
\<close>

section \<open>Values\<close>

type_synonym 'v row = "(ustring, 'v) dict"

primrec py_norm :: "pyval \<Rightarrow> pyval" where
  "py_norm PNone = PNone"
| "py_norm (PBool b) = PFloat (Finite (if b then 1 else 0))"
| "py_norm (PInt i) = PFloat (Finite (of_int i))"
| "py_norm (PFloat f) = PFloat f"
| "py_norm (PStr s) = PStr s"
| "py_norm (PList vs) = PList (map py_norm vs)"
| "py_norm (PDict d) = PDict (sort_key fst (map (map_prod id py_norm) d))"

primrec has_nan :: "pyval \<Rightarrow> bool" where
  "has_nan PNone \<longleftrightarrow> False"
| "has_nan (PBool b) \<longleftrightarrow> False"
| "has_nan (PInt i) \<longleftrightarrow> False"
| "has_nan (PFloat f) \<longleftrightarrow> f = NaN"
| "has_nan (PStr s) \<longleftrightarrow> False"
| "has_nan (PList vs) \<longleftrightarrow> list_ex id (map has_nan vs)"
| "has_nan (PDict d) \<longleftrightarrow> list_ex snd (map (map_prod id has_nan) d)"

text \<open>\<open>left == right\<close>\<close>

definition py_eq :: "pyval \<Rightarrow> pyval \<Rightarrow> bool" where
  "py_eq a b \<longleftrightarrow> py_norm a = py_norm b \<and> \<not> has_nan a"

text \<open>
  \<open>_sortable\<close>: the kind first. The second component puts the infinities at the ends of the numbers;
  a NaN, which has no place in a sorted order, is put last. \<open>str(value)\<close> of a list or an object is
  the parameter \<open>text_of\<close>.
\<close>

type_synonym sortable = "nat \<times> int \<times> rat \<times> ustring"

fun sortable :: "(pyval \<Rightarrow> ustring) \<Rightarrow> pyval \<Rightarrow> sortable" where
  "sortable text_of PNone = (0, 0, 0, [])"
| "sortable text_of (PBool b) = (1, 0, if b then 1 else 0, [])"
| "sortable text_of (PInt i) = (2, 0, of_int i, [])"
| "sortable text_of (PFloat (Finite r)) = (2, 0, r, [])"
| "sortable text_of (PFloat (Infinite negative)) = (2, if negative then - 1 else 1, 0, [])"
| "sortable text_of (PFloat NaN) = (2, 2, 0, [])"
| "sortable text_of (PStr s) = (3, 0, 0, s)"
| "sortable text_of v = (3, 0, 0, text_of v)"

definition row_get :: "'v \<Rightarrow> 'v row \<Rightarrow> ustring \<Rightarrow> 'v" where
  "row_get absent r c = (case map_of r c of None \<Rightarrow> absent | Some v \<Rightarrow> v)"

text \<open>\<open>_key(order, row)\<close>, before the values are made sortable\<close>

definition row_values :: "'v \<Rightarrow> ustring list \<Rightarrow> 'v row \<Rightarrow> 'v list" where
  "row_values absent cols r = map (row_get absent r) cols"

section \<open>The engine\<close>

record 'v memory_engine =
  me_tables :: "(ustring, 'v row list) dict"
  me_fail_inserts :: "(ustring, int) dict"
  me_watermarks :: "int list"
  me_markers :: "(ustring \<times> ustring, int list) dict"
  me_bookkeeping :: bool
  me_migratable :: bool

definition table_rows :: "'v memory_engine \<Rightarrow> ustring \<Rightarrow> 'v row list" where
  "table_rows e t = (case map_of (me_tables e) t of None \<Rightarrow> [] | Some rows \<Rightarrow> rows)"

definition set_table :: "ustring \<Rightarrow> 'v row list \<Rightarrow> 'v memory_engine \<Rightarrow> 'v memory_engine" where
  "set_table t rows e = e\<lparr>me_tables := AList.update t rows (me_tables e)\<rparr>"

definition mem_ensure_schema :: "'v memory_engine \<Rightarrow> physical_layout \<Rightarrow> 'v memory_engine" where
  "mem_ensure_schema e l = fold (\<lambda>t e. set_table t (table_rows e t) e) (vals (tables l)) e"

text \<open>One refusal fewer to come, where the engine was told to refuse inserts into a table.\<close>

definition refuse_insert :: "'v memory_engine \<Rightarrow> ustring \<Rightarrow> 'v memory_engine option" where
  "refuse_insert e t =
     (let remaining = (case map_of (me_fail_inserts e) t of None \<Rightarrow> 0 | Some n \<Rightarrow> n)
      in if remaining > 0 then Some (e\<lparr>me_fail_inserts := AList.update t (remaining - 1) (me_fail_inserts e)\<rparr>)
         else None)"

definition mem_insert :: "'v memory_engine \<Rightarrow> ustring \<Rightarrow> 'v row \<Rightarrow> string option \<times> 'v memory_engine" where
  "mem_insert e t r =
     (case refuse_insert e t of
        Some e' \<Rightarrow> (Some ''insert failed'', e')
      | None \<Rightarrow> (None, set_table t (table_rows e t @ [r]) e))"

definition mem_insert_many :: "'v memory_engine \<Rightarrow> ustring \<Rightarrow> 'v row list \<Rightarrow> string option \<times> 'v memory_engine" where
  "mem_insert_many e t rows =
     (case refuse_insert e t of
        Some e' \<Rightarrow> (Some ''batch insert failed'', e')
      | None \<Rightarrow> (None, set_table t (table_rows e t @ rows) e))"

definition mem_get :: "pyval memory_engine \<Rightarrow> ustring \<Rightarrow> pyval row \<Rightarrow> string + pyval row option" where
  "mem_get e t key =
     Inr (List.find (\<lambda>r. list_all (\<lambda>(c, v). py_eq (row_get PNone r c) v) key) (table_rows e t))"

text \<open>\<open>transaction\<close>: the tables as they were are put back when the block fails.\<close>

definition mem_rollback :: "'v memory_engine \<Rightarrow> 'v memory_engine \<Rightarrow> 'v memory_engine" where
  "mem_rollback start e = e\<lparr>me_tables := me_tables start\<rparr>"

definition mem_map_watermark :: "'v memory_engine \<Rightarrow> string + int option" where
  "mem_map_watermark e = Inr (if me_watermarks e = [] then None else Some (Max (set (me_watermarks e))))"

definition mem_record_map_version :: "'v memory_engine \<Rightarrow> int \<Rightarrow> ustring \<Rightarrow> string option \<times> 'v memory_engine" where
  "mem_record_map_version e version model_version =
     (None, e\<lparr>me_watermarks := me_watermarks e @ [version]\<rparr>)"

section \<open>What a migration calls\<close>

definition key_columns :: "ustring list \<Rightarrow> string + ustring list" where
  "key_columns ordered =
     (if ordered = [] then Inl ''a keyset scan needs at least one ordering column'' else Inr ordered)"

definition same_width :: "'v list option \<Rightarrow> ustring list \<Rightarrow> string + unit" where
  "same_width bound cols =
     (case bound of None \<Rightarrow> Inr () | Some b \<Rightarrow> require (length b = length cols) ''a bound of another width'')"

text \<open>The rows of a table in key order.\<close>

definition ordered_rows :: "(pyval \<Rightarrow> ustring) \<Rightarrow> pyval memory_engine \<Rightarrow> ustring \<Rightarrow> ustring list \<Rightarrow> pyval row list" where
  "ordered_rows text_of e t cols =
     sort_key (\<lambda>r. map (sortable text_of) (row_values PNone cols r)) (table_rows e t)"

definition mem_key_range ::
  "(pyval \<Rightarrow> ustring) \<Rightarrow> pyval memory_engine \<Rightarrow> ustring \<Rightarrow> ustring list \<Rightarrow> pyval list option \<Rightarrow> pyval list option \<Rightarrow>
     nat option \<Rightarrow> string + pyval row list" where
  "mem_key_range text_of e t ordered after until limit =
     and_then (key_columns ordered) (\<lambda>cols.
     and_then (same_width after cols) (\<lambda>_.
     and_then (same_width until cols) (\<lambda>_.
       let key = (\<lambda>r. map (sortable text_of) (row_values PNone cols r));
           rows = ordered_rows text_of e t cols;
           rows = (case after of None \<Rightarrow> rows | Some a \<Rightarrow> filter (\<lambda>r. key r > map (sortable text_of) a) rows);
           rows = (case until of None \<Rightarrow> rows | Some u \<Rightarrow> filter (\<lambda>r. key r \<le> map (sortable text_of) u) rows)
       in Inr (case limit of None \<Rightarrow> rows | Some n \<Rightarrow> take n rows))))"

definition mem_nth_key ::
  "(pyval \<Rightarrow> ustring) \<Rightarrow> pyval memory_engine \<Rightarrow> ustring \<Rightarrow> ustring list \<Rightarrow> int \<Rightarrow> string + pyval list option" where
  "mem_nth_key text_of e t ordered position =
     and_then (key_columns ordered) (\<lambda>cols.
       if position < 1 then Inl ''position is one-based''
       else let rows = ordered_rows text_of e t cols
            in Inr (if position > int (length rows) then None
                    else Some (row_values PNone cols (rows ! (nat position - 1)))))"

text \<open>The loop of \<open>_copy_in\<close>: a row the table already holds is absorbed.\<close>

fun absorb :: "pyval row list \<Rightarrow> pyval row list \<Rightarrow> pyval row list" where
  "absorb existing [] = existing"
| "absorb existing (r # rows) =
     (if list_ex (\<lambda>p. list_all (\<lambda>(c, v). py_eq (row_get PNone p c) v) r) existing then absorb existing rows
      else absorb (existing @ [r]) rows)"

definition mem_copy_in :: "pyval memory_engine \<Rightarrow> ustring \<Rightarrow> pyval row list \<Rightarrow> string option \<times> pyval memory_engine" where
  "mem_copy_in e t rows =
     (case rows of
        [] \<Rightarrow> (None, e)
      | r # _ \<Rightarrow>
          if list_ex (\<lambda>r'. sort (keys r') \<noteq> sort (keys r)) rows then (Some ''rows with different columns'', e)
          else (None, set_table t (absorb (table_rows e t) rows) e))"

definition mem_count :: "'v memory_engine \<Rightarrow> ustring \<Rightarrow> string + nat" where
  "mem_count e t = Inr (length (table_rows e t))"

definition mem_backfill_marker :: "'v memory_engine \<Rightarrow> ustring \<Rightarrow> ustring \<Rightarrow> string + int" where
  "mem_backfill_marker e mat entity =
     Inr (case map_of (me_markers e) (mat, entity) of
            None \<Rightarrow> 0 | Some ns \<Rightarrow> if ns = [] then 0 else Max (set ns))"

definition mem_record_backfill_marker ::
  "'v memory_engine \<Rightarrow> ustring \<Rightarrow> ustring \<Rightarrow> int \<Rightarrow> string option \<times> 'v memory_engine" where
  "mem_record_backfill_marker e mat entity n =
     (None, e\<lparr>me_markers := AList.update (mat, entity)
        ((case map_of (me_markers e) (mat, entity) of None \<Rightarrow> [] | Some ns \<Rightarrow> ns) @ [n]) (me_markers e)\<rparr>)"

end
