(* ===== verification/Watermark.thy ===== *)
theory Watermark
  imports Memory
begin

text \<open>
  The forward-only check of signed maps (\<open>watermark.py\<close>). What an engine offers is the record
  \<open>watermark_ops\<close>: whether it can keep the bookkeeping (\<open>satisfies(engine, WatermarkStore)\<close>), reading
  its watermark, and recording a version; either call may raise, and a call that raises may have
  stored the version or not. The interface is the locale \<open>watermark_store\<close>, interpreted on the
  in-memory engine. The prose of the result (\<open>why\<close>) and the log lines are left out.
\<close>

section \<open>The check\<close>

record 'e watermark_ops =
  wm_able :: "'e \<Rightarrow> bool"
  wm_read :: "'e \<Rightarrow> string + int option"
  wm_record :: "'e \<Rightarrow> int \<Rightarrow> ustring \<Rightarrow> string option \<times> 'e"

datatype protection = Enforced | Unavailable | NotApplicable

record watermark_check =
  wc_protection :: protection
  wc_map_version :: int
  wc_highest_seen :: "int option"
  wc_participating :: "ustring list"
  wc_unable :: "ustring list"

datatype watermark_error = MapRolledBack | StoreRaised string

definition split_engines :: "'e watermark_ops \<Rightarrow> (ustring, 'e) dict \<Rightarrow> ustring list \<times> ustring list" where
  "split_engines ops engines =
     (let able = sort (map fst (filter (\<lambda>(name, e). wm_able ops e) engines))
      in (able, sort (filter (\<lambda>name. name \<notin> set able) (keys engines))))"

definition engine_at :: "(ustring, 'e) dict \<Rightarrow> ustring \<Rightarrow> 'e" where
  "engine_at engines name = the (map_of engines name)"

fun known_of :: "int option list \<Rightarrow> int list" where
  "known_of [] = []"
| "known_of (None # seen) = known_of seen"
| "known_of (Some w # seen) = w # known_of seen"

definition highest_of :: "int option list \<Rightarrow> int option" where
  "highest_of seen = (if known_of seen = [] then None else Some (Max (set (known_of seen))))"

lemma set_known_of: "w \<in> set (known_of seen) \<longleftrightarrow> Some w \<in> set seen"
  by (induction seen rule: known_of.induct) auto

text \<open>The loop that records the version, engine by engine; an engine that raises ends it.\<close>

fun record_all ::
  "'e watermark_ops \<Rightarrow> int \<Rightarrow> ustring \<Rightarrow> ustring list \<Rightarrow> (ustring, 'e) dict \<Rightarrow> string option \<times> (ustring, 'e) dict" where
  "record_all ops v mv [] engines = (None, engines)"
| "record_all ops v mv (name # names) engines =
     (case wm_record ops (engine_at engines name) v mv of
        (Some err, e') \<Rightarrow> (Some err, AList.update name e' engines)
      | (None, e') \<Rightarrow> record_all ops v mv names (AList.update name e' engines))"

definition enforce_forward_only ::
  "'e watermark_ops \<Rightarrow> placement_map \<Rightarrow> (ustring, 'e) dict \<Rightarrow>
     (watermark_error + watermark_check) \<times> (ustring, 'e) dict" where
  "enforce_forward_only ops pm engines =
     (if \<not> pm_signed pm then
        (Inr \<lparr>wc_protection = NotApplicable, wc_map_version = pm_map_version pm, wc_highest_seen = None,
              wc_participating = [], wc_unable = sort (keys engines)\<rparr>, engines)
      else let (able, unable) = split_engines ops engines
      in if able = [] then
           (Inr \<lparr>wc_protection = Unavailable, wc_map_version = pm_map_version pm, wc_highest_seen = None,
                 wc_participating = [], wc_unable = unable\<rparr>, engines)
         else case traverse (\<lambda>name. wm_read ops (engine_at engines name)) able of
                Inl err \<Rightarrow> (Inl (StoreRaised err), engines)
              | Inr seen \<Rightarrow>
                  let highest = highest_of seen;
                      check = \<lparr>wc_protection = Enforced, wc_map_version = pm_map_version pm, wc_highest_seen = highest,
                               wc_participating = able, wc_unable = unable\<rparr>
                  in if (case highest of None \<Rightarrow> False | Some h \<Rightarrow> pm_map_version pm < h)
                     then (Inl MapRolledBack, engines)
                     else if (case highest of None \<Rightarrow> True | Some h \<Rightarrow> pm_map_version pm > h)
                     then (case record_all ops (pm_map_version pm) (pm_model_version pm) able engines of
                             (Some err, engines') \<Rightarrow> (Inl (StoreRaised err), engines')
                           | (None, engines') \<Rightarrow> (Inr check, engines'))
                     else (Inr check, engines))"

text \<open>A process that starts again and again, each time with the map it then finds.\<close>

fun starts ::
  "'e watermark_ops \<Rightarrow> placement_map list \<Rightarrow> (ustring, 'e) dict \<Rightarrow>
     (watermark_error + watermark_check) list \<times> (ustring, 'e) dict" where
  "starts ops [] engines = ([], engines)"
| "starts ops (pm # pms) engines =
     (let (r, engines') = enforce_forward_only ops pm engines; (rs, engines'') = starts ops pms engines'
      in (r # rs, engines''))"

section \<open>What an engine promises\<close>

definition raised_to :: "int \<Rightarrow> int option \<Rightarrow> int option" where
  "raised_to v w = (case w of None \<Rightarrow> Some v | Some x \<Rightarrow> Some (max x v))"

locale watermark_store =
  fixes ops :: "'e watermark_ops"
  assumes able_stable: "wm_record ops e v mv = (r, e') \<Longrightarrow> wm_able ops e' = wm_able ops e"
    and recorded: "wm_record ops e v mv = (None, e') \<Longrightarrow> wm_read ops e = Inr w \<Longrightarrow> wm_read ops e' = Inr (raised_to v w)"
    and not_recorded: "wm_record ops e v mv = (Some err, e') \<Longrightarrow> wm_read ops e = Inr w \<Longrightarrow>
      wm_read ops e' = Inr w \<or> wm_read ops e' = Inr (raised_to v w)"
begin

text \<open>An engine whose watermark is readable and at least \<open>v\<close>.\<close>

definition reaches :: "int \<Rightarrow> 'e \<Rightarrow> bool" where
  "reaches v e \<longleftrightarrow> wm_able ops e \<and> (\<exists>w. wm_read ops e = Inr (Some w) \<and> v \<le> w)"

definition some_reaches :: "int \<Rightarrow> (ustring, 'e) dict \<Rightarrow> bool" where
  "some_reaches v engines \<longleftrightarrow> (\<exists>name e. map_of engines name = Some e \<and> reaches v e)"

lemma record_reaches: "wm_record ops e v mv = (r, e') \<Longrightarrow> reaches u e \<Longrightarrow> reaches u e'"
  using able_stable recorded not_recorded
  by (cases r) (fastforce simp: reaches_def raised_to_def)+

lemma record_raises: 
  assumes "wm_record ops e v mv = (None, e')" "wm_able ops e" "wm_read ops e = Inr w"
  shows "reaches v e'"
  using able_stable [OF assms(1)] recorded [OF assms(1,3)] assms(2)
  by (auto simp: reaches_def raised_to_def split: option.splits)

lemma record_all_keeps:
  assumes "record_all ops v mv names engines = (r, engines')" "set names \<subseteq> set (keys engines)"
  shows "\<forall>name e. map_of engines name = Some e \<longrightarrow>
    (\<exists>e'. map_of engines' name = Some e' \<and> wm_able ops e' = wm_able ops e \<and> (\<forall>u. reaches u e \<longrightarrow> reaches u e'))"
  using assms
proof (induction names arbitrary: engines)
  case (Cons n names)
  obtain e0 where e0: "map_of engines n = Some e0" using Cons.prems(2)
    by (cases "map_of engines n") (auto simp: map_of_eq_None_iff)
  obtain q e1 where step: "wm_record ops e0 v mv = (q, e1)" by (cases "wm_record ops e0 v mv")
  have keep: "wm_able ops e1 = wm_able ops e0" "\<forall>u. reaches u e0 \<longrightarrow> reaches u e1"
    using able_stable [OF step] record_reaches [OF step] by blast+
  show ?case
  proof (cases q)
    case None
    then have "record_all ops v mv names (AList.update n e1 engines) = (r, engines')"
      using Cons.prems(1) step e0 by (simp add: engine_at_def)
    moreover have "set names \<subseteq> set (keys (AList.update n e1 engines))"
      using Cons.prems(2) unfolding set_keys_update by auto
    ultimately have IH: "\<forall>name e. map_of (AList.update n e1 engines) name = Some e \<longrightarrow>
      (\<exists>e'. map_of engines' name = Some e' \<and> wm_able ops e' = wm_able ops e \<and> (\<forall>u. reaches u e \<longrightarrow> reaches u e'))"
      by (rule Cons.IH)
    show ?thesis
    proof (intro allI impI)
      fix name e assume e: "map_of engines name = Some e"
      show "\<exists>e'. map_of engines' name = Some e' \<and> wm_able ops e' = wm_able ops e \<and> (\<forall>u. reaches u e \<longrightarrow> reaches u e')"
      proof (cases "name = n")
        case True
        then show ?thesis using IH [rule_format, of n e1] keep e e0 by auto
      next
        case False
        then show ?thesis using IH [rule_format, of name e] e by simp
      qed
    qed
  next
    case (Some err)
    then have "engines' = AList.update n e1 engines" using Cons.prems(1) step e0 by (simp add: engine_at_def)
    then show ?thesis using keep e0 by auto
  qed
qed auto

lemma record_all_raises:
  assumes "record_all ops v mv (n # names) engines = (None, engines')" "set (n # names) \<subseteq> set (keys engines)"
    and "map_of engines n = Some e" "wm_able ops e" "wm_read ops e = Inr w"
  shows "some_reaches v engines'"
proof -
  obtain e1 where step: "wm_record ops e v mv = (None, e1)"
    and rest: "record_all ops v mv names (AList.update n e1 engines) = (None, engines')"
    using assms(1,3) by (auto simp: engine_at_def split: prod.splits option.splits)
  have "reaches v e1" by (rule record_raises [OF step assms(4,5)])
  moreover have "set names \<subseteq> set (keys (AList.update n e1 engines))"
    using assms(2) unfolding set_keys_update by auto
  ultimately show ?thesis
    using record_all_keeps [OF rest] unfolding some_reaches_def by (metis map_of_AList_update fun_upd_same)
qed

lemma record_all_distinct:
  "record_all ops v mv names engines = (r, engines') \<Longrightarrow> distinct (keys engines) \<Longrightarrow> distinct (keys engines')"
  by (induction names arbitrary: engines) (auto split: prod.splits option.splits)

lemma able_names:
  assumes "distinct (keys engines)"
  shows "name \<in> set (fst (split_engines ops engines)) \<longleftrightarrow> (\<exists>e. map_of engines name = Some e \<and> wm_able ops e)"
  using assms by (force simp: split_engines_def Let_def)

text \<open>The check, once its engines are read: what was seen, and which of the three ends it took.\<close>

lemma enforce_signed:
  assumes "enforce_forward_only ops pm engines = (r, engines')" "pm_signed pm" "fst (split_engines ops engines) \<noteq> []"
  shows "engines' = engines \<and> (\<exists>err. r = Inl err) \<or>
    (\<exists>seen. traverse (\<lambda>name. wm_read ops (engine_at engines name)) (fst (split_engines ops engines)) = Inr seen \<and>
      (\<forall>h. highest_of seen = Some h \<longrightarrow> h \<le> pm_map_version pm) \<and>
      (if highest_of seen = Some (pm_map_version pm) then engines' = engines
       else \<exists>q. record_all ops (pm_map_version pm) (pm_model_version pm) (fst (split_engines ops engines)) engines = (q, engines') \<and>
         ((\<exists>c. r = Inr c) \<longrightarrow> q = None)))"
  using assms
  by (auto simp: enforce_forward_only_def Let_def split: prod.splits sum.splits if_splits option.splits)

lemma highest_of_le: "Some w \<in> set seen \<Longrightarrow> \<exists>h. highest_of seen = Some h \<and> w \<le> h"
  using set_known_of [of w seen] by (auto simp: highest_of_def)

lemma highest_of_mem: "highest_of seen = Some h \<Longrightarrow> Some h \<in> set seen"
  using Max_in [of "set (known_of seen)"] set_known_of [of h seen] by (auto simp: highest_of_def split: if_splits)

lemma enforce_frame:
  assumes "enforce_forward_only ops pm engines = (r, engines')" "distinct (keys engines)"
  shows "distinct (keys engines') \<and> (\<forall>u. some_reaches u engines \<longrightarrow> some_reaches u engines')"
proof -
  have "engines' = engines \<or> (\<exists>q. record_all ops (pm_map_version pm) (pm_model_version pm) (fst (split_engines ops engines)) engines = (q, engines'))"
    using assms(1)
    by (auto simp: enforce_forward_only_def Let_def split: prod.splits sum.splits if_splits option.splits)
  then show ?thesis
  proof
    assume "\<exists>q. record_all ops (pm_map_version pm) (pm_model_version pm) (fst (split_engines ops engines)) engines = (q, engines')"
    then obtain q where q: "record_all ops (pm_map_version pm) (pm_model_version pm) (fst (split_engines ops engines)) engines = (q, engines')" ..
    have sub: "set (fst (split_engines ops engines)) \<subseteq> set (keys engines)"
      by (auto simp: split_engines_def Let_def)
    show ?thesis
      using record_all_distinct [OF q assms(2)] record_all_keeps [OF q sub] unfolding some_reaches_def by metis
  qed (use assms(2) in simp)
qed

lemma enforce_raises:
  assumes "enforce_forward_only ops pm engines = (Inr c, engines')" "distinct (keys engines)" "wc_protection c = Enforced"
  shows "some_reaches (pm_map_version pm) engines'"
proof -
  let ?able = "fst (split_engines ops engines)"
  have run: "pm_signed pm" "?able \<noteq> []"
    using assms(1,3) by (auto simp: enforce_forward_only_def Let_def split: prod.splits if_splits)
  then obtain n names where able: "?able = n # names" by (cases ?able) auto
  obtain seen where seen: "traverse (\<lambda>name. wm_read ops (engine_at engines name)) ?able = Inr seen"
    "if highest_of seen = Some (pm_map_version pm) then engines' = engines
     else record_all ops (pm_map_version pm) (pm_model_version pm) ?able engines = (None, engines')"
    using enforce_signed [OF assms(1) run] by (auto split: if_splits)
  have at: "\<exists>e w. map_of engines name = Some e \<and> wm_able ops e \<and> wm_read ops e = Inr w \<and> w \<in> set seen"
    if "name \<in> set ?able" for name
    using able_names [OF assms(2), of name] that traverse_mem' [OF seen(1) that] by (auto simp: engine_at_def)
  show ?thesis
  proof (cases "highest_of seen = Some (pm_map_version pm)")
    case True
    then have "Some (pm_map_version pm) \<in> set seen" by (rule highest_of_mem)
    then obtain name where "name \<in> set ?able" "wm_read ops (engine_at engines name) = Inr (Some (pm_map_version pm))"
      using traverse_mem [OF seen(1)] by blast
    then show ?thesis using at [of name] True seen(2) by (fastforce simp: some_reaches_def reaches_def engine_at_def)
  next
    case False
    then have rec: "record_all ops (pm_map_version pm) (pm_model_version pm) (n # names) engines = (None, engines')"
      using seen(2) able by simp
    have sub: "set (n # names) \<subseteq> set (keys engines)"
      unfolding able [symmetric] by (auto simp: split_engines_def Let_def)
    obtain e w where "map_of engines n = Some e" "wm_able ops e" "wm_read ops e = Inr w" using at [of n] able by auto
    then show ?thesis by (rule record_all_raises [OF rec sub])
  qed
qed

lemma enforce_refuses:
  assumes "some_reaches v engines" "distinct (keys engines)" "pm_signed pm" "pm_map_version pm < v"
  shows "\<exists>err. enforce_forward_only ops pm engines = (Inl err, engines)"
proof -
  obtain name e w where e: "map_of engines name = Some e" "wm_able ops e" "wm_read ops e = Inr (Some w)" "v \<le> w"
    using assms(1) by (auto simp: some_reaches_def reaches_def)
  have mem: "name \<in> set (fst (split_engines ops engines))" using able_names [OF assms(2)] e by blast
  obtain r engines' where run: "enforce_forward_only ops pm engines = (r, engines')"
    by (cases "enforce_forward_only ops pm engines")
  have "\<not> (\<forall>h. highest_of seen = Some h \<longrightarrow> h \<le> pm_map_version pm)"
    if "traverse (\<lambda>name. wm_read ops (engine_at engines name)) (fst (split_engines ops engines)) = Inr seen" for seen
  proof -
    have "Some w \<in> set seen" using traverse_mem' [OF that mem] e by (auto simp: engine_at_def)
    then show ?thesis using highest_of_le [of w seen] assms(4) e(4) by fastforce
  qed
  then show ?thesis using enforce_signed [OF run assms(3)] mem run by fastforce
qed

lemma starts_refuses:
  assumes "starts ops pms engines = (rs, engines')" "distinct (keys engines)" "some_reaches v engines"
    and "j < length pms" "pm_signed (pms ! j)" "pm_map_version (pms ! j) < v"
  shows "\<exists>err. rs ! j = Inl err"
  using assms
proof (induction pms arbitrary: rs engines j)
  case (Cons pm pms)
  obtain r es1 rs' where run: "enforce_forward_only ops pm engines = (r, es1)" "starts ops pms es1 = (rs', engines')" "rs = r # rs'"
    using Cons.prems(1) by (auto simp: Let_def split: prod.splits)
  show ?case
  proof (cases j)
    case 0
    then show ?thesis using enforce_refuses [OF Cons.prems(3,2), of pm] run Cons.prems(5,6) by auto
  next
    case (Suc k)
    then show ?thesis
      using Cons.IH [OF run(2), of k] enforce_frame [OF run(1) Cons.prems(2)] Cons.prems(3-6) run(3) by auto
  qed
qed simp

lemma starts_forward_only:
  assumes "starts ops pms engines = (rs, engines')" "distinct (keys engines)"
    and "i < j" "j < length pms" "rs ! i = Inr c" "wc_protection c = Enforced"
    and "pm_signed (pms ! j)" "pm_map_version (pms ! j) < pm_map_version (pms ! i)"
  shows "\<exists>err. rs ! j = Inl err"
  using assms
proof (induction pms arbitrary: rs engines i j)
  case (Cons pm pms)
  obtain r es1 rs' where run: "enforce_forward_only ops pm engines = (r, es1)" "starts ops pms es1 = (rs', engines')" "rs = r # rs'"
    using Cons.prems(1) by (auto simp: Let_def split: prod.splits)
  obtain k where k: "j = Suc k" using Cons.prems(3) by (cases j) auto
  have frame: "distinct (keys es1)" using enforce_frame [OF run(1) Cons.prems(2)] by blast
  show ?case
  proof (cases i)
    case 0
    then have "some_reaches (pm_map_version pm) es1"
      using enforce_raises [OF _ Cons.prems(2)] run Cons.prems(5,6) by auto
    from starts_refuses [OF run(2) frame this, of k] show ?thesis using 0 k Cons.prems(4,7,8) run(3) by auto
  next
    case (Suc i')
    then show ?thesis using Cons.IH [OF run(2) frame, of i' k] k Cons.prems(3-8) run(3) by auto
  qed
qed simp

end

section \<open>The in-memory engine keeps the promise\<close>

definition memory_watermark_ops :: "pyval memory_engine watermark_ops" where
  "memory_watermark_ops = \<lparr>wm_able = me_bookkeeping, wm_read = mem_map_watermark, wm_record = mem_record_map_version\<rparr>"

interpretation memory_watermark: watermark_store memory_watermark_ops
  by unfold_locales
    (auto simp: memory_watermark_ops_def mem_record_map_version_def mem_map_watermark_def raised_to_def max.commute)

text \<open>
  C16. A signed map never goes backwards. Whatever sequence of maps a deployment starts with, on
  engines that keep what they are told and even when some of their calls raise, once a map was
  accepted with the check enforced every later start with a signed map of a lower version is refused.
\<close>

theorem map_versions_never_go_back:
  assumes "watermark_store ops" and "starts ops pms engines = (rs, engines')" "distinct (keys engines)"
    and "i < j" "j < length pms" "rs ! i = Inr c" "wc_protection c = Enforced"
    and "pm_signed (pms ! j)" "pm_map_version (pms ! j) < pm_map_version (pms ! i)"
  shows "\<exists>err. rs ! j = Inl err"
  using assms by (rule watermark_store.starts_forward_only)

definition signed_version :: "int \<Rightarrow> placement_map" where
  "signed_version v = \<lparr>pm_contract = 3, pm_model_version = lit ''m'', pm_map_version = v, pm_groups = [], pm_routing = [],
     pm_signed = True, pm_verified_with = None, pm_project_id = None, pm_fingerprint = None\<rparr>"

definition empty_engine :: "pyval memory_engine" where
  "empty_engine = \<lparr>me_tables = [], me_fail_inserts = [], me_watermarks = [], me_markers = [], me_bookkeeping = True, me_migratable = True\<rparr>"

theorem map_versions_never_go_back_witness:
  "\<exists>err. fst (starts memory_watermark_ops [signed_version 7, signed_version 5] [(lit ''pg'', empty_engine)]) ! 1 = Inl err"
proof -
  let ?pms = "[signed_version 7, signed_version 5]" and ?es = "[(lit ''pg'', empty_engine)]"
  obtain rs es' where run: "starts memory_watermark_ops ?pms ?es = (rs, es')"
    by (cases "starts memory_watermark_ops ?pms ?es")
  have "case fst (starts memory_watermark_ops ?pms ?es) ! 0 of Inr c \<Rightarrow> wc_protection c = Enforced | Inl _ \<Rightarrow> False"
    by code_simp
  then obtain c where c: "rs ! 0 = Inr c" "wc_protection c = Enforced" using run by (auto split: sum.splits)
  have "distinct (keys ?es)" "(0::nat) < 1" "1 < length ?pms" "pm_signed (?pms ! 1)"
    "pm_map_version (?pms ! 1) < pm_map_version (?pms ! 0)"
    by (simp_all add: signed_version_def)
  from map_versions_never_go_back [OF memory_watermark.watermark_store_axioms run this(1-3) c this(4,5)]
  show ?thesis using run by simp
qed

end
