(* ===== verification/Verification.thy ===== *)
theory Verification
  imports Placement
begin

text \<open>
  The request a comparison of two copies is bound to (\<open>verification.py\<close>): its validation, its record
  form and the check that it names exactly the project, the map and the copies of a session.
  An aware timestamp is read to the instant it names, in microseconds from the first day of year 1.
\<close>

datatype migration_error =
    MigrationRefused string
  | EngineError string
  | MigrationMap map_error
  | MigrationGroups uf_error
  | MigrationKeyError

abbreviation refused_because :: "string \<Rightarrow> migration_error + 'a" where
  "refused_because what \<equiv> Inl (MigrationRefused what)"

section \<open>Timestamps\<close>

definition ascii_number :: "ustring \<Rightarrow> nat option" where
  "ascii_number s =
     (if s \<noteq> [] \<and> list_all is_digit s then Some (foldl (\<lambda>a c. 10 * a + (c - 48)) 0 s) else None)"

definition leap_year :: "nat \<Rightarrow> bool" where
  "leap_year y \<longleftrightarrow> y mod 4 = 0 \<and> (y mod 100 \<noteq> 0 \<or> y mod 400 = 0)"

definition days_in_month :: "nat \<Rightarrow> nat \<Rightarrow> nat" where
  "days_in_month y m = (if m = 2 then (if leap_year y then 29 else 28) else if m \<in> {4, 6, 9, 11} then 30 else 31)"

definition days_before :: "nat \<Rightarrow> nat \<Rightarrow> nat \<Rightarrow> nat" where
  "days_before y m d =
     (y - 1) * 365 + (y - 1) div 4 - (y - 1) div 100 + (y - 1) div 400
     + sum_list (map (days_in_month y) [1..<m]) + (d - 1)"

text \<open>The fraction of a second, padded to microseconds, and what follows it.\<close>

definition read_fraction :: "ustring \<Rightarrow> (nat \<times> ustring) option" where
  "read_fraction s =
     (case s of
        [] \<Rightarrow> None
      | c # r \<Rightarrow>
          if c \<noteq> 46 then Some (0, s)
          else let ds = takeWhile is_digit r
               in if ds = [] \<or> length ds > 6 then None
                  else map_option (\<lambda>n. (n, dropWhile is_digit r)) (ascii_number (ds @ replicate (6 - length ds) 48)))"

text \<open>The offset from UTC in minutes.\<close>

definition read_offset :: "ustring \<Rightarrow> int option" where
  "read_offset s =
     (if s = [90] then Some 0
      else if length s = 6 \<and> (s ! 0 = 43 \<or> s ! 0 = 45) \<and> s ! 3 = 58 then
        (case (ascii_number (take 2 (drop 1 s)), ascii_number (drop 4 s)) of
           (Some h, Some m) \<Rightarrow>
             if h \<le> 23 \<and> m \<le> 59 then Some ((if s ! 0 = 45 then - 1 else 1) * int (60 * h + m)) else None
         | _ \<Rightarrow> None)
      else None)"

definition aware_time :: "pyval \<Rightarrow> migration_error + int" where
  "aware_time v =
     (case v of
        PStr s \<Rightarrow>
          if length s < 20 \<or> \<not> (s ! 4 = 45 \<and> s ! 7 = 45 \<and> s ! 10 = 84 \<and> s ! 13 = 58 \<and> s ! 16 = 58)
          then refused_because ''not an ISO timestamp''
          else
            (case map (\<lambda>(i, n). ascii_number (take n (drop i s))) [(0, 4), (5, 2), (8, 2), (11, 2), (14, 2), (17, 2)] of
               [Some y, Some mo, Some d, Some h, Some mi, Some sec] \<Rightarrow>
                 if h \<le> 23 \<and> mi \<le> 59 \<and> sec \<le> 59 \<and> 1 \<le> y \<and> 1 \<le> mo \<and> mo \<le> 12 \<and> 1 \<le> d \<and> d \<le> days_in_month y mo then
                   (case read_fraction (drop 19 s) of
                      Some (us, rest) \<Rightarrow>
                        (case read_offset rest of
                           Some off \<Rightarrow>
                             Inr (int ((((days_before y mo d * 24 + h) * 60 + mi) * 60 + sec) * 1000000 + us) - off * 60000000)
                         | None \<Rightarrow> refused_because ''not an ISO timestamp'')
                    | None \<Rightarrow> refused_because ''not an ISO timestamp'')
                 else refused_because ''not an ISO timestamp''
             | _ \<Rightarrow> refused_because ''not an ISO timestamp'')
      | _ \<Rightarrow> refused_because ''not an ISO timestamp'')"

section \<open>Requests\<close>

record bound_request =
  vr_request_id :: ustring
  vr_project_id :: ustring
  vr_model_version :: ustring
  vr_map_version :: int
  vr_map_fingerprint :: ustring
  vr_group :: ustring
  vr_source_engine :: ustring
  vr_source_id :: ustring
  vr_targets :: "(ustring \<times> ustring) list"
  vr_requested_at :: ustring
  vr_requires_signature :: bool

definition check_hex :: "pyval \<Rightarrow> nat \<Rightarrow> migration_error + ustring" where
  "check_hex v width =
     (case v of PStr s \<Rightarrow> if hex_text width s then Inr s else refused_because ''hexadecimal digits''
      | _ \<Rightarrow> refused_because ''hexadecimal digits'')"

definition check_name :: "pyval \<Rightarrow> migration_error + ustring" where
  "check_name v =
     (case v of PStr s \<Rightarrow> if s \<noteq> [] then Inr s else refused_because ''a nonempty name''
      | _ \<Rightarrow> refused_because ''a nonempty name'')"

text \<open>The loop over the targets of \<open>__post_init__\<close>.\<close>

definition check_target_pair :: "ustring \<Rightarrow> pyval \<times> pyval \<Rightarrow> migration_error + ustring \<times> ustring" where
  "check_target_pair src = (\<lambda>(engine, identity).
     and_then (check_name engine) (\<lambda>e.
     and_then (check_name identity) (\<lambda>i.
     and_then (require (i \<noteq> src) (MigrationRefused ''the source is a target'')) (\<lambda>_. Inr (e, i)))))"

text \<open>\<open>VerificationRequest(...)\<close> with its \<open>__post_init__\<close>.\<close>

definition mk_request ::
  "pyval \<Rightarrow> pyval \<Rightarrow> pyval \<Rightarrow> int \<Rightarrow> pyval \<Rightarrow> pyval \<Rightarrow> pyval \<Rightarrow> pyval \<Rightarrow> (pyval \<times> pyval) list \<Rightarrow> pyval \<Rightarrow> pyval \<Rightarrow>
     migration_error + bound_request" where
  "mk_request request_id project_id model_version map_version fingerprint grp source_engine source_id targets requested_at
     requires_signature =
     and_then (check_hex request_id 32) (\<lambda>rid.
     and_then (check_hex project_id 32) (\<lambda>pid.
     and_then (check_hex model_version 16) (\<lambda>mv.
     and_then (check_hex fingerprint 64) (\<lambda>fp.
     and_then (require (1 \<le> map_version \<and> map_version \<le> MAX_EPOCH) (MigrationRefused ''map_version'')) (\<lambda>_.
     and_then (case requires_signature of PBool b \<Rightarrow> Inr b | _ \<Rightarrow> refused_because ''requires_signature'') (\<lambda>sg.
     and_then (check_name grp) (\<lambda>g.
     and_then (check_name source_engine) (\<lambda>se.
     and_then (check_name source_id) (\<lambda>si.
     and_then (require (targets \<noteq> []) (MigrationRefused ''targets'')) (\<lambda>_.
     and_then (traverse (check_target_pair si) targets) (\<lambda>ts.
     and_then (require (distinct (map snd ts)) (MigrationRefused ''target ids must be unique'')) (\<lambda>_.
     and_then (require (ts = sort ts) (MigrationRefused ''targets must be sorted'')) (\<lambda>_.
     and_then (aware_time requested_at) (\<lambda>_.
       Inr \<lparr>vr_request_id = rid, vr_project_id = pid, vr_model_version = mv, vr_map_version = map_version,
            vr_map_fingerprint = fp, vr_group = g, vr_source_engine = se, vr_source_id = si, vr_targets = ts,
            vr_requested_at = str_of requested_at, vr_requires_signature = sg\<rparr>))))))))))))))"

definition request_as_record :: "bound_request \<Rightarrow> pyval" where
  "request_as_record r = PDict
     [(lit ''protocol'', PInt 1), (lit ''request_id'', PStr (vr_request_id r)), (lit ''project_id'', PStr (vr_project_id r)),
      (lit ''model_version'', PStr (vr_model_version r)), (lit ''map_version'', PInt (vr_map_version r)),
      (lit ''map_fingerprint'', PStr (vr_map_fingerprint r)), (lit ''group'', PStr (vr_group r)),
      (lit ''source'', PDict [(lit ''engine'', PStr (vr_source_engine r)), (lit ''id'', PStr (vr_source_id r))]),
      (lit ''targets'', PList (map (\<lambda>(e, i). PDict [(lit ''engine'', PStr e), (lit ''id'', PStr i)]) (vr_targets r))),
      (lit ''requested_at'', PStr (vr_requested_at r)), (lit ''requires_signature'', PBool (vr_requires_signature r))]"

definition engine_and_id :: "pyval \<Rightarrow> (pyval \<times> pyval) option" where
  "engine_and_id v =
     (case v of
        PDict d \<Rightarrow> if set (keys d) = {lit ''engine'', lit ''id''} then Some (dict_get d ''engine'', dict_get d ''id'') else None
      | _ \<Rightarrow> None)"

fun positive_safe :: "pyval \<Rightarrow> migration_error + int" where
  "positive_safe (PInt i) = (if 1 \<le> i \<and> i \<le> MAX_EPOCH then Inr i else refused_because ''a positive safe integer'')"
| "positive_safe (PFloat (Finite r)) =
     (if 1 \<le> r \<and> r \<le> of_int MAX_EPOCH \<and> of_int \<lfloor>r\<rfloor> = r then Inr \<lfloor>r\<rfloor> else refused_because ''a positive safe integer'')"
| "positive_safe _ = refused_because ''a positive safe integer''"

definition request_fields :: "ustring set" where
  "request_fields = lit ` {''protocol'', ''request_id'', ''project_id'', ''model_version'', ''map_version'', ''map_fingerprint'',
     ''group'', ''source'', ''targets'', ''requested_at'', ''requires_signature''}"

definition request_from_record :: "pyval \<Rightarrow> migration_error + bound_request" where
  "request_from_record v =
     (case v of
        PDict d \<Rightarrow>
          if set (keys d) \<noteq> request_fields then refused_because ''missing or unknown fields''
          else if dict_get d ''protocol'' \<noteq> PInt 1 \<and> dict_get d ''protocol'' \<noteq> PFloat (Finite 1)
          then refused_because ''unsupported protocol''
          else
            (case (engine_and_id (dict_get d ''source''), dict_get d ''targets'') of
               (Some (se, si), PList ts) \<Rightarrow>
                 if list_ex (\<lambda>t. engine_and_id t = None) ts then refused_because ''targets''
                 else
                   and_then (positive_safe (dict_get d ''map_version'')) (\<lambda>mapv.
                     mk_request (dict_get d ''request_id'') (dict_get d ''project_id'') (dict_get d ''model_version'') mapv
                       (dict_get d ''map_fingerprint'') (dict_get d ''group'') se si (map (the \<circ> engine_and_id) ts)
                       (dict_get d ''requested_at'') (dict_get d ''requires_signature''))
             | (None, _) \<Rightarrow> refused_because ''source''
             | _ \<Rightarrow> refused_because ''targets'')
      | _ \<Rightarrow> refused_because ''missing or unknown fields'')"

definition verification_request ::
  "placement_map \<Rightarrow> ustring \<Rightarrow> ustring \<Rightarrow> ustring \<Rightarrow> ustring \<Rightarrow> migration_error + bound_request" where
  "verification_request pm g project_id request_id requested_at =
     (case pm_fingerprint pm of
        None \<Rightarrow> refused_because ''a map without a fingerprint''
      | Some fp \<Rightarrow>
          and_then (case placement_of pm g of Inl e \<Rightarrow> Inl (MigrationMap e) | Inr p \<Rightarrow> Inr p) (\<lambda>p.
            mk_request (PStr request_id) (PStr project_id) (PStr (pm_model_version pm)) (pm_map_version pm) (PStr fp) (PStr g)
              (PStr (mat_engine (gp_source p))) (PStr (mat_id (gp_source p)))
              (map (\<lambda>(e, i). (PStr e, PStr i)) (sort (map (\<lambda>t. (mat_engine t, mat_id t)) (gp_also_write p))))
              (PStr requested_at) (PBool (pm_signed pm))))"

definition check_session ::
  "bound_request \<Rightarrow> placement_map \<Rightarrow> ustring option \<Rightarrow> ustring \<Rightarrow> migration_error + unit" where
  "check_session r pm project_id g =
     (if project_id \<noteq> Some (vr_project_id r) then refused_because ''another project''
      else if g \<noteq> vr_group r then refused_because ''another group''
      else and_then (verification_request pm g (vr_project_id r) (vr_request_id r) (vr_requested_at r)) (\<lambda>expected.
             require (r = expected) (MigrationRefused ''another model, map, source or target'')))"

definition check_time :: "bound_request \<Rightarrow> ustring \<Rightarrow> migration_error + unit" where
  "check_time r moment =
     and_then (aware_time (PStr moment)) (\<lambda>t.
     and_then (aware_time (PStr (vr_requested_at r))) (\<lambda>t0.
       require (t0 \<le> t) (MigrationRefused ''verification predates its request'')))"

section \<open>A request survives its record\<close>

text \<open>What the constructor accepts.\<close>

definition request_ok :: "bound_request \<Rightarrow> bool" where
  "request_ok r \<longleftrightarrow>
     hex_text 32 (vr_request_id r) \<and> hex_text 32 (vr_project_id r) \<and> hex_text 16 (vr_model_version r) \<and>
     hex_text 64 (vr_map_fingerprint r) \<and> 1 \<le> vr_map_version r \<and> vr_map_version r \<le> MAX_EPOCH \<and>
     vr_group r \<noteq> [] \<and> vr_source_engine r \<noteq> [] \<and> vr_source_id r \<noteq> [] \<and> vr_targets r \<noteq> [] \<and>
     (\<forall>(e, i) \<in> set (vr_targets r). e \<noteq> [] \<and> i \<noteq> [] \<and> i \<noteq> vr_source_id r) \<and>
     distinct (map snd (vr_targets r)) \<and> vr_targets r = sort (vr_targets r) \<and>
     (\<exists>t. aware_time (PStr (vr_requested_at r)) = Inr t)"

lemma check_hex_Inr: "check_hex v w = Inr s \<longleftrightarrow> v = PStr s \<and> hex_text w s"
  by (cases v) (auto simp: check_hex_def)

lemma check_name_Inr: "check_name v = Inr s \<longleftrightarrow> v = PStr s \<and> s \<noteq> []"
  by (cases v) (auto simp: check_name_def)

lemma aware_time_Inr: "aware_time v = Inr t \<Longrightarrow> aware_time (PStr (str_of v)) = Inr t"
  by (cases v) (simp_all add: aware_time_def)

lemma check_target_pair_Inr:
  "check_target_pair src v = Inr (e, i) \<longleftrightarrow> v = (PStr e, PStr i) \<and> e \<noteq> [] \<and> i \<noteq> [] \<and> i \<noteq> src"
  by (cases v) (auto simp: check_target_pair_def check_name_def and_then_Inr require_Inr split: pyval.splits if_splits)

lemma check_targets_Inr:
  "traverse (check_target_pair src) vs = Inr ts \<longleftrightarrow>
     vs = map (\<lambda>(e, i). (PStr e, PStr i)) ts \<and> (\<forall>(e, i) \<in> set ts. e \<noteq> [] \<and> i \<noteq> [] \<and> i \<noteq> src)"
proof (induction vs arbitrary: ts)
  case (Cons v vs)
  show ?case
  proof
    assume "traverse (check_target_pair src) (v # vs) = Inr ts"
    then obtain e i ts' where "check_target_pair src v = Inr (e, i)" "traverse (check_target_pair src) vs = Inr ts'" "ts = (e, i) # ts'"
      by (auto simp: and_then_Inr)
    then show "v # vs = map (\<lambda>(e, i). (PStr e, PStr i)) ts \<and> (\<forall>(e, i) \<in> set ts. e \<noteq> [] \<and> i \<noteq> [] \<and> i \<noteq> src)"
      using Cons.IH [of ts'] by (simp add: check_target_pair_Inr)
  next
    assume r: "v # vs = map (\<lambda>(e, i). (PStr e, PStr i)) ts \<and> (\<forall>(e, i) \<in> set ts. e \<noteq> [] \<and> i \<noteq> [] \<and> i \<noteq> src)"
    then obtain e i ts' where ts: "ts = (e, i) # ts'" by (cases ts) auto
    then have "check_target_pair src v = Inr (e, i)" using r by (simp add: check_target_pair_Inr)
    moreover have "traverse (check_target_pair src) vs = Inr ts'" using r ts Cons.IH [of ts'] by simp
    ultimately show "traverse (check_target_pair src) (v # vs) = Inr ts" using ts by simp
  qed
qed auto

lemma mk_request_ok:
  assumes "mk_request rid pid mv mapv fp g se si ts ra rs = Inr r"
  shows "request_ok r"
proof -
  obtain t where t: "aware_time ra = Inr t" "vr_requested_at r = str_of ra"
    using assms by (auto simp: mk_request_def and_then_Inr)
  have "hex_text 32 (vr_request_id r)" "hex_text 32 (vr_project_id r)" "hex_text 16 (vr_model_version r)"
    "hex_text 64 (vr_map_fingerprint r)" "1 \<le> vr_map_version r" "vr_map_version r \<le> MAX_EPOCH"
    "vr_group r \<noteq> []" "vr_source_engine r \<noteq> []" "vr_source_id r \<noteq> []"
    using assms by (auto simp: mk_request_def and_then_Inr require_Inr check_hex_Inr check_name_Inr)
  moreover have "traverse (check_target_pair (vr_source_id r)) ts = Inr (vr_targets r)" "ts \<noteq> []"
    "distinct (map snd (vr_targets r))" "vr_targets r = sort (vr_targets r)"
    using assms by (auto simp: mk_request_def and_then_Inr require_Inr check_name_Inr)
  ultimately show ?thesis
    unfolding request_ok_def check_targets_Inr using aware_time_Inr [OF t(1)] t(2) by auto
qed

lemma mk_request_again:
  assumes "request_ok r"
  shows "mk_request (PStr (vr_request_id r)) (PStr (vr_project_id r)) (PStr (vr_model_version r)) (vr_map_version r)
    (PStr (vr_map_fingerprint r)) (PStr (vr_group r)) (PStr (vr_source_engine r)) (PStr (vr_source_id r))
    (map (\<lambda>(e, i). (PStr e, PStr i)) (vr_targets r)) (PStr (vr_requested_at r)) (PBool (vr_requires_signature r)) = Inr r"
proof -
  obtain t where t: "aware_time (PStr (vr_requested_at r)) = Inr t" using assms by (auto simp: request_ok_def)
  have "traverse (check_target_pair (vr_source_id r)) (map (\<lambda>(e, i). (PStr e, PStr i)) (vr_targets r)) = Inr (vr_targets r)"
    using assms by (simp add: check_targets_Inr request_ok_def)
  moreover have "vr_targets r = sort (vr_targets r)" using assms by (simp add: request_ok_def)
  ultimately show ?thesis
    using assms t by (simp add: mk_request_def request_ok_def check_hex_def check_name_def require_def)
qed

lemma request_read_back:
  assumes "mk_request rid pid mv mapv fp g se si ts ra rs = Inr r"
  shows "request_from_record (request_as_record r) = Inr r"
proof -
  have ok: "request_ok r" by (rule mk_request_ok [OF assms])
  then have version: "positive_safe (PInt (vr_map_version r)) = Inr (vr_map_version r)" by (simp add: request_ok_def)
  have pair: "engine_and_id (PDict [(lit ''engine'', a), (lit ''id'', b)]) = Some (a, b)" for a b
    by (simp add: engine_and_id_def dict_get_def)
  let ?raw = "map (\<lambda>(e, i). PDict [(lit ''engine'', PStr e), (lit ''id'', PStr i)]) (vr_targets r)"
  have targets: "map (the \<circ> engine_and_id) ?raw = map (\<lambda>(e, i). (PStr e, PStr i)) (vr_targets r)"
    "list_ex (\<lambda>t. engine_and_id t = None) ?raw \<longleftrightarrow> False"
    by (auto simp: pair list_ex_iff)
  show ?thesis
    unfolding request_from_record_def request_as_record_def
    using mk_request_again [OF ok] version targets
    by (simp add: request_fields_def dict_get_def pair del: map_map list.map_comp positive_safe.simps)
qed

text \<open>
  C40. Every request that the constructor accepts is read back from its record as the same request, so
  a verifier echoes exactly what the controller persisted.
\<close>

theorem request_round_trip:
  assumes "mk_request rid pid mv mapv fp g se si ts ra rs = Inr r"
  shows "request_from_record (request_as_record r) = Inr r"
  by (rule request_read_back [OF assms])

section \<open>A request is evidence about one map\<close>

lemma mk_request_fields:
  assumes "mk_request (PStr rid) (PStr pid) (PStr mv) mapv (PStr fp) (PStr g) (PStr se) (PStr si)
      (map (\<lambda>(e, i). (PStr e, PStr i)) ts) (PStr ra) (PBool sg) = Inr r"
  shows "vr_model_version r = mv" "vr_map_version r = mapv" "vr_map_fingerprint r = fp" "vr_source_engine r = se"
    "vr_source_id r = si" "vr_requires_signature r = sg" "vr_targets r = ts"
proof -
  obtain ts' where ts: "traverse (check_target_pair si) (map (\<lambda>(e, i). (PStr e, PStr i)) ts) = Inr ts'" "vr_targets r = ts'"
    using assms by (auto simp: mk_request_def and_then_Inr require_Inr check_hex_Inr check_name_Inr)
  then have "map (\<lambda>(e, i). (PStr e, PStr i)) ts = map (\<lambda>(e, i). (PStr e, PStr i)) ts'"
    by (simp add: check_targets_Inr)
  then have "ts = ts'" by (subst (asm) inj_map_eq_map) (auto simp: inj_def)
  then show "vr_targets r = ts" using ts(2) by simp
  show "vr_model_version r = mv" "vr_map_version r = mapv" "vr_map_fingerprint r = fp" "vr_source_engine r = se"
    "vr_source_id r = si" "vr_requires_signature r = sg"
    using assms by (auto simp: mk_request_def and_then_Inr require_Inr check_hex_Inr check_name_Inr)
qed

lemma check_session_Inr:
  assumes "check_session r pm project g = Inr ()"
  shows "project = Some (vr_project_id r) \<and> g = vr_group r \<and> pm_model_version pm = vr_model_version r \<and>
    pm_map_version pm = vr_map_version r \<and> pm_fingerprint pm = Some (vr_map_fingerprint r) \<and>
    pm_signed pm = vr_requires_signature r \<and>
    (\<exists>p. placement_of pm g = Inr p \<and> vr_source_engine r = mat_engine (gp_source p) \<and> vr_source_id r = mat_id (gp_source p) \<and>
      vr_targets r = sort (map (\<lambda>t. (mat_engine t, mat_id t)) (gp_also_write p)))"
proof -
  have top: "project = Some (vr_project_id r)" "g = vr_group r"
    "verification_request pm g (vr_project_id r) (vr_request_id r) (vr_requested_at r) = Inr r"
    using assms by (auto simp: check_session_def and_then_Inr require_Inr split: if_splits)
  obtain fp p where made: "pm_fingerprint pm = Some fp" "placement_of pm g = Inr p"
    "mk_request (PStr (vr_request_id r)) (PStr (vr_project_id r)) (PStr (pm_model_version pm)) (pm_map_version pm) (PStr fp) (PStr g)
      (PStr (mat_engine (gp_source p))) (PStr (mat_id (gp_source p)))
      (map (\<lambda>(e, i). (PStr e, PStr i)) (sort (map (\<lambda>t. (mat_engine t, mat_id t)) (gp_also_write p))))
      (PStr (vr_requested_at r)) (PBool (pm_signed pm)) = Inr r"
    using top(3) by (auto simp: verification_request_def and_then_Inr split: option.splits sum.splits)
  show ?thesis using top(1,2) made(1,2) mk_request_fields [OF made(3)] by simp
qed

lemma map_fingerprint_Inr:
  assumes "map_fingerprint nfc sha256 raw contract = Inr (Some fp)"
  shows "\<exists>bs. canonical_bytes nfc (PDict (without_signature raw)) = Inr bs \<and> fp = sha256 bs"
  using assms canonical_payload_Inr [of nfc raw contract False]
  by (auto simp: map_fingerprint_def split: sum.splits map_error.splits canonical_error.splits)

text \<open>
  C39. A verification request is evidence about one map only: two documents whose loaded maps both
  match it say the same thing, up to the spelling the canonical form removes, unless the digest
  collides on them; and the request names the project, the group, the map version, the source and
  exactly the fan-out targets of the map it matches.
\<close>

theorem request_binds_one_map:
  assumes "\<And>s. nfc (nfc s) = nfc s"
    and "\<forall>bs bs'. canonical_bytes nfc (PDict (without_signature (read_numbers d))) = Inr bs \<longrightarrow>
      canonical_bytes nfc (PDict (without_signature (read_numbers d'))) = Inr bs' \<longrightarrow> sha256 bs = sha256 bs' \<longrightarrow> bs = bs'"
    and "parse_map u nfc lower sha256 cr (PDict d) model key req = Inr pm"
    and "parse_map u nfc lower sha256 cr (PDict d') model' key' req' = Inr pm'"
    and "check_session r pm project g = Inr ()" "check_session r pm' project' g' = Inr ()"
  shows "canon nfc (PDict (without_signature (read_numbers d))) = canon nfc (PDict (without_signature (read_numbers d'))) \<and>
    project = project' \<and> g = g' \<and> pm_map_version pm = vr_map_version r \<and>
    (\<exists>p. placement_of pm g = Inr p \<and> vr_source_id r = mat_id (gp_source p) \<and>
      vr_targets r = sort (map (\<lambda>t. (mat_engine t, mat_id t)) (gp_also_write p)))"
proof -
  note sessions = check_session_Inr [OF assms(5)] check_session_Inr [OF assms(6)]
  have fp: "\<exists>bs. canonical_bytes nfc (PDict (without_signature (read_numbers x))) = Inr bs \<and> vr_map_fingerprint r = sha256 bs"
    if "parse_map u nfc lower sha256 cr (PDict x) mo ke re = Inr q" "pm_fingerprint q = Some (vr_map_fingerprint r)" for x mo ke re q
    using that(1) by (rule parse_map_Inr) (use that(2) map_fingerprint_Inr in auto)
  obtain bs where bs: "canonical_bytes nfc (PDict (without_signature (read_numbers d))) = Inr bs" "vr_map_fingerprint r = sha256 bs"
    using fp [OF assms(3)] sessions(1) by blast
  obtain bs' where bs': "canonical_bytes nfc (PDict (without_signature (read_numbers d'))) = Inr bs'" "vr_map_fingerprint r = sha256 bs'"
    using fp [OF assms(4)] sessions(2) by blast
  have "bs = bs'" using assms(2) bs bs' by auto
  then have "canon nfc (PDict (without_signature (read_numbers d))) = canon nfc (PDict (without_signature (read_numbers d')))"
    using canonical_bytes_inj [of nfc, OF assms(1) bs(1)] bs'(1) by blast
  then show ?thesis using sessions by auto
qed

definition sample_time :: ustring where
  "sample_time = lit ''0001-01-01T00:00:00Z''"

lemma sample_time_read: "aware_time (PStr sample_time) = Inr 0"
  by (simp add: aware_time_def sample_time_def lit_def ascii_number_def is_digit_def days_in_month_def days_before_def
      read_fraction_def read_offset_def)

definition sample_request :: bound_request where
  "sample_request = \<lparr>vr_request_id = replicate 32 98, vr_project_id = replicate 32 97, vr_model_version = replicate 16 97,
     vr_map_version = 7, vr_map_fingerprint = replicate 64 97, vr_group = lit ''E'', vr_source_engine = lit ''pg'',
     vr_source_id = lit ''s'', vr_targets = [(lit ''ch'', lit ''d'')], vr_requested_at = sample_time,
     vr_requires_signature = False\<rparr>"

lemma sample_request_ok: "request_ok sample_request"
  using sample_time_read
  by (auto simp: request_ok_def sample_request_def hex_text_def hex_digit_def list_all_iff MAX_EPOCH_def)

theorem request_round_trip_witness:
  "request_from_record (request_as_record sample_request) = Inr sample_request"
  by (rule request_round_trip [OF mk_request_again [OF sample_request_ok]])

lemma sample_request_made:
  assumes "pm_fingerprint pm = Some (replicate 64 97)" "pm_model_version pm = replicate 16 97" "pm_map_version pm = 7"
    and "pm_groups pm = [(lit ''E'', sample_placement)]" "\<not> pm_signed pm"
  shows "check_session sample_request pm (Some (replicate 32 97)) (lit ''E'') = Inr ()"
  using assms mk_request_again [OF sample_request_ok]
  by (simp add: check_session_def verification_request_def placement_of_def sample_request_def sample_placement_def Let_def)

theorem request_binds_one_map_witness:
  "\<exists>pm. parse_map latin_tables id id (\<lambda>_. replicate 64 97) no_crypto (PDict sample_raw) None None False = Inr pm \<and>
     pm_map_version pm = vr_map_version sample_request"
proof -
  have raw: "sample_map = PDict sample_raw" by code_simp
  obtain pm where pm: "parse_map latin_tables id id (\<lambda>_. replicate 64 97) no_crypto (PDict sample_raw) None None False = Inr pm"
    "pm_fingerprint pm = Some (replicate 64 97)" "pm_model_version pm = replicate 16 97" "pm_map_version pm = 7"
    "pm_groups pm = [(lit ''E'', sample_placement)]" "\<not> pm_signed pm"
    using sample_map_parsed [of "\<lambda>_. replicate 64 97"] unfolding raw by auto
  note session = sample_request_made [OF pm(2-6)]
  have "id (id x) = id x" for x :: ustring by simp
  from request_binds_one_map [OF this _ pm(1) pm(1) session session] pm(1) show ?thesis by simp
qed

end
