(* ===== verification/Migration.thy ===== *)
theory Migration
  imports Memory Verification "HOL-Library.Monad_Syntax"
begin

text \<open>
  Copying a group into its second engine and proving the copy complete (\<open>migration.py\<close>).

  What a migration asks of an engine adapter (the protocol \<open>Migratable\<close>) is a record of operations
  over an engine state; a call that writes returns an error or none together with the state it left,
  so that an interrupted call keeps what it had done. The engines of a session are a dictionary by
  name, and a copy names its engines, so a copy within one engine is the same engine read and
  written. Values are a type of their own with the operations Python's comparisons need, because a
  row may hold dates, decimals and identifiers that are not JSON.

  A loop is a \<open>partial_function (option)\<close>: \<open>None\<close> is a run that never ends. Log lines and the prose of
  the results are left out, and so is the session lease of \<open>session_function\<close>.
\<close>

section \<open>What a migration is made of\<close>

record 'v value_ops =
  vo_eq :: "'v \<Rightarrow> 'v \<Rightarrow> bool"
  vo_nan :: "'v \<Rightarrow> bool"
  vo_none :: 'v
  vo_int :: "int \<Rightarrow> 'v"

record ('e, 'v) migratable =
  mg_able :: "'e \<Rightarrow> bool"
  mg_key_range :: "'e \<Rightarrow> ustring \<Rightarrow> ustring list \<Rightarrow> 'v list option \<Rightarrow> 'v list option \<Rightarrow> nat option \<Rightarrow> string + 'v row list"
  mg_nth_key :: "'e \<Rightarrow> ustring \<Rightarrow> ustring list \<Rightarrow> int \<Rightarrow> string + 'v list option"
  mg_copy_in :: "'e \<Rightarrow> ustring \<Rightarrow> 'v row list \<Rightarrow> string option \<times> 'e"
  mg_count :: "'e \<Rightarrow> ustring \<Rightarrow> string + nat"
  mg_get :: "'e \<Rightarrow> ustring \<Rightarrow> 'v row \<Rightarrow> string + 'v row option"
  mg_marker :: "'e \<Rightarrow> ustring \<Rightarrow> ustring \<Rightarrow> string + int"
  mg_record_marker :: "'e \<Rightarrow> ustring \<Rightarrow> ustring \<Rightarrow> int \<Rightarrow> string option \<times> 'e"
  mg_holds :: "'e \<Rightarrow> (ustring \<Rightarrow> 'v \<Rightarrow> bool) option"

definition engine_call :: "string + 'a \<Rightarrow> migration_error + 'a" where
  "engine_call r = (case r of Inl err \<Rightarrow> Inl (EngineError err) | Inr x \<Rightarrow> Inr x)"

definition engine_named :: "(ustring, 'e) dict \<Rightarrow> ustring \<Rightarrow> migration_error + 'e" where
  "engine_named engines name = (case map_of engines name of None \<Rightarrow> Inl MigrationKeyError | Some e \<Rightarrow> Inr e)"

record copy =
  cp_entity :: ustring
  cp_key :: "ustring list"
  cp_source_engine :: ustring
  cp_source_table :: ustring
  cp_target_engine :: ustring
  cp_target_id :: ustring
  cp_target_table :: ustring
  cp_write_epoch :: "int option"
  cp_temporal :: "(ustring \<times> ustring) list"

record entity_progress =
  ep_entity :: ustring
  ep_engine :: ustring
  ep_table :: ustring
  ep_rows_copied :: int
  ep_rows_this_run :: nat
  ep_chunks :: nat
  ep_complete :: bool

record backfill_progress =
  bp_group :: ustring
  bp_entities :: "entity_progress list"

definition bp_complete :: "backfill_progress \<Rightarrow> bool" where
  "bp_complete p \<longleftrightarrow> list_all ep_complete (bp_entities p)"

definition bp_rows_this_run :: "backfill_progress \<Rightarrow> nat" where
  "bp_rows_this_run p = (\<Sum>e\<leftarrow>bp_entities p. ep_rows_this_run e)"

section \<open>The plan\<close>

definition TEMPORAL_KINDS :: "ustring set" where
  "TEMPORAL_KINDS = {lit ''date'', lit ''timestamp'', lit ''timestamptz''}"

definition migration_group :: "logical_model \<Rightarrow> ustring \<Rightarrow> migration_error + group" where
  "migration_group m g =
     (case colocation_groups m of
        Inl e \<Rightarrow> Inl (MigrationGroups e)
      | Inr gs \<Rightarrow> (case List.find (\<lambda>c. gname c = g) gs of
                     None \<Rightarrow> Inl (MigrationRefused ''not a colocation group'') | Some c \<Rightarrow> Inr c))"

definition DIALECT_PRECISION :: "((ustring \<times> ustring) \<times> int) list" where
  "DIALECT_PRECISION =
     [((lit ''timestamp'', lit ''postgres''), 6), ((lit ''timestamptz'', lit ''postgres''), 6),
      ((lit ''timestamp'', lit ''clickhouse''), 6), ((lit ''timestamptz'', lit ''clickhouse''), 6),
      ((lit ''timestamp'', lit ''elasticsearch''), 6), ((lit ''timestamptz'', lit ''elasticsearch''), 6)]"

definition PRECISION_INDEPENDENT :: "ustring set" where
  "PRECISION_INDEPENDENT =
     {lit ''bool'', lit ''int32'', lit ''int64'', lit ''float32'', lit ''float64'', lit ''string'', lit ''bytes'', lit ''uuid'',
      lit ''date'', lit ''json''}"

datatype precision_reason = UnknownPrecision ustring | LowerPrecision ustring int int

text \<open>\<open>precision_refusal\<close>: the first column, by name, that the target would change.\<close>

fun precision_of_columns :: "ustring \<Rightarrow> ustring \<Rightarrow> (ustring \<times> ustring) list \<Rightarrow> precision_reason option" where
  "precision_of_columns source target [] = None"
| "precision_of_columns source target ((column, neutral) # rest) =
     (if starts_with neutral (lit ''decimal('') \<or> neutral \<in> PRECISION_INDEPENDENT then precision_of_columns source target rest
      else case (map_of DIALECT_PRECISION (neutral, source), map_of DIALECT_PRECISION (neutral, target)) of
             (Some here, Some there) \<Rightarrow>
               if there < here then Some (LowerPrecision column here there) else precision_of_columns source target rest
           | _ \<Rightarrow> Some (UnknownPrecision column))"

definition precision_refusal :: "(ustring, ustring) dict \<Rightarrow> ustring \<Rightarrow> ustring \<Rightarrow> precision_reason option" where
  "precision_refusal cols source target = precision_of_columns source target (sort_key fst cols)"

definition migratable_engine :: "('e, 'v) migratable \<Rightarrow> (ustring, 'e) dict \<Rightarrow> ustring \<Rightarrow> migration_error + unit" where
  "migratable_engine ops engines name =
     and_then (engine_named engines name) (\<lambda>e.
       require (mg_able ops e) (MigrationRefused ''the adapter cannot take part in a migration''))"

definition shapes_agree ::
  "ustring \<Rightarrow> physical_layout materialization \<Rightarrow> physical_layout materialization \<Rightarrow> migration_error + unit" where
  "shapes_agree entity src tgt =
     (case (map_of (columns (mat_layout src)) entity, map_of (columns (mat_layout tgt)) entity) of
        (Some here, Some there) \<Rightarrow>
          if here = [] \<or> there = [] then Inl (MigrationRefused ''a layout without columns'')
          else require (set (keys here) = set (keys there)) (MigrationRefused ''a reshape is not a move'')
      | _ \<Rightarrow> Inl (MigrationRefused ''a layout without columns''))"

definition migration_table :: "physical_layout materialization \<Rightarrow> ustring \<Rightarrow> migration_error + ustring" where
  "migration_table mat entity =
     (case table_for (mat_layout mat) entity of Inl e \<Rightarrow> Inl (MigrationMap e) | Inr t \<Rightarrow> Inr t)"

definition plan_entity ::
  "logical_model \<Rightarrow> physical_layout group_placement \<Rightarrow> physical_layout materialization \<Rightarrow> ustring \<Rightarrow> migration_error + copy" where
  "plan_entity m p tgt entity =
     (case entity_of m entity of
        None \<Rightarrow> Inl MigrationKeyError
      | Some spec \<Rightarrow>
          if ekey spec = [] then Inl (MigrationRefused ''an entity without a key'')
          else
            and_then (shapes_agree entity (gp_source p) tgt) (\<lambda>_.
            and_then (migration_table (gp_source p) entity) (\<lambda>src_table.
            and_then (migration_table tgt entity) (\<lambda>tgt_table.
              Inr \<lparr>cp_entity = entity, cp_key = ekey spec, cp_source_engine = mat_engine (gp_source p),
                   cp_source_table = src_table, cp_target_engine = mat_engine tgt, cp_target_id = mat_id tgt,
                   cp_target_table = tgt_table, cp_write_epoch = gp_write_epoch p,
                   cp_temporal = map (\<lambda>f. (fname f, ftype f)) (filter (\<lambda>f. ftype f \<in> TEMPORAL_KINDS) (efields spec))\<rparr>))))"

definition migration_plan ::
  "('e, 'v) migratable \<Rightarrow> logical_model \<Rightarrow> placement_map \<Rightarrow> (ustring, 'e) dict \<Rightarrow> ustring \<Rightarrow> migration_error + copy list" where
  "migration_plan ops m pm engines g =
     and_then (migration_group m g) (\<lambda>members.
     and_then (case placement_of pm g of Inl e \<Rightarrow> Inl (MigrationMap e) | Inr p \<Rightarrow> Inr p) (\<lambda>p.
     and_then (require (gp_also_write p \<noteq> []) (MigrationRefused ''no fan-out target'')) (\<lambda>_.
     and_then (migratable_engine ops engines (mat_engine (gp_source p))) (\<lambda>_.
     and_then (traverse (\<lambda>tgt. and_then (migratable_engine ops engines (mat_engine tgt)) (\<lambda>_.
                 traverse (plan_entity m p tgt) (gmembers members))) (gp_also_write p)) (\<lambda>copies.
       Inr (concat copies))))))"

section \<open>Rows\<close>

definition logical_copy_row :: "copy \<Rightarrow> 'v row \<Rightarrow> 'v row" where
  "logical_copy_row cp r =
     (case cp_write_epoch cp of None \<Rightarrow> r | Some _ \<Rightarrow> filter (\<lambda>(c, v). c \<noteq> EPOCH_COLUMN) r)"

definition payload_row :: "'v value_ops \<Rightarrow> copy \<Rightarrow> 'v row \<Rightarrow> 'v row" where
  "payload_row vo cp r =
     (case cp_write_epoch cp of
        None \<Rightarrow> r
      | Some epoch \<Rightarrow> AList.update EPOCH_COLUMN (vo_int vo epoch) (logical_copy_row cp r))"

text \<open>\<open>tuple(row[column] for column in copy.key)\<close>\<close>

definition row_key :: "ustring list \<Rightarrow> 'v row \<Rightarrow> migration_error + 'v list" where
  "row_key cols r = traverse (\<lambda>c. case map_of r c of None \<Rightarrow> Inl MigrationKeyError | Some v \<Rightarrow> Inr v) cols"

definition same_value :: "'v value_ops \<Rightarrow> 'v \<Rightarrow> 'v \<Rightarrow> bool" where
  "same_value vo a b \<longleftrightarrow> (vo_nan vo a \<and> vo_nan vo b) \<or> vo_eq vo a b"

definition differing_columns :: "'v value_ops \<Rightarrow> 'v row \<Rightarrow> 'v row \<Rightarrow> ustring list" where
  "differing_columns vo source target =
     sort (map fst (filter (\<lambda>(c, v). case map_of target c of None \<Rightarrow> True | Some w \<Rightarrow> \<not> same_value vo v w) source))"

definition held_by_target :: "('e, 'v) migratable \<Rightarrow> 'v value_ops \<Rightarrow> copy \<Rightarrow> 'e \<Rightarrow> 'v row list \<Rightarrow> bool" where
  "held_by_target ops vo cp e rows \<longleftrightarrow>
     (case (if cp_temporal cp = [] then None else mg_holds ops e) of
        None \<Rightarrow> True
      | Some holds \<Rightarrow>
          list_all (\<lambda>r. list_all (\<lambda>(c, kind). case map_of r c of
              None \<Rightarrow> True | Some v \<Rightarrow> v = vo_none vo \<or> holds kind v) (cp_temporal cp)) rows)"

section \<open>Backfill\<close>

record 'v cursor =
  cu_after :: "'v list option"
  cu_marker :: int
  cu_rows :: nat
  cu_chunks :: nat

datatype turn = Again | Finished | Failed migration_error

text \<open>
  One turn of the loop of \<open>_backfill_one\<close>: the chunk is written before the marker moves, and the
  marker before the cursor.
\<close>

definition backfill_turn ::
  "('e, 'v) migratable \<Rightarrow> 'v value_ops \<Rightarrow> copy \<Rightarrow> nat \<Rightarrow> 'v cursor \<Rightarrow> (ustring, 'e) dict \<Rightarrow>
     turn \<times> 'v cursor \<times> (ustring, 'e) dict" where
  "backfill_turn ops vo cp chunk_rows c engines =
     (case (engine_named engines (cp_source_engine cp), engine_named engines (cp_target_engine cp)) of
        (Inr src, Inr tgt) \<Rightarrow>
          (case mg_key_range ops src (cp_source_table cp) (cp_key cp) (cu_after c) None (Some chunk_rows) of
             Inl err \<Rightarrow> (Failed (EngineError err), c, engines)
           | Inr rows \<Rightarrow>
               if rows = [] then (Finished, c, engines)
               else if \<not> held_by_target ops vo cp tgt rows
               then (Failed (MigrationRefused ''a value the target cannot hold''), c, engines)
               else
                 (case mg_copy_in ops tgt (cp_target_table cp) (map (payload_row vo cp) rows) of
                    (Some err, tgt') \<Rightarrow> (Failed (EngineError err), c, AList.update (cp_target_engine cp) tgt' engines)
                  | (None, tgt') \<Rightarrow>
                      let marker = cu_marker c + int (length rows)
                      in case mg_record_marker ops tgt' (cp_target_id cp) (cp_entity cp) marker of
                           (Some err, tgt'') \<Rightarrow>
                             (Failed (EngineError err), c, AList.update (cp_target_engine cp) tgt'' engines)
                         | (None, tgt'') \<Rightarrow>
                             (case row_key (cp_key cp) (last rows) of
                                Inl e \<Rightarrow> (Failed e, c, AList.update (cp_target_engine cp) tgt'' engines)
                              | Inr k \<Rightarrow>
                                  (if length rows < chunk_rows then Finished else Again,
                                   \<lparr>cu_after = Some k, cu_marker = marker, cu_rows = cu_rows c + length rows,
                                    cu_chunks = Suc (cu_chunks c)\<rparr>,
                                   AList.update (cp_target_engine cp) tgt'' engines))))
      | _ \<Rightarrow> (Failed MigrationKeyError, c, engines))"

partial_function (option) backfill_loop ::
  "('e, 'v) migratable \<Rightarrow> 'v value_ops \<Rightarrow> copy \<Rightarrow> nat \<Rightarrow> int option \<Rightarrow> 'v cursor \<Rightarrow> (ustring, 'e) dict \<Rightarrow>
     ((migration_error + bool) \<times> 'v cursor \<times> (ustring, 'e) dict) option" where
  "backfill_loop ops vo cp chunk_rows stop_after c engines =
     (if (case stop_after of None \<Rightarrow> False | Some n \<Rightarrow> \<not> int (cu_chunks c) < n) then Some (Inr False, c, engines)
      else case backfill_turn ops vo cp chunk_rows c engines of
             (t, c', engines') \<Rightarrow>
               (case t of
                  Again \<Rightarrow> backfill_loop ops vo cp chunk_rows stop_after c' engines'
                | Finished \<Rightarrow> Some (Inr True, c', engines')
                | Failed e \<Rightarrow> Some (Inl e, c', engines')))"

declare backfill_loop.simps [code]

definition resume_point :: "('e, 'v) migratable \<Rightarrow> copy \<Rightarrow> 'e \<Rightarrow> int \<Rightarrow> migration_error + 'v list option" where
  "resume_point ops cp src marker =
     (if marker \<le> 0 then Inr None
      else and_then (engine_call (mg_nth_key ops src (cp_source_table cp) (cp_key cp) marker)) (\<lambda>position.
             case position of
               None \<Rightarrow> Inl (MigrationRefused ''the source has fewer rows than the marker'')
             | Some k \<Rightarrow> Inr (Some k)))"

definition backfill_one ::
  "('e, 'v) migratable \<Rightarrow> 'v value_ops \<Rightarrow> copy \<Rightarrow> nat \<Rightarrow> int option \<Rightarrow> (ustring, 'e) dict \<Rightarrow>
     ((migration_error + entity_progress) \<times> (ustring, 'e) dict) option" where
  "backfill_one ops vo cp chunk_rows stop_after engines =
     (case and_then (engine_named engines (cp_target_engine cp)) (\<lambda>tgt.
           and_then (engine_call (mg_marker ops tgt (cp_target_id cp) (cp_entity cp))) (\<lambda>marker.
           and_then (engine_named engines (cp_source_engine cp)) (\<lambda>src.
           and_then (resume_point ops cp src marker) (\<lambda>after. Inr (marker, after))))) of
        Inl e \<Rightarrow> Some (Inl e, engines)
      | Inr (marker, after) \<Rightarrow>
          backfill_loop ops vo cp chunk_rows stop_after
            \<lparr>cu_after = after, cu_marker = marker, cu_rows = 0, cu_chunks = 0\<rparr> engines \<bind> (\<lambda>(r, c, engines').
          Some (and_then r (\<lambda>complete.
                  Inr \<lparr>ep_entity = cp_entity cp, ep_engine = cp_target_engine cp, ep_table = cp_target_table cp,
                       ep_rows_copied = cu_marker c, ep_rows_this_run = cu_rows c, ep_chunks = cu_chunks c,
                       ep_complete = complete\<rparr>), engines')))"

fun backfill_copies ::
  "('e, 'v) migratable \<Rightarrow> 'v value_ops \<Rightarrow> nat \<Rightarrow> int option \<Rightarrow> copy list \<Rightarrow> (ustring, 'e) dict \<Rightarrow>
     ((migration_error + entity_progress list) \<times> (ustring, 'e) dict) option" where
  "backfill_copies ops vo chunk_rows stop_after [] engines = Some (Inr [], engines)"
| "backfill_copies ops vo chunk_rows stop_after (cp # cps) engines =
     backfill_one ops vo cp chunk_rows stop_after engines \<bind> (\<lambda>(r, engines').
       case r of
         Inl e \<Rightarrow> Some (Inl e, engines')
       | Inr p \<Rightarrow>
           backfill_copies ops vo chunk_rows stop_after cps engines' \<bind> (\<lambda>(rs, engines'').
             Some (and_then rs (\<lambda>ps. Inr (p # ps)), engines'')))"

definition backfill ::
  "('e, 'v) migratable \<Rightarrow> 'v value_ops \<Rightarrow> logical_model \<Rightarrow> placement_map \<Rightarrow> ustring \<Rightarrow> int \<Rightarrow> int option \<Rightarrow>
     (ustring, 'e) dict \<Rightarrow> ((migration_error + backfill_progress) \<times> (ustring, 'e) dict) option" where
  "backfill ops vo m pm g chunk_rows stop_after engines =
     (if chunk_rows < 1 then Some (Inl (MigrationRefused ''not a chunk''), engines)
      else case migration_plan ops m pm engines g of
             Inl e \<Rightarrow> Some (Inl e, engines)
           | Inr cps \<Rightarrow>
               backfill_copies ops vo (nat chunk_rows) stop_after cps engines \<bind> (\<lambda>(r, engines').
                 Some (and_then r (\<lambda>ps. Inr \<lparr>bp_group = g, bp_entities = ps\<rparr>), engines')))"

section \<open>Verify\<close>

record 'v difference =
  df_entity :: ustring
  df_table :: ustring
  df_key :: "'v row"
  df_columns :: "ustring list"

definition df_absent :: "'v difference \<Rightarrow> bool" where
  "df_absent d \<longleftrightarrow> df_columns d = []"

definition DIFFERENCES_KEPT :: nat where
  "DIFFERENCES_KEPT = 20"

record 'v tally =
  vt_chunks_compared :: nat
  vt_chunks_mismatched :: nat
  vt_tail_rows_read :: nat
  vt_tail_missing :: nat
  vt_rows_source :: nat
  vt_rows_target :: nat
  vt_differences :: "'v difference list"
  vt_suppressed :: nat

record 'v verify_report =
  vp_at :: ustring
  vp_group :: ustring
  vp_tally :: "'v tally"
  vp_request :: "bound_request option"

definition matched :: "'v verify_report \<Rightarrow> bool" where
  "matched r \<longleftrightarrow> vt_chunks_mismatched (vp_tally r) = 0 \<and> vt_tail_missing (vp_tally r) = 0"

definition empty_tally :: "'v tally" where
  "empty_tally = \<lparr>vt_chunks_compared = 0, vt_chunks_mismatched = 0, vt_tail_rows_read = 0, vt_tail_missing = 0,
     vt_rows_source = 0, vt_rows_target = 0, vt_differences = [], vt_suppressed = 0\<rparr>"

text \<open>\<open>index.get(key)\<close>: of several rows under one key the dictionary keeps the last.\<close>

definition index_get :: "'v value_ops \<Rightarrow> 'v list \<Rightarrow> ('v list \<times> 'v row) list \<Rightarrow> 'v row option" where
  "index_get vo k index = map_option snd (List.find (\<lambda>(k', r). list_all2 (vo_eq vo) k' k) (rev index))"

text \<open>The body of the loop of \<open>_missing_in_target\<close>: the difference of one source row, if it has one.\<close>

definition row_difference ::
  "('e, 'v) migratable \<Rightarrow> 'v value_ops \<Rightarrow> copy \<Rightarrow> 'e \<Rightarrow> ('v list \<times> 'v row) list \<Rightarrow> 'v row \<Rightarrow>
     migration_error + 'v difference list" where
  "row_difference ops vo cp tgt index physical_row =
     (let r = logical_copy_row cp physical_row
      in and_then (row_key (cp_key cp) r) (\<lambda>k.
           if (case index_get vo k index of None \<Rightarrow> False | Some there \<Rightarrow> differing_columns vo r there = []) then Inr []
           else let named = zip (cp_key cp) k
                in and_then (engine_call (mg_get ops tgt (cp_target_table cp) named)) (\<lambda>again.
                     case again of
                       None \<Rightarrow> Inr [\<lparr>df_entity = cp_entity cp, df_table = cp_target_table cp, df_key = named, df_columns = []\<rparr>]
                     | Some a \<Rightarrow>
                         let differs = differing_columns vo r (logical_copy_row cp a)
                         in Inr (if differs = [] then []
                                 else [\<lparr>df_entity = cp_entity cp, df_table = cp_target_table cp, df_key = named,
                                        df_columns = differs\<rparr>]))))"

definition missing_in_target ::
  "('e, 'v) migratable \<Rightarrow> 'v value_ops \<Rightarrow> copy \<Rightarrow> 'e \<Rightarrow> 'v row list \<Rightarrow> 'v list option \<Rightarrow> 'v list \<Rightarrow>
     migration_error + 'v difference list" where
  "missing_in_target ops vo cp tgt rows low high =
     and_then (engine_call (mg_key_range ops tgt (cp_target_table cp) (cp_key cp) low (Some high) None)) (\<lambda>mirror.
     and_then (traverse (\<lambda>r. and_then (row_key (cp_key cp) r) (\<lambda>k. Inr (k, logical_copy_row cp r))) mirror) (\<lambda>index.
     and_then (traverse (row_difference ops vo cp tgt index) rows) (\<lambda>ds. Inr (concat ds))))"

definition keep_differences :: "'v difference list \<Rightarrow> 'v tally \<Rightarrow> 'v tally" where
  "keep_differences ds t =
     (let room = DIFFERENCES_KEPT - length (vt_differences t)
      in t\<lparr>vt_differences := vt_differences t @ take room ds, vt_suppressed := vt_suppressed t + length (drop room ds)\<rparr>)"

record 'v scan =
  sc_after :: "'v list option"
  sc_seen :: nat
  sc_tally :: "'v tally"

definition count_chunk :: "bool \<Rightarrow> 'v row list \<Rightarrow> 'v difference list \<Rightarrow> 'v tally \<Rightarrow> 'v tally" where
  "count_chunk below rows missing t =
     keep_differences missing
       (if below then t\<lparr>vt_chunks_compared := Suc (vt_chunks_compared t),
                        vt_chunks_mismatched := vt_chunks_mismatched t + (if missing = [] then 0 else 1)\<rparr>
        else t\<lparr>vt_tail_rows_read := vt_tail_rows_read t + length rows,
               vt_tail_missing := vt_tail_missing t + length missing\<rparr>)"

text \<open>One turn of the loop: \<open>None\<close> where the source has no more rows.\<close>

definition verify_turn ::
  "('e, 'v) migratable \<Rightarrow> 'v value_ops \<Rightarrow> copy \<Rightarrow> nat \<Rightarrow> 'e \<Rightarrow> 'e \<Rightarrow> int \<Rightarrow> 'v scan \<Rightarrow> migration_error + 'v scan option" where
  "verify_turn ops vo cp chunk_rows src tgt marker st =
     (let below = int (sc_seen st) < marker;
          want = (if below then min chunk_rows (nat (marker - int (sc_seen st))) else chunk_rows)
      in and_then (engine_call (mg_key_range ops src (cp_source_table cp) (cp_key cp) (sc_after st) None (Some want))) (\<lambda>rows.
           if rows = [] then Inr None
           else and_then (row_key (cp_key cp) (last rows)) (\<lambda>high.
                and_then (missing_in_target ops vo cp tgt rows (sc_after st) high) (\<lambda>missing.
                  Inr (Some \<lparr>sc_after = Some high, sc_seen = sc_seen st + length rows,
                             sc_tally = count_chunk below rows missing (sc_tally st)\<rparr>)))))"

partial_function (option) verify_loop ::
  "('e, 'v) migratable \<Rightarrow> 'v value_ops \<Rightarrow> copy \<Rightarrow> nat \<Rightarrow> 'e \<Rightarrow> 'e \<Rightarrow> int \<Rightarrow> 'v scan \<Rightarrow>
     (migration_error + 'v tally) option" where
  "verify_loop ops vo cp chunk_rows src tgt marker st =
     (case verify_turn ops vo cp chunk_rows src tgt marker st of
        Inl e \<Rightarrow> Some (Inl e)
      | Inr None \<Rightarrow> Some (Inr (sc_tally st))
      | Inr (Some st') \<Rightarrow> verify_loop ops vo cp chunk_rows src tgt marker st')"

declare verify_loop.simps [code]

definition verify_one ::
  "('e, 'v) migratable \<Rightarrow> 'v value_ops \<Rightarrow> nat \<Rightarrow> (ustring, 'e) dict \<Rightarrow> copy \<Rightarrow> 'v tally \<Rightarrow> (migration_error + 'v tally) option" where
  "verify_one ops vo chunk_rows engines cp t =
     (case and_then (engine_named engines (cp_source_engine cp)) (\<lambda>src.
           and_then (engine_named engines (cp_target_engine cp)) (\<lambda>tgt.
           and_then (engine_call (mg_marker ops tgt (cp_target_id cp) (cp_entity cp))) (\<lambda>marker.
           and_then (engine_call (mg_count ops src (cp_source_table cp))) (\<lambda>rows_source.
           and_then (engine_call (mg_count ops tgt (cp_target_table cp))) (\<lambda>rows_target.
             Inr (src, tgt, marker, rows_source, rows_target)))))) of
        Inl e \<Rightarrow> Some (Inl e)
      | Inr (src, tgt, marker, rows_source, rows_target) \<Rightarrow>
          verify_loop ops vo cp chunk_rows src tgt marker
            \<lparr>sc_after = None, sc_seen = 0,
             sc_tally = t\<lparr>vt_rows_source := vt_rows_source t + rows_source,
                          vt_rows_target := vt_rows_target t + rows_target\<rparr>\<rparr>)"

fun verify_copies ::
  "('e, 'v) migratable \<Rightarrow> 'v value_ops \<Rightarrow> nat \<Rightarrow> (ustring, 'e) dict \<Rightarrow> copy list \<Rightarrow> 'v tally \<Rightarrow> (migration_error + 'v tally) option" where
  "verify_copies ops vo chunk_rows engines [] t = Some (Inr t)"
| "verify_copies ops vo chunk_rows engines (cp # cps) t =
     verify_one ops vo chunk_rows engines cp t \<bind> (\<lambda>r.
       case r of Inl e \<Rightarrow> Some (Inl e) | Inr t' \<Rightarrow> verify_copies ops vo chunk_rows engines cps t')"

text \<open>What a bound request is checked for before anything is read.\<close>

definition check_request ::
  "logical_model \<Rightarrow> placement_map \<Rightarrow> ustring option \<Rightarrow> ustring \<Rightarrow> ustring option \<Rightarrow> bound_request option \<Rightarrow>
     migration_error + unit" where
  "check_request m pm project_id g given request =
     (case request of
        None \<Rightarrow> Inr ()
      | Some r \<Rightarrow>
          and_then (check_session r pm project_id g) (\<lambda>_.
          and_then (require (mversion m = vr_model_version r) (MigrationRefused ''another session model'')) (\<lambda>_.
            case given of None \<Rightarrow> Inr () | Some t \<Rightarrow> check_time r t)))"

text \<open>\<open>verify\<close>; \<open>now\<close> is what the clock says when the comparison ends, used where no time was given.\<close>

definition verify ::
  "('e, 'v) migratable \<Rightarrow> 'v value_ops \<Rightarrow> logical_model \<Rightarrow> placement_map \<Rightarrow> ustring option \<Rightarrow> (ustring, 'e) dict \<Rightarrow> ustring \<Rightarrow>
     int \<Rightarrow> bound_request option \<Rightarrow> ustring option \<Rightarrow> ustring \<Rightarrow> (migration_error + 'v verify_report) option" where
  "verify ops vo m pm project_id engines g chunk_rows request given now =
     (case and_then (check_request m pm project_id g given request) (\<lambda>_.
           and_then (require (\<not> chunk_rows < 1) (MigrationRefused ''not a chunk'')) (\<lambda>_.
             migration_plan ops m pm engines g)) of
        Inl e \<Rightarrow> Some (Inl e)
      | Inr cps \<Rightarrow>
          verify_copies ops vo (nat chunk_rows) engines cps empty_tally \<bind> (\<lambda>r.
            Some (and_then r (\<lambda>t.
                  let moment = (case given of None \<Rightarrow> now | Some t \<Rightarrow> t)
                  in and_then (case request of None \<Rightarrow> Inr () | Some q \<Rightarrow> check_time q moment) (\<lambda>_.
                       Inr \<lparr>vp_at = moment, vp_group = g, vp_tally = t, vp_request = request\<rparr>)))))"

section \<open>Precision\<close>

definition PRECISE_DIALECTS :: "ustring set" where
  "PRECISE_DIALECTS = {lit ''postgres'', lit ''clickhouse'', lit ''elasticsearch''}"

lemma dialect_precision:
  "map_of DIALECT_PRECISION (t, d) =
     (if t \<in> {lit ''timestamp'', lit ''timestamptz''} \<and> d \<in> PRECISE_DIALECTS then Some 6 else None)"
  by (auto simp: DIALECT_PRECISION_def PRECISE_DIALECTS_def)

lemma precision_of_columns_None:
  "precision_of_columns source target cols = None \<longleftrightarrow>
     (\<forall>(c, t) \<in> set cols. starts_with t (lit ''decimal('') \<or> t \<in> PRECISION_INDEPENDENT \<or>
        t \<in> {lit ''timestamp'', lit ''timestamptz''} \<and> source \<in> PRECISE_DIALECTS \<and> target \<in> PRECISE_DIALECTS)"
proof (induction cols)
  case (Cons ct cols)
  obtain c t where "ct = (c, t)" by (cases ct)
  then show ?case using Cons by (simp add: dialect_precision)
qed simp

text \<open>
  A copy is refused for precision exactly when it has a column whose type is neither a decimal nor
  independent of precision, unless it is a timestamp between two of PostgreSQL, ClickHouse and
  Elasticsearch: those three keep the same six digits, so no copy between them is refused.
\<close>

theorem precision_refusal_exactly:
  "precision_refusal cols source target = None \<longleftrightarrow>
     (\<forall>(c, t) \<in> set cols. starts_with t (lit ''decimal('') \<or> t \<in> PRECISION_INDEPENDENT \<or>
        t \<in> {lit ''timestamp'', lit ''timestamptz''} \<and> source \<in> PRECISE_DIALECTS \<and> target \<in> PRECISE_DIALECTS)"
  by (simp add: precision_refusal_def precision_of_columns_None)

theorem precision_refusal_exactly_witness:
  "precision_refusal [(lit ''at'', lit ''timestamptz''), (lit ''v'', lit ''decimal(9,2)'')] (lit ''postgres'') (lit ''clickhouse'') = None \<and>
   precision_refusal [(lit ''at'', lit ''timestamp'')] (lit ''postgres'') (lit ''orderbook'') \<noteq> None"
  unfolding precision_refusal_exactly by code_simp

end
