(* ===== verification/Backfill.thy ===== *)
theory Backfill
  imports Migration
begin

text \<open>
  What a migration relies on and what it delivers. The locale \<open>keyset_store\<close> states what an engine
  promises: a keyset scan in key order, a copy that absorbs rows it already holds and loses none, a
  marker that only moves up, and calls that may raise having done their work or not. \<open>reliable_store\<close>
  adds that calls return. Both are interpreted on the in-memory engine.
\<close>

section \<open>Scanning in key order\<close>

lemma sorted_split:
  assumes "distinct (map f xs)" "p < length (sort_key f xs)"
  shows "filter (\<lambda>x. f (sort_key f xs ! p) < f x) (sort_key f xs) = drop (Suc p) (sort_key f xs)"
proof -
  let ?ys = "sort_key f xs"
  have "distinct (map f ?ys)" using assms(1) distinct_map_mset [OF mset_sort, of f f xs] by simp
  then have strict: "f (?ys ! i) < f (?ys ! j)" if "i < j" "j < length ?ys" for i j
    using that sorted_nth_mono [of "map f ?ys" i j] nth_eq_iff_index_eq [of "map f ?ys" i j]
    by (simp add: order_le_less)
  have "filter (\<lambda>x. f (?ys ! p) < f x) (take (Suc p) ?ys) = []"
    using strict assms(2) by (auto simp: filter_empty_conv in_set_conv_nth not_less_iff_gr_or_eq)
      (metis less_asym less_irrefl less_SucE)
  moreover have "filter (\<lambda>x. f (?ys ! p) < f x) (drop (Suc p) ?ys) = drop (Suc p) ?ys"
    using strict assms(2) by (auto simp: filter_id_conv in_set_conv_nth)
  ultimately show ?thesis
    by (metis append_Nil append_take_drop_id filter_append)
qed

lemma position_card:
  assumes "distinct (map f xs)" "i < length xs"
  shows "card {y \<in> set xs. f y < f (sort_key f xs ! i)} = i"
proof -
  let ?ys = "sort_key f xs"
  have dist: "distinct (map f ?ys)" using assms(1) distinct_map_mset [OF mset_sort, of f f xs] by simp
  then have strict: "f (?ys ! i) < f (?ys ! j)" if "i < j" "j < length ?ys" for i j
    using that sorted_nth_mono [of "map f ?ys" i j] nth_eq_iff_index_eq [of "map f ?ys" i j]
    by (simp add: order_le_less)
  have "{y \<in> set xs. f y < f (?ys ! i)} = set (take i ?ys)"
  proof -
    have "y \<in> set (take i ?ys) \<longleftrightarrow> y \<in> set xs \<and> f y < f (?ys ! i)" for y
    proof
      assume "y \<in> set (take i ?ys)"
      then obtain j where j: "j < i" "y = ?ys ! j" using assms(2) by (auto simp: in_set_conv_nth)
      then show "y \<in> set xs \<and> f y < f (?ys ! i)" using strict [of j i] assms(2) by (metis length_sort nth_mem less_trans set_sort)
    next
      assume y: "y \<in> set xs \<and> f y < f (?ys ! i)"
      then have "y \<in> set ?ys" by simp
      then obtain j where j: "j < length ?ys" "y = ?ys ! j" unfolding in_set_conv_nth by blast
      then have "j < i" using y strict [of i j] by (metis less_asym less_irrefl linorder_neqE_nat)
      then show "y \<in> set (take i ?ys)" using j by (auto simp: in_set_conv_nth)
    qed
    then show ?thesis by blast
  qed
  moreover have "distinct (take i ?ys)" using dist by (simp add: distinct_map)
  ultimately show ?thesis using assms(2) by (simp add: distinct_card)
qed

section \<open>What an engine promises a migration\<close>

text \<open>A row of the copy holds a row of the source: no column of the source row differs.\<close>

definition covers :: "'v value_ops \<Rightarrow> 'v row \<Rightarrow> 'v row \<Rightarrow> bool" where
  "covers vo p r \<longleftrightarrow> differing_columns vo r p = []"

definition holds_row :: "'v value_ops \<Rightarrow> 'v row list \<Rightarrow> 'v row \<Rightarrow> bool" where
  "holds_row vo rows r \<longleftrightarrow> (\<exists>p \<in> set rows. covers vo p r)"

text \<open>
  A chunk a table can absorb: its rows are themselves comparable, the table has their columns, and a
  row already there under the same key is the same row.
\<close>

definition absorbable :: "'v value_ops \<Rightarrow> ('v row \<Rightarrow> 'k) \<Rightarrow> 'v row list \<Rightarrow> 'v row list \<Rightarrow> bool" where
  "absorbable vo rk existing rows \<longleftrightarrow>
     (\<forall>r \<in> set rows. covers vo r r \<and> (\<forall>p \<in> set existing. set (keys r) \<subseteq> set (keys p) \<and> (rk p = rk r \<longrightarrow> covers vo p r)))"

definition in_window :: "('v list \<Rightarrow> 'k::linorder) \<Rightarrow> 'v list option \<Rightarrow> 'v list option \<Rightarrow> 'k \<Rightarrow> bool" where
  "in_window rank after until k \<longleftrightarrow>
     (case after of None \<Rightarrow> True | Some a \<Rightarrow> rank a < k) \<and> (case until of None \<Rightarrow> True | Some u \<Rightarrow> k \<le> rank u)"

definition limited :: "nat option \<Rightarrow> 'a list \<Rightarrow> 'a list" where
  "limited limit xs = (case limit of None \<Rightarrow> xs | Some n \<Rightarrow> take n xs)"

text \<open>The place of a row in key order.\<close>

definition row_rank :: "'v value_ops \<Rightarrow> ('v list \<Rightarrow> 'k) \<Rightarrow> ustring list \<Rightarrow> 'v row \<Rightarrow> 'k" where
  "row_rank vo rank cols r = rank (row_values (vo_none vo) cols r)"

text \<open>The two tables of a copy and its marker, seen through what the engines hold.\<close>

definition copy_source :: "('e \<Rightarrow> ustring \<Rightarrow> 'v row list) \<Rightarrow> copy \<Rightarrow> (ustring, 'e) dict \<Rightarrow> 'v row list" where
  "copy_source content cp engines = content (the (map_of engines (cp_source_engine cp))) (cp_source_table cp)"

definition copy_target :: "('e \<Rightarrow> ustring \<Rightarrow> 'v row list) \<Rightarrow> copy \<Rightarrow> (ustring, 'e) dict \<Rightarrow> 'v row list" where
  "copy_target content cp engines = content (the (map_of engines (cp_target_engine cp))) (cp_target_table cp)"

definition copy_marker :: "('e, 'v) migratable \<Rightarrow> copy \<Rightarrow> (ustring, 'e) dict \<Rightarrow> string + int" where
  "copy_marker ops cp engines = mg_marker ops (the (map_of engines (cp_target_engine cp))) (cp_target_id cp) (cp_entity cp)"

text \<open>
  What a copy needs of the two tables: the source's keys tell its rows apart and its rows have one set
  of columns, the copy is another table, and it holds nothing else under those keys.
\<close>

definition copy_ready ::
  "'v value_ops \<Rightarrow> ('v list \<Rightarrow> 'k) \<Rightarrow> ('e \<Rightarrow> ustring \<Rightarrow> 'v row list) \<Rightarrow> copy \<Rightarrow> (ustring, 'e) dict \<Rightarrow> bool" where
  "copy_ready vo rank content cp engines \<longleftrightarrow>
     map_of engines (cp_source_engine cp) \<noteq> None \<and> map_of engines (cp_target_engine cp) \<noteq> None \<and>
     cp_key cp \<noteq> [] \<and> EPOCH_COLUMN \<notin> set (cp_key cp) \<and>
     (cp_source_engine cp \<noteq> cp_target_engine cp \<or> cp_source_table cp \<noteq> cp_target_table cp) \<and>
     distinct (map (row_rank vo rank (cp_key cp)) (copy_source content cp engines)) \<and>
     (\<forall>r \<in> set (copy_source content cp engines). \<forall>r' \<in> set (copy_source content cp engines).
        set (keys (payload_row vo cp r)) \<subseteq> set (keys (payload_row vo cp r'))) \<and>
     absorbable vo (row_rank vo rank (cp_key cp)) (copy_target content cp engines)
       (map (payload_row vo cp) (copy_source content cp engines))"

locale keyset_store =
  fixes ops :: "('e, 'v) migratable" and vo :: "'v value_ops" and rank :: "'v list \<Rightarrow> 'k::linorder"
    and content :: "'e \<Rightarrow> ustring \<Rightarrow> 'v row list"
  assumes key_range_law: "mg_key_range ops e t cols after until limit = Inr rows \<Longrightarrow>
      rows = limited limit (filter (\<lambda>r. in_window rank after until (row_rank vo rank cols r))
        (sort_key (row_rank vo rank cols) (content e t)))"
    and nth_key_law: "mg_nth_key ops e t cols n = Inr res \<Longrightarrow> 1 \<le> n \<Longrightarrow>
      res = (if n \<le> int (length (content e t))
             then Some (row_values (vo_none vo) cols
               (sort_key (row_rank vo rank cols) (content e t) ! (nat n - 1))) else None)"
    and copy_in_frame: "mg_copy_in ops e t rows = (err, e') \<Longrightarrow> t' \<noteq> t \<Longrightarrow> content e' t' = content e t'"
    and copy_in_marker: "mg_copy_in ops e t rows = (err, e') \<Longrightarrow> mg_marker ops e' = mg_marker ops e"
    and copy_in_adds: "mg_copy_in ops e t rows = (err, e') \<Longrightarrow> set (content e' t) \<subseteq> set (content e t) \<union> set rows"
    and copy_in_keeps: "mg_copy_in ops e t rows = (err, e') \<Longrightarrow>
      absorbable vo (row_rank vo rank cols) (content e t) rows \<Longrightarrow> holds_row vo (content e t) r \<Longrightarrow>
      r \<in> set rows \<or> row_rank vo rank cols r \<notin> (row_rank vo rank cols) ` set rows \<Longrightarrow>
      holds_row vo (content e' t) r"
    and copy_in_lands: "mg_copy_in ops e t rows = (None, e') \<Longrightarrow>
      absorbable vo (row_rank vo rank cols) (content e t) rows \<Longrightarrow> r \<in> set rows \<Longrightarrow>
      holds_row vo (content e' t) r"
    and record_content: "mg_record_marker ops e i ent n = (err, e') \<Longrightarrow> content e' = content e"
    and recorded: "mg_record_marker ops e i ent n = (None, e') \<Longrightarrow> mg_marker ops e i ent = Inr m \<Longrightarrow> 0 \<le> n \<Longrightarrow>
      mg_marker ops e' i ent = Inr (max m n)"
    and not_recorded: "mg_record_marker ops e i ent n = (Some why, e') \<Longrightarrow> mg_marker ops e i ent = Inr m \<Longrightarrow> 0 \<le> n \<Longrightarrow>
      mg_marker ops e' i ent = Inr m \<or> mg_marker ops e' i ent = Inr (max m n)"
begin

abbreviation rk :: "ustring list \<Rightarrow> 'v row \<Rightarrow> 'k" where
  "rk cols \<equiv> row_rank vo rank cols"

abbreviation source_rows :: "copy \<Rightarrow> (ustring, 'e) dict \<Rightarrow> 'v row list" where
  "source_rows \<equiv> copy_source content"

abbreviation target_rows :: "copy \<Rightarrow> (ustring, 'e) dict \<Rightarrow> 'v row list" where
  "target_rows \<equiv> copy_target content"

abbreviation stored_marker :: "copy \<Rightarrow> (ustring, 'e) dict \<Rightarrow> string + int" where
  "stored_marker \<equiv> copy_marker ops"

abbreviation ready :: "copy \<Rightarrow> (ustring, 'e) dict \<Rightarrow> bool" where
  "ready \<equiv> copy_ready vo rank content"

text \<open>Every row of \<open>S\<close> that comes before the marker in the source is in the copy.\<close>

definition copied_below :: "copy \<Rightarrow> 'v row set \<Rightarrow> int \<Rightarrow> (ustring, 'e) dict \<Rightarrow> bool" where
  "copied_below cp S n engines \<longleftrightarrow>
     (\<forall>r \<in> S \<inter> set (source_rows cp engines).
        int (card {y \<in> set (source_rows cp engines). rk (cp_key cp) y < rk (cp_key cp) r}) < n \<longrightarrow>
        holds_row vo (target_rows cp engines) (payload_row vo cp r))"

lemma row_key_values: "row_key cols r = Inr k \<Longrightarrow> k = row_values (vo_none vo) cols r"
  by (induction cols arbitrary: k)
    (auto simp: row_key_def row_values_def row_get_def and_then_Inr split: option.splits)

lemma row_get_payload: "c \<noteq> EPOCH_COLUMN \<Longrightarrow> row_get absent (payload_row vo cp r) c = row_get absent r c"
proof -
  assume c: "c \<noteq> EPOCH_COLUMN"
  have "map_of (filter (\<lambda>(c, v). c \<noteq> EPOCH_COLUMN) r) c = map_of r c" using c by (simp add: map_of_filter_other)
  then show ?thesis using c by (simp add: row_get_def payload_row_def logical_copy_row_def split: option.split)
qed

lemma rk_payload: "EPOCH_COLUMN \<notin> set cols \<Longrightarrow> rk cols (payload_row vo cp r) = rk cols r"
proof -
  assume "EPOCH_COLUMN \<notin> set cols"
  then have "row_values (vo_none vo) cols (payload_row vo cp r) = row_values (vo_none vo) cols r"
    unfolding row_values_def by (intro map_cong refl) (metis row_get_payload)
  then show ?thesis by (simp add: row_rank_def)
qed

lemma absorbable_subset:
  assumes "absorbable vo k existing rows" "set chunk \<subseteq> set rows"
  shows "absorbable vo k existing chunk"
  using assms unfolding absorbable_def by blast

definition ordered_source :: "copy \<Rightarrow> (ustring, 'e) dict \<Rightarrow> 'v row list" where
  "ordered_source cp engines = sort_key (rk (cp_key cp)) (source_rows cp engines)"

text \<open>A cursor after the first \<open>p\<close> rows of the source, with the marker there.\<close>

definition at_position :: "copy \<Rightarrow> (ustring, 'e) dict \<Rightarrow> 'v list option \<Rightarrow> nat \<Rightarrow> bool" where
  "at_position cp engines after p \<longleftrightarrow>
     p \<le> length (source_rows cp engines) \<and>
     (case after of None \<Rightarrow> p = 0 | Some a \<Rightarrow> 0 < p \<and> rank a = rk (cp_key cp) (ordered_source cp engines ! (p - 1)))"

lemma scan_rows:
  assumes "distinct (map (rk (cp_key cp)) (source_rows cp engines))" "at_position cp engines after p"
    and "mg_key_range ops (the (map_of engines (cp_source_engine cp))) (cp_source_table cp) (cp_key cp) after None (Some n) = Inr rows"
  shows "rows = take n (drop p (ordered_source cp engines))"
proof -
  let ?R = "ordered_source cp engines"
  have "filter (\<lambda>r. in_window rank after None (rk (cp_key cp) r)) ?R = drop p ?R"
  proof (cases after)
    case None
    then show ?thesis using assms(2) by (simp add: at_position_def in_window_def)
  next
    case (Some a)
    then obtain q where q: "p = Suc q" "q < length (source_rows cp engines)" "rank a = rk (cp_key cp) (?R ! q)"
      using assms(2) by (cases p) (auto simp: at_position_def)
    from sorted_split [OF assms(1), of q] q Some show ?thesis
      by (simp add: in_window_def ordered_source_def)
  qed
  then show ?thesis
    using key_range_law [OF assms(3)]
    by (simp add: limited_def copy_source_def [symmetric] ordered_source_def)
qed

lemma scan_from:
  assumes "ready cp engines" "at_position cp engines after p"
    and "mg_key_range ops (the (map_of engines (cp_source_engine cp))) (cp_source_table cp) (cp_key cp) after None (Some n) = Inr rows"
  shows "rows = take n (drop p (ordered_source cp engines))"
  using scan_rows [OF _ assms(2,3)] assms(1) by (simp add: copy_ready_def)

lemma position_after:
  assumes "at_position cp engines after p" "rows = take n (drop p (ordered_source cp engines))" "rows \<noteq> []"
    and "row_key (cp_key cp) (last rows) = Inr k"
  shows "at_position cp engines (Some k) (p + length rows)"
proof -
  let ?R = "ordered_source cp engines"
  have len: "length ?R = length (source_rows cp engines)" by (simp add: ordered_source_def)
  have "rows ! i = ?R ! (p + i)" if "i < length rows" for i
  proof -
    have "p \<le> length ?R" using that assms(2) by auto
    then show ?thesis using that assms(2) by simp
  qed
  moreover have "p + length rows - 1 = p + (length rows - 1)" using assms(3) by (cases rows) auto
  ultimately have "last rows = ?R ! (p + length rows - 1)" using assms(3) by (simp add: last_conv_nth)
  moreover have "p + length rows \<le> length ?R" using assms(2,3) by (auto simp: not_le)
  ultimately show ?thesis
    using row_key_values [OF assms(4)] assms(3) len by (simp add: at_position_def row_rank_def)
qed

text \<open>Writing a chunk into the copy leaves the source and the markers alone and loses no row.\<close>

lemma copied_chunk:
  assumes ready: "ready cp engines" and chunk: "set rows \<subseteq> set (source_rows cp engines)"
    and run: "mg_copy_in ops (the (map_of engines (cp_target_engine cp))) (cp_target_table cp) (map (payload_row vo cp) rows) = (err, tgt')"
    and es': "engines' = AList.update (cp_target_engine cp) tgt' engines"
  shows "source_rows cp engines' = source_rows cp engines \<and> stored_marker cp engines' = stored_marker cp engines \<and>
    ready cp engines' \<and>
    (\<forall>r \<in> set (source_rows cp engines). holds_row vo (target_rows cp engines) (payload_row vo cp r) \<longrightarrow>
       holds_row vo (target_rows cp engines') (payload_row vo cp r)) \<and>
    (err = None \<longrightarrow> (\<forall>r \<in> set rows. holds_row vo (target_rows cp engines') (payload_row vo cp r)))"
proof -
  let ?tgt = "the (map_of engines (cp_target_engine cp))" and ?rk = "rk (cp_key cp)" and ?pay = "payload_row vo cp"
  note rdy = ready [unfolded copy_ready_def]
  have src: "source_rows cp engines' = source_rows cp engines"
    using copy_in_frame [OF run] rdy by (auto simp: copy_source_def es')
  have tgt: "target_rows cp engines' = content tgt' (cp_target_table cp)" "target_rows cp engines = content ?tgt (cp_target_table cp)"
    by (simp_all add: copy_target_def es')
  have all: "absorbable vo ?rk (target_rows cp engines) (map ?pay (source_rows cp engines))" using rdy by blast
  have "set (map ?pay rows) \<subseteq> set (map ?pay (source_rows cp engines))" using chunk by auto
  from absorbable_subset [OF all this] have fits: "absorbable vo ?rk (target_rows cp engines) (map ?pay rows)" .
  have rkp: "?rk (?pay r) = ?rk r" for r using rk_payload rdy by blast
  have inj: "r = r'" if "r \<in> set (source_rows cp engines)" "r' \<in> set (source_rows cp engines)" "?rk r = ?rk r'" for r r'
    using that rdy by (auto simp: distinct_map inj_on_def)
  have new: "set (target_rows cp engines') \<subseteq> set (target_rows cp engines) \<union> ?pay ` set rows"
    using copy_in_adds [OF run] by (simp add: tgt)
  have "absorbable vo ?rk (target_rows cp engines') (map ?pay (source_rows cp engines))"
    unfolding absorbable_def
  proof (intro ballI conjI)
    fix x assume "x \<in> set (map ?pay (source_rows cp engines))"
    then obtain r where r: "r \<in> set (source_rows cp engines)" "x = ?pay r" by auto
    show self: "covers vo x x" using rdy r by (auto simp: absorbable_def)
    fix p assume p: "p \<in> set (target_rows cp engines')"
    have "set (keys x) \<subseteq> set (keys p) \<and> (?rk p = ?rk x \<longrightarrow> covers vo p x)"
    proof (cases "p \<in> set (target_rows cp engines)")
      case True
      then show ?thesis using rdy r unfolding absorbable_def by simp
    next
      case False
      then obtain r' where r': "r' \<in> set (source_rows cp engines)" "p = ?pay r'" using new p chunk by auto
      have "set (keys x) \<subseteq> set (keys p)" using rdy r r' by blast
      moreover have "covers vo p x" if "?rk p = ?rk x"
        using that inj [OF r(1) r'(1)] r r' self by (simp add: rkp)
      ultimately show ?thesis by blast
    qed
    then show "set (keys x) \<subseteq> set (keys p)" "?rk p = ?rk x \<longrightarrow> covers vo p x" by blast+
  qed
  then have "ready cp engines'" using rdy src unfolding copy_ready_def by (auto simp: es')
  moreover have "holds_row vo (target_rows cp engines') (?pay r)"
    if r: "r \<in> set (source_rows cp engines)" "holds_row vo (target_rows cp engines) (?pay r)" for r
  proof -
    have "?pay r \<in> set (map ?pay rows) \<or> ?rk (?pay r) \<notin> ?rk ` set (map ?pay rows)"
      using inj [OF r(1)] chunk by (auto simp: rkp)
    then show ?thesis
      using copy_in_keeps [OF run, of "cp_key cp" "?pay r"] fits r(2) unfolding tgt by blast
  qed
  moreover have "holds_row vo (target_rows cp engines') (?pay r)" if "err = None" "r \<in> set rows" for r
    using copy_in_lands [of ?tgt "cp_target_table cp" "map ?pay rows" tgt' "cp_key cp" "?pay r"] run fits that
    unfolding tgt by simp
  moreover have "stored_marker cp engines' = stored_marker cp engines"
    using copy_in_marker [OF run] by (simp add: copy_marker_def es')
  ultimately show ?thesis using src by blast
qed

lemma recorded_chunk:
  assumes ready: "ready cp engines"
    and run: "mg_record_marker ops (the (map_of engines (cp_target_engine cp))) (cp_target_id cp) (cp_entity cp) n = (err, tgt')"
    and es': "engines' = AList.update (cp_target_engine cp) tgt' engines" and m: "stored_marker cp engines = Inr m"
    and n: "0 \<le> n"
  shows "source_rows cp engines' = source_rows cp engines \<and> target_rows cp engines' = target_rows cp engines \<and> ready cp engines' \<and>
    (stored_marker cp engines' = Inr (max m n) \<or> (err \<noteq> None \<and> stored_marker cp engines' = Inr m))"
proof -
  have c: "content tgt' = content (the (map_of engines (cp_target_engine cp)))" by (rule record_content [OF run])
  have same: "source_rows cp engines' = source_rows cp engines" "target_rows cp engines' = target_rows cp engines"
    using c by (auto simp: copy_source_def copy_target_def es')
  then have "ready cp engines'" using ready unfolding copy_ready_def by (auto simp: es')
  moreover have "stored_marker cp engines' = Inr (max m n) \<or> (err \<noteq> None \<and> stored_marker cp engines' = Inr m)"
  proof (cases err)
    case None
    then show ?thesis using recorded [OF run [unfolded None] m [unfolded copy_marker_def] n] by (simp add: copy_marker_def es')
  next
    case (Some why)
    then show ?thesis
      using not_recorded [OF run [unfolded Some] m [unfolded copy_marker_def] n] by (auto simp: copy_marker_def es')
  qed
  ultimately show ?thesis using same by blast
qed

lemma copied_below_position:
  assumes "ready cp engines" "p \<le> length (source_rows cp engines)"
  shows "copied_below cp S (int p) engines \<longleftrightarrow>
    (\<forall>i < p. ordered_source cp engines ! i \<in> S \<longrightarrow>
       holds_row vo (target_rows cp engines) (payload_row vo cp (ordered_source cp engines ! i)))"
proof -
  let ?R = "ordered_source cp engines" and ?rk = "rk (cp_key cp)"
  have dist: "distinct (map ?rk (source_rows cp engines))" using assms(1) by (simp add: copy_ready_def)
  have card: "card {y \<in> set (source_rows cp engines). ?rk y < ?rk (?R ! i)} = i" if "i < length ?R" for i
    using position_card [OF dist, of i] that by (simp add: ordered_source_def)
  have set: "set ?R = set (source_rows cp engines)" and len: "length ?R = length (source_rows cp engines)"
    by (simp_all add: ordered_source_def)
  show ?thesis
  proof
    assume below: "copied_below cp S (int p) engines"
    show "\<forall>i < p. ?R ! i \<in> S \<longrightarrow> holds_row vo (target_rows cp engines) (payload_row vo cp (?R ! i))"
    proof (intro allI impI)
      fix i assume i: "i < p" "?R ! i \<in> S"
      then have "?R ! i \<in> set (source_rows cp engines)" "i < length ?R" using assms(2) len set by (metis less_le_trans nth_mem)+
      then show "holds_row vo (target_rows cp engines) (payload_row vo cp (?R ! i))"
        using below i card [of i] unfolding copied_below_def by auto
    qed
  next
    assume all: "\<forall>i < p. ?R ! i \<in> S \<longrightarrow> holds_row vo (target_rows cp engines) (payload_row vo cp (?R ! i))"
    show "copied_below cp S (int p) engines"
      unfolding copied_below_def
    proof (intro ballI impI)
      fix r assume r: "r \<in> S \<inter> set (source_rows cp engines)"
        and c: "int (card {y \<in> set (source_rows cp engines). ?rk y < ?rk r}) < int p"
      obtain i where i: "i < length ?R" "?R ! i = r" using r set by (metis Int_iff in_set_conv_nth)
      then show "holds_row vo (target_rows cp engines) (payload_row vo cp r)"
        using all r c card [of i] by auto
    qed
  qed
qed

text \<open>What a chunk written into the copy adds to the rows already there.\<close>

lemma copied_below_chunk:
  assumes ready: "ready cp engines" and p: "p \<le> length (source_rows cp engines)" and below: "copied_below cp S (int p) engines"
    and rows: "rows = take n (drop p (ordered_source cp engines))"
    and put: "mg_copy_in ops (the (map_of engines (cp_target_engine cp))) (cp_target_table cp) (map (payload_row vo cp) rows) = (err, tgt')"
    and es': "engines' = AList.update (cp_target_engine cp) tgt' engines"
  shows "copied_below cp S (int p) engines' \<and> (err = None \<longrightarrow> copied_below cp S (int (p + length rows)) engines')"
proof -
  let ?R = "ordered_source cp engines"
  have len: "length ?R = length (source_rows cp engines)" and set: "set ?R = set (source_rows cp engines)"
    by (simp_all add: ordered_source_def)
  have chunk: "set rows \<subseteq> set (source_rows cp engines)"
    using rows set by (metis set_drop_subset set_take_subset subset_trans)
  note step = copied_chunk [OF ready chunk put es']
  have R: "ordered_source cp engines' = ?R" using step by (simp add: ordered_source_def)
  have p': "p + length rows \<le> length (source_rows cp engines)" using rows p len by auto
  have before: "copied_below cp S (int p) engines'"
    using below step p unfolding copied_below_position [OF ready p]
    by (subst copied_below_position) (auto simp: R set [symmetric] len [symmetric])
  have "copied_below cp S (int (p + length rows)) engines'" if "err = None"
  proof -
    have "holds_row vo (target_rows cp engines') (payload_row vo cp (?R ! i))" if i: "i < p + length rows" "?R ! i \<in> S" for i
    proof (cases "i < p")
      case True
      then show ?thesis using before i step p by (subst (asm) copied_below_position) (auto simp: R)
    next
      case False
      have "?R ! i = rows ! (i - p)" using rows False i p len by simp
      then have "?R ! i \<in> set rows" using False i by simp
      then show ?thesis using step \<open>err = None\<close> by blast
    qed
    then show ?thesis using step p' by (subst copied_below_position) (auto simp: R)
  qed
  then show ?thesis using before by blast
qed

text \<open>
  What a turn leaves behind, from a cursor at position \<open>p\<close> with everything before it copied: a marker
  that has not moved back, everything before it copied, and a cursor that has moved unless the turn
  was the last.
\<close>

definition turn_ok :: "copy \<Rightarrow> 'v row set \<Rightarrow> (ustring, 'e) dict \<Rightarrow> nat \<Rightarrow> turn \<Rightarrow> 'v cursor \<Rightarrow> (ustring, 'e) dict \<Rightarrow> bool" where
  "turn_ok cp S engines p t c' engines' \<longleftrightarrow>
     (\<exists>p'. p \<le> p' \<and> p' \<le> length (source_rows cp engines) \<and> source_rows cp engines' = source_rows cp engines \<and>
        ready cp engines' \<and> stored_marker cp engines' = Inr (int p') \<and> copied_below cp S (int p') engines' \<and>
        (case t of
           Again \<Rightarrow> p < p' \<and> at_position cp engines' (cu_after c') p' \<and> cu_marker c' = int p'
         | Finished \<Rightarrow> p' = length (source_rows cp engines) \<and> cu_marker c' = int p'
         | Failed e \<Rightarrow> True))"

lemma turn_ok_chunk:
  assumes ready: "ready cp engines" and pos: "at_position cp engines (cu_after c) p" "cu_marker c = int p"
    and m: "stored_marker cp engines = Inr (int p)" and below: "copied_below cp S (int p) engines"
    and run: "backfill_turn ops vo cp n c engines = (t, c', engines')"
    and scan: "mg_key_range ops (the (map_of engines (cp_source_engine cp))) (cp_source_table cp) (cp_key cp) (cu_after c) None (Some n) = Inr rows"
    and ne: "rows \<noteq> []" and held: "held_by_target ops vo cp (the (map_of engines (cp_target_engine cp))) rows"
  shows "turn_ok cp S engines p t c' engines'"
proof -
  let ?src = "the (map_of engines (cp_source_engine cp))" and ?tgt = "the (map_of engines (cp_target_engine cp))"
  let ?p' = "p + length rows"
  have p: "p \<le> length (source_rows cp engines)" using pos(1) by (simp add: at_position_def)
  have named: "engine_named engines (cp_source_engine cp) = Inr ?src" "engine_named engines (cp_target_engine cp) = Inr ?tgt"
    using ready by (auto simp: copy_ready_def engine_named_def)
  have rows: "rows = take n (drop p (ordered_source cp engines))" by (rule scan_from [OF ready pos(1) scan])
  then have chunk: "set rows \<subseteq> set (source_rows cp engines)"
    by (metis ordered_source_def set_drop_subset set_sort set_take_subset subset_trans)
  have len: "?p' \<le> length (source_rows cp engines)" "length rows < n \<Longrightarrow> ?p' = length (source_rows cp engines)"
    using rows p by (auto simp: ordered_source_def)
  obtain err tgt' where put: "mg_copy_in ops ?tgt (cp_target_table cp) (map (payload_row vo cp) rows) = (err, tgt')"
    by (cases "mg_copy_in ops ?tgt (cp_target_table cp) (map (payload_row vo cp) rows)")
  let ?es1 = "AList.update (cp_target_engine cp) tgt' engines"
  note step1 = copied_chunk [OF ready chunk put refl] and below1 = copied_below_chunk [OF ready p below rows put refl]
  show ?thesis
  proof (cases err)
    case (Some why)
    then have "t = Failed (EngineError why)" "engines' = ?es1"
      using ne held scan run named put by (simp_all add: backfill_turn_def)
    then show ?thesis using step1 below1 m p by (auto simp: turn_ok_def)
  next
    case None
    obtain err2 tgt2 where rec: "mg_record_marker ops tgt' (cp_target_id cp) (cp_entity cp) (int ?p') = (err2, tgt2)"
      by (cases "mg_record_marker ops tgt' (cp_target_id cp) (cp_entity cp) (int ?p')")
    let ?es2 = "AList.update (cp_target_engine cp) tgt2 ?es1"
    have es2: "?es2 = AList.update (cp_target_engine cp) tgt2 engines" by (induction engines) auto
    have before: "stored_marker cp ?es1 = Inr (int p)" "ready cp ?es1"
      "mg_record_marker ops (the (map_of ?es1 (cp_target_engine cp))) (cp_target_id cp) (cp_entity cp) (int ?p') = (err2, tgt2)"
      using step1 m rec by simp_all
    note step2 = recorded_chunk [OF before(2,3) refl before(1) of_nat_0_le_iff]
    have same: "source_rows cp ?es2 = source_rows cp engines" "ready cp ?es2"
      "copied_below cp S q ?es2 \<longleftrightarrow> copied_below cp S q ?es1" for q
      using step1 step2 by (auto simp: copied_below_def)
    have marker: "stored_marker cp ?es2 = Inr (int ?p') \<or> (err2 \<noteq> None \<and> stored_marker cp ?es2 = Inr (int p))"
      using step2 by (auto simp: max_def)
    have result: "engines' = ?es2"
      "t = Again \<longrightarrow> err2 = None \<and> cu_marker c' = int ?p' \<and> row_key (cp_key cp) (last rows) = Inr (the (cu_after c')) \<and> cu_after c' \<noteq> None"
      "t = Finished \<longrightarrow> err2 = None \<and> length rows < n \<and> cu_marker c' = int ?p'"
      using run named scan ne held put None rec pos(2)
      by (auto simp: backfill_turn_def Let_def es2 split: option.splits sum.splits if_splits)
    show ?thesis
    proof (cases "stored_marker cp ?es2 = Inr (int ?p')")
      case True
      have "at_position cp ?es2 (cu_after c') ?p'" if "t = Again"
        using position_after [OF pos(1) rows ne] result(2) that same(1)
        by (cases "cu_after c'") (auto simp: at_position_def ordered_source_def)
      then show ?thesis
        using True result same len below1 None ne unfolding turn_ok_def by (intro exI [of _ ?p']) (cases t; simp)
    next
      case False
      then have "stored_marker cp ?es2 = Inr (int p)" "t \<noteq> Again" "t \<noteq> Finished" using marker result by auto
      then show ?thesis
        using result(1) same p below1 unfolding turn_ok_def by (intro exI [of _ p]) (cases t; simp)
    qed
  qed
qed

lemma backfill_turn_step:
  assumes ready: "ready cp engines" and pos: "at_position cp engines (cu_after c) p" "cu_marker c = int p"
    and m: "stored_marker cp engines = Inr (int p)" and below: "copied_below cp S (int p) engines"
    and run: "backfill_turn ops vo cp n c engines = (t, c', engines')" and n: "0 < n"
  shows "turn_ok cp S engines p t c' engines'"
proof -
  let ?src = "the (map_of engines (cp_source_engine cp))" and ?tgt = "the (map_of engines (cp_target_engine cp))"
  have p: "p \<le> length (source_rows cp engines)" using pos(1) by (simp add: at_position_def)
  have named: "engine_named engines (cp_source_engine cp) = Inr ?src" "engine_named engines (cp_target_engine cp) = Inr ?tgt"
    using ready by (auto simp: copy_ready_def engine_named_def)
  have stay: "turn_ok cp S engines p t c' engines'" if "engines' = engines" "\<exists>e. t = Failed e"
    using that p ready m below by (auto simp: turn_ok_def)
  show ?thesis
  proof (cases "mg_key_range ops ?src (cp_source_table cp) (cp_key cp) (cu_after c) None (Some n)")
    case (Inl err)
    then show ?thesis using run named by (intro stay) (auto simp: backfill_turn_def)
  next
    case (Inr rows)
    have rows: "rows = take n (drop p (ordered_source cp engines))" by (rule scan_from [OF ready pos(1) Inr])
    consider "rows = []" | "rows \<noteq> []" "\<not> held_by_target ops vo cp ?tgt rows" | "rows \<noteq> []" "held_by_target ops vo cp ?tgt rows"
      by blast
    then show ?thesis
    proof cases
      case 1
      then have "p = length (source_rows cp engines)" using rows n p by (auto simp: ordered_source_def)
      moreover have "t = Finished" "c' = c" "engines' = engines" using 1 Inr run named by (simp_all add: backfill_turn_def)
      ultimately show ?thesis using p ready m below pos(2) by (auto simp: turn_ok_def)
    next
      case 2
      then show ?thesis using Inr run named by (intro stay) (auto simp: backfill_turn_def)
    next
      case 3
      then show ?thesis by (intro turn_ok_chunk [OF ready pos m below run Inr])
    qed
  qed
qed

text \<open>The loop ends, and however it ends everything before the marker it leaves is copied.\<close>

lemma backfill_loop_step:
  assumes "ready cp engines" "at_position cp engines (cu_after c) p" "cu_marker c = int p"
    and "stored_marker cp engines = Inr (int p)" "copied_below cp S (int p) engines" "0 < n"
  shows "\<exists>r c' engines' p'. backfill_loop ops vo cp n stop_after c engines = Some (r, c', engines') \<and>
    p \<le> p' \<and> p' \<le> length (source_rows cp engines) \<and> source_rows cp engines' = source_rows cp engines \<and>
    ready cp engines' \<and> stored_marker cp engines' = Inr (int p') \<and> copied_below cp S (int p') engines' \<and>
    (r = Inr True \<longrightarrow> p' = length (source_rows cp engines)) \<and> ((\<exists>b. r = Inr b) \<longrightarrow> cu_marker c' = int p')"
  using assms
proof (induction "length (source_rows cp engines) - p" arbitrary: p c engines rule: less_induct)
  case less
  show ?case
  proof (cases "case stop_after of None \<Rightarrow> False | Some n \<Rightarrow> \<not> int (cu_chunks c) < n")
    case True
    then have "backfill_loop ops vo cp n stop_after c engines = Some (Inr False, c, engines)"
      by (subst backfill_loop.simps) simp
    then show ?thesis using less.prems by (auto simp: at_position_def)
  next
    case False
    obtain t c' es' where run: "backfill_turn ops vo cp n c engines = (t, c', es')"
      by (cases "backfill_turn ops vo cp n c engines") auto
    obtain p' where p': "p \<le> p'" "p' \<le> length (source_rows cp engines)" "source_rows cp es' = source_rows cp engines"
      "ready cp es'" "stored_marker cp es' = Inr (int p')" "copied_below cp S (int p') es'"
      "case t of Again \<Rightarrow> p < p' \<and> at_position cp es' (cu_after c') p' \<and> cu_marker c' = int p'
       | Finished \<Rightarrow> p' = length (source_rows cp engines) \<and> cu_marker c' = int p' | Failed e \<Rightarrow> True"
      using backfill_turn_step [OF less.prems(1-5) run less.prems(6)] unfolding turn_ok_def by blast
    show ?thesis
    proof (cases t)
      case Again
      then have loop: "backfill_loop ops vo cp n stop_after c engines = backfill_loop ops vo cp n stop_after c' es'"
        using False run by (subst backfill_loop.simps) simp
      have "length (source_rows cp es') - p' < length (source_rows cp engines) - p" using Again p' by auto
      from less.hyps [OF this, of c'] show ?thesis
        unfolding loop using Again p' less.prems(6) by fastforce
    next
      case Finished
      then have "backfill_loop ops vo cp n stop_after c engines = Some (Inr True, c', es')"
        using False run by (subst backfill_loop.simps) simp
      then show ?thesis using Finished p' by auto
    next
      case (Failed e)
      then have "backfill_loop ops vo cp n stop_after c engines = Some (Inl e, c', es')"
        using False run by (subst backfill_loop.simps) simp
      then show ?thesis using p' by auto
    qed
  qed
qed

lemma resume_position:
  assumes "ready cp engines" "0 \<le> m"
    and "resume_point ops cp (the (map_of engines (cp_source_engine cp))) m = Inr after"
  shows "at_position cp engines after (nat m)"
proof (cases "m = 0")
  case True
  then show ?thesis using assms(3) by (simp add: resume_point_def at_position_def)
next
  case False
  then obtain k where k: "mg_nth_key ops (the (map_of engines (cp_source_engine cp))) (cp_source_table cp) (cp_key cp) m = Inr (Some k)"
    "after = Some k"
    using assms(2,3) by (auto simp: resume_point_def engine_call_def and_then_Inr split: sum.splits option.splits)
  have "1 \<le> m" using False assms(2) by simp
  from nth_key_law [OF k(1) this] have "m \<le> int (length (source_rows cp engines))"
    "k = row_values (vo_none vo) (cp_key cp) (ordered_source cp engines ! (nat m - 1))"
    by (auto simp: copy_source_def ordered_source_def split: if_splits)
  then show ?thesis using k(2) False assms(2) by (simp add: at_position_def row_rank_def)
qed

text \<open>One call, whatever becomes of it.\<close>

lemma backfill_one_step:
  assumes "ready cp engines" "stored_marker cp engines = Inr m" "0 \<le> m" "copied_below cp S m engines" "0 < n"
  shows "\<exists>r engines' m'. backfill_one ops vo cp n stop_after engines = Some (r, engines') \<and>
    source_rows cp engines' = source_rows cp engines \<and> ready cp engines' \<and> stored_marker cp engines' = Inr m' \<and> m \<le> m' \<and>
    copied_below cp S m' engines' \<and>
    (\<forall>pr. r = Inr pr \<longrightarrow> ep_rows_copied pr = m' \<and> (ep_complete pr \<longrightarrow> m' = int (length (source_rows cp engines))))"
proof -
  let ?src = "the (map_of engines (cp_source_engine cp))" and ?tgt = "the (map_of engines (cp_target_engine cp))"
  have named: "engine_named engines (cp_source_engine cp) = Inr ?src" "engine_named engines (cp_target_engine cp) = Inr ?tgt"
    using assms(1) by (auto simp: copy_ready_def engine_named_def)
  have mk: "engine_call (mg_marker ops ?tgt (cp_target_id cp) (cp_entity cp)) = Inr m"
    using assms(2) by (simp add: copy_marker_def engine_call_def)
  show ?thesis
  proof (cases "resume_point ops cp ?src m")
    case (Inl e)
    then have "backfill_one ops vo cp n stop_after engines = Some (Inl e, engines)"
      using named mk by (simp add: backfill_one_def)
    then show ?thesis using assms by auto
  next
    case (Inr after)
    let ?c = "\<lparr>cu_after = after, cu_marker = m, cu_rows = 0, cu_chunks = 0\<rparr>"
    have start: "at_position cp engines (cu_after ?c) (nat m)" "cu_marker ?c = int (nat m)"
      "stored_marker cp engines = Inr (int (nat m))" "copied_below cp S (int (nat m)) engines"
      using resume_position [OF assms(1,3) Inr] assms by simp_all
    obtain r c' es' p' where loop: "backfill_loop ops vo cp n stop_after ?c engines = Some (r, c', es')"
      and p': "nat m \<le> p'" "source_rows cp es' = source_rows cp engines" "ready cp es'" "stored_marker cp es' = Inr (int p')"
        "copied_below cp S (int p') es'" "r = Inr True \<longrightarrow> p' = length (source_rows cp engines)"
        "(\<exists>b. r = Inr b) \<longrightarrow> cu_marker c' = int p'"
      using backfill_loop_step [OF assms(1) start assms(5), of stop_after] by blast
    have "backfill_one ops vo cp n stop_after engines =
        Some (and_then r (\<lambda>complete. Inr \<lparr>ep_entity = cp_entity cp, ep_engine = cp_target_engine cp, ep_table = cp_target_table cp,
          ep_rows_copied = cu_marker c', ep_rows_this_run = cu_rows c', ep_chunks = cu_chunks c', ep_complete = complete\<rparr>), es')"
      using named mk Inr loop by (simp add: backfill_one_def)
    then show ?thesis using p' assms(3) by (cases r) (auto simp: nat_le_iff)
  qed
qed

lemma complete_covers:
  assumes "ready cp engines" "copied_below cp S (int (length (source_rows cp engines))) engines" "S \<subseteq> set (source_rows cp engines)"
    and "r \<in> S"
  shows "holds_row vo (target_rows cp engines) (payload_row vo cp r)"
proof -
  have "r \<in> set (source_rows cp engines)" using assms(3,4) by blast
  then have "card {y \<in> set (source_rows cp engines). rk (cp_key cp) y < rk (cp_key cp) r} < card (set (source_rows cp engines))"
    by (intro psubset_card_mono) auto
  also have "\<dots> \<le> length (source_rows cp engines)" by (rule card_length)
  finally show ?thesis using assms(2,3,4) unfolding copied_below_def by auto
qed

end

section \<open>A migration while the application writes\<close>

text \<open>
  What the application may do between two calls: it inserts rows into the source, which stays a table
  whose keys tell rows apart, and its fan-out writes to the copy, where no copied row of \<open>S\<close> is lost.
  The marker is the library's own.
\<close>

definition live_writes ::
  "('e, 'v) migratable \<Rightarrow> 'v value_ops \<Rightarrow> ('v list \<Rightarrow> 'k) \<Rightarrow> ('e \<Rightarrow> ustring \<Rightarrow> 'v row list) \<Rightarrow> copy \<Rightarrow> 'v row set \<Rightarrow>
     (ustring, 'e) dict \<Rightarrow> (ustring, 'e) dict \<Rightarrow> bool" where
  "live_writes ops vo rank content cp S engines engines' \<longleftrightarrow>
     set (copy_source content cp engines) \<subseteq> set (copy_source content cp engines') \<and>
     copy_ready vo rank content cp engines' \<and> copy_marker ops cp engines' = copy_marker ops cp engines \<and>
     (\<forall>r \<in> S. holds_row vo (copy_target content cp engines) (payload_row vo cp r) \<longrightarrow>
        holds_row vo (copy_target content cp engines') (payload_row vo cp r))"

text \<open>Calls of \<open>backfill\<close>, finished, stopped, failed or interrupted, with writes in between.\<close>

inductive copying ::
  "('e, 'v) migratable \<Rightarrow> 'v value_ops \<Rightarrow> ('v list \<Rightarrow> 'k) \<Rightarrow> ('e \<Rightarrow> ustring \<Rightarrow> 'v row list) \<Rightarrow> copy \<Rightarrow> 'v row set \<Rightarrow>
     (ustring, 'e) dict \<Rightarrow> (ustring, 'e) dict \<Rightarrow> bool"
  for ops vo rank content cp S engines
where
  begun: "copying ops vo rank content cp S engines engines"
| call: "copying ops vo rank content cp S engines engines1 \<Longrightarrow> 0 < n \<Longrightarrow>
    backfill_one ops vo cp n stop_after engines1 = Some (r, engines2) \<Longrightarrow> copying ops vo rank content cp S engines engines2"
| writes: "copying ops vo rank content cp S engines engines1 \<Longrightarrow>
    live_writes ops vo rank content cp S engines1 engines2 \<Longrightarrow> copying ops vo rank content cp S engines engines2"

context keyset_store
begin

definition under_way :: "copy \<Rightarrow> 'v row set \<Rightarrow> (ustring, 'e) dict \<Rightarrow> bool" where
  "under_way cp S engines \<longleftrightarrow>
     ready cp engines \<and> S \<subseteq> set (source_rows cp engines) \<and>
     (\<exists>m \<ge> 0. stored_marker cp engines = Inr m \<and> copied_below cp S m engines)"

lemma under_way_call:
  assumes "under_way cp S engines" "0 < n" "backfill_one ops vo cp n stop_after engines = Some (r, engines')"
  shows "under_way cp S engines'"
proof -
  obtain m where m: "ready cp engines" "S \<subseteq> set (source_rows cp engines)" "0 \<le> m" "stored_marker cp engines = Inr m"
    "copied_below cp S m engines"
    using assms(1) by (auto simp: under_way_def)
  obtain m' where "source_rows cp engines' = source_rows cp engines" "ready cp engines'" "stored_marker cp engines' = Inr m'"
    "m \<le> m'" "copied_below cp S m' engines'"
    using backfill_one_step [OF m(1,4,3,5) assms(2), of stop_after] assms(3) by auto
  then show ?thesis using m(2,3) unfolding under_way_def by (metis order_trans)
qed

lemma under_way_writes:
  assumes "under_way cp S engines" "live_writes ops vo rank content cp S engines engines'"
  shows "under_way cp S engines'"
proof -
  obtain m where m: "S \<subseteq> set (source_rows cp engines)" "0 \<le> m" "stored_marker cp engines = Inr m" "copied_below cp S m engines"
    using assms(1) by (auto simp: under_way_def)
  note w = assms(2) [unfolded live_writes_def]
  have "copied_below cp S m engines'"
    unfolding copied_below_def
  proof (intro ballI impI)
    fix r assume r: "r \<in> S \<inter> set (source_rows cp engines')"
      and c: "int (card {y \<in> set (source_rows cp engines'). rk (cp_key cp) y < rk (cp_key cp) r}) < m"
    have "card {y \<in> set (source_rows cp engines). rk (cp_key cp) y < rk (cp_key cp) r} \<le>
        card {y \<in> set (source_rows cp engines'). rk (cp_key cp) y < rk (cp_key cp) r}"
      by (rule card_mono) (use w in auto)
    then have "holds_row vo (target_rows cp engines) (payload_row vo cp r)"
      using m(1,4) r c unfolding copied_below_def by force
    then show "holds_row vo (target_rows cp engines') (payload_row vo cp r)" using w r by blast
  qed
  then show ?thesis using m w unfolding under_way_def by auto
qed

lemma copying_under_way:
  assumes "copying ops vo rank content cp S engines engines'" "under_way cp S engines"
  shows "under_way cp S engines'"
  using assms by (induction rule: copying.induct) (auto intro: under_way_call under_way_writes)

lemma copying_complete:
  assumes "ready cp engines" "stored_marker cp engines = Inr 0" "S \<subseteq> set (source_rows cp engines)"
    and "copying ops vo rank content cp S engines engines1" "0 < n"
    and "backfill_one ops vo cp n stop_after engines1 = Some (Inr pr, engines2)" "ep_complete pr" "r \<in> S"
  shows "holds_row vo (target_rows cp engines2) (payload_row vo cp r)"
proof -
  have "copied_below cp S 0 engines" by (simp add: copied_below_def)
  then have "under_way cp S engines" using assms(1-3) by (auto simp: under_way_def)
  then have "under_way cp S engines1" by (rule copying_under_way [OF assms(4)])
  then obtain m where m: "ready cp engines1" "S \<subseteq> set (source_rows cp engines1)" "0 \<le> m" "stored_marker cp engines1 = Inr m"
    "copied_below cp S m engines1"
    by (auto simp: under_way_def)
  have "source_rows cp engines2 = source_rows cp engines1 \<and> ready cp engines2 \<and>
      copied_below cp S (int (length (source_rows cp engines1))) engines2"
    using backfill_one_step [OF m(1,4,3,5) assms(5), of stop_after] assms(6,7) by auto
  then show ?thesis using complete_covers [of cp engines2 S r] m(2) assms(8) by simp
qed

end

section \<open>Engines whose calls return\<close>

text \<open>Rows a copy can carry: they have the key, the same columns, and values the target holds.\<close>

definition copy_carried ::
  "('e, 'v) migratable \<Rightarrow> 'v value_ops \<Rightarrow> ('e \<Rightarrow> ustring \<Rightarrow> 'v row list) \<Rightarrow> copy \<Rightarrow> (ustring, 'e) dict \<Rightarrow> bool" where
  "copy_carried ops vo content cp engines \<longleftrightarrow>
     (\<forall>r \<in> set (copy_source content cp engines). set (cp_key cp) \<subseteq> set (keys r)) \<and>
     (\<forall>r \<in> set (copy_source content cp engines). \<forall>r' \<in> set (copy_source content cp engines).
        sort (keys (payload_row vo cp r)) = sort (keys (payload_row vo cp r'))) \<and>
     held_by_target ops vo cp (the (map_of engines (cp_target_engine cp))) (copy_source content cp engines)"

locale reliable_store = keyset_store ops vo rank content
  for ops :: "('e, 'v) migratable" and vo :: "'v value_ops" and rank :: "'v list \<Rightarrow> 'k::linorder"
    and content :: "'e \<Rightarrow> ustring \<Rightarrow> 'v row list" +
  assumes key_range_returns: "cols \<noteq> [] \<Longrightarrow> (\<forall>a. after = Some a \<longrightarrow> length a = length cols) \<Longrightarrow>
      (\<forall>u. until = Some u \<longrightarrow> length u = length cols) \<Longrightarrow> \<exists>rows. mg_key_range ops e t cols after until limit = Inr rows"
    and copy_in_returns: "\<forall>r \<in> set rows. \<forall>r' \<in> set rows. sort (keys r) = sort (keys r') \<Longrightarrow>
      \<exists>e'. mg_copy_in ops e t rows = (None, e')"
    and record_returns: "\<exists>e'. mg_record_marker ops e i ent n = (None, e')"
    and copy_in_holds: "mg_copy_in ops e t rows = (err, e') \<Longrightarrow> mg_holds ops e' = mg_holds ops e"
    and record_holds: "mg_record_marker ops e i ent n = (err, e') \<Longrightarrow> mg_holds ops e' = mg_holds ops e"
begin

abbreviation carried :: "copy \<Rightarrow> (ustring, 'e) dict \<Rightarrow> bool" where
  "carried \<equiv> copy_carried ops vo content"

lemma row_key_returns: "set cols \<subseteq> set (keys r) \<Longrightarrow> \<exists>k. row_key cols r = Inr k \<and> length k = length cols"
proof (induction cols)
  case (Cons c cols)
  then obtain v where "map_of r c = Some v" by (cases "map_of r c") (auto simp: map_of_eq_None_iff)
  then show ?case using Cons by (auto simp: row_key_def)
qed (simp add: row_key_def)

lemma held_subset: "held_by_target ops vo cp e rows \<Longrightarrow> set chunk \<subseteq> set rows \<Longrightarrow> held_by_target ops vo cp e chunk"
  unfolding held_by_target_def list_all_iff by (cases "if cp_temporal cp = [] then None else mg_holds ops e") auto

lemma turn_returns:
  assumes "ready cp engines" "at_position cp engines (cu_after c) p" "carried cp engines"
    and "\<forall>a. cu_after c = Some a \<longrightarrow> length a = length (cp_key cp)"
    and "backfill_turn ops vo cp n c engines = (t, c', engines')"
  shows "t \<noteq> Failed e \<and> source_rows cp engines' = source_rows cp engines \<and> carried cp engines' \<and>
    (\<forall>a. cu_after c' = Some a \<longrightarrow> length a = length (cp_key cp))"
proof -
  let ?src = "the (map_of engines (cp_source_engine cp))" and ?tgt = "the (map_of engines (cp_target_engine cp))"
  have named: "engine_named engines (cp_source_engine cp) = Inr ?src" "engine_named engines (cp_target_engine cp) = Inr ?tgt"
    and key: "cp_key cp \<noteq> []" using assms(1) by (auto simp: copy_ready_def engine_named_def)
  obtain rows where rows: "mg_key_range ops ?src (cp_source_table cp) (cp_key cp) (cu_after c) None (Some n) = Inr rows"
    using key_range_returns [OF key assms(4), of None ?src "cp_source_table cp" "Some n"] by blast
  have "rows = take n (drop p (ordered_source cp engines))" by (rule scan_from [OF assms(1,2) rows])
  then have chunk: "set rows \<subseteq> set (source_rows cp engines)"
    by (metis ordered_source_def set_drop_subset set_sort set_take_subset subset_trans)
  have held: "held_by_target ops vo cp ?tgt rows"
    using held_subset [OF _ chunk] assms(3) by (simp add: copy_carried_def)
  show ?thesis
  proof (cases "rows = []")
    case True
    then show ?thesis using assms(3-5) named rows by (auto simp: backfill_turn_def)
  next
    case False
    have "\<forall>r \<in> set (map (payload_row vo cp) rows). \<forall>r' \<in> set (map (payload_row vo cp) rows). sort (keys r) = sort (keys r')"
      using assms(3) chunk unfolding copy_carried_def set_map by blast
    from copy_in_returns [OF this] obtain tgt' where put:
      "mg_copy_in ops ?tgt (cp_target_table cp) (map (payload_row vo cp) rows) = (None, tgt')" by blast
    obtain tgt2 where rec: "mg_record_marker ops tgt' (cp_target_id cp) (cp_entity cp) (cu_marker c + int (length rows)) = (None, tgt2)"
      using record_returns by blast
    have "set (cp_key cp) \<subseteq> set (keys (last rows))" using False chunk assms(3) unfolding copy_carried_def by (metis last_in_set subsetD)
    then obtain k where k: "row_key (cp_key cp) (last rows) = Inr k" "length k = length (cp_key cp)"
      using row_key_returns by blast
    have t: "t \<noteq> Failed e" "engines' = AList.update (cp_target_engine cp) tgt2 engines" "cu_after c' = Some k"
      using assms(5) named rows False held put rec k by (auto simp: backfill_turn_def Let_def split: if_splits)
    have content: "content tgt2 = content tgt'" by (rule record_content [OF rec])
    have frame: "content tgt2 t' = content ?tgt t'" if "t' \<noteq> cp_target_table cp" for t'
      using copy_in_frame [OF put that] content by simp
    have same: "source_rows cp engines' = source_rows cp engines"
    proof (cases "cp_source_engine cp = cp_target_engine cp")
      case True
      then have "cp_source_table cp \<noteq> cp_target_table cp" using assms(1) by (simp add: copy_ready_def)
      then show ?thesis using frame True by (simp add: copy_source_def t(2))
    qed (simp add: copy_source_def t(2))
    have tgt: "the (map_of engines' (cp_target_engine cp)) = tgt2" by (simp add: t(2))
    have "mg_holds ops tgt2 = mg_holds ops ?tgt" using copy_in_holds [OF put] record_holds [OF rec] by simp
    then have "carried cp engines' = carried cp engines"
      by (simp only: copy_carried_def held_by_target_def same tgt)
    then show ?thesis using t(1,3) k(2) same assms(3) by simp
  qed
qed

lemma loop_returns:
  assumes "ready cp engines" "at_position cp engines (cu_after c) p" "cu_marker c = int p"
    and "stored_marker cp engines = Inr (int p)" "0 < n" "carried cp engines"
    and "\<forall>a. cu_after c = Some a \<longrightarrow> length a = length (cp_key cp)"
  shows "\<exists>c' engines'. backfill_loop ops vo cp n None c engines = Some (Inr True, c', engines')"
  using assms
proof (induction "length (source_rows cp engines) - p" arbitrary: p c engines rule: less_induct)
  case less
  obtain t c' es' where run: "backfill_turn ops vo cp n c engines = (t, c', es')"
    by (cases "backfill_turn ops vo cp n c engines") auto
  have below: "copied_below cp {} (int p) engines" by (simp add: copied_below_def)
  obtain p' where p': "p \<le> p'" "p' \<le> length (source_rows cp engines)" "source_rows cp es' = source_rows cp engines"
      "ready cp es'" "stored_marker cp es' = Inr (int p')"
      "case t of Again \<Rightarrow> p < p' \<and> at_position cp es' (cu_after c') p' \<and> cu_marker c' = int p'
       | Finished \<Rightarrow> p' = length (source_rows cp engines) \<and> cu_marker c' = int p' | Failed e \<Rightarrow> True"
    using backfill_turn_step [OF less.prems(1-4) below run less.prems(5)] unfolding turn_ok_def by blast
  note step = turn_returns [OF less.prems(1,2,6,7) run]
  show ?case
  proof (cases t)
    case Again
    then have loop: "backfill_loop ops vo cp n None c engines = backfill_loop ops vo cp n None c' es'"
      using run by (subst backfill_loop.simps) simp
    have "length (source_rows cp es') - p' < length (source_rows cp engines) - p" using Again p' by auto
    from less.hyps [OF this, of c'] show ?thesis unfolding loop using Again p' less.prems(5) step by simp
  next
    case Finished
    then show ?thesis using run by (subst backfill_loop.simps) simp
  next
    case (Failed e)
    then show ?thesis using step by blast
  qed
qed

lemma backfill_one_returns:
  assumes "ready cp engines" "stored_marker cp engines = Inr 0" "0 < n" "carried cp engines"
  shows "\<exists>pr engines'. backfill_one ops vo cp n None engines = Some (Inr pr, engines') \<and> ep_complete pr \<and>
    ep_rows_copied pr = int (length (source_rows cp engines)) \<and> stored_marker cp engines' = Inr (int (length (source_rows cp engines))) \<and>
    (\<forall>r \<in> set (source_rows cp engines). holds_row vo (target_rows cp engines') (payload_row vo cp r))"
proof -
  let ?S = "set (source_rows cp engines)" and ?c = "\<lparr>cu_after = None, cu_marker = 0, cu_rows = 0, cu_chunks = 0\<rparr>"
  have below: "copied_below cp ?S 0 engines" by (simp add: copied_below_def)
  have "at_position cp engines (cu_after ?c) 0" by (simp add: at_position_def)
  then obtain c' es' where loop: "backfill_loop ops vo cp n None ?c engines = Some (Inr True, c', es')"
    using loop_returns [OF assms(1), of ?c 0 n] assms(2-4) by (auto simp del: backfill_loop.simps)
  have named: "\<exists>e. engine_named engines (cp_source_engine cp) = Inr e"
    "engine_named engines (cp_target_engine cp) = Inr (the (map_of engines (cp_target_engine cp)))"
    using assms(1) by (auto simp: copy_ready_def engine_named_def)
  have mk: "engine_call (mg_marker ops (the (map_of engines (cp_target_engine cp))) (cp_target_id cp) (cp_entity cp)) = Inr 0"
    using assms(2) by (simp add: copy_marker_def engine_call_def)
  obtain pr where one: "backfill_one ops vo cp n None engines = Some (Inr pr, es')" "ep_complete pr"
    using named mk loop by (auto simp: backfill_one_def resume_point_def)
  obtain m' where m': "source_rows cp es' = source_rows cp engines" "ready cp es'" "stored_marker cp es' = Inr m'"
    "copied_below cp ?S m' es'" "ep_rows_copied pr = m'" "m' = int (length (source_rows cp engines))"
    using backfill_one_step [OF assms(1,2) _ below assms(3), of None] one by auto
  have "holds_row vo (target_rows cp es') (payload_row vo cp r)" if "r \<in> ?S" for r
    using complete_covers [of cp es' ?S r] m' that by simp
  then show ?thesis using one m'(3,5,6) by (intro exI [of _ pr] exI [of _ es'] conjI ballI) simp_all
qed

end

end
