(* ===== verification/Comparison.thy ===== *)
theory Comparison
  imports Backfill
begin

text \<open>
  What \<open>verify\<close> proves. An engine that also answers lookups and counts from its tables
  (\<open>comparing_store\<close>) is compared row by row: the comparison ends, a report that matches means every
  row of the source is held by the copy, and every difference it names is one.
\<close>

section \<open>What an engine promises a comparison\<close>

lemma take_length_take: "take (length (take k ys)) ys = take k ys"
  by (simp add: min_def)

definition copy_holds :: "'v value_ops \<Rightarrow> ('e \<Rightarrow> ustring \<Rightarrow> 'v row list) \<Rightarrow> copy \<Rightarrow> (ustring, 'e) dict \<Rightarrow> 'v row \<Rightarrow> bool" where
  "copy_holds vo content cp engines r \<longleftrightarrow>
     (\<exists>p \<in> set (copy_target content cp engines). differing_columns vo (logical_copy_row cp r) (logical_copy_row cp p) = [])"

definition copy_keys_distinct :: "'v value_ops \<Rightarrow> ('v list \<Rightarrow> 'k) \<Rightarrow> ('e \<Rightarrow> ustring \<Rightarrow> 'v row list) \<Rightarrow> (ustring, 'e) dict \<Rightarrow> copy \<Rightarrow> bool" where
  "copy_keys_distinct vo rank content engines cp \<longleftrightarrow>
     distinct (map (row_rank vo rank (cp_key cp)) (copy_source content cp engines))"

text \<open>
  A difference names a row of the source: no row of the copy has its key, or a row of the copy has
  other values in just the columns named.
\<close>

definition real_difference :: "'v value_ops \<Rightarrow> ('e \<Rightarrow> ustring \<Rightarrow> 'v row list) \<Rightarrow> copy \<Rightarrow> (ustring, 'e) dict \<Rightarrow> 'v difference \<Rightarrow> bool" where
  "real_difference vo content cp engines d \<longleftrightarrow>
     df_entity d = cp_entity cp \<and> df_table d = cp_target_table cp \<and>
     (\<exists>r \<in> set (copy_source content cp engines).
        df_key d = zip (cp_key cp) (row_values (vo_none vo) (cp_key cp) (logical_copy_row cp r)) \<and>
        (df_columns d = [] \<and>
         (\<forall>p \<in> set (copy_target content cp engines). \<exists>(c, v) \<in> set (df_key d). \<not> vo_eq vo (row_get (vo_none vo) p c) v) \<or>
         df_columns d \<noteq> [] \<and>
         (\<exists>p \<in> set (copy_target content cp engines).
            df_columns d = differing_columns vo (logical_copy_row cp r) (logical_copy_row cp p))))"

locale comparing_store = keyset_store ops vo rank content
  for ops :: "('e, 'v) migratable" and vo :: "'v value_ops" and rank :: "'v list \<Rightarrow> 'k::linorder"
    and content :: "'e \<Rightarrow> ustring \<Rightarrow> 'v row list" +
  assumes get_some: "mg_get ops e t key = Inr (Some r) \<Longrightarrow> r \<in> set (content e t)"
    and get_none: "mg_get ops e t key = Inr None \<Longrightarrow> p \<in> set (content e t) \<Longrightarrow>
      \<exists>(c, v) \<in> set key. \<not> vo_eq vo (row_get (vo_none vo) p c) v"
    and count_law: "mg_count ops e t = Inr n \<Longrightarrow> n = length (content e t)"
begin

abbreviation source_state :: "copy \<Rightarrow> (ustring, 'e) dict \<Rightarrow> 'e" where
  "source_state cp engines \<equiv> the (map_of engines (cp_source_engine cp))"

abbreviation target_state :: "copy \<Rightarrow> (ustring, 'e) dict \<Rightarrow> 'e" where
  "target_state cp engines \<equiv> the (map_of engines (cp_target_engine cp))"

abbreviation held :: "copy \<Rightarrow> (ustring, 'e) dict \<Rightarrow> 'v row \<Rightarrow> bool" where
  "held \<equiv> copy_holds vo content"

abbreviation real :: "copy \<Rightarrow> (ustring, 'e) dict \<Rightarrow> 'v difference \<Rightarrow> bool" where
  "real \<equiv> real_difference vo content"

section \<open>One row and one chunk\<close>

lemma index_get_in: "index_get vo k index = Some r \<Longrightarrow> r \<in> snd ` set index"
  unfolding index_get_def by (auto simp: map_option_case split: option.splits dest!: find_SomeD)

lemma row_difference_ok:
  assumes "row_difference ops vo cp (target_state cp engines) index r = Inr ds"
    and "snd ` set index \<subseteq> logical_copy_row cp ` set (target_rows cp engines)" "r \<in> set (source_rows cp engines)"
  shows "(ds = [] \<longrightarrow> held cp engines r) \<and> (\<forall>d \<in> set ds. real cp engines d)"
proof -
  let ?r = "logical_copy_row cp r"
  obtain k where k: "row_key (cp_key cp) ?r = Inr k"
    using assms(1) by (auto simp: row_difference_def Let_def and_then_Inr)
  have kv: "k = row_values (vo_none vo) (cp_key cp) ?r" by (rule row_key_values [OF k])
  let ?named = "zip (cp_key cp) k"
  show ?thesis
  proof (cases "case index_get vo k index of None \<Rightarrow> False | Some there \<Rightarrow> differing_columns vo ?r there = []")
    case True
    then obtain there where "index_get vo k index = Some there" "differing_columns vo ?r there = []"
      by (auto split: option.splits)
    moreover from this obtain p where "p \<in> set (target_rows cp engines)" "there = logical_copy_row cp p"
      using index_get_in assms(2) by blast
    moreover have "ds = []" using assms(1) k True by (simp add: row_difference_def Let_def)
    ultimately show ?thesis by (auto simp: copy_holds_def)
  next
    case False
    then obtain again where get: "mg_get ops (target_state cp engines) (cp_target_table cp) ?named = Inr again"
      using assms(1) k by (auto simp: row_difference_def Let_def engine_call_def and_then_Inr split: sum.splits)
    show ?thesis
    proof (cases again)
      case None
      have "ds = [\<lparr>df_entity = cp_entity cp, df_table = cp_target_table cp, df_key = ?named, df_columns = []\<rparr>]"
        using assms(1) k False get None by (simp add: row_difference_def Let_def engine_call_def)
      moreover have "\<exists>(c, v) \<in> set ?named. \<not> vo_eq vo (row_get (vo_none vo) p c) v" if "p \<in> set (target_rows cp engines)" for p
        using get_none [OF get [unfolded None]] that by (simp add: copy_target_def)
      ultimately show ?thesis using assms(3) kv by (auto simp: real_difference_def)
    next
      case (Some a)
      have a: "a \<in> set (target_rows cp engines)" using get_some [OF get [unfolded Some]] by (simp add: copy_target_def)
      let ?ds = "differing_columns vo ?r (logical_copy_row cp a)"
      have "ds = (if ?ds = [] then [] else [\<lparr>df_entity = cp_entity cp, df_table = cp_target_table cp, df_key = ?named, df_columns = ?ds\<rparr>])"
        using assms(1) k False get Some by (simp add: row_difference_def Let_def engine_call_def)
      then show ?thesis using a assms(3) kv by (auto simp: copy_holds_def real_difference_def split: if_splits)
    qed
  qed
qed

lemma missing_in_target_ok:
  assumes "missing_in_target ops vo cp (target_state cp engines) rows low high = Inr ds"
    and "set rows \<subseteq> set (source_rows cp engines)"
  shows "(ds = [] \<longrightarrow> (\<forall>r \<in> set rows. held cp engines r)) \<and> (\<forall>d \<in> set ds. real cp engines d)"
proof -
  obtain mirror index dss where mirror: "mg_key_range ops (target_state cp engines) (cp_target_table cp) (cp_key cp) low (Some high) None = Inr mirror"
    and index: "list_all2 (\<lambda>r y. and_then (row_key (cp_key cp) r) (\<lambda>k. Inr (k, logical_copy_row cp r)) = Inr y) mirror index"
    and dss: "list_all2 (\<lambda>r d. row_difference ops vo cp (target_state cp engines) index r = Inr d) rows dss" "ds = concat dss"
    using assms(1) by (auto simp: missing_in_target_def engine_call_def and_then_Inr traverse_Inr split: sum.splits)
  have "set mirror \<subseteq> set (target_rows cp engines)"
    using key_range_law [OF mirror] by (auto simp: limited_def copy_target_def)
  moreover have "snd ` set index \<subseteq> logical_copy_row cp ` set mirror"
    using index by (induction rule: list_all2_induct) (auto simp: and_then_Inr)
  ultimately have ix: "snd ` set index \<subseteq> logical_copy_row cp ` set (target_rows cp engines)" by blast
  from dss(1) assms(2) have "(concat dss = [] \<longrightarrow> (\<forall>r \<in> set rows. held cp engines r)) \<and> (\<forall>d \<in> set (concat dss). real cp engines d)"
  proof (induction rule: list_all2_induct)
    case (Cons r rows d dss)
    then show ?case using row_difference_ok [OF Cons(1) ix] by auto
  qed simp
  then show ?thesis by (simp only: dss(2))
qed

end

section \<open>The tally\<close>

text \<open>
  A tally is in order where it matches exactly when it names no difference, names at most
  \<open>DIFFERENCES_KEPT\<close> and counts the others only when it is full.
\<close>

definition clean :: "'v tally \<Rightarrow> bool" where
  "clean t \<longleftrightarrow> vt_chunks_mismatched t = 0 \<and> vt_tail_missing t = 0"

definition tally_ok :: "'v tally \<Rightarrow> bool" where
  "tally_ok t \<longleftrightarrow> (clean t \<longleftrightarrow> vt_differences t = []) \<and> length (vt_differences t) \<le> DIFFERENCES_KEPT \<and>
     (vt_suppressed t \<noteq> 0 \<longrightarrow> length (vt_differences t) = DIFFERENCES_KEPT)"

lemma tally_ok_empty: "tally_ok empty_tally" "clean empty_tally"
  by (simp_all add: tally_ok_def clean_def empty_tally_def)

lemma clean_count_chunk: "clean (count_chunk below rows missing t) \<longleftrightarrow> clean t \<and> missing = []"
  by (auto simp: count_chunk_def keep_differences_def clean_def Let_def)

lemma tally_ok_count_chunk:
  assumes "tally_ok t"
  shows "tally_ok (count_chunk below rows missing t)"
proof -
  have kept: "vt_differences (count_chunk below rows missing t) =
      vt_differences t @ take (DIFFERENCES_KEPT - length (vt_differences t)) missing"
    "vt_suppressed (count_chunk below rows missing t) =
      vt_suppressed t + (length missing - (DIFFERENCES_KEPT - length (vt_differences t)))"
    by (simp_all add: count_chunk_def keep_differences_def Let_def)
  have "vt_differences (count_chunk below rows missing t) = [] \<longleftrightarrow> vt_differences t = [] \<and> missing = []"
    unfolding kept by (auto simp: DIFFERENCES_KEPT_def)
  then show ?thesis
    using assms unfolding tally_ok_def clean_count_chunk kept by (auto simp: min_def)
qed

lemma count_chunk_frame:
  "set (vt_differences (count_chunk below rows missing t)) \<subseteq> set (vt_differences t) \<union> set missing"
  "vt_rows_source (count_chunk below rows missing t) = vt_rows_source t"
  "vt_rows_target (count_chunk below rows missing t) = vt_rows_target t"
  by (auto simp: count_chunk_def keep_differences_def Let_def dest: in_set_takeD)

lemma tally_counts:
  "tally_ok (t\<lparr>vt_rows_source := a, vt_rows_target := b\<rparr>) = tally_ok t"
  "clean (t\<lparr>vt_rows_source := a, vt_rows_target := b\<rparr>) = clean t"
  by (simp_all add: tally_ok_def clean_def)

section \<open>The comparison of one copy\<close>

context comparing_store
begin

lemma verify_turn_ok:
  assumes "copy_keys_distinct vo rank content engines cp" "at_position cp engines (sc_after st) p" "sc_seen st = p" "0 < n"
    and "verify_turn ops vo cp n (source_state cp engines) (target_state cp engines) m st = Inr res"
  shows "case res of
       None \<Rightarrow> p = length (source_rows cp engines)
     | Some st' \<Rightarrow> \<exists>rows missing below. 0 < length rows \<and> rows = take (length rows) (drop p (ordered_source cp engines)) \<and>
         at_position cp engines (sc_after st') (p + length rows) \<and> sc_seen st' = p + length rows \<and>
         sc_tally st' = count_chunk below rows missing (sc_tally st) \<and>
         (missing = [] \<longrightarrow> (\<forall>r \<in> set rows. held cp engines r)) \<and> (\<forall>d \<in> set missing. real cp engines d)"
proof -
  let ?want = "if int (sc_seen st) < m then min n (nat (m - int (sc_seen st))) else n"
  have want: "0 < ?want" using assms(4) by auto
  obtain rows where scan: "mg_key_range ops (source_state cp engines) (cp_source_table cp) (cp_key cp) (sc_after st) None (Some ?want) = Inr rows"
    using assms(5) by (auto simp: verify_turn_def Let_def engine_call_def and_then_Inr split: sum.splits)
  have rows: "rows = take ?want (drop p (ordered_source cp engines))"
    by (rule scan_rows [OF assms(1) [unfolded copy_keys_distinct_def] assms(2) scan])
  have p: "p \<le> length (source_rows cp engines)" using assms(2) by (simp add: at_position_def)
  show ?thesis
  proof (cases "rows = []")
    case True
    then have "res = None" using assms(5) scan by (simp add: verify_turn_def Let_def engine_call_def)
    moreover have "p = length (source_rows cp engines)" using True rows want p by (auto simp: ordered_source_def)
    ultimately show ?thesis by simp
  next
    case False
    then obtain high missing where high: "row_key (cp_key cp) (last rows) = Inr high"
      and missing: "missing_in_target ops vo cp (target_state cp engines) rows (sc_after st) high = Inr missing"
      and res: "res = Some \<lparr>sc_after = Some high, sc_seen = sc_seen st + length rows,
          sc_tally = count_chunk (int (sc_seen st) < m) rows missing (sc_tally st)\<rparr>"
      using assms(5) scan by (auto simp: verify_turn_def Let_def engine_call_def and_then_Inr)
    have chunk: "set rows \<subseteq> set (source_rows cp engines)"
      using rows by (metis ordered_source_def set_drop_subset set_sort set_take_subset subset_trans)
    have "rows = take (length rows) (drop p (ordered_source cp engines))" using take_length_take rows by metis
    then show ?thesis
      using position_after [OF assms(2) rows False high] missing_in_target_ok [OF missing chunk] False assms(3)
      unfolding res option.case by (intro exI [of _ rows] exI [of _ missing] exI [of _ "int (sc_seen st) < m"]) simp
  qed
qed

text \<open>
  What a finished comparison of one copy says of the tally it started from and the one it left.
\<close>

definition compared :: "copy \<Rightarrow> (ustring, 'e) dict \<Rightarrow> 'v row set \<Rightarrow> 'v tally \<Rightarrow> 'v tally \<Rightarrow> bool" where
  "compared cp engines rows t t' \<longleftrightarrow>
     (tally_ok t \<longrightarrow> tally_ok t') \<and> (clean t' \<longrightarrow> clean t \<and> (\<forall>r \<in> rows. held cp engines r)) \<and>
     (\<forall>d \<in> set (vt_differences t'). d \<in> set (vt_differences t) \<or> real cp engines d) \<and>
     vt_rows_source t' = vt_rows_source t \<and> vt_rows_target t' = vt_rows_target t"

lemma compared_chunk:
  assumes "compared cp engines R (count_chunk below rows missing t) t'"
    and "missing = [] \<longrightarrow> (\<forall>r \<in> set rows. held cp engines r)" "\<forall>d \<in> set missing. real cp engines d"
  shows "compared cp engines (set rows \<union> R) t t'"
  using assms count_chunk_frame [of below rows missing t] tally_ok_count_chunk [of t below rows missing]
  unfolding compared_def clean_count_chunk by (simp add: subset_iff) blast

lemma verify_loop_ok:
  assumes "copy_keys_distinct vo rank content engines cp" "at_position cp engines (sc_after st) p" "sc_seen st = p" "0 < n"
  shows "\<exists>r. verify_loop ops vo cp n (source_state cp engines) (target_state cp engines) m st = Some r \<and>
    (\<forall>t'. r = Inr t' \<longrightarrow> compared cp engines (set (drop p (ordered_source cp engines))) (sc_tally st) t')"
  using assms
proof (induction "length (source_rows cp engines) - p" arbitrary: p st rule: less_induct)
  case less
  let ?turn = "verify_turn ops vo cp n (source_state cp engines) (target_state cp engines) m"
  let ?loop = "verify_loop ops vo cp n (source_state cp engines) (target_state cp engines) m"
  have len: "length (ordered_source cp engines) = length (source_rows cp engines)" by (simp add: ordered_source_def)
  consider e where "?turn st = Inl e" | "?turn st = Inr None" | st' where "?turn st = Inr (Some st')"
    by (cases "?turn st") (auto simp: not_None_eq)
  then show ?case
  proof cases
    case (1 e)
    then have "?loop st = Some (Inl e)" by (subst verify_loop.simps) simp
    then show ?thesis by simp
  next
    case 2
    then have "?loop st = Some (Inr (sc_tally st))" by (subst verify_loop.simps) simp
    moreover have "p = length (source_rows cp engines)" using verify_turn_ok [OF less.prems 2] by simp
    ultimately show ?thesis by (simp add: compared_def len)
  next
    case (3 st')
    obtain rows missing below where step: "0 < length rows" "rows = take (length rows) (drop p (ordered_source cp engines))"
      "at_position cp engines (sc_after st') (p + length rows)" "sc_seen st' = p + length rows"
      "sc_tally st' = count_chunk below rows missing (sc_tally st)"
      "missing = [] \<longrightarrow> (\<forall>r \<in> set rows. held cp engines r)" "\<forall>d \<in> set missing. real cp engines d"
      using verify_turn_ok [OF less.prems 3] unfolding option.case by blast
    have loop: "?loop st = ?loop st'" using 3 by (subst verify_loop.simps) simp
    have "p + length rows \<le> length (source_rows cp engines)" using step(3) by (simp add: at_position_def)
    then have "length (source_rows cp engines) - (p + length rows) < length (source_rows cp engines) - p" using step(1) by linarith
    from less.hyps [OF this less.prems(1) step(3,4) less.prems(4)] obtain r where r: "?loop st' = Some r"
      "\<forall>t'. r = Inr t' \<longrightarrow> compared cp engines (set (drop (p + length rows) (ordered_source cp engines))) (sc_tally st') t'"
      by blast
    have split: "set (drop p (ordered_source cp engines)) = set rows \<union> set (drop (p + length rows) (ordered_source cp engines))"
      using step(2) by (metis add.commute append_take_drop_id drop_drop set_append)
    have "\<forall>t'. r = Inr t' \<longrightarrow> compared cp engines (set (drop p (ordered_source cp engines))) (sc_tally st) t'"
      unfolding split using r(2) compared_chunk [OF _ step(6,7)] unfolding step(5) by blast
    then show ?thesis using r(1) loop by simp
  qed
qed

section \<open>The comparison of a group\<close>

definition group_compared :: "(ustring, 'e) dict \<Rightarrow> copy list \<Rightarrow> 'v tally \<Rightarrow> 'v tally \<Rightarrow> bool" where
  "group_compared engines cps t t' \<longleftrightarrow>
     (tally_ok t \<longrightarrow> tally_ok t') \<and>
     (clean t' \<longrightarrow> clean t \<and> (\<forall>cp \<in> set cps. \<forall>r \<in> set (source_rows cp engines). held cp engines r)) \<and>
     (\<forall>d \<in> set (vt_differences t'). d \<in> set (vt_differences t) \<or> (\<exists>cp \<in> set cps. real cp engines d)) \<and>
     vt_rows_source t' = vt_rows_source t + (\<Sum>cp\<leftarrow>cps. length (source_rows cp engines)) \<and>
     vt_rows_target t' = vt_rows_target t + (\<Sum>cp\<leftarrow>cps. length (target_rows cp engines))"

lemma group_compared_Cons:
  "group_compared engines [cp] t t' \<Longrightarrow> group_compared engines cps t' t'' \<Longrightarrow> group_compared engines (cp # cps) t t''"
  unfolding group_compared_def by auto

lemma compared_group:
  assumes "compared cp engines (set (ordered_source cp engines))
    (t\<lparr>vt_rows_source := vt_rows_source t + length (source_rows cp engines),
       vt_rows_target := vt_rows_target t + length (target_rows cp engines)\<rparr>) t'"
  shows "group_compared engines [cp] t t'"
  using assms unfolding compared_def group_compared_def tally_counts by (simp add: ordered_source_def)

lemma verify_one_ok:
  assumes "copy_keys_distinct vo rank content engines cp" "0 < n"
  shows "\<exists>r. verify_one ops vo n engines cp t = Some r \<and> (\<forall>t'. r = Inr t' \<longrightarrow> group_compared engines [cp] t t')"
proof -
  let ?start = "and_then (engine_named engines (cp_source_engine cp)) (\<lambda>src.
           and_then (engine_named engines (cp_target_engine cp)) (\<lambda>tgt.
           and_then (engine_call (mg_marker ops tgt (cp_target_id cp) (cp_entity cp))) (\<lambda>marker.
           and_then (engine_call (mg_count ops src (cp_source_table cp))) (\<lambda>rows_source.
           and_then (engine_call (mg_count ops tgt (cp_target_table cp))) (\<lambda>rows_target.
             Inr (src, tgt, marker, rows_source, rows_target))))))"
  show ?thesis
  proof (cases ?start)
    case (Inl e)
    then show ?thesis by (simp add: verify_one_def)
  next
    case (Inr res)
    then obtain src tgt m a b where res: "res = (src, tgt, m, a, b)"
      and named: "engine_named engines (cp_source_engine cp) = Inr src" "engine_named engines (cp_target_engine cp) = Inr tgt"
      and counts: "engine_call (mg_count ops src (cp_source_table cp)) = Inr a" "engine_call (mg_count ops tgt (cp_target_table cp)) = Inr b"
      by (auto simp: and_then_Inr)
    have state: "src = source_state cp engines" "tgt = target_state cp engines"
      using named by (auto simp: engine_named_def split: option.splits)
    have ab: "a = length (source_rows cp engines)" "b = length (target_rows cp engines)"
      using counts count_law by (auto simp: engine_call_def state copy_source_def copy_target_def split: sum.splits)
    let ?st = "\<lparr>sc_after = None, sc_seen = 0,
       sc_tally = t\<lparr>vt_rows_source := vt_rows_source t + a, vt_rows_target := vt_rows_target t + b\<rparr>\<rparr>"
    have "at_position cp engines (sc_after ?st) 0" by (simp add: at_position_def)
    from verify_loop_ok [OF assms(1) this _ assms(2), of m] obtain r
      where r: "verify_loop ops vo cp n src tgt m ?st = Some r"
        "\<forall>t'. r = Inr t' \<longrightarrow> compared cp engines (set (ordered_source cp engines)) (sc_tally ?st) t'"
      unfolding state by auto
    have "group_compared engines [cp] t t'" if "r = Inr t'" for t'
      using r(2) that by (intro compared_group) (simp add: ab)
    then show ?thesis using Inr res r(1) by (simp add: verify_one_def)
  qed
qed

lemma verify_copies_ok:
  assumes "\<forall>cp \<in> set cps. copy_keys_distinct vo rank content engines cp" "0 < n"
  shows "\<exists>r. verify_copies ops vo n engines cps t = Some r \<and> (\<forall>t'. r = Inr t' \<longrightarrow> group_compared engines cps t t')"
  using assms(1)
proof (induction cps arbitrary: t)
  case Nil
  then show ?case by (simp add: group_compared_def)
next
  case (Cons cp cps)
  obtain r where r: "verify_one ops vo n engines cp t = Some r" "\<forall>t'. r = Inr t' \<longrightarrow> group_compared engines [cp] t t'"
    using verify_one_ok [of engines cp n t] Cons.prems assms(2) by auto
  show ?case
  proof (cases r)
    case (Inl e)
    then show ?thesis using r(1) by simp
  next
    case (Inr t1)
    obtain r2 where "verify_copies ops vo n engines cps t1 = Some r2" "\<forall>t'. r2 = Inr t' \<longrightarrow> group_compared engines cps t1 t'"
      using Cons.IH [of t1] Cons.prems by auto
    then show ?thesis using r Inr group_compared_Cons by fastforce
  qed
qed

end

section \<open>What a verification proves\<close>

text \<open>The comparison of a group returns, whatever the engines answer.\<close>

lemma verify_outcome:
  assumes "comparing_store ops vo rank content"
    and "\<And>cps. migration_plan ops m pm engines g = Inr cps \<Longrightarrow> \<forall>cp \<in> set cps. copy_keys_distinct vo rank content engines cp"
  shows "\<exists>r. verify ops vo m pm project_id engines g n request given now = Some r \<and>
    (\<forall>report. r = Inr report \<longrightarrow> (\<exists>cps. migration_plan ops m pm engines g = Inr cps \<and>
       comparing_store.group_compared vo content engines cps empty_tally (vp_tally report)))"
proof (cases "and_then (check_request m pm project_id g given request) (\<lambda>_.
    and_then (require (\<not> n < 1) (MigrationRefused ''not a chunk'')) (\<lambda>_. migration_plan ops m pm engines g))")
  case (Inl e)
  then show ?thesis by (simp add: verify_def)
next
  case (Inr cps)
  then have plan: "migration_plan ops m pm engines g = Inr cps" and n: "0 < nat n"
    by (auto simp: and_then_Inr require_def split: if_splits)
  obtain r where r: "verify_copies ops vo (nat n) engines cps empty_tally = Some r"
    "\<forall>t'. r = Inr t' \<longrightarrow> comparing_store.group_compared vo content engines cps empty_tally t'"
    using comparing_store.verify_copies_ok [OF assms(1) assms(2) [OF plan] n] by blast
  show ?thesis using Inr plan r by (auto simp: verify_def and_then_Inr Let_def)
qed

end
