(* ===== verification/MemoryStore.thy ===== *)
theory MemoryStore
  imports Comparison
begin

text \<open>
  The in-memory engine keeps the contract a migration relies on: it is a \<open>reliable_store\<close>
  and a \<open>comparing_store\<close>. The properties of backfill and verification then hold of a migration between
  in-memory engines, and the witnesses run one.
\<close>

section \<open>Values\<close>

lemma has_nan_norm: "has_nan (py_norm v) = has_nan v"
proof (induction v)
  case (PDict d)
  have "list_ex snd (map (map_prod id has_nan) (sort_key fst (map (map_prod id py_norm) d))) \<longleftrightarrow>
      (\<exists>(k, v) \<in> set d. has_nan (py_norm v))"
    by (force simp: list_ex_iff)
  also have "\<dots> \<longleftrightarrow> (\<exists>(k, v) \<in> set d. has_nan v)" by (intro bex_cong refl) (use PDict in \<open>auto simp: snds.simps\<close>)
  finally show ?case by (force simp: list_ex_iff)
qed (auto simp: list_ex_iff)

lemma py_eq_sym: "py_eq a b \<Longrightarrow> py_eq b a"
  unfolding py_eq_def by (metis has_nan_norm)

definition py_values :: "pyval value_ops" where
  "py_values = \<lparr>vo_eq = py_eq, vo_nan = (\<lambda>v. v = PFloat NaN), vo_none = PNone, vo_int = PInt\<rparr>"

definition memory_migratable :: "(pyval \<Rightarrow> ustring) \<Rightarrow> (pyval memory_engine, pyval) migratable" where
  "memory_migratable text_of =
     \<lparr>mg_able = me_migratable, mg_key_range = mem_key_range text_of, mg_nth_key = mem_nth_key text_of,
      mg_copy_in = mem_copy_in, mg_count = mem_count, mg_get = mem_get, mg_marker = mem_backfill_marker,
      mg_record_marker = mem_record_backfill_marker, mg_holds = (\<lambda>_. None)\<rparr>"

definition memory_rank :: "(pyval \<Rightarrow> ustring) \<Rightarrow> pyval list \<Rightarrow> sortable list" where
  "memory_rank text_of = map (sortable text_of)"

lemmas memory_defs = py_values_def memory_migratable_def memory_rank_def

section \<open>Absorbing rows\<close>

lemma covers_iff:
  "covers vo p r \<longleftrightarrow> (\<forall>(c, v) \<in> set r. \<exists>w. map_of p c = Some w \<and> same_value vo v w)"
proof -
  have "sort xs = [] \<longleftrightarrow> xs = []" for xs :: "ustring list" by (metis length_0_conv length_sort)
  then show ?thesis
    by (auto simp: covers_def differing_columns_def filter_empty_conv split: option.splits) 
qed

lemma absorbed_covers:
  assumes "list_all (\<lambda>(c, v). py_eq (row_get PNone p c) v) r" "set (keys r) \<subseteq> set (keys p)"
  shows "covers py_values p r"
  unfolding covers_iff
proof (intro ballI, clarify)
  fix c v assume cv: "(c, v) \<in> set r"
  then have "c \<in> set (keys p)" using assms(2) by force
  then obtain w where w: "map_of p c = Some w" by (metis map_of_eq_None_iff not_None_eq set_map)
  moreover have "py_eq w v" using assms(1) cv w by (auto simp: list_all_iff row_get_def)
  ultimately show "\<exists>w. map_of p c = Some w \<and> same_value py_values v w"
    using py_eq_sym by (auto simp: same_value_def py_values_def)
qed

lemma absorb_keeps: "set existing \<subseteq> set (absorb existing rows)"
  by (induction existing rows rule: absorb.induct) auto

lemma absorb_adds: "set (absorb existing rows) \<subseteq> set existing \<union> set rows"
  by (induction existing rows rule: absorb.induct) auto

lemma absorb_lands:
  assumes "\<forall>p \<in> set existing \<union> set rows. \<forall>r \<in> set rows. set (keys r) \<subseteq> set (keys p)"
    and "\<forall>r \<in> set rows. covers py_values r r" "r \<in> set rows"
  shows "holds_row py_values (absorb existing rows) r"
  using assms
proof (induction existing rows rule: absorb.induct)
  case (2 existing q rows)
  show ?case
  proof (cases "list_ex (\<lambda>p. list_all (\<lambda>(c, v). py_eq (row_get PNone p c) v) q) existing")
    case True
    then obtain p where p: "p \<in> set existing" "list_all (\<lambda>(c, v). py_eq (row_get PNone p c) v) q"
      unfolding list_ex_iff by blast
    then have "covers py_values p q" using 2(3) by (intro absorbed_covers) auto
    moreover have "p \<in> set (absorb existing rows)" using p(1) absorb_keeps by blast
    ultimately have "holds_row py_values (absorb existing rows) q" unfolding holds_row_def by blast
    then show ?thesis using 2(1) [OF True] 2(3-) True by auto
  next
    case False
    have "q \<in> set (absorb (existing @ [q]) rows)" using absorb_keeps [of "existing @ [q]" rows] by auto
    then have "holds_row py_values (absorb (existing @ [q]) rows) q" using 2(4) unfolding holds_row_def by auto
    then show ?thesis using 2(2) [OF False] 2(3-) False by auto
  qed
qed simp

section \<open>The contract of the in-memory engine\<close>

lemma table_rows_set_table: "table_rows (set_table t rows e) t' = (if t' = t then rows else table_rows e t')"
  by (simp add: table_rows_def set_table_def)

lemma mem_copy_in_table:
  "mem_copy_in e t rows = (err, e') \<Longrightarrow>
     e' = e \<and> (err = None \<longrightarrow> rows = []) \<or>
     err = None \<and> e' = set_table t (absorb (table_rows e t) rows) e \<and>
     (\<forall>r \<in> set rows. \<forall>r' \<in> set rows. set (keys r) \<subseteq> set (keys r'))"
proof -
  assume run: "mem_copy_in e t rows = (err, e')"
  show ?thesis
  proof (cases "rows = [] \<or> list_ex (\<lambda>r'. sort (keys r') \<noteq> sort (keys (hd rows))) rows")
    case True
    then show ?thesis using run by (cases rows) (auto simp: mem_copy_in_def split: if_splits)
  next
    case False
    then have same: "\<forall>r \<in> set rows. \<forall>r' \<in> set rows. set (keys r) \<subseteq> set (keys r')"
      unfolding list_ex_iff by (metis set_sort subset_refl)
    have "err = None \<and> e' = set_table t (absorb (table_rows e t) rows) e"
      using False run by (cases rows) (simp_all add: mem_copy_in_def)
    then show ?thesis using same by blast
  qed
qed

lemma marker_set_table: "mem_backfill_marker (set_table t rows e) = mem_backfill_marker e"
  by (intro ext) (simp add: mem_backfill_marker_def set_table_def)

interpretation memory: reliable_store "memory_migratable text_of" py_values "memory_rank text_of" table_rows
  for text_of
proof unfold_locales
  fix e t cols after until limit rows
  assume "mg_key_range (memory_migratable text_of) e t cols after until limit = Inr rows"
  then show "rows = limited limit (filter (\<lambda>r. in_window (memory_rank text_of) after until (row_rank py_values (memory_rank text_of) cols r))
        (sort_key (row_rank py_values (memory_rank text_of) cols) (table_rows e t)))"
    by (auto simp: memory_defs mem_key_range_def and_then_Inr key_columns_def ordered_rows_def Let_def limited_def in_window_def
        row_rank_def [abs_def] conj_commute split: option.splits if_splits)
next
  fix e t cols n res
  assume "mg_nth_key (memory_migratable text_of) e t cols n = Inr res" "1 \<le> n"
  then show "res = (if n \<le> int (length (table_rows e t))
             then Some (row_values (vo_none py_values) cols
               (sort_key (row_rank py_values (memory_rank text_of) cols) (table_rows e t) ! (nat n - 1))) else None)"
    by (auto simp: memory_defs mem_nth_key_def and_then_Inr key_columns_def ordered_rows_def Let_def
        row_rank_def [abs_def] split: if_splits)
next
  fix e t rows err e' t' cols r
  assume run: "mg_copy_in (memory_migratable text_of) e t rows = (err, e')"
  note cases = mem_copy_in_table [of e t rows err e'] run [unfolded memory_migratable_def migratable.simps]
  show "mg_marker (memory_migratable text_of) e' = mg_marker (memory_migratable text_of) e"
    using cases by (auto simp: memory_migratable_def marker_set_table)
  show "set (table_rows e' t) \<subseteq> set (table_rows e t) \<union> set rows"
    using cases absorb_adds [of "table_rows e t" rows] by (auto simp: table_rows_set_table)
  show "mg_holds (memory_migratable text_of) e' = mg_holds (memory_migratable text_of) e"
    by (simp add: memory_migratable_def)
  show "table_rows e' t' = table_rows e t'" if "t' \<noteq> t" using cases that by (auto simp: table_rows_set_table)
  show "holds_row py_values (table_rows e' t) r" if "holds_row py_values (table_rows e t) r"
  proof -
    have "set (table_rows e t) \<subseteq> set (table_rows e' t)"
      using cases absorb_keeps [of "table_rows e t" rows] by (auto simp: table_rows_set_table)
    then show ?thesis using that unfolding holds_row_def by blast
  qed
next
  fix e t rows e' cols r
  assume run: "mg_copy_in (memory_migratable text_of) e t rows = (None, e')"
    and fits: "absorbable py_values (row_rank py_values (memory_rank text_of) cols) (table_rows e t) rows" and r: "r \<in> set rows"
  have "e' = set_table t (absorb (table_rows e t) rows) e" "\<forall>r \<in> set rows. \<forall>r' \<in> set rows. set (keys r) \<subseteq> set (keys r')"
    using mem_copy_in_table [of e t rows None e', OF run [unfolded memory_migratable_def migratable.simps]] r
      length_pos_if_in_set [OF r] by blast+
  moreover from this fits have "holds_row py_values (absorb (table_rows e t) rows) r"
    unfolding absorbable_def by (intro absorb_lands [OF _ _ r]) blast+
  ultimately show "holds_row py_values (table_rows e' t) r" by (simp add: table_rows_set_table)
next
  fix e i ent n err e'
  assume "mg_record_marker (memory_migratable text_of) e i ent n = (err, e')"
  then show "table_rows e' = table_rows e" by (auto simp: memory_migratable_def mem_record_backfill_marker_def table_rows_def)
next
  fix e i ent n e' m
  assume run: "mg_record_marker (memory_migratable text_of) e i ent n = (None, e')" and n: "0 \<le> n"
    and m: "mg_marker (memory_migratable text_of) e i ent = Inr m"
  have "Max (insert n (set ns)) = max n (Max (set ns))" if "ns \<noteq> []" for ns :: "int list" using that by simp
  then show "mg_marker (memory_migratable text_of) e' i ent = Inr (max m n)"
    using run m n by (auto simp: memory_migratable_def mem_record_backfill_marker_def mem_backfill_marker_def max.commute
        split: option.splits if_splits)
next
  fix cols :: "ustring list" and after until :: "pyval list option" and e t limit
  assume "cols \<noteq> []" "\<forall>a. after = Some a \<longrightarrow> length a = length cols" "\<forall>u. until = Some u \<longrightarrow> length u = length cols"
  then show "\<exists>rows. mg_key_range (memory_migratable text_of) e t cols after until limit = Inr rows"
    by (auto simp: memory_migratable_def mem_key_range_def Let_def key_columns_def same_width_def require_def split: option.splits)
next
  fix rows :: "pyval row list" and e t
  assume "\<forall>r \<in> set rows. \<forall>r' \<in> set rows. sort (keys r) = sort (keys r')"
  then have "\<not> list_ex (\<lambda>r'. sort (keys r') \<noteq> sort (keys (hd rows))) rows" if "rows \<noteq> []"
    using that unfolding list_ex_iff by (metis hd_in_set)
  then show "\<exists>e'. mg_copy_in (memory_migratable text_of) e t rows = (None, e')"
    by (cases rows) (auto simp: memory_migratable_def mem_copy_in_def)
qed (auto simp: memory_migratable_def mem_record_backfill_marker_def)

interpretation memory: comparing_store "memory_migratable text_of" py_values "memory_rank text_of" table_rows
  for text_of
proof unfold_locales
  fix e t key r
  assume "mg_get (memory_migratable text_of) e t key = Inr (Some r)"
  then show "r \<in> set (table_rows e t)" by (auto simp: memory_migratable_def mem_get_def dest: find_SomeD)
next
  fix e t key and p :: "pyval row"
  assume "mg_get (memory_migratable text_of) e t key = Inr None" "p \<in> set (table_rows e t)"
  then show "\<exists>(c, v) \<in> set key. \<not> vo_eq py_values (row_get (vo_none py_values) p c) v"
    by (auto simp: memory_defs mem_get_def find_None_iff list_all_iff)
qed (simp add: memory_migratable_def mem_count_def)

section \<open>A migration to run\<close>

definition demo_row :: "int \<Rightarrow> pyval \<Rightarrow> pyval row" where
  "demo_row i v = [(lit ''id'', PInt i), (lit ''v'', v)]"

definition demo_engine :: "pyval row list \<Rightarrow> pyval memory_engine" where
  "demo_engine rows = \<lparr>me_tables = [(lit ''e'', rows)], me_fail_inserts = [], me_watermarks = [], me_markers = [],
     me_bookkeeping = True, me_migratable = True\<rparr>"

definition demo_engines :: "(ustring, pyval memory_engine) dict" where
  "demo_engines = [(lit ''a'', demo_engine [demo_row 2 (PStr (lit ''x'')), demo_row 1 (PFloat NaN)]), (lit ''b'', demo_engine [])]"

definition demo_copy :: copy where
  "demo_copy = \<lparr>cp_entity = lit ''E'', cp_key = [lit ''id''], cp_source_engine = lit ''a'', cp_source_table = lit ''e'',
     cp_target_engine = lit ''b'', cp_target_id = lit ''t'', cp_target_table = lit ''e'', cp_write_epoch = Some 3, cp_temporal = []\<rparr>"

abbreviation demo_ops :: "(pyval memory_engine, pyval) migratable" where
  "demo_ops \<equiv> memory_migratable (\<lambda>_. [])"


definition demo_stopped :: "(ustring, pyval memory_engine) dict" where
  "demo_stopped = (case backfill_one demo_ops py_values demo_copy 1 (Some 1) demo_engines of Some (r, es) \<Rightarrow> es | None \<Rightarrow> [])"

lemma demo_stopped_run:
  "\<exists>pr. backfill_one demo_ops py_values demo_copy 1 (Some 1) demo_engines = Some (Inr pr, demo_stopped)"
proof -
  have "case backfill_one demo_ops py_values demo_copy 1 (Some 1) demo_engines of Some (Inr pr, es) \<Rightarrow> True | _ \<Rightarrow> False"
    by code_simp
  then show ?thesis by (auto simp: demo_stopped_def split: option.splits prod.splits sum.splits)
qed

lemma demo_finished_run:
  "\<exists>pr es. backfill_one demo_ops py_values demo_copy 10 None demo_stopped = Some (Inr pr, es) \<and> ep_complete pr \<and>
     ep_rows_copied pr = 2 \<and> length (copy_target table_rows demo_copy es) = 2"
proof -
  have "case backfill_one demo_ops py_values demo_copy 10 None demo_stopped of
      Some (Inr pr, es) \<Rightarrow> ep_complete pr \<and> ep_rows_copied pr = 2 \<and> length (copy_target table_rows demo_copy es) = 2 | _ \<Rightarrow> False"
    by code_simp
  then show ?thesis by (auto split: option.splits prod.splits sum.splits)
qed

lemma demo_ready: "copy_ready py_values (memory_rank (\<lambda>_. [])) table_rows demo_copy demo_engines"
  by code_simp

lemma demo_carried: "copy_carried demo_ops py_values table_rows demo_copy demo_engines"
  by code_simp

text \<open>A group in the middle of a move between two in-memory engines.\<close>

definition demo_model :: logical_model where
  "demo_model = \<lparr>mentities = [\<lparr>ename = lit ''E'', efields = [\<lparr>fname = lit ''id'', ftype = lit ''int64'', fnullable = False\<rparr>],
       ekey = [lit ''id''], epii = [], eresidency = None\<rparr>],
     mrelations = [], matomic = [], mcost_ceiling = None, mir = PNone, mversion = lit ''1''\<rparr>"

definition demo_layout :: physical_layout where
  "demo_layout = \<lparr>tables = [(lit ''E'', lit ''e'')], columns = [(lit ''E'', [(lit ''id'', lit ''bigint''), (lit ''v'', lit ''text'')])],
     indexes = [], partition_by = [], key_order = []\<rparr>"

definition demo_map :: placement_map where
  "demo_map = \<lparr>pm_contract = 5, pm_model_version = lit ''1'', pm_map_version = 2,
     pm_groups = [(lit ''E'', \<lparr>gp_group = lit ''E'',
       gp_source = \<lparr>mat_id = lit ''s'', mat_engine = lit ''a'', mat_layout = demo_layout, mat_lag = None\<rparr>, gp_derived = [],
       gp_also_write = [\<lparr>mat_id = lit ''t'', mat_engine = lit ''b'', mat_layout = demo_layout, mat_lag = None\<rparr>],
       gp_write_epoch = Some 3\<rparr>)],
     pm_routing = [], pm_signed = False, pm_verified_with = None, pm_project_id = None, pm_fingerprint = None\<rparr>"

lemma demo_plan: "migration_plan demo_ops demo_model demo_map demo_stopped (lit ''E'') = Inr [demo_copy]"
  by code_simp

section \<open>Properties of a migration\<close>


text \<open>
  C18. A backfill returns and finishes. Over engines that answer, with rows the copy can carry, one call
  without a stop ends, reports the copy complete with as many rows as the source has, leaves that
  number in the marker and every row of the source in the copy.
\<close>

theorem backfill_completes:
  assumes "reliable_store ops vo rank content" "copy_ready vo rank content cp engines" "copy_marker ops cp engines = Inr 0"
    and "0 < n" "copy_carried ops vo content cp engines"
  shows "\<exists>pr engines'. backfill_one ops vo cp n None engines = Some (Inr pr, engines') \<and> ep_complete pr \<and>
    ep_rows_copied pr = int (length (copy_source content cp engines)) \<and>
    copy_marker ops cp engines' = Inr (int (length (copy_source content cp engines))) \<and>
    (\<forall>r \<in> set (copy_source content cp engines). holds_row vo (copy_target content cp engines') (payload_row vo cp r))"
  by (rule reliable_store.backfill_one_returns [OF assms])


text \<open>
  C17. A verification ends, and a report that matches is a proof: every row of the source of every copy
  of the plan is held by the copy, it matches exactly when it names no difference, it names at most
  \<open>DIFFERENCES_KEPT\<close> and each of them is a real one, and its counts are those of the two sides.
\<close>

theorem verify_proves_the_copy:
  assumes "comparing_store ops vo rank content" "migration_plan ops m pm engines g = Inr cps"
    and "\<forall>cp \<in> set cps. copy_keys_distinct vo rank content engines cp"
  shows "\<exists>r. verify ops vo m pm project_id engines g n request given now = Some r \<and>
    (\<forall>report. r = Inr report \<longrightarrow>
       (matched report \<longrightarrow> (\<forall>cp \<in> set cps. \<forall>r \<in> set (copy_source content cp engines). copy_holds vo content cp engines r)) \<and>
       (matched report \<longleftrightarrow> vt_differences (vp_tally report) = []) \<and>
       length (vt_differences (vp_tally report)) \<le> DIFFERENCES_KEPT \<and>
       (\<forall>d \<in> set (vt_differences (vp_tally report)). \<exists>cp \<in> set cps. real_difference vo content cp engines d) \<and>
       vt_rows_source (vp_tally report) = (\<Sum>cp\<leftarrow>cps. length (copy_source content cp engines)) \<and>
       vt_rows_target (vp_tally report) = (\<Sum>cp\<leftarrow>cps. length (copy_target content cp engines)))"
proof -
  obtain r where r: "verify ops vo m pm project_id engines g n request given now = Some r"
    "\<forall>report. r = Inr report \<longrightarrow> comparing_store.group_compared vo content engines cps empty_tally (vp_tally report)"
    using verify_outcome [OF assms(1), of m pm engines g project_id n request given now] assms(2,3) by auto
  have "matched report = clean (vp_tally report)" for report :: "'b verify_report" by (simp add: matched_def clean_def)
  then show ?thesis
    using r tally_ok_empty unfolding comparing_store.group_compared_def [OF assms(1)]
    by (intro exI [of _ r]) (auto simp: tally_ok_def empty_tally_def)
qed


theorem backfill_completes_witness:
  "\<exists>pr es. backfill_one demo_ops py_values demo_copy 1 None demo_engines = Some (Inr pr, es) \<and> ep_complete pr \<and> ep_rows_copied pr = 2"
proof -
  have "copy_marker demo_ops demo_copy demo_engines = Inr 0" "length (copy_source table_rows demo_copy demo_engines) = 2"
    by code_simp+
  then show ?thesis
    using backfill_completes [OF memory.reliable_store_axioms demo_ready _ zero_less_one demo_carried] by auto
qed


theorem verify_proves_the_copy_witness:
  "\<exists>report. verify demo_ops py_values demo_model demo_map None demo_stopped (lit ''E'') 10 None None [] = Some (Inr report) \<and>
     \<not> matched report \<and> vt_differences (vp_tally report) \<noteq> [] \<and>
     (\<forall>d \<in> set (vt_differences (vp_tally report)). real_difference py_values table_rows demo_copy demo_stopped d)"
proof -
  have run: "case verify demo_ops py_values demo_model demo_map None demo_stopped (lit ''E'') 10 None None [] of
      Some (Inr report) \<Rightarrow> \<not> matched report | _ \<Rightarrow> False"
    by code_simp
  have "\<forall>cp \<in> set [demo_copy]. copy_keys_distinct py_values (memory_rank (\<lambda>_. [])) table_rows demo_stopped cp"
    by code_simp
  from verify_proves_the_copy [OF memory.comparing_store_axioms demo_plan this, of None 10 None None "[]"] run show ?thesis
    by (auto split: option.splits sum.splits)
qed

end
