(* ===== verification/Fence.thy ===== *)
theory Fence
  imports Placement
begin

text \<open>
  Write generations kept by the engine itself (\<open>write_fence.py\<close>): a table carries named CHECK
  constraints in a reserved namespace, a hold closes it to every write, and a minimum and a maximum
  bound the generation a write may carry. \<open>PostgresFences\<close> of \<open>engines/_write_fences.py\<close> is the
  backend modelled here.

  Several executors may run commands against one table, and any of them may stop at any statement. A
  command is therefore a program of statements, \<open>fence_prog\<close>, with what the statement answers bound
  in the rest; a backend call is the program of the statements it sends. What the server answers
  for a constraint (\<open>pg_get_constraintdef\<close>) is a parameter, \<open>deparse\<close>.
\<close>

section \<open>Metadata and state\<close>

datatype fence_error = FenceRefused string | FenceEngine string | FenceValueError

abbreviation fence_refused :: "string \<Rightarrow> fence_error + 'a" where
  "fence_refused what \<equiv> Inl (FenceRefused what)"

datatype column_state = Absent | Valid | Conflict

record fence_metadata =
  fm_identity :: ustring
  fm_column :: column_state
  fm_constraints :: "(ustring, ustring) dict"

definition FENCE_PREFIX :: ustring where
  "FENCE_PREFIX = lit ''__sde_f_''"

definition SETUP :: ustring where
  "SETUP = FENCE_PREFIX @ lit ''setup''"

text \<open>\<open>check_epoch\<close>: an integral float is the integer it equals.\<close>

fun check_epoch :: "pyval \<Rightarrow> fence_error + int" where
  "check_epoch (PInt i) =
     (if 1 \<le> i \<and> i \<le> MAX_EPOCH then Inr i else fence_refused ''write epoch must be a positive safe integer'')"
| "check_epoch (PFloat (Finite r)) =
     (if 1 \<le> r \<and> r \<le> of_int MAX_EPOCH \<and> of_int \<lfloor>r\<rfloor> = r then Inr \<lfloor>r\<rfloor>
      else fence_refused ''write epoch must be a positive safe integer'')"
| "check_epoch _ = fence_refused ''write epoch must be a positive safe integer''"

definition check_identity :: "ustring \<Rightarrow> fence_error + unit" where
  "check_identity value_text = require (hex_text 32 value_text) (FenceRefused ''must be 32 lowercase hexadecimal digits'')"

section \<open>Predicates read back\<close>

text \<open>\<open>re.sub(r"\s+NOT\s+VALID$", "", value)\<close> of a stripped text\<close>

definition strip_not_valid :: "unicode \<Rightarrow> ustring \<Rightarrow> ustring" where
  "strip_not_valid u s =
     (let r = rev s; r1 = drop 5 r; r2 = dropWhile (uspace u) r1; r3 = drop 3 r2
      in if starts_with r (rev (lit ''VALID'')) \<and> r2 \<noteq> r1 \<and> starts_with r2 (rev (lit ''NOT'')) \<and> dropWhile (uspace u) r3 \<noteq> r3
         then rev (dropWhile (uspace u) r3) else s)"

text \<open>The loop over enclosing parentheses.\<close>

lemma length_strip: "length (strip u s) \<le> length s"
  unfolding strip_def by (metis le_trans length_dropWhile_le length_rev)

function unparenthesised :: "unicode \<Rightarrow> ustring \<Rightarrow> ustring" where
  "unparenthesised u s =
     (if 2 \<le> length s \<and> hd s = 40 \<and> last s = 41 then unparenthesised u (strip u (butlast (tl s))) else s)"
  by pat_completeness auto

termination
  by (relation "measure (length \<circ> snd)") (auto intro!: le_less_trans [OF length_strip])

declare unparenthesised.simps [simp del]

text \<open>The name of the generation column, bare or quoted; what follows it.\<close>

definition after_epoch_name :: "ustring \<Rightarrow> ustring option" where
  "after_epoch_name s =
     (if starts_with s (34 # EPOCH_COLUMN @ [34]) then Some (drop (length EPOCH_COLUMN + 2) s)
      else if starts_with s (96 # EPOCH_COLUMN @ [96]) then Some (drop (length EPOCH_COLUMN + 2) s)
      else if starts_with s EPOCH_COLUMN then Some (drop (length EPOCH_COLUMN) s) else None)"

text \<open>A decimal number, bare or written as a quoted bigint; what follows it.\<close>

definition read_bound :: "ustring \<Rightarrow> (ustring \<times> ustring) option" where
  "read_bound s =
     (let quoted = (s \<noteq> [] \<and> hd s = 39); r = (if quoted then tl s else s); ds = takeWhile is_digit r; rest = dropWhile is_digit r
      in if ds = [] then None
         else if quoted then (if starts_with rest (39 # lit ''::bigint'') then Some (ds, drop 9 rest) else None)
         else Some (ds, rest))"

definition spaces :: "unicode \<Rightarrow> ustring \<Rightarrow> ustring" where
  "spaces u = dropWhile (uspace u)"

definition opened :: "ustring \<Rightarrow> ustring" where
  "opened = dropWhile (\<lambda>c. c = 40)"

definition closed_off :: "ustring \<Rightarrow> ustring" where
  "closed_off = dropWhile (\<lambda>c. c = 41)"

text \<open>The \<open>re.fullmatch\<close> of \<open>_predicate\<close>: the comparison and the digits of its bound.\<close>

definition match_bound :: "unicode \<Rightarrow> ustring \<Rightarrow> (ustring \<times> ustring) option" where
  "match_bound u s =
     (case after_epoch_name (spaces u (opened s)) of
        None \<Rightarrow> None
      | Some r \<Rightarrow>
          (let r' = spaces u (closed_off (spaces u r)); comparison = take 2 r'
           in if comparison = lit ''>='' \<or> comparison = lit ''<='' then
                (case read_bound (spaces u (opened (spaces u (drop 2 r')))) of
                   None \<Rightarrow> None
                 | Some (ds, rest) \<Rightarrow> if closed_off (spaces u rest) = [] then Some (comparison, ds) else None)
              else None))"

definition unrecognized :: ustring where
  "unrecognized = lit ''<unrecognized>''"

definition predicate :: "unicode \<Rightarrow> ustring \<Rightarrow> fence_error + ustring" where
  "predicate u raw =
     (let v = strip u raw;
          v = (if starts_with v (lit ''CHECK'') then strip u (drop 5 v) else v);
          v = unparenthesised u (strip_not_valid u v)
      in if v = lit ''true'' \<or> v = lit ''1'' then Inr (lit ''1'')
         else if v = lit ''false'' \<or> v = lit ''0'' then Inr (lit ''0'')
         else case match_bound u v of
                None \<Rightarrow> Inr unrecognized
              | Some (comparison, ds) \<Rightarrow>
                  if length ds > int_max_str_digits then Inl FenceValueError
                  else Inr (EPOCH_COLUMN @ comparison @ nat_text (digits_value ds)))"

section \<open>The state a table's constraints spell\<close>

datatype fence_mark = Owner ustring | Retired ustring | Hold ustring | Minimum int | Maximum int

record fence_view =
  fs_identity :: ustring
  fs_project :: "ustring option"
  fs_column :: column_state
  fs_minimums :: "int list"
  fs_maximums :: "int list"
  fs_holds :: "ustring list"
  fs_retired :: "ustring list"

definition lower_epoch :: "fence_view \<Rightarrow> int option" where
  "lower_epoch s = (if fs_minimums s = [] then None else Some (Max (set (fs_minimums s))))"

definition upper_epoch :: "fence_view \<Rightarrow> int option" where
  "upper_epoch s = (if fs_maximums s = [] then None else Some (Min (set (fs_maximums s))))"

definition fence_complete :: "fence_view \<Rightarrow> bool" where
  "fence_complete s \<longleftrightarrow> fs_project s \<noteq> None \<and> fs_column s = Valid \<and> fs_minimums s \<noteq> [] \<and> fs_maximums s \<noteq> []"

definition fence_closed :: "fence_view \<Rightarrow> bool" where
  "fence_closed s \<longleftrightarrow> fs_holds s \<noteq> [] \<or>
     (case (lower_epoch s, upper_epoch s) of (Some low, Some high) \<Rightarrow> low > high | _ \<Rightarrow> False)"

definition fence_epoch :: "fence_view \<Rightarrow> int option" where
  "fence_epoch s = (if fence_complete s \<and> lower_epoch s = upper_epoch s then lower_epoch s else None)"

text \<open>\<open>(?:min|max)_[1-9][0-9]*\<close>\<close>

definition is_bound_suffix :: "ustring \<Rightarrow> bool" where
  "is_bound_suffix s \<longleftrightarrow> (starts_with s (lit ''min_'') \<or> starts_with s (lit ''max_'')) \<and>
     (case drop 4 s of [] \<Rightarrow> False | c # _ \<Rightarrow> 49 \<le> c \<and> c \<le> 57) \<and> list_all is_digit (drop 4 s)"

definition bound_mark :: "ustring \<Rightarrow> fence_error + fence_mark \<times> ustring" where
  "bound_mark suffix =
     (if length (drop 4 suffix) > int_max_str_digits then Inl FenceValueError
      else and_then (check_epoch (PInt (int (digits_value (drop 4 suffix))))) (\<lambda>n.
             if starts_with suffix (lit ''min_'') then Inr (Minimum n, EPOCH_COLUMN @ lit ''>='' @ int_text n)
             else Inr (Maximum n, EPOCH_COLUMN @ lit ''<='' @ int_text n)))"

text \<open>What a suffix in the reserved namespace names, and the predicate it must have.\<close>

definition classify :: "ustring \<Rightarrow> fence_error + fence_mark \<times> ustring" where
  "classify suffix =
     (if starts_with suffix (lit ''owner_'') \<and> hex_text 32 (drop 6 suffix) then Inr (Owner (drop 6 suffix), lit ''1'')
      else if starts_with suffix (lit ''retired_'') \<and> hex_text 32 (drop 8 suffix) then Inr (Retired (drop 8 suffix), lit ''1'')
      else if suffix = lit ''setup'' then Inr (Hold (lit ''setup''), lit ''0'')
      else if starts_with suffix (lit ''hold_'') \<and> hex_text 32 (drop 5 suffix) then Inr (Hold (drop 5 suffix), lit ''0'')
      else if is_bound_suffix suffix then bound_mark suffix
      else fence_refused ''unrecognized constraint in the reserved write-fence namespace'')"

definition read_mark :: "unicode \<Rightarrow> ustring \<times> ustring \<Rightarrow> fence_error + fence_mark list" where
  "read_mark u = (\<lambda>(name, raw).
     if \<not> starts_with name FENCE_PREFIX then Inr []
     else and_then (predicate u raw) (\<lambda>p.
          and_then (classify (drop (length FENCE_PREFIX) name)) (\<lambda>(mark, expected).
          and_then (require (p = expected) (FenceRefused ''unexpected predicate'')) (\<lambda>_. Inr [mark]))))"

fun owner_of :: "fence_mark \<Rightarrow> ustring option" where
  "owner_of (Owner p) = Some p"
| "owner_of _ = None"

fun retired_of :: "fence_mark \<Rightarrow> ustring option" where
  "retired_of (Retired r) = Some r"
| "retired_of _ = None"

fun hold_of :: "fence_mark \<Rightarrow> ustring option" where
  "hold_of (Hold h) = Some h"
| "hold_of _ = None"

fun minimum_of :: "fence_mark \<Rightarrow> int option" where
  "minimum_of (Minimum n) = Some n"
| "minimum_of _ = None"

fun maximum_of :: "fence_mark \<Rightarrow> int option" where
  "maximum_of (Maximum n) = Some n"
| "maximum_of _ = None"

definition fence_state :: "unicode \<Rightarrow> fence_metadata \<Rightarrow> fence_error + fence_view" where
  "fence_state u m =
     and_then (traverse (read_mark u) (sort_key fst (fm_constraints m))) (\<lambda>mss.
       let marks = concat mss; owners = List.map_filter owner_of marks
       in if length owners > 1 then fence_refused ''write fences from more than one project''
          else if owners = [] \<and> marks \<noteq> [] then fence_refused ''write fence constraints have no project owner''
          else Inr \<lparr>fs_identity = fm_identity m, fs_project = (if owners = [] then None else Some (hd owners)),
                    fs_column = fm_column m, fs_minimums = sort (List.map_filter minimum_of marks),
                    fs_maximums = sort (List.map_filter maximum_of marks), fs_holds = sort (List.map_filter hold_of marks),
                    fs_retired = sort (List.map_filter retired_of marks)\<rparr>)"

section \<open>Programs of statements\<close>

datatype 'r fence_prog =
    Return 'r
  | Raise fence_error
  | Catalogue "fence_metadata \<Rightarrow> 'r fence_prog"
  | LockCatalogue "fence_metadata \<Rightarrow> 'r fence_prog"
  | AlterColumn "'r fence_prog"
  | AlterAdd ustring ustring "'r fence_prog"
  | AlterDrop ustring "'r fence_prog"

primrec pbind :: "'a fence_prog \<Rightarrow> ('a \<Rightarrow> 'b fence_prog) \<Rightarrow> 'b fence_prog" where
  "pbind (Return r) k = k r"
| "pbind (Raise e) k = Raise e"
| "pbind (Catalogue f) k = Catalogue (\<lambda>m. pbind (f m) k)"
| "pbind (LockCatalogue f) k = LockCatalogue (\<lambda>m. pbind (f m) k)"
| "pbind (AlterColumn p) k = AlterColumn (pbind p k)"
| "pbind (AlterAdd name expr p) k = AlterAdd name expr (pbind p k)"
| "pbind (AlterDrop name p) k = AlterDrop name (pbind p k)"

text \<open>A pure check between two statements.\<close>

definition checked :: "fence_error + 'a \<Rightarrow> ('a \<Rightarrow> 'b fence_prog) \<Rightarrow> 'b fence_prog" where
  "checked r k = (case r of Inl e \<Rightarrow> Raise e | Inr x \<Rightarrow> k x)"

record fence_backend =
  fb_metadata :: "fence_metadata fence_prog"
  fb_add_column :: "unit fence_prog"
  fb_add_constraint :: "ustring \<Rightarrow> ustring \<Rightarrow> unit fence_prog"
  fb_drop_constraint :: "ustring \<Rightarrow> unit fence_prog"
  fb_drain :: "ustring \<Rightarrow> ustring \<Rightarrow> unit fence_prog"
  fb_restore :: "ustring \<Rightarrow> ustring \<Rightarrow> unit fence_prog"

definition fence_held :: "unicode \<Rightarrow> fence_metadata \<Rightarrow> ustring \<Rightarrow> ustring \<Rightarrow> fence_error + unit" where
  "fence_held u m project_id hold =
     and_then (fence_state u m) (\<lambda>s.
       require (fs_project s = Some project_id \<and> hold \<in> set (fs_holds s))
         (FenceRefused ''the requested project's write barrier is not installed''))"

definition postgres_expression :: "ustring \<Rightarrow> ustring" where
  "postgres_expression expr = (if expr = lit ''1'' then lit ''true'' else if expr = lit ''0'' then lit ''false'' else expr)"

definition postgres_fences :: "unicode \<Rightarrow> fence_backend" where
  "postgres_fences u =
     \<lparr>fb_metadata = Catalogue Return,
      fb_add_column = AlterColumn (Return ()),
      fb_add_constraint = (\<lambda>name expr. Catalogue (\<lambda>m.
        if name \<in> set (keys (fm_constraints m)) then Return () else AlterAdd name (postgres_expression expr) (Return ()))),
      fb_drop_constraint = (\<lambda>name. AlterDrop name (Return ())),
      fb_drain = (\<lambda>project_id hold. LockCatalogue (\<lambda>m. checked (fence_held u m project_id hold) Return)),
      fb_restore = (\<lambda>project_id hold. Catalogue (\<lambda>m. checked (fence_held u m project_id hold) Return))\<rparr>"

section \<open>The commands of a write fence\<close>

definition check_fence :: "ustring \<Rightarrow> ustring \<Rightarrow> fence_error + unit" where
  "check_fence table project_id =
     and_then (check_identity project_id) (\<lambda>_.
     and_then (require (table \<noteq> [] \<and> 0 \<notin> set table) (FenceRefused ''write fence table must be a nonempty identifier'')) (\<lambda>_.
       require (table \<notin> {DRAIN_TABLE, BACKFILL_TABLE, WATERMARK_TABLE})
         (FenceRefused ''write fences cannot take over an SDK metadata table'')))"

definition owned_state :: "unicode \<Rightarrow> ustring \<Rightarrow> fence_metadata \<Rightarrow> fence_error + fence_view" where
  "owned_state u project_id m =
     and_then (fence_state u m) (\<lambda>s.
     and_then (require (fs_project s = None \<or> fs_project s = Some project_id)
       (FenceRefused ''the write fence belongs to another project'')) (\<lambda>_.
     and_then (require (fs_column s \<noteq> Conflict) (FenceRefused ''an incompatible write-epoch column'')) (\<lambda>_. Inr s)))"

definition wf_state :: "unicode \<Rightarrow> fence_backend \<Rightarrow> ustring \<Rightarrow> fence_view fence_prog" where
  "wf_state u be project_id = pbind (fb_metadata be) (\<lambda>m. checked (owned_state u project_id m) Return)"

definition wf_ready :: "unicode \<Rightarrow> fence_backend \<Rightarrow> ustring \<Rightarrow> fence_view fence_prog" where
  "wf_ready u be project_id =
     pbind (wf_state u be project_id) (\<lambda>s.
       if fence_complete s then Return s else Raise (FenceRefused ''the write fence is not fully provisioned''))"

definition mark_name :: "string \<Rightarrow> ustring \<Rightarrow> ustring" where
  "mark_name kind suffix = FENCE_PREFIX @ lit kind @ suffix"

text \<open>\<open>for old in ...: if old < epoch: drop\<close>\<close>

fun drop_older :: "fence_backend \<Rightarrow> string \<Rightarrow> int \<Rightarrow> int list \<Rightarrow> unit fence_prog" where
  "drop_older be kind e [] = Return ()"
| "drop_older be kind e (old # olds) =
     (if old < e then pbind (fb_drop_constraint be (mark_name kind (int_text old))) (\<lambda>_. drop_older be kind e olds)
      else drop_older be kind e olds)"

definition wf_bounds :: "unicode \<Rightarrow> fence_backend \<Rightarrow> ustring \<Rightarrow> int \<Rightarrow> unit fence_prog" where
  "wf_bounds u be project_id e =
     pbind (fb_add_constraint be (mark_name ''min_'' (int_text e)) (EPOCH_COLUMN @ lit '' >= '' @ int_text e)) (\<lambda>_.
     pbind (fb_add_constraint be (mark_name ''max_'' (int_text e)) (EPOCH_COLUMN @ lit '' <= '' @ int_text e)) (\<lambda>_.
     pbind (wf_state u be project_id) (\<lambda>s.
       if (case lower_epoch s of None \<Rightarrow> False | Some low \<Rightarrow> low > e)
       then Raise (FenceRefused ''another executor installed a newer write epoch; table stays closed'')
       else pbind (drop_older be ''max_'' e (fs_maximums s)) (\<lambda>_. drop_older be ''min_'' e (fs_minimums s)))))"

text \<open>The second half of \<open>prepare\<close>, from the first statement that changes the table.\<close>

definition wf_provision :: "unicode \<Rightarrow> fence_backend \<Rightarrow> ustring \<Rightarrow> bool \<Rightarrow> int \<Rightarrow> fence_view fence_prog" where
  "wf_provision u be project_id unowned e =
     pbind (if unowned then fb_add_constraint be (mark_name ''owner_'' project_id) (lit ''1'') else Return ()) (\<lambda>_.
     pbind (fb_add_constraint be SETUP (lit ''0'')) (\<lambda>_.
     pbind (fb_add_column be) (\<lambda>_.
     pbind (wf_bounds u be project_id e) (\<lambda>_.
     pbind (fb_drain be project_id (lit ''setup'')) (\<lambda>_.
     pbind (fb_drop_constraint be SETUP) (\<lambda>_. wf_ready u be project_id))))))"

definition wf_prepare :: "unicode \<Rightarrow> fence_backend \<Rightarrow> ustring \<Rightarrow> pyval \<Rightarrow> fence_view fence_prog" where
  "wf_prepare u be project_id given =
     checked (check_epoch given) (\<lambda>e.
     pbind (wf_state u be project_id) (\<lambda>s.
       if fence_complete s \<and> lit ''setup'' \<notin> set (fs_holds s) then
         (if fence_epoch s \<noteq> Some e then Raise (FenceRefused ''provisioning cannot change an existing write epoch'') else Return s)
       else if fs_project s = None \<and> fs_column s \<noteq> Absent
       then Raise (FenceRefused ''the reserved write-epoch column is not owned by this project'')
       else if (case lower_epoch s of None \<Rightarrow> False | Some low \<Rightarrow> low > e)
       then Raise (FenceRefused ''a write epoch cannot move backwards'')
       else wf_provision u be project_id (fs_project s = None) e))"

definition wf_freeze :: "unicode \<Rightarrow> fence_backend \<Rightarrow> ustring \<Rightarrow> ustring \<Rightarrow> fence_view fence_prog" where
  "wf_freeze u be project_id request_id =
     checked (check_identity request_id) (\<lambda>_.
     pbind (wf_ready u be project_id) (\<lambda>s.
       if request_id \<in> set (fs_retired s) then Raise (FenceRefused ''a completed write barrier id cannot be reused'')
       else
         pbind (fb_add_constraint be (mark_name ''hold_'' request_id) (lit ''0'')) (\<lambda>_.
         pbind (fb_drain be project_id request_id) (\<lambda>_. wf_ready u be project_id))))"

definition wf_resume :: "unicode \<Rightarrow> fence_backend \<Rightarrow> ustring \<Rightarrow> ustring \<Rightarrow> fence_view fence_prog" where
  "wf_resume u be project_id request_id =
     checked (check_identity request_id) (\<lambda>_.
     pbind (fb_restore be project_id request_id) (\<lambda>_. wf_freeze u be project_id request_id))"

definition wf_resume_prepare :: "unicode \<Rightarrow> fence_backend \<Rightarrow> ustring \<Rightarrow> pyval \<Rightarrow> fence_view fence_prog" where
  "wf_resume_prepare u be project_id given =
     checked (check_epoch given) (\<lambda>e.
     pbind (fb_restore be project_id (lit ''setup'')) (\<lambda>_. wf_prepare u be project_id (PInt e)))"

definition wf_advance :: "unicode \<Rightarrow> fence_backend \<Rightarrow> ustring \<Rightarrow> pyval \<Rightarrow> fence_view fence_prog" where
  "wf_advance u be project_id given =
     checked (check_epoch given) (\<lambda>e.
     pbind (wf_ready u be project_id) (\<lambda>s.
       if fs_holds s = [] then Raise (FenceRefused ''changing a write epoch needs a named write barrier'')
       else if (case lower_epoch s of None \<Rightarrow> False | Some low \<Rightarrow> e < low)
       then Raise (FenceRefused ''a write epoch cannot move backwards'')
       else pbind (wf_bounds u be project_id e) (\<lambda>_. wf_ready u be project_id)))"

definition wf_release :: "unicode \<Rightarrow> fence_backend \<Rightarrow> ustring \<Rightarrow> ustring \<Rightarrow> fence_view fence_prog" where
  "wf_release u be project_id request_id =
     checked (check_identity request_id) (\<lambda>_.
     pbind (wf_ready u be project_id) (\<lambda>s.
       if fence_epoch s = None then Raise (FenceRefused ''cannot release a barrier with an incomplete epoch change'')
       else if request_id \<notin> set (fs_holds s) then Return s
       else
         pbind (fb_add_constraint be (mark_name ''retired_'' request_id) (lit ''1'')) (\<lambda>_.
         pbind (fb_drop_constraint be (mark_name ''hold_'' request_id)) (\<lambda>_. wf_ready u be project_id))))"

datatype fence_command =
    PrepareFence pyval
  | FreezeFence ustring
  | ResumeFence ustring
  | ResumePrepare pyval
  | AdvanceFence pyval
  | ReleaseFence ustring

fun command_prog :: "unicode \<Rightarrow> fence_backend \<Rightarrow> ustring \<Rightarrow> fence_command \<Rightarrow> fence_view fence_prog" where
  "command_prog u be project_id (PrepareFence e) = wf_prepare u be project_id e"
| "command_prog u be project_id (FreezeFence r) = wf_freeze u be project_id r"
| "command_prog u be project_id (ResumeFence r) = wf_resume u be project_id r"
| "command_prog u be project_id (ResumePrepare e) = wf_resume_prepare u be project_id e"
| "command_prog u be project_id (AdvanceFence e) = wf_advance u be project_id e"
| "command_prog u be project_id (ReleaseFence r) = wf_release u be project_id r"

section \<open>A table with CHECK constraints\<close>

text \<open>
  The constraints as they were declared. A write with a generation is admitted when every constraint
  of the reserved namespace holds for it.
\<close>

record fence_table =
  ft_identity :: ustring
  ft_column :: column_state
  ft_constraints :: "(ustring, ustring) dict"

definition catalogue :: "(ustring \<Rightarrow> ustring) \<Rightarrow> fence_table \<Rightarrow> fence_metadata" where
  "catalogue deparse t =
     \<lparr>fm_identity = ft_identity t, fm_column = ft_column t, fm_constraints = map (apsnd deparse) (ft_constraints t)\<rparr>"

definition check_holds :: "ustring \<Rightarrow> int \<Rightarrow> bool" where
  "check_holds expr e \<longleftrightarrow>
     expr \<noteq> lit ''false'' \<and>
     (starts_with expr (EPOCH_COLUMN @ lit '' >= '') \<longrightarrow> int (digits_value (drop (length EPOCH_COLUMN + 4) expr)) \<le> e) \<and>
     (starts_with expr (EPOCH_COLUMN @ lit '' <= '') \<longrightarrow> e \<le> int (digits_value (drop (length EPOCH_COLUMN + 4) expr)))"

definition admits :: "fence_table \<Rightarrow> int \<Rightarrow> bool" where
  "admits t e \<longleftrightarrow> (\<forall>(name, expr) \<in> set (ft_constraints t). starts_with name FENCE_PREFIX \<longrightarrow> check_holds expr e)"

text \<open>What a statement does: a constraint is added only under a new name, and dropped if it is there.\<close>

definition alter_add :: "ustring \<Rightarrow> ustring \<Rightarrow> fence_table \<Rightarrow> fence_error + fence_table" where
  "alter_add name expr t =
     (if name \<in> set (keys (ft_constraints t)) then Inl (FenceEngine ''a constraint of that name exists'')
      else Inr (t\<lparr>ft_constraints := ft_constraints t @ [(name, expr)]\<rparr>))"

definition alter_drop :: "ustring \<Rightarrow> fence_table \<Rightarrow> fence_table" where
  "alter_drop name t = t\<lparr>ft_constraints := AList.delete name (ft_constraints t)\<rparr>"

definition alter_column :: "fence_table \<Rightarrow> fence_table" where
  "alter_column t = (if ft_column t = Absent then t\<lparr>ft_column := Valid\<rparr> else t)"

text \<open>One command alone, from beginning to end.\<close>

primrec run_prog :: "(ustring \<Rightarrow> ustring) \<Rightarrow> 'r fence_prog \<Rightarrow> fence_table \<Rightarrow> (fence_error + 'r) \<times> fence_table" where
  "run_prog deparse (Return r) t = (Inr r, t)"
| "run_prog deparse (Raise e) t = (Inl e, t)"
| "run_prog deparse (Catalogue f) t = run_prog deparse (f (catalogue deparse t)) t"
| "run_prog deparse (LockCatalogue f) t = run_prog deparse (f (catalogue deparse t)) t"
| "run_prog deparse (AlterColumn p) t = run_prog deparse p (alter_column t)"
| "run_prog deparse (AlterAdd name expr p) t =
     (case alter_add name expr t of Inl e \<Rightarrow> (Inl e, t) | Inr t' \<Rightarrow> run_prog deparse p t')"
| "run_prog deparse (AlterDrop name p) t = run_prog deparse p (alter_drop name t)"

end
