(* ===== verification/FenceSafety.thy ===== *)
theory FenceSafety
  imports Fence
begin

text \<open>
  What a write fence keeps while several executors work on one table and any of them may stop
  between two statements. The state of the system is the table and the programs still running; the
  reasoning is a weakest precondition over programs that carries a lower bound of the table's minimum,
  knowledge other executors cannot take away.
\<close>

section \<open>Executors\<close>

text \<open>One statement of a program.\<close>

fun exec_statement :: "(ustring \<Rightarrow> ustring) \<Rightarrow> 'r fence_prog \<Rightarrow> fence_table \<Rightarrow> fence_table \<times> 'r fence_prog" where
  "exec_statement deparse (Return r) t = (t, Return r)"
| "exec_statement deparse (Raise e) t = (t, Raise e)"
| "exec_statement deparse (Catalogue f) t = (t, f (catalogue deparse t))"
| "exec_statement deparse (LockCatalogue f) t = (t, f (catalogue deparse t))"
| "exec_statement deparse (AlterColumn p) t = (alter_column t, p)"
| "exec_statement deparse (AlterAdd name expr p) t =
     (case alter_add name expr t of Inl e \<Rightarrow> (t, Raise e) | Inr t' \<Rightarrow> (t', p))"
| "exec_statement deparse (AlterDrop name p) t = (alter_drop name t, p)"

text \<open>
  Executors are given commands, perform statements in any order, and stop at any moment; a call whose
  answer was lost is a statement performed by an executor that then stopped.
\<close>

inductive executors ::
  "(ustring \<Rightarrow> ustring) \<Rightarrow> unicode \<Rightarrow> fence_backend \<Rightarrow> ustring \<Rightarrow> (fence_command \<Rightarrow> bool) \<Rightarrow>
     fence_table \<times> fence_view fence_prog list \<Rightarrow> fence_table \<times> fence_view fence_prog list \<Rightarrow> bool"
  for deparse u be project_id allowed start
where
  idle: "executors deparse u be project_id allowed start start"
| issue: "executors deparse u be project_id allowed start (t, ps) \<Longrightarrow> allowed c \<Longrightarrow>
    executors deparse u be project_id allowed start (t, command_prog u be project_id c # ps)"
| perform: "executors deparse u be project_id allowed start (t, ps @ p # qs) \<Longrightarrow> exec_statement deparse p t = (t', p') \<Longrightarrow>
    executors deparse u be project_id allowed start (t', ps @ p' # qs)"
| stop: "executors deparse u be project_id allowed start (t, ps @ p # qs) \<Longrightarrow>
    executors deparse u be project_id allowed start (t, ps @ qs)"

section \<open>Names in the reserved namespace\<close>

lemma mark_name_inject [simp]: "mark_name kind x = mark_name kind y \<longleftrightarrow> x = y"
  by (simp add: mark_name_def)

lemma mark_names_differ [simp]:
  "mark_name ''min_'' x \<noteq> mark_name ''max_'' y" "mark_name ''max_'' x \<noteq> mark_name ''min_'' y"
  "mark_name ''min_'' x \<noteq> mark_name ''hold_'' y" "mark_name ''hold_'' x \<noteq> mark_name ''min_'' y"
  "mark_name ''max_'' x \<noteq> mark_name ''hold_'' y" "mark_name ''hold_'' x \<noteq> mark_name ''max_'' y"
  "mark_name ''owner_'' x \<noteq> mark_name ''min_'' y" "mark_name ''owner_'' x \<noteq> mark_name ''hold_'' y"
  "mark_name ''retired_'' x \<noteq> mark_name ''min_'' y" "mark_name ''retired_'' x \<noteq> mark_name ''hold_'' y"
  "mark_name ''min_'' x \<noteq> mark_name ''retired_'' y" "mark_name ''max_'' x \<noteq> mark_name ''retired_'' y"
  "mark_name ''hold_'' x \<noteq> mark_name ''retired_'' y"
  "SETUP \<noteq> mark_name ''min_'' y" "SETUP \<noteq> mark_name ''hold_'' y" "SETUP \<noteq> mark_name ''retired_'' y"
  by (auto simp: mark_name_def SETUP_def lit_def)

lemma int_text_inject [simp]: "int_text i = int_text j \<longleftrightarrow> i = j"
  using int_text_prefix [of i "[]" j "[]"] by (auto simp: digit_free_def)

text \<open>The generations named by minimum constraints, and the highest of them, or zero.\<close>

definition minima :: "ustring list \<Rightarrow> int set" where
  "minima names = {n. 1 \<le> n \<and> mark_name ''min_'' (int_text n) \<in> set names}"

definition minimum :: "ustring list \<Rightarrow> int" where
  "minimum names = Max (insert 0 (minima names))"

lemma finite_minima [simp]: "finite (minima names)"
proof -
  have "inj_on (\<lambda>n. mark_name ''min_'' (int_text n)) (minima names)"
    by (rule inj_onI) (simp add: minima_def)
  moreover have "(\<lambda>n. mark_name ''min_'' (int_text n)) ` minima names \<subseteq> set names" by (auto simp: minima_def)
  ultimately show ?thesis using finite_imageD [OF finite_subset] by blast
qed

lemma minima_Nil [simp]: "minima [] = {}"
  by (simp add: minima_def)

lemma minima_append: "minima (xs @ ys) = minima xs \<union> minima ys"
  by (auto simp: minima_def)

lemma minimum_append: "minimum (xs @ ys) = max (minimum xs) (minimum ys)"
proof -
  have "insert 0 (minima (xs @ ys)) = insert 0 (minima xs) \<union> insert 0 (minima ys)" by (auto simp: minima_append)
  then show ?thesis unfolding minimum_def by (simp only: Max_Un finite_insert finite_minima insert_not_empty not_False_eq_True)
qed

lemma minimum_ge_0: "0 \<le> minimum names"
  by (simp add: minimum_def)

lemma minimum_member: "n \<in> minima names \<Longrightarrow> n \<le> minimum names"
  by (simp add: minimum_def)

lemma minimum_mono: "set xs \<subseteq> set ys \<Longrightarrow> minimum xs \<le> minimum ys"
proof -
  assume "set xs \<subseteq> set ys"
  then have "minima xs \<subseteq> minima ys" by (auto simp: minima_def)
  then show ?thesis unfolding minimum_def by (intro Max_mono) auto
qed

lemma minimum_in: "0 < minimum names \<Longrightarrow> minimum names \<in> minima names"
  using Max_in [of "insert 0 (minima names)"] by (auto simp: minimum_def)

lemma minimum_one [simp]: "1 \<le> n \<Longrightarrow> minimum [mark_name ''min_'' (int_text n)] = n"
proof -
  assume "1 \<le> n"
  then have "minima [mark_name ''min_'' (int_text n)] = {n}" by (auto simp: minima_def)
  then show ?thesis using \<open>1 \<le> n\<close> by (simp add: minimum_def)
qed

abbreviation table_minimum :: "fence_table \<Rightarrow> int" where
  "table_minimum t \<equiv> minimum (keys (ft_constraints t))"

abbreviation seen_minimum :: "fence_metadata \<Rightarrow> int" where
  "seen_minimum m \<equiv> minimum (keys (fm_constraints m))"

lemma seen_minimum_catalogue [simp]: "seen_minimum (catalogue deparse t) = table_minimum t"
  by (simp add: catalogue_def comp_def)

text \<open>A bound and a hold are what their names say.\<close>

definition proper :: "ustring \<Rightarrow> ustring \<Rightarrow> bool" where
  "proper name expr \<longleftrightarrow>
     (\<forall>n \<ge> 1. name = mark_name ''min_'' (int_text n) \<longrightarrow> expr = EPOCH_COLUMN @ lit '' >= '' @ int_text n) \<and>
     (\<forall>r. name = mark_name ''hold_'' r \<longrightarrow> expr = lit ''false'')"

definition well_named :: "fence_table \<Rightarrow> bool" where
  "well_named t \<longleftrightarrow> (\<forall>(name, expr) \<in> set (ft_constraints t). proper name expr)"

lemma properI:
  "proper (mark_name ''min_'' (int_text n)) (EPOCH_COLUMN @ lit '' >= '' @ int_text n)"
  "proper (mark_name ''max_'' x) expr" "proper (mark_name ''owner_'' x) expr" "proper (mark_name ''retired_'' x) expr"
  "proper SETUP expr" "proper (mark_name ''hold_'' x) (lit ''false'')"
  by (auto simp: proper_def)

section \<open>What a program may do, knowing a minimum\<close>

primrec fence_wp :: "int \<Rightarrow> 'r fence_prog \<Rightarrow> (int \<Rightarrow> 'r \<Rightarrow> bool) \<Rightarrow> bool" where
  "fence_wp low (Return r) Q \<longleftrightarrow> Q low r"
| "fence_wp low (Raise e) Q \<longleftrightarrow> True"
| "fence_wp low (Catalogue f) Q \<longleftrightarrow> (\<forall>m. low \<le> seen_minimum m \<longrightarrow> fence_wp (seen_minimum m) (f m) Q)"
| "fence_wp low (LockCatalogue f) Q \<longleftrightarrow> (\<forall>m. low \<le> seen_minimum m \<longrightarrow> fence_wp (seen_minimum m) (f m) Q)"
| "fence_wp low (AlterColumn p) Q \<longleftrightarrow> fence_wp low p Q"
| "fence_wp low (AlterAdd name expr p) Q \<longleftrightarrow> proper name expr \<and> fence_wp (max low (minimum [name])) p Q"
| "fence_wp low (AlterDrop name p) Q \<longleftrightarrow>
     (\<forall>n \<ge> 1. name = mark_name ''min_'' (int_text n) \<longrightarrow> n < low) \<and> fence_wp low p Q"

lemma fence_wp_pbind [simp]: "fence_wp low (pbind p k) Q \<longleftrightarrow> fence_wp low p (\<lambda>low' r. fence_wp low' (k r) Q)"
  by (induction p arbitrary: low) auto

lemma fence_wp_seen:
  assumes "\<forall>m. low \<le> seen_minimum m \<longrightarrow> fence_wp (seen_minimum m) (f m) Q" "low \<le> table_minimum t"
  shows "fence_wp (table_minimum t) (f (catalogue deparse t)) Q"
  using assms(1) [rule_format, of "catalogue deparse t"] assms(2) unfolding seen_minimum_catalogue by blast

lemma fence_wp_checked: "(\<And>x. r = Inr x \<Longrightarrow> fence_wp low (k x) Q) \<Longrightarrow> fence_wp low (checked r k) Q"
  by (cases r) (auto simp: checked_def)

text \<open>Every program still running keeps to the table's minimum.\<close>

definition keeps_minimum :: "fence_table \<times> 'r fence_prog list \<Rightarrow> bool" where
  "keeps_minimum s \<longleftrightarrow> well_named (fst s) \<and>
     (\<forall>p \<in> set (snd s). \<exists>low \<le> table_minimum (fst s). fence_wp low p (\<lambda>_ _. True))"

text \<open>The contract of a backend: a call runs no statement but its own.\<close>

locale guarded_backend =
  fixes be :: fence_backend
  assumes metadata_wp: "(\<And>low' m. low \<le> low' \<Longrightarrow> Q1 low' m) \<Longrightarrow> fence_wp low (fb_metadata be) Q1"
    and add_column_wp: "(\<And>low'. low \<le> low' \<Longrightarrow> Q low' ()) \<Longrightarrow> fence_wp low (fb_add_column be) Q"
    and add_constraint_wp: "proper name (postgres_expression expr) \<Longrightarrow>
      (\<And>low'. low \<le> low' \<Longrightarrow> minimum [name] \<le> low' \<Longrightarrow> Q low' ()) \<Longrightarrow> fence_wp low (fb_add_constraint be name expr) Q"
    and drop_constraint_wp: "\<forall>n \<ge> 1. name = mark_name ''min_'' (int_text n) \<longrightarrow> n < low \<Longrightarrow>
      (\<And>low'. low \<le> low' \<Longrightarrow> Q low' ()) \<Longrightarrow> fence_wp low (fb_drop_constraint be name) Q"
    and drain_wp: "(\<And>low'. low \<le> low' \<Longrightarrow> Q low' ()) \<Longrightarrow> fence_wp low (fb_drain be project_id hold) Q"
    and restore_wp: "(\<And>low'. low \<le> low' \<Longrightarrow> Q low' ()) \<Longrightarrow> fence_wp low (fb_restore be project_id hold) Q"
begin

lemmas backend_wp = metadata_wp add_column_wp drain_wp restore_wp

lemma state_wp: "(\<And>low' s. low \<le> low' \<Longrightarrow> Q low' s) \<Longrightarrow> fence_wp low (wf_state u be project_id) Q"
  unfolding wf_state_def by (simp, rule metadata_wp, rule fence_wp_checked) simp

lemma ready_wp: "(\<And>low' s. low \<le> low' \<Longrightarrow> Q low' s) \<Longrightarrow> fence_wp low (wf_ready u be project_id) Q"
  unfolding wf_ready_def by (simp, rule state_wp) simp

lemma drop_older_wp:
  assumes "kind = ''max_'' \<or> kind = ''min_'' \<and> e \<le> low" "\<And>low'. low \<le> low' \<Longrightarrow> Q low' ()"
  shows "fence_wp low (drop_older be kind e olds) Q"
  using assms
proof (induction olds arbitrary: low)
  case (Cons old olds)
  have rest: "fence_wp low' (drop_older be kind e olds) Q" if "low \<le> low'" for low'
    by (rule Cons.IH) (use Cons.prems that in \<open>auto intro: order_trans\<close>)
  show ?case
  proof (cases "old < e")
    case True
    have "fence_wp low (fb_drop_constraint be (mark_name kind (int_text old))) (\<lambda>low' r. fence_wp low' (drop_older be kind e olds) Q)"
    proof (rule drop_constraint_wp [OF _ rest])
      show "\<forall>n \<ge> 1. mark_name kind (int_text old) = mark_name ''min_'' (int_text n) \<longrightarrow> n < low"
        using Cons.prems(1) True by auto
    qed
    then show ?thesis using True by simp
  next
    case False
    then show ?thesis using rest by simp
  qed
qed simp

lemma bounds_wp:
  assumes "1 \<le> e" "\<And>low'. low \<le> low' \<Longrightarrow> Q low' ()"
  shows "fence_wp low (wf_bounds u be project_id e) Q"
proof -
  have expr: "postgres_expression (EPOCH_COLUMN @ x) = EPOCH_COLUMN @ x" for x
    by (auto simp: postgres_expression_def EPOCH_COLUMN_def lit_def)
  have drops: "fence_wp low' (drop_older be ''max_'' e maxs) (\<lambda>low'' r. fence_wp low'' (drop_older be ''min_'' e mins) Q)"
    if "low \<le> low'" "e \<le> low'" for low' maxs mins
    by (rule drop_older_wp, simp, rule drop_older_wp) (use that assms(2) in auto)
  show ?thesis
    unfolding wf_bounds_def fence_wp_pbind
  proof (rule add_constraint_wp)
    show "proper (mark_name ''min_'' (int_text e)) (postgres_expression (EPOCH_COLUMN @ lit '' >= '' @ int_text e))"
      by (simp add: expr properI)
    fix low1 assume low1: "low \<le> low1" "minimum [mark_name ''min_'' (int_text e)] \<le> low1"
    show "fence_wp low1 (fb_add_constraint be (mark_name ''max_'' (int_text e)) (EPOCH_COLUMN @ lit '' <= '' @ int_text e))
      (\<lambda>low2 r. fence_wp low2 (wf_state u be project_id) (\<lambda>low3 s. fence_wp low3
        (if (case lower_epoch s of None \<Rightarrow> False | Some low \<Rightarrow> low > e)
         then Raise (FenceRefused ''another executor installed a newer write epoch; table stays closed'')
         else pbind (drop_older be ''max_'' e (fs_maximums s)) (\<lambda>_. drop_older be ''min_'' e (fs_minimums s))) Q))"
    proof (rule add_constraint_wp [OF properI(2)], rule state_wp)
      fix low2 low3 s
      assume "low1 \<le> low2" "low2 \<le> low3"
      then have "low \<le> low3" "e \<le> low3" using low1 minimum_one [OF assms(1)] by simp_all
      then show "fence_wp low3
        (if (case lower_epoch s of None \<Rightarrow> False | Some low \<Rightarrow> low > e)
         then Raise (FenceRefused ''another executor installed a newer write epoch; table stays closed'')
         else pbind (drop_older be ''max_'' e (fs_maximums s)) (\<lambda>_. drop_older be ''min_'' e (fs_minimums s))) Q"
        using drops by simp
    qed
  qed
qed

lemma check_epoch_positive: "check_epoch v = Inr e \<Longrightarrow> 1 \<le> e"
  by (induction v rule: check_epoch.induct) (auto simp: le_floor_iff split: if_splits)

lemma provision_wp: "1 \<le> e \<Longrightarrow> fence_wp low (wf_provision u be project_id unowned e) (\<lambda>_ _. True)"
proof -
  assume e: "1 \<le> e"
  have tail: "fence_wp low' (fb_add_constraint be SETUP (lit ''0'')) (\<lambda>low1 r. fence_wp low1 (fb_add_column be)
      (\<lambda>low2 r. fence_wp low2 (wf_bounds u be project_id e) (\<lambda>low3 r. fence_wp low3 (fb_drain be project_id (lit ''setup''))
      (\<lambda>low4 r. fence_wp low4 (fb_drop_constraint be SETUP) (\<lambda>low5 r. fence_wp low5 (wf_ready u be project_id) (\<lambda>_ _. True))))))" for low'
    by (rule add_constraint_wp [OF properI(5)], rule add_column_wp, rule bounds_wp [OF e], rule drain_wp,
        rule drop_constraint_wp, simp, rule ready_wp) simp
  show ?thesis
    unfolding wf_provision_def fence_wp_pbind
    by (cases unowned) (simp_all add: tail add_constraint_wp [OF properI(3)])
qed

lemma prepare_wp: "fence_wp low (wf_prepare u be project_id v) (\<lambda>_ _. True)"
  unfolding wf_prepare_def
  by (rule fence_wp_checked, unfold fence_wp_pbind, rule state_wp) (simp add: provision_wp check_epoch_positive)

lemma freeze_wp: "fence_wp low (wf_freeze u be project_id r) (\<lambda>_ _. True)"
proof -
  have "proper (mark_name ''hold_'' r) (postgres_expression (lit ''0''))" by (simp add: postgres_expression_def properI)
  then have "fence_wp low' (fb_add_constraint be (mark_name ''hold_'' r) (lit ''0'')) (\<lambda>low1 x. fence_wp low1 (fb_drain be project_id r)
      (\<lambda>low2 x. fence_wp low2 (wf_ready u be project_id) (\<lambda>_ _. True)))" for low'
    by (rule add_constraint_wp, intro drain_wp ready_wp) simp
  then show ?thesis
    unfolding wf_freeze_def by (intro fence_wp_checked) (unfold fence_wp_pbind, rule ready_wp, simp)
qed

lemma advance_wp: "fence_wp low (wf_advance u be project_id v) (\<lambda>_ _. True)"
proof -
  have "fence_wp low' (wf_bounds u be project_id e) (\<lambda>low1 x. fence_wp low1 (wf_ready u be project_id) (\<lambda>_ _. True))"
    if "1 \<le> e" for e low' by (intro bounds_wp that ready_wp) simp
  then show ?thesis
    unfolding wf_advance_def by (intro fence_wp_checked) (unfold fence_wp_pbind, rule ready_wp, simp add: check_epoch_positive)
qed

lemma release_wp: "fence_wp low (wf_release u be project_id r) (\<lambda>_ _. True)"
proof -
  have "fence_wp low' (fb_add_constraint be (mark_name ''retired_'' r) (lit ''1'')) (\<lambda>low1 x.
      fence_wp low1 (fb_drop_constraint be (mark_name ''hold_'' r)) (\<lambda>low2 x. fence_wp low2 (wf_ready u be project_id) (\<lambda>_ _. True)))" for low'
    by (rule add_constraint_wp [OF properI(4)], rule drop_constraint_wp, simp, rule ready_wp) simp
  then show ?thesis
    unfolding wf_release_def by (intro fence_wp_checked) (unfold fence_wp_pbind, rule ready_wp, simp)
qed

lemma command_wp: "fence_wp low (command_prog u be project_id c) (\<lambda>_ _. True)"
proof (cases c)
  case (ResumeFence r)
  then show ?thesis by (simp add: wf_resume_def fence_wp_checked restore_wp freeze_wp)
next
  case (ResumePrepare v)
  then show ?thesis by (simp add: wf_resume_prepare_def fence_wp_checked restore_wp prepare_wp)
qed (simp_all add: prepare_wp freeze_wp advance_wp release_wp)

lemma statement_within:
  assumes "fence_wp low p (\<lambda>_ _. True)" "low \<le> table_minimum t" "well_named t" "exec_statement deparse p t = (t', p')"
  shows "table_minimum t \<le> table_minimum t' \<and> well_named t' \<and> (\<exists>low' \<le> table_minimum t'. fence_wp low' p' (\<lambda>_ _. True))"
proof (cases p)
  case (AlterAdd name expr q)
  show ?thesis
  proof (cases "alter_add name expr t")
    case (Inl e)
    then show ?thesis using AlterAdd assms by auto
  next
    case (Inr t1)
    then have t': "t' = t\<lparr>ft_constraints := ft_constraints t @ [(name, expr)]\<rparr>" "p' = q"
      using AlterAdd assms(4) by (auto simp: alter_add_def split: if_splits)
    have "table_minimum t' = max (table_minimum t) (minimum [name])" by (simp add: t' minimum_append)
    moreover have "well_named t'" using assms(1,3) AlterAdd by (auto simp: t' well_named_def)
    ultimately show ?thesis using assms(1,2) AlterAdd t'(2)
      by (intro conjI exI [of _ "max low (minimum [name])"]) auto
  qed
next
  case (AlterDrop name q)
  have t': "t' = alter_drop name t" "p' = q" using AlterDrop assms(4) by auto
  have names: "set (keys (ft_constraints t')) = set (keys (ft_constraints t)) - {name}"
  proof -
    have "ft_constraints t' = AList.delete name (ft_constraints t)" by (simp add: t' alter_drop_def)
    then show ?thesis by (simp only: set_keys_delete)
  qed
  have "table_minimum t \<le> table_minimum t'"
  proof (cases "0 < table_minimum t")
    case True
    note in_t = minimum_in [OF True]
    then have "name \<noteq> mark_name ''min_'' (int_text (table_minimum t))"
      using assms(1,2) AlterDrop by (auto simp: minima_def)
    then have "table_minimum t \<in> minima (keys (ft_constraints t'))" using in_t names by (auto simp: minima_def)
    then show ?thesis by (rule minimum_member)
  next
    case False
    then show ?thesis using minimum_ge_0 [of "keys (ft_constraints t')"] by linarith
  qed
  moreover have "well_named t'"
    using assms(3) by (auto simp: well_named_def t' alter_drop_def AList.delete_eq)
  ultimately show ?thesis using assms(1,2) AlterDrop t'(2) by (intro conjI exI [of _ low]) auto
next
  case (Catalogue f)
  then show ?thesis using assms fence_wp_seen by (auto intro!: exI [of _ "table_minimum t"])
next
  case (LockCatalogue f)
  then show ?thesis using assms fence_wp_seen by (auto intro!: exI [of _ "table_minimum t"])
next
  case (AlterColumn q)
  then show ?thesis using assms by (auto simp: alter_column_def well_named_def split: if_splits)
qed (use assms in auto)

lemma executors_within:
  assumes "executors deparse u be project_id allowed s s'" "keeps_minimum s"
  shows "keeps_minimum s' \<and> table_minimum (fst s) \<le> table_minimum (fst s')"
  using assms
proof (induction rule: executors.induct)
  case (issue t ps c)
  then show ?case using command_wp [of "table_minimum t" u project_id c] by (auto simp: keeps_minimum_def)
next
  case (perform t ps p qs t' p')
  then obtain low where "low \<le> table_minimum t" "fence_wp low p (\<lambda>_ _. True)" by (auto simp: keeps_minimum_def)
  note step = statement_within [OF this(2,1) _ perform.hyps(2)]
  have t: "well_named t" "table_minimum (fst s) \<le> table_minimum t"
    "\<forall>q \<in> set ps \<union> set qs. \<exists>low \<le> table_minimum t. fence_wp low q (\<lambda>_ _. True)"
    using perform.IH [OF perform.prems] by (auto simp: keeps_minimum_def)
  from step [OF t(1)] have t': "table_minimum t \<le> table_minimum t'" "well_named t'"
    "\<exists>low \<le> table_minimum t'. fence_wp low p' (\<lambda>_ _. True)" by blast+
  have "\<forall>q \<in> set ps \<union> set qs. \<exists>low \<le> table_minimum t'. fence_wp low q (\<lambda>_ _. True)"
    using t(3) t'(1) by (meson order_trans)
  then show ?case using t(2) t' by (auto simp: keeps_minimum_def)
next
  case (stop t ps p qs)
  then show ?case by (auto simp: keeps_minimum_def)
qed simp

end

interpretation postgres: guarded_backend "postgres_fences u"
  for u
proof unfold_locales
  fix name expr low and Q :: "int \<Rightarrow> unit \<Rightarrow> bool"
  assume "proper name (postgres_expression expr)" and Q: "\<And>low'. low \<le> low' \<Longrightarrow> minimum [name] \<le> low' \<Longrightarrow> Q low' ()"
  moreover have "minimum [name] \<le> seen_minimum m" if "name \<in> set (keys (fm_constraints m))" for m
    by (rule minimum_mono) (use that in auto)
  ultimately show "fence_wp low (fb_add_constraint (postgres_fences u) name expr) Q"
    by (auto simp: postgres_fences_def intro: Q)
qed (auto simp: postgres_fences_def intro!: fence_wp_checked)

section \<open>Admission\<close>

lemma starts_with_prefix [simp]: "starts_with (p @ s) p"
  by (simp add: starts_with_def)

lemma mark_name_reserved [simp]: "starts_with (mark_name kind x) FENCE_PREFIX"
  by (simp add: mark_name_def)

lemma refusedI: "(name, expr) \<in> set (ft_constraints t) \<Longrightarrow> starts_with name FENCE_PREFIX \<Longrightarrow> \<not> check_holds expr e \<Longrightarrow> \<not> admits t e"
  unfolding admits_def by fastforce

lemma stale_refused:
  assumes "well_named t" "e < table_minimum t" "0 \<le> e"
  shows "\<not> admits t e"
proof -
  let ?n = "table_minimum t"
  have n: "?n \<in> minima (keys (ft_constraints t))" using assms(2,3) by (intro minimum_in) simp
  then obtain expr where c: "(mark_name ''min_'' (int_text ?n), expr) \<in> set (ft_constraints t)" "1 \<le> ?n"
    by (auto simp: minima_def)
  then have "expr = EPOCH_COLUMN @ lit '' >= '' @ int_text ?n" using assms(1) by (auto simp: well_named_def proper_def)
  moreover have "starts_with (EPOCH_COLUMN @ lit '' >= '' @ int_text ?n) (EPOCH_COLUMN @ lit '' >= '')"
    using starts_with_prefix [of "EPOCH_COLUMN @ lit '' >= ''" "int_text ?n"] by simp
  moreover have "int (digits_value (int_text ?n)) = ?n" using c(2) by (simp add: int_text_def digits_value_nat_text)
  ultimately have "\<not> check_holds expr e" using assms(2) by (simp add: check_holds_def)
  then show ?thesis by (rule refusedI [OF c(1) mark_name_reserved])
qed

lemma held_refuses:
  assumes "well_named t" "mark_name ''hold_'' r \<in> set (keys (ft_constraints t))"
  shows "\<not> admits t e"
proof -
  obtain expr where c: "(mark_name ''hold_'' r, expr) \<in> set (ft_constraints t)" using assms(2) by auto
  then have "expr = lit ''false''" using assms(1) by (auto simp: well_named_def proper_def)
  then show ?thesis by (intro refusedI [OF c mark_name_reserved]) (simp add: check_holds_def)
qed

section \<open>Statements a program never runs\<close>

primrec never_drops :: "ustring \<Rightarrow> 'r fence_prog \<Rightarrow> bool" where
  "never_drops name (Return r) \<longleftrightarrow> True"
| "never_drops name (Raise e) \<longleftrightarrow> True"
| "never_drops name (Catalogue f) \<longleftrightarrow> (\<forall>m. never_drops name (f m))"
| "never_drops name (LockCatalogue f) \<longleftrightarrow> (\<forall>m. never_drops name (f m))"
| "never_drops name (AlterColumn p) \<longleftrightarrow> never_drops name p"
| "never_drops name (AlterAdd other expr p) \<longleftrightarrow> never_drops name p"
| "never_drops name (AlterDrop other p) \<longleftrightarrow> other \<noteq> name \<and> never_drops name p"

lemma never_drops_pbind: "never_drops name p \<Longrightarrow> (\<And>r. never_drops name (k r)) \<Longrightarrow> never_drops name (pbind p k)"
  by (induction p) auto

lemma never_drops_checked: "(\<And>x. never_drops name (k x)) \<Longrightarrow> never_drops name (checked r k)"
  by (simp add: checked_def split: sum.split)

lemma postgres_never_drops:
  "never_drops name (fb_metadata (postgres_fences u))" "never_drops name (fb_add_column (postgres_fences u))"
  "never_drops name (fb_add_constraint (postgres_fences u) other expr)"
  "other \<noteq> name \<Longrightarrow> never_drops name (fb_drop_constraint (postgres_fences u) other)"
  "never_drops name (fb_drain (postgres_fences u) project_id hold)" "never_drops name (fb_restore (postgres_fences u) project_id hold)"
  by (simp_all add: postgres_fences_def never_drops_checked)

lemma state_never_drops:
  "never_drops name (wf_state u (postgres_fences u) project_id)" "never_drops name (wf_ready u (postgres_fences u) project_id)"
  unfolding wf_ready_def wf_state_def
  by (simp_all add: never_drops_pbind never_drops_checked postgres_never_drops)

lemmas never_drops_rules = never_drops_pbind never_drops_checked postgres_never_drops state_never_drops

lemma bounds_never_drop:
  assumes "\<And>x. name \<noteq> mark_name ''max_'' x" "\<And>x. name \<noteq> mark_name ''min_'' x"
  shows "never_drops name (wf_bounds u (postgres_fences u) project_id e)"
proof -
  have "never_drops name (drop_older (postgres_fences u) kind e olds)" if "kind = ''max_'' \<or> kind = ''min_''" for kind olds
    using that assms by (induction olds) (auto intro!: never_drops_rules)
  then show ?thesis unfolding wf_bounds_def by (auto intro!: never_drops_rules)
qed

lemma commands_never_drop:
  assumes "name = mark_name ''hold_'' r \<and> c \<noteq> ReleaseFence r \<or> name = mark_name ''retired_'' r"
  shows "never_drops name (command_prog u (postgres_fences u) project_id c)"
proof -
  have bounds: "never_drops name (wf_bounds u (postgres_fences u) project_id e)" for e
    by (rule bounds_never_drop) (use assms in auto)
  have other: "SETUP \<noteq> name" using assms by auto
  have prepare: "never_drops name (wf_prepare u (postgres_fences u) project_id v)" for v
    unfolding wf_prepare_def wf_provision_def using bounds other by (auto intro!: never_drops_rules)
  have freeze: "never_drops name (wf_freeze u (postgres_fences u) project_id x)" for x
    unfolding wf_freeze_def by (auto intro!: never_drops_rules)
  have advance: "never_drops name (wf_advance u (postgres_fences u) project_id v)" for v
    unfolding wf_advance_def using bounds by (auto intro!: never_drops_rules)
  have release: "never_drops name (wf_release u (postgres_fences u) project_id x)" if "mark_name ''hold_'' x \<noteq> name" for x
    unfolding wf_release_def using that by (auto intro!: never_drops_rules)
  show ?thesis
    by (cases c) (use prepare freeze advance release assms in \<open>auto simp: wf_resume_def wf_resume_prepare_def intro!: never_drops_rules\<close>)
qed

lemma statement_never_drops:
  assumes "exec_statement deparse p t = (t', p')" "never_drops name p"
  shows "never_drops name p' \<and> (name \<in> set (keys (ft_constraints t)) \<longrightarrow> name \<in> set (keys (ft_constraints t')))"
  using assms by (cases p) (auto simp: alter_add_def alter_drop_def alter_column_def AList.delete_eq split: if_splits)

lemma executors_never_drop:
  assumes "executors deparse u be project_id allowed s s'" "\<And>c. allowed c \<Longrightarrow> never_drops name (command_prog u be project_id c)"
    and "\<forall>p \<in> set (snd s). never_drops name p"
  shows "(\<forall>p \<in> set (snd s'). never_drops name p) \<and>
    (name \<in> set (keys (ft_constraints (fst s))) \<longrightarrow> name \<in> set (keys (ft_constraints (fst s'))))"
  using assms
proof (induction rule: executors.induct)
  case (perform t ps p qs t' p')
  then show ?case using statement_never_drops [OF perform.hyps(2), of name] by auto
qed auto

section \<open>Runs alone\<close>

text \<open>A command run alone is one way the executors may behave.\<close>

lemma run_prog_executors:
  assumes "executors deparse u be project_id allowed s (t, p # qs)" "run_prog deparse p t = (r, t')"
  shows "\<exists>p'. executors deparse u be project_id allowed s (t', p' # qs)"
  using assms
proof (induction p arbitrary: t)
  case (Return x)
  then show ?case by auto
next
  case (Raise e)
  then show ?case by auto
next
  case (Catalogue f)
  have "executors deparse u be project_id allowed s (t, f (catalogue deparse t) # qs)"
    using executors.perform [where ps = "[]" and qs = qs and p = "Catalogue f" and t = t] Catalogue.prems(1) by simp
  then show ?case using Catalogue.IH [OF rangeI] Catalogue.prems(2) by simp
next
  case (LockCatalogue f)
  have "executors deparse u be project_id allowed s (t, f (catalogue deparse t) # qs)"
    using executors.perform [where ps = "[]" and qs = qs and p = "LockCatalogue f" and t = t] LockCatalogue.prems(1) by simp
  then show ?case using LockCatalogue.IH [OF rangeI] LockCatalogue.prems(2) by simp
next
  case (AlterColumn p)
  have "executors deparse u be project_id allowed s (alter_column t, p # qs)"
    using executors.perform [where ps = "[]" and qs = qs and p = "AlterColumn p" and t = t] AlterColumn.prems(1) by simp
  then show ?case using AlterColumn.IH AlterColumn.prems(2) by simp
next
  case (AlterAdd name expr p)
  show ?case
  proof (cases "alter_add name expr t")
    case (Inl e)
    then show ?thesis using AlterAdd.prems by auto
  next
    case (Inr t1)
    then have "executors deparse u be project_id allowed s (t1, p # qs)"
      using executors.perform [where ps = "[]" and qs = qs and p = "AlterAdd name expr p" and t = t and t' = t1 and p' = p]
        AlterAdd.prems(1) by simp
    then show ?thesis using AlterAdd.IH [of t1] AlterAdd.prems(2) Inr by simp
  qed
next
  case (AlterDrop name p)
  have "executors deparse u be project_id allowed s (alter_drop name t, p # qs)"
    using executors.perform [where ps = "[]" and qs = qs and p = "AlterDrop name p" and t = t] AlterDrop.prems(1) by simp
  then show ?case using AlterDrop.IH AlterDrop.prems(2) by simp
qed

lemma command_run:
  assumes "allowed c" "t' = snd (run_prog deparse (command_prog u be project_id c) t)"
  shows "executors deparse u be project_id allowed (t, []) (t', [])"
proof -
  obtain r where r: "run_prog deparse (command_prog u be project_id c) t = (r, t')" using assms(2) by (metis prod.collapse)
  have "executors deparse u be project_id allowed (t, []) (t, [command_prog u be project_id c])"
    by (rule executors.issue, rule executors.idle, rule assms(1))
  from run_prog_executors [OF this r] obtain p' where "executors deparse u be project_id allowed (t, []) (t', [] @ p' # [])" by auto
  from executors.stop [OF this] show ?thesis by simp
qed

end
