(* ===== verification/FenceProtocol.thy ===== *)
theory FenceProtocol
  imports FenceSafety
begin

text \<open>
  What the commands of a write fence do when one executor runs them alone. A table spells a set of
  marks; the text the server gives back for a constraint is read as the mark it was declared for, and
  each command is then a change of the set of marks.
\<close>

section \<open>Text the server gives back\<close>

text \<open>What the tables of \<open>str.isspace\<close> say about ASCII.\<close>

definition ascii_spaces :: "unicode \<Rightarrow> bool" where
  "ascii_spaces u \<longleftrightarrow> (\<forall>c < 128. uspace u c \<longleftrightarrow> 9 \<le> c \<and> c \<le> 13 \<or> 28 \<le> c \<and> c \<le> 32)"

lemma ascii_spacesD: "ascii_spaces u \<Longrightarrow> c < 128 \<Longrightarrow> uspace u c \<longleftrightarrow> 9 \<le> c \<and> c \<le> 13 \<or> 28 \<le> c \<and> c \<le> 32"
  by (simp add: ascii_spaces_def)

definition solid :: "unicode \<Rightarrow> ustring \<Rightarrow> bool" where
  "solid u s \<longleftrightarrow> s \<noteq> [] \<and> \<not> uspace u (hd s) \<and> \<not> uspace u (last s)"

lemma dropWhile_head: "xs \<noteq> [] \<Longrightarrow> \<not> P (hd xs) \<Longrightarrow> dropWhile P xs = xs"
  by (cases xs) auto

lemma strip_solid: "solid u s \<Longrightarrow> strip u s = s"
  by (simp add: solid_def strip_def dropWhile_head hd_rev)

lemma strip_padded: "solid u s \<Longrightarrow> \<forall>c \<in> set pad. uspace u c \<Longrightarrow> strip u (pad @ s) = s"
  using strip_solid [of u s] by (induction pad) (simp_all add: strip_def)

text \<open>How a server spells a check: in parentheses, after \<open>CHECK\<close> and before \<open>NOT VALID\<close>.\<close>

definition spelled_check :: "ustring \<Rightarrow> ustring" where
  "spelled_check body = lit ''CHECK ('' @ body @ lit '') NOT VALID''"

definition finish_predicate :: "unicode \<Rightarrow> ustring \<Rightarrow> fence_error + ustring" where
  "finish_predicate u v =
     (if v = lit ''true'' \<or> v = lit ''1'' then Inr (lit ''1'')
      else if v = lit ''false'' \<or> v = lit ''0'' then Inr (lit ''0'')
      else case match_bound u v of
             None \<Rightarrow> Inr unrecognized
           | Some (comparison, ds) \<Rightarrow>
               if length ds > int_max_str_digits then Inl FenceValueError
               else Inr (EPOCH_COLUMN @ comparison @ nat_text (digits_value ds)))"

lemma unparenthesised_step: "solid u v \<Longrightarrow> unparenthesised u (40 # v @ [41]) = unparenthesised u v"
  by (subst unparenthesised.simps) (simp add: strip_solid)

lemma predicate_spelled:
  assumes "ascii_spaces u" "solid u v"
  shows "predicate u (spelled_check v) = finish_predicate u (unparenthesised u v)"
proof -
  note sp = ascii_spacesD [OF assms(1)]
  have s1: "solid u (spelled_check v)" by (simp add: solid_def spelled_check_def lit_def sp)
  have pad: "drop 5 (spelled_check v) = [32] @ (40 # v @ [41]) @ lit '' NOT VALID''"
    by (simp add: spelled_check_def lit_def)
  have s2: "solid u ((40 # v @ [41]) @ lit '' NOT VALID'')" by (simp add: solid_def lit_def sp)
  have s3: "strip u (drop 5 (spelled_check v)) = (40 # v @ [41]) @ lit '' NOT VALID''"
    unfolding pad by (rule strip_padded [OF s2]) (simp add: sp)
  have s4: "strip_not_valid u ((40 # v @ [41]) @ lit '' NOT VALID'') = 40 # v @ [41]"
    by (simp add: strip_not_valid_def starts_with_def lit_def sp)
  have "starts_with (spelled_check v) (lit ''CHECK'')" by (simp add: starts_with_def spelled_check_def lit_def)
  then show ?thesis
    unfolding predicate_def Let_def strip_solid [OF s1]
    by (simp add: s3 s4 [simplified] unparenthesised_step [OF assms(2)] finish_predicate_def)
qed

text \<open>A bound as the server spells it: the column bare, the number bare or quoted as a bigint.\<close>

definition spelled_bounds :: "ustring \<Rightarrow> int \<Rightarrow> ustring set" where
  "spelled_bounds comparison n =
     (\<lambda>number. lit ''('' @ EPOCH_COLUMN @ lit '' '' @ comparison @ lit '' '' @ number @ lit '')'') `
       {int_text n, lit [CHR 0x27] @ int_text n @ lit (CHR 0x27 # ''::bigint'')}"

lemma takeWhile_nat_text: "takeWhile is_digit (nat_text n @ r) = nat_text n" "dropWhile is_digit (nat_text n @ r) = r"
  if "digit_free r"
  using takeWhile_digits [OF nat_text_digits that] by (metis takeWhile_dropWhile_id same_append_eq)+

lemma read_bound_text:
  "digit_free r \<Longrightarrow> read_bound (nat_text n @ r) = Some (nat_text n, r)"
  "read_bound (39 # nat_text n @ 39 # lit ''::bigint'') = Some (nat_text n, [])"
proof -
  assume r: "digit_free r"
  obtain h t where "nat_text n = h # t" "is_digit h" using nat_text_hd by blast
  then have "nat_text n @ r \<noteq> []" "hd (nat_text n @ r) \<noteq> 39" by (auto simp: is_digit_def)
  then show "read_bound (nat_text n @ r) = Some (nat_text n, r)"
    using nat_text_nonempty [of n] by (simp add: read_bound_def Let_def takeWhile_nat_text [OF r])
next
  have "digit_free (39 # lit ''::bigint'')" by (simp add: digit_free_def is_digit_def)
  note takeWhile_nat_text [OF this, of n]
  then show "read_bound (39 # nat_text n @ 39 # lit ''::bigint'') = Some (nat_text n, [])"
    using nat_text_nonempty [of n] by (simp add: read_bound_def Let_def starts_with_def)
qed

lemma last_digits: "is_digit (last (nat_text n))"
  using nat_text_digits [of n] nat_text_nonempty [of n] by (simp add: list_all_iff)

lemma match_bound_text:
  assumes "ascii_spaces u" "comparison \<in> {lit ''>='', lit ''<=''}"
    and "number \<in> {nat_text n, 39 # nat_text n @ 39 # lit ''::bigint''}"
  shows "match_bound u (EPOCH_COLUMN @ 32 # comparison @ 32 # number) = Some (comparison, nat_text n)"
proof -
  note sp = ascii_spacesD [OF assms(1)]
  obtain h t where h: "nat_text n = h # t" "is_digit h" using nat_text_hd by blast
  have start: "spaces u (opened (EPOCH_COLUMN @ r)) = EPOCH_COLUMN @ r" for r
    by (simp add: spaces_def opened_def EPOCH_COLUMN_def lit_def sp)
  have name: "after_epoch_name (EPOCH_COLUMN @ r) = Some r" for r
    by (simp add: after_epoch_name_def starts_with_def EPOCH_COLUMN_def lit_def)
  have cmp: "spaces u (closed_off (spaces u (32 # comparison @ r))) = comparison @ r" "take 2 (comparison @ r) = comparison"
    "drop 2 (comparison @ r) = r" for r
    using assms(2) by (auto simp: spaces_def closed_off_def lit_def sp)
  have num: "spaces u (opened (spaces u (32 # number))) = number"
    using assms(3) h by (auto simp: spaces_def opened_def sp is_digit_def)
  have "read_bound number = Some (nat_text n, [])"
    using assms(3) read_bound_text(1) [of "[]" n] read_bound_text(2) [of n] by (auto simp: digit_free_def)
  then show ?thesis
    using assms(2) unfolding match_bound_def start name option.case cmp Let_def num
    by (auto simp: spaces_def closed_off_def)
qed

lemma nat_text_length: "n < 10 ^ k \<Longrightarrow> 0 < k \<Longrightarrow> length (nat_text n) \<le> k"
proof (induction k arbitrary: n)
  case (Suc k)
  show ?case
  proof (cases "n < 10")
    case True
    then show ?thesis by (subst nat_text.simps) simp
  next
    case False
    then have "n div 10 < 10 ^ k" "0 < k" using Suc.prems by (auto intro: gr0I)
    then have "length (nat_text (n div 10)) \<le> k" by (rule Suc.IH)
    then show ?thesis using False by (subst nat_text.simps) simp
  qed
qed simp

lemma epoch_text_short:
  assumes "1 \<le> n" "n \<le> MAX_EPOCH"
  shows "length (nat_text (nat n)) \<le> int_max_str_digits"
proof -
  have "nat n < 10 ^ 16" using assms by (simp add: MAX_EPOCH_def nat_less_iff)
  from nat_text_length [OF this] show ?thesis by (simp add: int_max_str_digits_def)
qed

lemma nat_text_lead: "0 < n \<Longrightarrow> hd (nat_text n) \<noteq> 48"
proof (induction n rule: nat_text.induct)
  case (1 n)
  show ?case
  proof (cases "n < 10")
    case True
    then show ?thesis using 1(2) by (subst nat_text.simps) simp
  next
    case False
    then have "hd (nat_text (n div 10)) \<noteq> 48" by (intro 1(1)) auto
    then show ?thesis using False nat_text_nonempty [of "n div 10"] by (subst nat_text.simps) simp
  qed
qed

lemma predicate_bound:
  assumes "ascii_spaces u" "comparison \<in> {lit ''>='', lit ''<=''}" "1 \<le> n" "n \<le> MAX_EPOCH" "body \<in> spelled_bounds comparison n"
  shows "predicate u (spelled_check body) = Inr (EPOCH_COLUMN @ comparison @ int_text n)"
proof -
  note sp = ascii_spacesD [OF assms(1)]
  define number where "number = (if body = lit ''('' @ EPOCH_COLUMN @ lit '' '' @ comparison @ lit '' '' @ int_text n @ lit '')''
    then nat_text (nat n) else 39 # nat_text (nat n) @ 39 # lit ''::bigint'')"
  have num: "number \<in> {nat_text (nat n), 39 # nat_text (nat n) @ 39 # lit ''::bigint''}" by (simp add: number_def)
  let ?v = "EPOCH_COLUMN @ 32 # comparison @ 32 # number"
  have body: "body = 40 # ?v @ [41]"
    using assms(3,5) by (auto simp: spelled_bounds_def number_def int_text_def lit_def)
  have last: "last number < 128 \<and> \<not> uspace u (last number)" "number \<noteq> []"
    using num last_digits [of "nat n"] nat_text_nonempty [of "nat n"] by (auto simp: lit_def is_digit_def sp)
  have solid: "solid u ?v" "solid u (40 # ?v @ [41])"
    using last by (simp_all add: solid_def EPOCH_COLUMN_def lit_def sp)
  have "unparenthesised u ?v = ?v" by (subst unparenthesised.simps) (simp add: EPOCH_COLUMN_def lit_def)
  then have "predicate u (spelled_check body) = finish_predicate u ?v"
    unfolding body predicate_spelled [OF assms(1) solid(2)] unparenthesised_step [OF solid(1)] by simp
  moreover have "length (nat_text (nat n)) \<le> int_max_str_digits" by (rule epoch_text_short [OF assms(3,4)])
  ultimately show ?thesis
    using match_bound_text [OF assms(1,2) num] assms(3)
    by (simp add: finish_predicate_def digits_value_nat_text int_text_def EPOCH_COLUMN_def lit_def)
qed

section \<open>Marks\<close>

fun mark_constraint :: "fence_mark \<Rightarrow> ustring \<times> ustring" where
  "mark_constraint (Owner p) = (mark_name ''owner_'' p, lit ''true'')"
| "mark_constraint (Retired r) = (mark_name ''retired_'' r, lit ''true'')"
| "mark_constraint (Hold h) = (if h = lit ''setup'' then SETUP else mark_name ''hold_'' h, lit ''false'')"
| "mark_constraint (Minimum n) = (mark_name ''min_'' (int_text n), EPOCH_COLUMN @ lit '' >= '' @ int_text n)"
| "mark_constraint (Maximum n) = (mark_name ''max_'' (int_text n), EPOCH_COLUMN @ lit '' <= '' @ int_text n)"

fun mark_ok :: "fence_mark \<Rightarrow> bool" where
  "mark_ok (Owner p) \<longleftrightarrow> hex_text 32 p"
| "mark_ok (Retired r) \<longleftrightarrow> hex_text 32 r"
| "mark_ok (Hold h) \<longleftrightarrow> h = lit ''setup'' \<or> hex_text 32 h"
| "mark_ok (Minimum n) \<longleftrightarrow> 1 \<le> n \<and> n \<le> MAX_EPOCH"
| "mark_ok (Maximum n) \<longleftrightarrow> 1 \<le> n \<and> n \<le> MAX_EPOCH"

text \<open>The documented form of a constraint the server was given.\<close>

definition documented_deparse :: "(ustring \<Rightarrow> ustring) \<Rightarrow> bool" where
  "documented_deparse deparse \<longleftrightarrow>
     deparse (lit ''true'') = spelled_check (lit ''true'') \<and> deparse (lit ''false'') = spelled_check (lit ''false'') \<and>
     (\<forall>n. 1 \<le> n \<and> n \<le> MAX_EPOCH \<longrightarrow>
        deparse (EPOCH_COLUMN @ lit '' >= '' @ int_text n) \<in> spelled_check ` spelled_bounds (lit ''>='') n \<and>
        deparse (EPOCH_COLUMN @ lit '' <= '' @ int_text n) \<in> spelled_check ` spelled_bounds (lit ''<='') n)"

lemma hex_text_not_setup: "\<not> hex_text 32 (lit ''setup'')"
  by (simp add: hex_text_def)

lemma predicate_constant:
  assumes "ascii_spaces u" "v \<in> {lit ''true'', lit ''false''}"
  shows "predicate u (spelled_check v) = Inr (if v = lit ''true'' then lit ''1'' else lit ''0'')"
proof -
  note sp = ascii_spacesD [OF assms(1)]
  have "solid u v" using assms(2) by (auto simp: solid_def lit_def sp)
  moreover have "unparenthesised u v = v" using assms(2) by (subst unparenthesised.simps) (auto simp: lit_def)
  ultimately show ?thesis using predicate_spelled [OF assms(1)] assms(2) by (auto simp: finish_predicate_def)
qed

lemma classify_bound:
  assumes "1 \<le> n" "n \<le> MAX_EPOCH"
  shows "classify (lit ''min_'' @ int_text n) = Inr (Minimum n, EPOCH_COLUMN @ lit ''>='' @ int_text n)"
    "classify (lit ''max_'' @ int_text n) = Inr (Maximum n, EPOCH_COLUMN @ lit ''<='' @ int_text n)"
proof -
  have n: "int_text n = nat_text (nat n)" using assms(1) by (simp add: int_text_def)
  obtain h t where h: "nat_text (nat n) = h # t" "is_digit h" using nat_text_hd by blast
  then have "h \<noteq> 48" using nat_text_lead [of "nat n"] assms(1) by simp
  then have suffix: "is_bound_suffix (lit ''min_'' @ int_text n)" "is_bound_suffix (lit ''max_'' @ int_text n)"
    using h nat_text_digits [of "nat n"] by (auto simp: is_bound_suffix_def n starts_with_def is_digit_def)
  have mark: "bound_mark (lit ''min_'' @ int_text n) = Inr (Minimum n, EPOCH_COLUMN @ lit ''>='' @ int_text n)"
    "bound_mark (lit ''max_'' @ int_text n) = Inr (Maximum n, EPOCH_COLUMN @ lit ''<='' @ int_text n)"
    using epoch_text_short [OF assms] assms
    by (simp_all add: bound_mark_def n digits_value_nat_text starts_with_def)
  show "classify (lit ''min_'' @ int_text n) = Inr (Minimum n, EPOCH_COLUMN @ lit ''>='' @ int_text n)"
    using suffix(1) mark(1) by (simp add: classify_def starts_with_def lit_def)
  show "classify (lit ''max_'' @ int_text n) = Inr (Maximum n, EPOCH_COLUMN @ lit ''<='' @ int_text n)"
    using suffix(2) mark(2) by (simp add: classify_def starts_with_def lit_def)
qed

lemma classify_named:
  "hex_text 32 x \<Longrightarrow> classify (lit ''owner_'' @ x) = Inr (Owner x, lit ''1'')"
  "hex_text 32 x \<Longrightarrow> classify (lit ''retired_'' @ x) = Inr (Retired x, lit ''1'')"
  "hex_text 32 x \<Longrightarrow> classify (lit ''hold_'' @ x) = Inr (Hold x, lit ''0'')"
  "classify (lit ''setup'') = Inr (Hold (lit ''setup''), lit ''0'')"
  by (simp_all add: classify_def starts_with_def lit_def)

lemma drop_prefix: "drop (length FENCE_PREFIX) (mark_name kind x) = lit kind @ x"
  by (simp add: mark_name_def)

lemma classify_mark: "mark_ok k \<Longrightarrow> \<exists>p. classify (drop (length FENCE_PREFIX) (fst (mark_constraint k))) = Inr (k, p)"
proof (cases k)
  case (Hold h)
  then show "mark_ok k \<Longrightarrow> ?thesis" using classify_named(3) [of h] classify_named(4) by (auto simp: drop_prefix SETUP_def)
next
  case (Minimum n)
  then show "mark_ok k \<Longrightarrow> ?thesis" using classify_bound(1) [of n] by (auto simp: drop_prefix)
next
  case (Maximum n)
  then show "mark_ok k \<Longrightarrow> ?thesis" using classify_bound(2) [of n] by (auto simp: drop_prefix)
qed (simp_all add: drop_prefix classify_named)

lemma mark_name_unique:
  assumes "mark_ok k" "mark_ok k'" "fst (mark_constraint k) = fst (mark_constraint k')"
  shows "k = k'"
proof -
  obtain p q where "classify (drop (length FENCE_PREFIX) (fst (mark_constraint k))) = Inr (k, p)"
    "classify (drop (length FENCE_PREFIX) (fst (mark_constraint k'))) = Inr (k', q)"
    using classify_mark [OF assms(1)] classify_mark [OF assms(2)] by blast
  then show ?thesis unfolding assms(3) by simp
qed

lemma mark_reserved: "starts_with (fst (mark_constraint k)) FENCE_PREFIX"
  by (cases k) (auto simp: SETUP_def)

text \<open>A mark is read back from the constraint that was declared for it.\<close>

lemma read_mark_back:
  assumes "ascii_spaces u" "documented_deparse deparse" "mark_ok k" "mark_constraint k = (name, expr)"
  shows "read_mark u (name, deparse expr) = Inr [k]"
proof -
  note suffix = drop_prefix
  note true = predicate_constant [OF assms(1), of "lit ''true''", simplified]
    and false = predicate_constant [OF assms(1), of "lit ''false''", simplified]
  have reserved: "starts_with name FENCE_PREFIX" using assms(4) by (cases k) (auto simp: SETUP_def)
  obtain p where "predicate u (deparse expr) = Inr p" "classify (drop (length FENCE_PREFIX) name) = Inr (k, p)"
  proof (cases k)
    case (Minimum n)
    then have n: "1 \<le> n" "n \<le> MAX_EPOCH" using assms(3) by auto
    then obtain body where body: "deparse expr = spelled_check body" "body \<in> spelled_bounds (lit ''>='') n"
      using assms(2,4) Minimum by (auto simp: documented_deparse_def)
    have "predicate u (deparse expr) = Inr (EPOCH_COLUMN @ lit ''>='' @ int_text n)"
      unfolding body(1) by (rule predicate_bound [OF assms(1) _ n body(2)]) simp
    then show ?thesis using that classify_bound [OF n] assms(4) Minimum by (auto simp: suffix)
  next
    case (Maximum n)
    then have n: "1 \<le> n" "n \<le> MAX_EPOCH" using assms(3) by auto
    then obtain body where body: "deparse expr = spelled_check body" "body \<in> spelled_bounds (lit ''<='') n"
      using assms(2,4) Maximum by (auto simp: documented_deparse_def)
    have "predicate u (deparse expr) = Inr (EPOCH_COLUMN @ lit ''<='' @ int_text n)"
      unfolding body(1) by (rule predicate_bound [OF assms(1) _ n body(2)]) simp
    then show ?thesis using that classify_bound [OF n] assms(4) Maximum by (auto simp: suffix)
  next
    case (Owner p)
    then have "name = mark_name ''owner_'' p" "expr = lit ''true''" using assms(4) by auto
    then show ?thesis
      using that [of "lit ''1''"] assms(2,3) true classify_named(1) [of p] Owner by (simp add: documented_deparse_def suffix)
  next
    case (Retired r)
    then have "name = mark_name ''retired_'' r" "expr = lit ''true''" using assms(4) by auto
    then show ?thesis
      using that [of "lit ''1''"] assms(2,3) true classify_named(2) [of r] Retired by (simp add: documented_deparse_def suffix)
  next
    case (Hold h)
    have "classify (drop (length FENCE_PREFIX) name) = Inr (k, lit ''0'')"
      using Hold assms(3,4) classify_named(3) [of h] classify_named(4) by (auto simp: suffix SETUP_def split: if_splits)
    moreover have "expr = lit ''false''" using assms(4) Hold by auto
    ultimately show ?thesis using that [of "lit ''0''"] assms(2) false by (simp add: documented_deparse_def)
  qed
  then show ?thesis using reserved by (simp add: read_mark_def)
qed

section \<open>Tables that spell a set of marks\<close>

definition spells :: "fence_table \<Rightarrow> fence_mark set \<Rightarrow> bool" where
  "spells t M \<longleftrightarrow> (\<forall>k \<in> M. mark_ok k) \<and> distinct (keys (ft_constraints t)) \<and>
     {c \<in> set (ft_constraints t). starts_with (fst c) FENCE_PREFIX} = mark_constraint ` M"

lemma spelled_marks:
  assumes "spells t M"
  shows "M = {k. mark_ok k \<and> mark_constraint k \<in> set (ft_constraints t)}"
proof (intro equalityI subsetI)
  fix k assume "k \<in> M"
  then show "k \<in> {k. mark_ok k \<and> mark_constraint k \<in> set (ft_constraints t)}" using assms unfolding spells_def by blast
next
  fix k assume k: "k \<in> {k. mark_ok k \<and> mark_constraint k \<in> set (ft_constraints t)}"
  then have "mark_constraint k \<in> mark_constraint ` M" using assms mark_reserved [of k] unfolding spells_def by blast
  then obtain k' where "k' \<in> M" "mark_constraint k = mark_constraint k'" by blast
  moreover have "k = k'" using calculation k assms by (intro mark_name_unique) (auto simp: spells_def)
  ultimately show "k \<in> M" by simp
qed

lemma read_marks:
  assumes "ascii_spaces u" "documented_deparse deparse" "distinct (keys cs)"
    and "\<forall>c \<in> set cs. starts_with (fst c) FENCE_PREFIX \<longrightarrow> (\<exists>k. mark_ok k \<and> mark_constraint k = c)"
  shows "\<exists>mss. traverse (read_mark u) (map (apsnd deparse) cs) = Inr mss \<and> distinct (concat mss) \<and>
    set (concat mss) = {k. mark_ok k \<and> mark_constraint k \<in> set cs}"
  using assms(3,4)
proof (induction cs)
  case (Cons c cs)
  obtain mss where mss: "traverse (read_mark u) (map (apsnd deparse) cs) = Inr mss" "distinct (concat mss)"
    "set (concat mss) = {k. mark_ok k \<and> mark_constraint k \<in> set cs}"
  proof -
    have "distinct (keys cs)" "\<forall>c \<in> set cs. starts_with (fst c) FENCE_PREFIX \<longrightarrow> (\<exists>k. mark_ok k \<and> mark_constraint k = c)"
      using Cons.prems by simp_all
    from Cons.IH [OF this] show ?thesis using that by blast
  qed
  obtain name expr where c: "c = (name, expr)" by (cases c)
  show ?case
  proof (cases "starts_with name FENCE_PREFIX")
    case True
    then obtain k where k: "mark_ok k" "mark_constraint k = (name, expr)" using Cons.prems(2) c by force
    have "read_mark u (name, deparse expr) = Inr [k]" by (rule read_mark_back [OF assms(1,2) k])
    moreover have "k \<notin> set (concat mss)" using Cons.prems(1) c k(2) unfolding mss(3) by force
    moreover have "{k. mark_ok k \<and> mark_constraint k \<in> set (c # cs)} = insert k (set (concat mss))"
    proof -
      have "mark_ok k' \<and> mark_constraint k' = c \<longleftrightarrow> k' = k" for k' using c k mark_name_unique by metis
      then show ?thesis unfolding mss(3) by (simp add: set_eq_iff) blast
    qed
    ultimately show ?thesis using mss(1,2) c by (intro exI [of _ "[k] # mss"]) simp
  next
    case False
    then have "mark_constraint k \<noteq> c" for k using mark_reserved [of k] c by auto
    then have "{k. mark_ok k \<and> mark_constraint k \<in> set (c # cs)} = set (concat mss)" unfolding mss(3) by auto
    then show ?thesis using mss(1,2) False c by (intro exI [of _ "[] # mss"]) (simp add: read_mark_def)
  qed
qed simp

definition spelled_state :: "fence_table \<Rightarrow> ustring option \<Rightarrow> fence_mark set \<Rightarrow> fence_view" where
  "spelled_state t po M =
     \<lparr>fs_identity = ft_identity t, fs_project = po, fs_column = ft_column t,
      fs_minimums = sorted_list_of_set {n. Minimum n \<in> M}, fs_maximums = sorted_list_of_set {n. Maximum n \<in> M},
      fs_holds = sorted_list_of_set {h. Hold h \<in> M}, fs_retired = sorted_list_of_set {r. Retired r \<in> M}\<rparr>"

lemma sort_map_filter:
  assumes "distinct ms" "\<And>k x. f k = Some x \<longleftrightarrow> k = C x"
  shows "sort (List.map_filter f ms) = sorted_list_of_set {x. C x \<in> set ms}"
proof -
  have step: "f k = None \<and> (\<forall>x. C x \<noteq> k) \<or> (\<exists>a. f k = Some a \<and> (\<forall>x. C x = k \<longleftrightarrow> x = a))" for k
  proof (cases "f k")
    case None
    then have "C x \<noteq> k" for x using assms(2) [of k x] by auto
    then show ?thesis using None by blast
  next
    case (Some a)
    have "C x = k \<longleftrightarrow> x = a" for x using assms(2) [of k x] Some by auto
    then show ?thesis using Some by blast
  qed
  have members: "set (List.map_filter f ks) = {x. C x \<in> set ks}" for ks
  proof (induction ks)
    case (Cons k ks)
    from step [of k] Cons show ?case by (auto simp: List.map_filter_simps)
  qed (simp add: List.map_filter_simps)
  moreover have "distinct (List.map_filter f ms)"
    using assms(1)
  proof (induction ms)
    case (Cons k ms)
    from step [of k] show ?case
    proof (elim disjE exE conjE)
      fix a assume a: "f k = Some a" "\<forall>x. C x = k \<longleftrightarrow> x = a"
      then have "a \<notin> set (List.map_filter f ms)" using Cons.prems members [of ms] by auto
      then show ?thesis using Cons a(1) by (simp add: List.map_filter_simps)
    qed (use Cons in \<open>simp add: List.map_filter_simps\<close>)
  qed (simp add: List.map_filter_simps)
  ultimately show ?thesis by (metis distinct_remdups_id sorted_list_of_set_sort_remdups)
qed

lemma insort_apsnd: "insort_key fst (apsnd g c) (map (apsnd g) xs) = map (apsnd g) (insort_key fst c xs)"
  by (induction xs) auto

lemma sort_apsnd: "sort_key fst (map (apsnd g) cs) = map (apsnd g) (sort_key fst cs)"
  by (induction cs) (auto simp: insort_apsnd)

text \<open>The set of marks determines the state that is read: a set without an owner must be empty.\<close>

definition owned_by :: "fence_mark set \<Rightarrow> ustring option \<Rightarrow> bool" where
  "owned_by M po \<longleftrightarrow> {p. Owner p \<in> M} = set_option po \<and> (po = None \<longrightarrow> M = {})"

lemma owners_list:
  assumes "distinct ms" "set ms = M" "owned_by M po"
  shows "List.map_filter owner_of ms = (case po of None \<Rightarrow> [] | Some p \<Rightarrow> [p])"
proof -
  have owner: "owner_of k = Some x \<longleftrightarrow> k = Owner x" for k x by (cases k) auto
  have "sort (List.map_filter owner_of ms) = sorted_list_of_set (set_option po)"
    using sort_map_filter [OF assms(1) owner] assms(2,3) by (simp add: owned_by_def)
  then have "sort (List.map_filter owner_of ms) = (case po of None \<Rightarrow> [] | Some p \<Rightarrow> [p])"
    by (cases po) simp_all
  then show ?thesis by (cases po) (auto dest!: arg_cong [of _ _ mset])
qed

lemma fence_state_spelled:
  assumes "ascii_spaces u" "documented_deparse deparse" "spells t M" "owned_by M po"
  shows "fence_state u (catalogue deparse t) = Inr (spelled_state t po M)"
proof -
  let ?cs = "sort_key fst (ft_constraints t)"
  have M: "M = {k. mark_ok k \<and> mark_constraint k \<in> set ?cs}" using spelled_marks [OF assms(3)] by simp
  have "distinct (keys ?cs)"
    using assms(3) by (simp add: spells_def distinct_map)
  moreover have "\<forall>c \<in> set ?cs. starts_with (fst c) FENCE_PREFIX \<longrightarrow> (\<exists>k. mark_ok k \<and> mark_constraint k = c)"
  proof (intro ballI impI)
    fix c assume "c \<in> set ?cs" "starts_with (fst c) FENCE_PREFIX"
    then have "c \<in> mark_constraint ` M" using assms(3) unfolding spells_def by (simp only: set_sort) blast
    then show "\<exists>k. mark_ok k \<and> mark_constraint k = c" using assms(3) by (auto simp: spells_def)
  qed
  ultimately have "\<exists>mss. traverse (read_mark u) (map (apsnd deparse) ?cs) = Inr mss \<and> distinct (concat mss) \<and> set (concat mss) = M"
    unfolding M by (rule read_marks [OF assms(1,2)])
  then obtain mss where mss: "traverse (read_mark u) (map (apsnd deparse) ?cs) = Inr mss" "distinct (concat mss)" "set (concat mss) = M"
    by blast
  have of_marks: "minimum_of k = Some x \<longleftrightarrow> k = Minimum x" "maximum_of k = Some x \<longleftrightarrow> k = Maximum x"
    "hold_of k = Some y \<longleftrightarrow> k = Hold y" "retired_of k = Some y \<longleftrightarrow> k = Retired y" for k x y
    by (cases k; auto)+
  note sorts = of_marks [THEN sort_map_filter [OF mss(2)], unfolded mss(3)]
  have "concat mss = []" if "po = None" using that assms(4) mss(3) by (metis owned_by_def set_empty)
  then show ?thesis
    using mss(1) owners_list [OF mss(2,3) assms(4)] sorts unfolding fence_state_def catalogue_def spelled_state_def
    by (cases po) (simp_all add: sort_apsnd Let_def del: concat_eq_Nil_conv)
qed

section \<open>Statements as changes of the set of marks\<close>

lemma run_pbind:
  "run_prog deparse (pbind p k) t =
     (case run_prog deparse p t of (Inl e, t') \<Rightarrow> (Inl e, t') | (Inr r, t') \<Rightarrow> run_prog deparse (k r) t')"
  by (induction p arbitrary: t) (auto split: sum.split)

text \<open>A program returns, with a result and a table such that \<open>Q\<close>.\<close>

definition returns :: "(ustring \<Rightarrow> ustring) \<Rightarrow> 'r fence_prog \<Rightarrow> fence_table \<Rightarrow> ('r \<Rightarrow> fence_table \<Rightarrow> bool) \<Rightarrow> bool" where
  "returns deparse p t Q \<longleftrightarrow> (\<exists>r t'. run_prog deparse p t = (Inr r, t') \<and> Q r t')"

lemma returns_pbind: "returns deparse p t (\<lambda>r t'. returns deparse (k r) t' Q) \<Longrightarrow> returns deparse (pbind p k) t Q"
  unfolding returns_def run_pbind by fastforce

lemma returns_Return: "Q r t \<Longrightarrow> returns deparse (Return r) t Q"
  by (simp add: returns_def)

lemma returns_checked: "r = Inr x \<Longrightarrow> returns deparse (k x) t Q \<Longrightarrow> returns deparse (checked r k) t Q"
  by (simp add: checked_def)

lemma returns_mono: "returns deparse p t Q \<Longrightarrow> (\<And>r t'. Q r t' \<Longrightarrow> R r t') \<Longrightarrow> returns deparse p t R"
  unfolding returns_def by blast

definition fenced :: "fence_table \<Rightarrow> column_state \<Rightarrow> fence_mark set \<Rightarrow> bool" where
  "fenced t col M \<longleftrightarrow> spells t M \<and> ft_column t = col"

lemma present_mark:
  assumes "spells t M" "mark_ok k" "fst (mark_constraint k) \<in> set (keys (ft_constraints t))"
  shows "k \<in> M"
proof -
  obtain c where c: "c \<in> set (ft_constraints t)" "fst c = fst (mark_constraint k)" using assms(3) by auto
  then have "c \<in> mark_constraint ` M" using assms(1) mark_reserved [of k] unfolding spells_def by auto
  then obtain k' where "k' \<in> M" "c = mark_constraint k'" by blast
  moreover have "k' = k" using calculation c(2) assms(1,2) by (intro mark_name_unique) (auto simp: spells_def)
  ultimately show ?thesis by simp
qed

lemma names_catalogue [simp]: "fst ` set (fm_constraints (catalogue deparse t)) = fst ` set (ft_constraints t)"
  by (simp add: catalogue_def image_image)

lemma fenced_finite: "fenced t col M \<Longrightarrow> finite M"
proof -
  assume t: "fenced t col M"
  have "inj_on mark_constraint M" using t mark_name_unique by (auto simp: fenced_def spells_def inj_on_def)
  moreover have "mark_constraint ` M \<subseteq> set (ft_constraints t)" using t unfolding fenced_def spells_def by blast
  ultimately show ?thesis using finite_imageD [OF finite_subset] by blast
qed

lemma finite_marks:
  assumes "finite M"
  shows "finite {n. Minimum n \<in> M}" "finite {n. Maximum n \<in> M}" "finite {h. Hold h \<in> M}" "finite {r. Retired r \<in> M}"
  using finite_vimageI [OF assms, of Minimum] finite_vimageI [OF assms, of Maximum] finite_vimageI [OF assms, of Hold]
    finite_vimageI [OF assms, of Retired]
  by (simp_all add: inj_on_def vimage_def)

lemma run_add_mark:
  assumes "fenced t col M" "mark_ok k" "mark_constraint k = (name, postgres_expression expr)"
  shows "returns deparse (fb_add_constraint (postgres_fences u) name expr) t (\<lambda>_ t'. fenced t' col (insert k M))"
proof (cases "name \<in> set (keys (ft_constraints t))")
  case True
  then have "k \<in> M" using present_mark [of t M k] assms by (simp add: fenced_def)
  then show ?thesis using True assms(1) by (simp add: postgres_fences_def returns_def insert_absorb)
next
  case False
  let ?t = "t\<lparr>ft_constraints := ft_constraints t @ [(name, postgres_expression expr)]\<rparr>"
  have "starts_with name FENCE_PREFIX" using mark_reserved [of k] assms(3) by simp
  then have "{c \<in> set (ft_constraints ?t). starts_with (fst c) FENCE_PREFIX} =
    insert (name, postgres_expression expr) {c \<in> set (ft_constraints t). starts_with (fst c) FENCE_PREFIX}" by auto
  then have "fenced ?t col (insert k M)" using assms False by (auto simp: fenced_def spells_def)
  then show ?thesis using False by (simp add: postgres_fences_def returns_def alter_add_def)
qed

lemma run_drop_mark:
  assumes "fenced t col M" "mark_ok k" "name = fst (mark_constraint k)"
  shows "returns deparse (fb_drop_constraint (postgres_fences u) name) t (\<lambda>_ t'. fenced t' col (M - {k}))"
proof -
  have ok: "\<forall>k' \<in> M. mark_ok k'" using assms(1) by (simp add: fenced_def spells_def)
  have "\<forall>k' \<in> M. fst (mark_constraint k') = name \<longleftrightarrow> k' = k"
    using ok mark_name_unique [OF _ assms(2)] assms(3) by blast
  then have "mark_constraint ` (M - {k}) = {c \<in> mark_constraint ` M. fst c \<noteq> name}" by blast
  also have "\<dots> = {c \<in> set (AList.delete name (ft_constraints t)). starts_with (fst c) FENCE_PREFIX}"
    using assms(1) by (auto simp: fenced_def spells_def AList.delete_eq set_eq_iff)
  finally have "fenced (alter_drop name t) col (M - {k})"
    using assms(1) ok by (auto simp: fenced_def spells_def alter_drop_def distinct_delete)
  then show ?thesis by (simp add: returns_def postgres_fences_def)
qed

lemma run_column:
  assumes "fenced t col M"
  shows "returns deparse (fb_add_column (postgres_fences u)) t (\<lambda>_ t'. fenced t' (if col = Absent then Valid else col) M)"
  using assms by (auto simp: returns_def postgres_fences_def alter_column_def fenced_def spells_def)

lemma run_state:
  assumes "ascii_spaces u" "documented_deparse deparse" "fenced t col M" "owned_by M po" "po = None \<or> po = Some project_id" "col \<noteq> Conflict"
  shows "returns deparse (wf_state u (postgres_fences u) project_id) t (\<lambda>s t'. t' = t \<and> s = spelled_state t po M)"
proof -
  have "fence_state u (catalogue deparse t) = Inr (spelled_state t po M)"
    by (rule fence_state_spelled [OF assms(1,2) _ assms(4)]) (use assms(3) in \<open>simp add: fenced_def\<close>)
  then have "owned_state u project_id (catalogue deparse t) = Inr (spelled_state t po M)"
    using assms(3,5,6) by (auto simp: owned_state_def spelled_state_def fenced_def)
  then show ?thesis by (simp add: returns_def wf_state_def postgres_fences_def checked_def)
qed

lemma run_held:
  assumes "ascii_spaces u" "documented_deparse deparse" "fenced t col M" "owned_by M (Some project_id)" "Hold h \<in> M"
  shows "returns deparse (fb_drain (postgres_fences u) project_id h) t (\<lambda>_ t'. t' = t)"
    "returns deparse (fb_restore (postgres_fences u) project_id h) t (\<lambda>_ t'. t' = t)"
proof -
  have "fence_state u (catalogue deparse t) = Inr (spelled_state t (Some project_id) M)"
    by (rule fence_state_spelled [OF assms(1,2) _ assms(4)]) (use assms(3) in \<open>simp add: fenced_def\<close>)
  then have "fence_held u (catalogue deparse t) project_id h = Inr ()"
    using finite_marks(3) [OF fenced_finite [OF assms(3)]] assms(5) by (simp add: fence_held_def spelled_state_def)
  then show "returns deparse (fb_drain (postgres_fences u) project_id h) t (\<lambda>_ t'. t' = t)"
    "returns deparse (fb_restore (postgres_fences u) project_id h) t (\<lambda>_ t'. t' = t)"
    by (simp_all add: returns_def postgres_fences_def checked_def)
qed

lemma run_drop_older:
  assumes "fenced t col M" "(kind, C) = (''max_'', Maximum) \<or> (kind, C) = (''min_'', Minimum)" "\<forall>n \<in> set olds. 1 \<le> n \<and> n \<le> MAX_EPOCH"
  shows "returns deparse (drop_older (postgres_fences u) kind e olds) t (\<lambda>_ t'. fenced t' col (M - C ` {n \<in> set olds. n < e}))"
  using assms(1,3)
proof (induction olds arbitrary: t M)
  case Nil
  then show ?case by (simp add: returns_Return)
next
  case (Cons old olds)
  show ?case
  proof (cases "old < e")
    case True
    have mark: "mark_ok (C old)" "mark_name kind (int_text old) = fst (mark_constraint (C old))" using assms(2) Cons.prems(2) by auto
    have sets: "M - C ` {n \<in> set (old # olds). n < e} = M - {C old} - C ` {n \<in> set olds. n < e}" using True by auto
    have "returns deparse (drop_older (postgres_fences u) kind e olds) t' (\<lambda>_ t'. fenced t' col (M - C ` {n \<in> set (old # olds). n < e}))"
      if "fenced t' col (M - {C old})" for t'
      unfolding sets by (rule Cons.IH [OF that]) (use Cons.prems(2) in simp)
    then have "returns deparse (pbind (fb_drop_constraint (postgres_fences u) (mark_name kind (int_text old)))
      (\<lambda>_. drop_older (postgres_fences u) kind e olds)) t (\<lambda>_ t'. fenced t' col (M - C ` {n \<in> set (old # olds). n < e}))"
      by (intro returns_pbind returns_mono [OF run_drop_mark [OF Cons.prems(1) mark]])
    then show ?thesis using True by (simp only: drop_older.simps if_True)
  next
    case False
    then have "{n \<in> set (old # olds). n < e} = {n \<in> set olds. n < e}" by auto
    then show ?thesis using Cons False by simp
  qed
qed

section \<open>Commands as changes of the set of marks\<close>

text \<open>The marks of an idle fence: its owner, one generation, and the barriers it has retired.\<close>

definition idle_marks :: "ustring \<Rightarrow> int \<Rightarrow> ustring set \<Rightarrow> fence_mark set" where
  "idle_marks project_id e R = {Owner project_id, Minimum e, Maximum e} \<union> Retired ` R"

definition at_bounds :: "int \<Rightarrow> fence_mark set \<Rightarrow> fence_mark set" where
  "at_bounds e M = insert (Minimum e) (insert (Maximum e) {k \<in> M. \<forall>n. k \<noteq> Minimum n \<and> k \<noteq> Maximum n})"

lemma lower_spelled: "finite M \<Longrightarrow> lower_epoch (spelled_state t po M) =
    (if {n. Minimum n \<in> M} = {} then None else Some (Max {n. Minimum n \<in> M}))"
  by (auto simp: lower_epoch_def spelled_state_def finite_marks)

lemma upper_spelled: "finite M \<Longrightarrow> upper_epoch (spelled_state t po M) =
    (if {n. Maximum n \<in> M} = {} then None else Some (Min {n. Maximum n \<in> M}))"
  by (auto simp: upper_epoch_def spelled_state_def finite_marks)

text \<open>Moving the bounds to a generation no bound exceeds leaves exactly that generation.\<close>

lemma run_bounds:
  assumes "ascii_spaces u" "documented_deparse deparse" "fenced t col M" "owned_by M (Some project_id)" "col \<noteq> Conflict"
    and "1 \<le> e" "e \<le> MAX_EPOCH" "\<forall>n. Minimum n \<in> M \<or> Maximum n \<in> M \<longrightarrow> n \<le> e"
  shows "returns deparse (wf_bounds u (postgres_fences u) project_id e) t (\<lambda>_ t'. fenced t' col (at_bounds e M))"
proof -
  let ?M = "insert (Maximum e) (insert (Minimum e) M)"
  have expr: "postgres_expression (EPOCH_COLUMN @ x) = EPOCH_COLUMN @ x" for x
    by (auto simp: postgres_expression_def EPOCH_COLUMN_def lit_def)
  have owned: "owned_by ?M (Some project_id)" using assms(4) by (simp add: owned_by_def)
  have final: "?M - Maximum ` {n \<in> {n. Maximum n \<in> ?M}. n < e} - Minimum ` {n \<in> {n. Minimum n \<in> ?M}. n < e} = at_bounds e M"
    using assms(8) by (auto simp: at_bounds_def order.order_iff_strict)
  have tail: "returns deparse (drop_older (postgres_fences u) ''max_'' e (fs_maximums (spelled_state t2 (Some project_id) ?M))) t2
      (\<lambda>_ t'. returns deparse (drop_older (postgres_fences u) ''min_'' e (fs_minimums (spelled_state t2 (Some project_id) ?M))) t'
        (\<lambda>_ t''. fenced t'' col (at_bounds e M)))" if t2: "fenced t2 col ?M" for t2
  proof -
    have fin: "finite ?M" by (rule fenced_finite [OF t2])
    have ok: "1 \<le> n \<and> n \<le> MAX_EPOCH" if "Minimum n \<in> ?M \<or> Maximum n \<in> ?M" for n
      using t2 that by (auto simp: fenced_def spells_def)
    have mins: "set (fs_minimums (spelled_state t2 (Some project_id) ?M)) = {n. Minimum n \<in> ?M}"
      and maxs: "set (fs_maximums (spelled_state t2 (Some project_id) ?M)) = {n. Maximum n \<in> ?M}"
      using finite_marks [OF fin] by (simp_all add: spelled_state_def)
    have "\<forall>n \<in> set (fs_maximums (spelled_state t2 (Some project_id) ?M)). 1 \<le> n \<and> n \<le> MAX_EPOCH"
      "\<forall>n \<in> set (fs_minimums (spelled_state t2 (Some project_id) ?M)). 1 \<le> n \<and> n \<le> MAX_EPOCH"
      using ok unfolding mins maxs by blast+
    note drops = run_drop_older [OF _ _ this(1), where C = Maximum] run_drop_older [OF _ _ this(2), where C = Minimum]
    show ?thesis
      by (rule returns_mono, rule drops(1) [OF t2], simp, rule returns_mono, rule drops(2), assumption, simp)
        (unfold mins maxs final, assumption)
  qed
  have "lower_epoch (spelled_state t2 (Some project_id) ?M) = Some e" if "finite M" for t2
  proof -
    have "Max {n. Minimum n \<in> ?M} = e" using assms(8) finite_marks(1) [of ?M] that by (intro Max_eqI) auto
    then show ?thesis using that by (auto simp: lower_spelled)
  qed
  then have lower: "lower_epoch (spelled_state t2 (Some project_id) ?M) = Some e" for t2
    using fenced_finite [OF assms(3)] .
  show ?thesis
    unfolding wf_bounds_def
    by (intro returns_pbind)
      (rule returns_mono, rule run_add_mark [OF assms(3), of "Minimum e"], simp add: assms, simp add: expr,
       rule returns_pbind, rule returns_mono, rule run_add_mark [of _ _ _ "Maximum e"], assumption, simp add: assms, simp add: expr,
       rule returns_pbind, rule returns_mono, rule run_state [OF assms(1,2) _ owned _ assms(5)], assumption, simp,
       simp add: lower, rule returns_pbind, rule tail)
qed

lemma run_ready:
  assumes "ascii_spaces u" "documented_deparse deparse" "fenced t Valid M" "owned_by M (Some project_id)"
    and "\<exists>n. Minimum n \<in> M" "\<exists>n. Maximum n \<in> M"
  shows "returns deparse (wf_ready u (postgres_fences u) project_id) t (\<lambda>s t'. t' = t \<and> s = spelled_state t (Some project_id) M)"
proof -
  have "{n. Minimum n \<in> M} \<noteq> {}" "{n. Maximum n \<in> M} \<noteq> {}" using assms(5,6) by auto
  then have "fence_complete (spelled_state t (Some project_id) M)"
    using assms(3) finite_marks [OF fenced_finite [OF assms(3)]] by (simp add: fence_complete_def spelled_state_def fenced_def)
  then show ?thesis
    unfolding wf_ready_def
    by (intro returns_pbind returns_mono [OF run_state [OF assms(1-4)]]) (auto intro: returns_Return)
qed

text \<open>Of an idle fence under a set of holds.\<close>

definition held_marks :: "ustring \<Rightarrow> int \<Rightarrow> ustring set \<Rightarrow> ustring set \<Rightarrow> fence_mark set" where
  "held_marks project_id e R H = idle_marks project_id e R \<union> Hold ` H"

lemma held_marks_owned [simp]: "owned_by (held_marks project_id e R H) (Some project_id)"
  by (auto simp: owned_by_def held_marks_def idle_marks_def)

lemma held_marks_members [simp]:
  "Minimum n \<in> held_marks project_id e R H \<longleftrightarrow> n = e" "Maximum n \<in> held_marks project_id e R H \<longleftrightarrow> n = e"
  "Hold h \<in> held_marks project_id e R H \<longleftrightarrow> h \<in> H" "Retired r \<in> held_marks project_id e R H \<longleftrightarrow> r \<in> R"
  by (auto simp: held_marks_def idle_marks_def)

lemma held_marks_ok:
  assumes "fenced t col (held_marks project_id e R H)"
  shows "1 \<le> e" "e \<le> MAX_EPOCH" "finite R" "finite H"
proof -
  have "mark_ok (Minimum e)" using assms held_marks_members(1) unfolding fenced_def spells_def by blast
  then show "1 \<le> e" "e \<le> MAX_EPOCH" by simp_all
  show "finite R" "finite H" using finite_marks(3,4) [OF fenced_finite [OF assms]] by simp_all
qed

lemma spelled_held:
  assumes "fenced t Valid (held_marks project_id e R H)"
  shows "lower_epoch (spelled_state t (Some project_id) (held_marks project_id e R H)) = Some e"
    "fence_epoch (spelled_state t (Some project_id) (held_marks project_id e R H)) = Some e"
    "set (fs_holds (spelled_state t (Some project_id) (held_marks project_id e R H))) = H"
    "set (fs_retired (spelled_state t (Some project_id) (held_marks project_id e R H))) = R"
  using assms held_marks_ok(3,4) [OF assms]
  by (simp_all add: lower_epoch_def upper_epoch_def fence_epoch_def fence_complete_def spelled_state_def fenced_def)

lemma run_ready_held:
  assumes "ascii_spaces u" "documented_deparse deparse" "fenced t Valid (held_marks project_id e R H)"
  shows "returns deparse (wf_ready u (postgres_fences u) project_id) t
    (\<lambda>s t'. t' = t \<and> s = spelled_state t (Some project_id) (held_marks project_id e R H))"
  by (rule run_ready [OF assms]) auto

lemma run_freeze:
  assumes "ascii_spaces u" "documented_deparse deparse" "fenced t Valid (held_marks project_id e R H)" "hex_text 32 r" "r \<notin> R"
  shows "returns deparse (wf_freeze u (postgres_fences u) project_id r) t (\<lambda>s t'. fenced t' Valid (held_marks project_id e R (insert r H)) \<and>
    s = spelled_state t' (Some project_id) (held_marks project_id e R (insert r H)))"
proof -
  have mark: "mark_ok (Hold r)" "mark_constraint (Hold r) = (mark_name ''hold_'' r, postgres_expression (lit ''0''))"
    using assms(4) hex_text_not_setup by (auto simp: postgres_expression_def)
  have marks: "insert (Hold r) (held_marks project_id e R H) = held_marks project_id e R (insert r H)"
    by (auto simp: held_marks_def)
  have drain: "returns deparse (fb_drain (postgres_fences u) project_id r) t' (\<lambda>_ t''. t'' = t')"
    if "fenced t' Valid (held_marks project_id e R (insert r H))" for t'
    by (rule run_held [OF assms(1,2) that]) simp_all
  show ?thesis
    unfolding wf_freeze_def
    by (rule returns_checked, simp add: check_identity_def assms(4), rule returns_pbind, rule returns_mono,
        rule run_ready_held [OF assms(1-3)], simp add: spelled_held [OF assms(3)] assms(5), rule returns_pbind, rule returns_mono,
        rule run_add_mark [OF assms(3) mark], unfold marks, rule returns_pbind, rule returns_mono, rule drain, assumption,
        rule returns_mono, rule run_ready_held [OF assms(1,2)]) simp_all
qed

lemma run_advance:
  assumes "ascii_spaces u" "documented_deparse deparse" "fenced t Valid (held_marks project_id e R H)" "H \<noteq> {}" "e \<le> e'" "e' \<le> MAX_EPOCH"
  shows "returns deparse (wf_advance u (postgres_fences u) project_id (PInt e')) t (\<lambda>s t'. fenced t' Valid (held_marks project_id e' R H) \<and>
    s = spelled_state t' (Some project_id) (held_marks project_id e' R H))"
proof -
  have pos: "1 \<le> e'" and forward: "\<not> e' < e" using held_marks_ok(1) [OF assms(3)] assms(5) by simp_all
  have holds: "fs_holds (spelled_state t (Some project_id) (held_marks project_id e R H)) \<noteq> []"
    using spelled_held(3) [OF assms(3)] assms(4) by auto
  have bounds: "returns deparse (wf_bounds u (postgres_fences u) project_id e') t (\<lambda>_ t'. fenced t' Valid (held_marks project_id e' R H))"
  proof -
    have marks: "at_bounds e' (held_marks project_id e R H) = held_marks project_id e' R H"
      by (auto simp: at_bounds_def held_marks_def idle_marks_def)
    show ?thesis
      by (rule run_bounds [OF assms(1-3), of project_id e', unfolded marks]) (use assms pos in auto)
  qed
  show ?thesis
    unfolding wf_advance_def
    by (rule returns_checked, simp add: pos assms(6), rule returns_pbind, rule returns_mono, rule run_ready_held [OF assms(1-3)],
        simp add: spelled_held [OF assms(3)] holds forward, rule returns_pbind, rule returns_mono, rule bounds,
        rule returns_mono, rule run_ready_held [OF assms(1,2)]) (use assms(5) in simp_all)
qed

lemma run_release:
  assumes "ascii_spaces u" "documented_deparse deparse" "fenced t Valid (held_marks project_id e R H)" "hex_text 32 r" "r \<in> H"
  shows "returns deparse (wf_release u (postgres_fences u) project_id r) t
    (\<lambda>s t'. fenced t' Valid (held_marks project_id e (insert r R) (H - {r})) \<and>
      s = spelled_state t' (Some project_id) (held_marks project_id e (insert r R) (H - {r})))"
proof -
  have retired: "mark_ok (Retired r)" "mark_constraint (Retired r) = (mark_name ''retired_'' r, postgres_expression (lit ''1''))"
    and hold: "mark_ok (Hold r)" "mark_name ''hold_'' r = fst (mark_constraint (Hold r))"
    using assms(4) hex_text_not_setup by (auto simp: postgres_expression_def)
  have marks: "insert (Retired r) (held_marks project_id e R H) - {Hold r} = held_marks project_id e (insert r R) (H - {r})"
    by (auto simp: held_marks_def idle_marks_def)
  note drop = run_drop_mark [OF _ hold, of _ _ "insert (Retired r) (held_marks project_id e R H)", unfolded marks]
  show ?thesis
    unfolding wf_release_def
    by (rule returns_checked, simp add: check_identity_def assms(4), rule returns_pbind, rule returns_mono,
        rule run_ready_held [OF assms(1-3)], simp add: spelled_held [OF assms(3)] assms(5), rule returns_pbind, rule returns_mono,
        rule run_add_mark [OF assms(3) retired], rule returns_pbind, rule returns_mono, rule drop, assumption,
        rule returns_mono, rule run_ready_held [OF assms(1,2)]) simp_all
qed

text \<open>Provisioning a table no project has fenced.\<close>

lemma run_provision:
  assumes "ascii_spaces u" "documented_deparse deparse" "fenced t Absent {}" "hex_text 32 project_id" "1 \<le> e" "e \<le> MAX_EPOCH"
  shows "returns deparse (wf_provision u (postgres_fences u) project_id True e) t
    (\<lambda>s t'. fenced t' Valid (held_marks project_id e {} {}) \<and> s = spelled_state t' (Some project_id) (held_marks project_id e {} {}))"
proof -
  let ?M = "{Hold (lit ''setup''), Owner project_id}"
  have owner: "mark_ok (Owner project_id)" "mark_constraint (Owner project_id) = (mark_name ''owner_'' project_id, postgres_expression (lit ''1''))"
    and setup_mark: "mark_ok (Hold (lit ''setup''))" "mark_constraint (Hold (lit ''setup'')) = (SETUP, postgres_expression (lit ''0''))"
    using assms(4) by (auto simp: postgres_expression_def)
  have owned: "owned_by ?M (Some project_id)" by (auto simp: owned_by_def)
  have marks: "at_bounds e ?M = held_marks project_id e {} {lit ''setup''}"
    and last: "held_marks project_id e {} {lit ''setup''} - {Hold (lit ''setup'')} = held_marks project_id e {} {}"
    by (auto simp: at_bounds_def held_marks_def idle_marks_def)
  have bounds: "returns deparse (wf_bounds u (postgres_fences u) project_id e) t' (\<lambda>_ t''. fenced t'' Valid (held_marks project_id e {} {lit ''setup''}))"
    if "fenced t' Valid ?M" for t'
    by (rule run_bounds [OF assms(1,2) that owned, of e, unfolded marks]) (use assms in auto)
  have drain: "returns deparse (fb_drain (postgres_fences u) project_id (lit ''setup'')) t' (\<lambda>_ t''. t'' = t')"
    if "fenced t' Valid (held_marks project_id e {} {lit ''setup''})" for t'
    by (rule run_held [OF assms(1,2) that]) simp_all
  have drop: "returns deparse (fb_drop_constraint (postgres_fences u) SETUP) t' (\<lambda>_ t''. fenced t'' Valid (held_marks project_id e {} {}))"
    if "fenced t' Valid (held_marks project_id e {} {lit ''setup''})" for t'
    using run_drop_mark [OF that setup_mark(1)] unfolding last by simp
  show ?thesis
    unfolding wf_provision_def if_True
    by (rule returns_pbind, rule returns_mono, rule run_add_mark [OF assms(3) owner], rule returns_pbind, rule returns_mono,
        rule run_add_mark [OF _ setup_mark], assumption, rule returns_pbind, rule returns_mono, rule run_column, assumption,
        unfold simp_thms if_True, rule returns_pbind, rule returns_mono, rule bounds, assumption, rule returns_pbind, rule returns_mono,
        rule drain, assumption, rule returns_pbind, rule returns_mono, rule drop, simp,
        rule returns_mono, rule run_ready_held [OF assms(1,2)]) simp_all
qed

lemma run_prepare:
  assumes "ascii_spaces u" "documented_deparse deparse" "fenced t Absent {}" "hex_text 32 project_id" "1 \<le> e" "e \<le> MAX_EPOCH"
  shows "returns deparse (wf_prepare u (postgres_fences u) project_id (PInt e)) t
    (\<lambda>s t'. fenced t' Valid (held_marks project_id e {} {}) \<and> s = spelled_state t' (Some project_id) (held_marks project_id e {} {}))"
proof -
  have state: "returns deparse (wf_state u (postgres_fences u) project_id) t (\<lambda>s t'. t' = t \<and> s = spelled_state t None {})"
    by (rule run_state [OF assms(1-3)]) (simp_all add: owned_by_def)
  show ?thesis
    unfolding wf_prepare_def
    by (rule returns_checked, simp add: assms(5,6), rule returns_pbind, rule returns_mono, rule state)
      (use assms(3) run_provision [OF assms] in \<open>auto simp: fence_complete_def lower_epoch_def spelled_state_def fenced_def\<close>)
qed

section \<open>What an idle or held table admits\<close>

lemma check_holds_bound:
  "0 \<le> n \<Longrightarrow> check_holds (EPOCH_COLUMN @ lit '' >= '' @ int_text n) x \<longleftrightarrow> n \<le> x"
  "0 \<le> n \<Longrightarrow> check_holds (EPOCH_COLUMN @ lit '' <= '' @ int_text n) x \<longleftrightarrow> x \<le> n"
  by (simp_all add: check_holds_def starts_with_def int_text_def digits_value_nat_text EPOCH_COLUMN_def lit_def)

lemma check_holds_constant: "check_holds (lit ''true'') x" "\<not> check_holds (lit ''false'') x"
  by (simp_all add: check_holds_def starts_with_def EPOCH_COLUMN_def lit_def)

lemma admits_fenced: "fenced t col M \<Longrightarrow> admits t x \<longleftrightarrow> (\<forall>k \<in> M. check_holds (snd (mark_constraint k)) x)"
proof -
  assume t: "fenced t col M"
  have "admits t x \<longleftrightarrow> (\<forall>c \<in> {c \<in> set (ft_constraints t). starts_with (fst c) FENCE_PREFIX}. check_holds (snd c) x)"
    by (auto simp: admits_def)
  also have "\<dots> \<longleftrightarrow> (\<forall>c \<in> mark_constraint ` M. check_holds (snd c) x)" using t by (simp add: fenced_def spells_def)
  finally show ?thesis by simp
qed

lemma admits_held:
  assumes "fenced t Valid (held_marks project_id e R H)"
  shows "admits t x \<longleftrightarrow> H = {} \<and> x = e"
  using held_marks_ok(1) [OF assms] unfolding admits_fenced [OF assms]
  by (auto simp: held_marks_def idle_marks_def ball_Un check_holds_constant check_holds_bound)

lemma returnsE:
  assumes "returns deparse p t Q"
  obtains r t' where "run_prog deparse p t = (Inr r, t')" "Q r t'"
  using assms unfolding returns_def by blast

lemma run_freeze_retired:
  assumes "ascii_spaces u" "documented_deparse deparse" "fenced t Valid (held_marks project_id e R H)" "hex_text 32 r" "r \<in> R"
  shows "run_prog deparse (wf_freeze u (postgres_fences u) project_id r) t =
    (Inl (FenceRefused ''a completed write barrier id cannot be reused''), t)"
proof -
  obtain s where "run_prog deparse (wf_ready u (postgres_fences u) project_id) t = (Inr s, t)"
    "s = spelled_state t (Some project_id) (held_marks project_id e R H)"
    using run_ready_held [OF assms(1-3)] by (rule returnsE) auto
  then show ?thesis
    using spelled_held(4) [OF assms(3)] assms(4,5)
    by (simp add: wf_freeze_def checked_def check_identity_def run_pbind)
qed

text \<open>
  C10. A table moves from one write generation to the next, and is closed in between. On a table with
  no reserved constraint and no generation column, \<open>prepare\<close> returns and the table admits exactly
  its generation; \<open>freeze\<close> returns and the table admits nothing; \<open>advance\<close> under that barrier returns
  and the table still admits nothing; \<open>release\<close> returns, reports the new generation, and the table
  admits exactly it. The barrier is then retired: freezing under its id again is refused.
\<close>

theorem fence_moves_a_generation:
  assumes "ascii_spaces u" "documented_deparse deparse" "hex_text 32 project_id" "hex_text 32 r"
    and "1 \<le> e" "e \<le> e'" "e' \<le> MAX_EPOCH" "ft_column t = Absent" "distinct (keys (ft_constraints t))"
    and "\<forall>name \<in> set (keys (ft_constraints t)). \<not> starts_with name FENCE_PREFIX"
  shows "\<exists>s0 t0 s1 t1 s2 t2 s3 t3 why.
    run_prog deparse (wf_prepare u (postgres_fences u) project_id (PInt e)) t = (Inr s0, t0) \<and> (\<forall>x. admits t0 x \<longleftrightarrow> x = e) \<and>
    run_prog deparse (wf_freeze u (postgres_fences u) project_id r) t0 = (Inr s1, t1) \<and> (\<forall>x. \<not> admits t1 x) \<and>
    run_prog deparse (wf_advance u (postgres_fences u) project_id (PInt e')) t1 = (Inr s2, t2) \<and> (\<forall>x. \<not> admits t2 x) \<and>
    run_prog deparse (wf_release u (postgres_fences u) project_id r) t2 = (Inr s3, t3) \<and> fence_epoch s3 = Some e' \<and>
    (\<forall>x. admits t3 x \<longleftrightarrow> x = e') \<and>
    run_prog deparse (wf_freeze u (postgres_fences u) project_id r) t3 = (Inl (FenceRefused why), t3)"
proof -
  note env = assms(1,2)
  have t: "fenced t Absent {}" using assms(8-10) by (auto simp: fenced_def spells_def)
  have e: "e \<le> MAX_EPOCH" using assms(6,7) by simp
  obtain s0 t0 where t0: "run_prog deparse (wf_prepare u (postgres_fences u) project_id (PInt e)) t = (Inr s0, t0)"
    "fenced t0 Valid (held_marks project_id e {} {})"
    using run_prepare [OF env t assms(3,5) e] by (rule returnsE) blast
  obtain s1 t1 where t1: "run_prog deparse (wf_freeze u (postgres_fences u) project_id r) t0 = (Inr s1, t1)"
    "fenced t1 Valid (held_marks project_id e {} {r})"
    using run_freeze [OF env t0(2) assms(4)] by (rule returnsE) blast+
  obtain s2 t2 where t2: "run_prog deparse (wf_advance u (postgres_fences u) project_id (PInt e')) t1 = (Inr s2, t2)"
    "fenced t2 Valid (held_marks project_id e' {} {r})"
    using run_advance [OF env t1(2) _ assms(6,7)] by (rule returnsE) blast+
  obtain s3 t3 where t3: "run_prog deparse (wf_release u (postgres_fences u) project_id r) t2 = (Inr s3, t3)"
    "fenced t3 Valid (held_marks project_id e' {r} {})" "s3 = spelled_state t3 (Some project_id) (held_marks project_id e' {r} {})"
    using run_release [OF env t2(2) assms(4)] by (rule returnsE) auto
  have "run_prog deparse (wf_freeze u (postgres_fences u) project_id r) t3 =
    (Inl (FenceRefused ''a completed write barrier id cannot be reused''), t3)"
    by (rule run_freeze_retired [OF env t3(2) assms(4)]) simp
  moreover have "fence_epoch s3 = Some e'" unfolding t3(3) by (rule spelled_held(2) [OF t3(2)])
  ultimately show ?thesis
    using t0 t1 t2 t3(1,2) admits_held [OF t0(2)] admits_held [OF t1(2)] admits_held [OF t2(2)] admits_held [OF t3(2)]
    by auto
qed

section \<open>What a fence keeps\<close>

text \<open>
  C8. A write generation that was closed is never admitted again. Whatever commands any number of
  executors run against a table at the same time, whichever of them stop between two statements and
  are replayed, once the table carries the constraint that bounds generations below by \<open>n\<close>, no write
  with a generation lower than \<open>n\<close> is admitted at any later moment.
\<close>

theorem stale_generation_never_admitted:
  assumes "well_named t0" "executors deparse u (postgres_fences u) project_id (\<lambda>_. True) (t0, []) (t1, ps1)"
    and "mark_name ''min_'' (int_text n) \<in> set (keys (ft_constraints t1))"
    and "executors deparse u (postgres_fences u) project_id (\<lambda>_. True) (t1, ps1) (t2, ps2)" "0 \<le> e" "e < n"
  shows "\<not> admits t2 e"
proof -
  have "keeps_minimum (t0, [] :: fence_view fence_prog list)" using assms(1) by (simp add: keeps_minimum_def)
  then have t1: "keeps_minimum (t1, ps1)" using postgres.executors_within [OF assms(2)] by simp
  then have t2: "keeps_minimum (t2, ps2)" "table_minimum t1 \<le> table_minimum t2"
    using postgres.executors_within [OF assms(4)] by auto
  have "n \<in> minima (keys (ft_constraints t1))" using assms(3,5,6) by (simp add: minima_def)
  then have "e < table_minimum t2" using minimum_member [of n] t2(2) assms(6) by fastforce
  then show ?thesis using stale_refused t2(1) assms(5) by (simp add: keeps_minimum_def)
qed

text \<open>
  C9. A barrier stays closed until it is released. While executors run any commands but the release of
  a barrier, stopping where they may, a table that carries the barrier admits no write at all.
\<close>

theorem barrier_stays_closed:
  assumes "well_named t0" "executors deparse u (postgres_fences u) project_id (\<lambda>c. c \<noteq> ReleaseFence r) (t0, []) (t1, ps1)"
    and "mark_name ''hold_'' r \<in> set (keys (ft_constraints t1))"
    and "executors deparse u (postgres_fences u) project_id (\<lambda>c. c \<noteq> ReleaseFence r) (t1, ps1) (t2, ps2)"
  shows "\<not> admits t2 e"
proof -
  have "keeps_minimum (t0, [] :: fence_view fence_prog list)" using assms(1) by (simp add: keeps_minimum_def)
  then have "keeps_minimum (t1, ps1)" using postgres.executors_within [OF assms(2)] by simp
  then have "well_named t2" using postgres.executors_within [OF assms(4)] by (simp add: keeps_minimum_def)
  moreover have keeps: "never_drops (mark_name ''hold_'' r) (command_prog u (postgres_fences u) project_id c)"
    if "c \<noteq> ReleaseFence r" for c
    by (rule commands_never_drop) (use that in blast)
  have "\<forall>p \<in> set ps1. never_drops (mark_name ''hold_'' r) p"
    using executors_never_drop [OF assms(2) keeps] by simp
  then have "mark_name ''hold_'' r \<in> set (keys (ft_constraints t2))"
    using executors_never_drop [OF assms(4) keeps] assms(3) by simp
  ultimately show ?thesis by (rule held_refuses)
qed

section \<open>A run\<close>

text \<open>A server that gives constraints back in parentheses, and a table without any.\<close>

definition demo_unicode :: unicode where
  "demo_unicode = \<lparr>udigit = is_digit, udecimal = (\<lambda>c. if is_digit c then Some (c - 48) else None),
     uspace = (\<lambda>c. 9 \<le> c \<and> c \<le> 13 \<or> 28 \<le> c \<and> c \<le> 32 \<or> c = 133 \<or> c = 160)\<rparr>"

definition demo_deparse :: "ustring \<Rightarrow> ustring" where
  "demo_deparse expr =
     (if starts_with expr EPOCH_COLUMN then lit ''CHECK (('' @ expr @ lit '')) NOT VALID'' else lit ''CHECK ('' @ expr @ lit '') NOT VALID'')"

definition demo_project :: ustring where
  "demo_project = lit ''0123456789abcdef0123456789abcdef''"

definition demo_barrier :: ustring where
  "demo_barrier = lit ''00000000000000000000000000000001''"

definition demo_table :: fence_table where
  "demo_table = \<lparr>ft_identity = lit ''16384'', ft_column = Absent, ft_constraints = []\<rparr>"

definition demo_run :: "fence_command \<Rightarrow> fence_table \<Rightarrow> fence_table" where
  "demo_run c t = snd (run_prog demo_deparse (command_prog demo_unicode (postgres_fences demo_unicode) demo_project c) t)"

definition demo_fenced :: fence_table where
  "demo_fenced = demo_run (PrepareFence (PInt 7)) demo_table"

lemma demo_server: "ascii_spaces demo_unicode" "documented_deparse demo_deparse"
  by (auto simp: ascii_spaces_def demo_unicode_def documented_deparse_def demo_deparse_def spelled_check_def spelled_bounds_def
      starts_with_def EPOCH_COLUMN_def lit_def)

lemma demo_ids: "hex_text 32 demo_project" "hex_text 32 demo_barrier"
  by code_simp+

lemma demo_executors: "allowed c \<Longrightarrow>
    executors demo_deparse demo_unicode (postgres_fences demo_unicode) demo_project allowed (t, []) (demo_run c t, [])"
  by (rule command_run) (simp_all add: demo_run_def)

lemma returns_snd: "returns deparse p t Q \<Longrightarrow> \<exists>r. Q r (snd (run_prog deparse p t))"
  unfolding returns_def by force

lemma demo_marks:
  "fenced demo_fenced Valid (held_marks demo_project 7 {} {})"
  "fenced (demo_run (FreezeFence demo_barrier) demo_fenced) Valid (held_marks demo_project 7 {} {demo_barrier})"
proof -
  have "fenced demo_table Absent {}" by (simp add: demo_table_def fenced_def spells_def)
  from returns_snd [OF run_prepare [OF demo_server this demo_ids(1), of 7]]
  show fenced: "fenced demo_fenced Valid (held_marks demo_project 7 {} {})"
    by (simp add: demo_fenced_def demo_run_def MAX_EPOCH_def)
  from returns_snd [OF run_freeze [OF demo_server this demo_ids(2)]]
  show "fenced (demo_run (FreezeFence demo_barrier) demo_fenced) Valid (held_marks demo_project 7 {} {demo_barrier})"
    by (simp add: demo_run_def)
qed

lemma fenced_name: "fenced t col M \<Longrightarrow> k \<in> M \<Longrightarrow> fst (mark_constraint k) \<in> set (keys (ft_constraints t))"
  unfolding fenced_def spells_def by auto

lemma demo_names:
  "mark_name ''min_'' (int_text 7) \<in> set (keys (ft_constraints demo_fenced))"
  "mark_name ''hold_'' demo_barrier \<in> set (keys (ft_constraints (demo_run (FreezeFence demo_barrier) demo_fenced)))"
proof -
  show "mark_name ''min_'' (int_text 7) \<in> set (keys (ft_constraints demo_fenced))"
    using fenced_name [OF demo_marks(1), of "Minimum 7"] by simp
  have "demo_barrier \<noteq> lit ''setup''" using demo_ids(2) hex_text_not_setup by auto
  then show "mark_name ''hold_'' demo_barrier \<in> set (keys (ft_constraints (demo_run (FreezeFence demo_barrier) demo_fenced)))"
    using fenced_name [OF demo_marks(2), of "Hold demo_barrier"] by simp
qed

lemma demo_well_named: "well_named demo_table"
  by (simp add: well_named_def demo_table_def)

theorem stale_generation_never_admitted_witness:
  "\<not> admits (demo_run (FreezeFence demo_barrier) demo_fenced) 6"
  using stale_generation_never_admitted
    [OF demo_well_named demo_executors demo_names(1) [unfolded demo_fenced_def] demo_executors, of 6 "FreezeFence demo_barrier"]
  by (simp add: demo_fenced_def)

theorem barrier_stays_closed_witness:
  "\<not> admits (demo_run (AdvanceFence (PInt 9)) (demo_run (FreezeFence demo_barrier) demo_fenced)) 9"
proof -
  have "well_named demo_fenced"
    using postgres.executors_within [OF demo_executors [of "\<lambda>_. True" "PrepareFence (PInt 7)" demo_table]] demo_well_named
    by (simp add: keeps_minimum_def demo_fenced_def)
  from barrier_stays_closed [OF this demo_executors demo_names(2) demo_executors, of "AdvanceFence (PInt 9)"]
  show ?thesis by simp
qed

theorem fence_moves_a_generation_witness:
  "\<exists>s t3. run_prog demo_deparse (wf_release demo_unicode (postgres_fences demo_unicode) demo_project demo_barrier)
       (demo_run (AdvanceFence (PInt 9)) (demo_run (FreezeFence demo_barrier) demo_fenced)) = (Inr s, t3) \<and>
     fence_epoch s = Some 9 \<and> admits t3 9 \<and> \<not> admits t3 7"
  using fence_moves_a_generation [OF demo_server demo_ids, of 7 9 demo_table]
  by (auto simp: demo_fenced_def demo_run_def demo_table_def MAX_EPOCH_def)

end
