(* ===== verification/Cells.thy ===== *)
theory Cells
  imports Verification
begin

text \<open>
  The values an application gives a row or a filter: \<open>query_value\<close> and \<open>exact_decimal\<close> of \<open>query.py\<close>,
  the checks of \<open>admission.py\<close> and \<open>TemporalRange\<close> of \<open>temporal_range.py\<close>.

  A \<open>Decimal\<close> is its sign, digits and exponent, as \<open>as_tuple\<close> gives them. A date is the number of days
  since the first day of year 1, a datetime its wall time in microseconds since that day and the offset
  from UTC it carries, if any. A UUID is its integer. Subclasses of the built-in types, and a \<open>tzinfo\<close>
  whose \<open>utcoffset\<close> raises, are outside the model.

  The source's text patterns accept every Unicode decimal digit where the ISO readers behind them
  accept only ASCII ones; both ways such a text is refused, and it is refused here by the pattern.
\<close>

section \<open>Cells\<close>

datatype decimal = Dec bool "nat list" int | DecInfinite bool | DecNaN

datatype cell =
    CNone
  | CBool bool
  | CInt int
  | CFloat pyfloat
  | CStr ustring
  | CDec decimal
  | CUuid nat
  | CDate nat
  | CTime int "int option"
  | CBytes "nat list"
  | CList "cell list"
  | CDict "(ustring \<times> cell) list"

datatype query_error = NulText | QueryRefused string

abbreviation query_refused :: "string \<Rightarrow> query_error + 'a" where
  "query_refused what \<equiv> Inl (QueryRefused what)"

section \<open>Decimals\<close>

definition WHITE_SPACE :: "nat list" where
  "WHITE_SPACE = [9, 10, 11, 12, 13, 32, 133, 160, 5760, 8192, 8193, 8194, 8195, 8196, 8197, 8198, 8199, 8200,
     8201, 8202, 8232, 8233, 8239, 8287, 12288]"

definition strip_white :: "ustring \<Rightarrow> ustring" where
  "strip_white s = rev (dropWhile (\<lambda>c. c \<in> set WHITE_SPACE) (rev (dropWhile (\<lambda>c. c \<in> set WHITE_SPACE) s)))"

definition read_sign :: "ustring \<Rightarrow> bool \<times> ustring" where
  "read_sign s = (case s of [] \<Rightarrow> (False, []) | c # r \<Rightarrow> if c = 45 then (True, r) else if c = 43 then (False, r) else (False, s))"

text \<open>\<open>(?:[eE][+-]?[0-9]+)?\<close> to the end of the text\<close>

definition read_exponent :: "ustring \<Rightarrow> int option" where
  "read_exponent s =
     (case s of
        [] \<Rightarrow> Some 0
      | c # r \<Rightarrow>
          if c = 101 \<or> c = 69 then
            let (negative, ds) = read_sign r
            in if ds \<noteq> [] \<and> list_all is_digit ds then Some ((if negative then - 1 else 1) * int (digits_value ds)) else None
          else None)"

text \<open>The digits before and after the point, and the exponent.\<close>

definition read_decimal :: "ustring \<Rightarrow> (bool \<times> ustring \<times> ustring \<times> int) option" where
  "read_decimal s =
     (let (negative, r) = read_sign s; whole = takeWhile is_digit r; r1 = dropWhile is_digit r;
          point = (r1 \<noteq> [] \<and> hd r1 = 46);
          fraction = (if point then takeWhile is_digit (tl r1) else []);
          r2 = (if point then dropWhile is_digit (tl r1) else r1)
      in if whole = [] \<and> fraction = [] then None
         else map_option (\<lambda>e. (negative, whole, fraction, e)) (read_exponent r2))"

definition digits_of :: "nat \<Rightarrow> nat list" where
  "digits_of n = map (\<lambda>c. c - 48) (nat_text n)"

definition digits_sum :: "nat list \<Rightarrow> nat" where
  "digits_sum ds = foldl (\<lambda>a d. a * 10 + d) 0 ds"

text \<open>The exponents a \<open>Decimal\<close> can have, \<open>MAX_EMAX\<close> and \<open>MIN_ETINY\<close> of a 64-bit interpreter.\<close>

definition decimal_fits :: "nat list \<Rightarrow> int \<Rightarrow> bool" where
  "decimal_fits ds e \<longleftrightarrow> - 1999999999999999997 \<le> e \<and>
     (if list_ex (\<lambda>d. d \<noteq> 0) ds then e + int (length ds) - 1 else e) \<le> 999999999999999999"

text \<open>\<open>Decimal(text)\<close> of a text of this form: no leading zeros, the exponent less the digits of the fraction.\<close>

definition decimal_of_text :: "ustring \<Rightarrow> decimal option" where
  "decimal_of_text s =
     (case read_decimal s of
        None \<Rightarrow> None
      | Some (negative, whole, fraction, e) \<Rightarrow>
          (let ds = digits_of (digits_value (whole @ fraction)); e' = e - int (length fraction)
           in if decimal_fits ds e' then Some (Dec negative ds e') else None))"

fun exact_decimal :: "cell \<Rightarrow> query_error + decimal" where
  "exact_decimal (CStr s) =
     (case decimal_of_text (strip_white s) of
        None \<Rightarrow> query_refused ''invalid decimal query value'' | Some d \<Rightarrow> Inr d)"
| "exact_decimal (CInt i) = Inr (Dec (i < 0) (digits_of (nat \<bar>i\<bar>)) 0)"
| "exact_decimal (CDec (Dec sign ds e)) = Inr (Dec sign ds e)"
| "exact_decimal (CDec d) = query_refused ''decimal query values must be finite''"
| "exact_decimal _ = query_refused ''decimal query values require Decimal, integer or decimal text''"

definition query_decimal :: "cell \<Rightarrow> query_error + decimal" where
  "query_decimal v =
     and_then (exact_decimal v) (\<lambda>d.
       case d of
         Dec sign ds e \<Rightarrow>
           (let scale = max 0 (- e); digits = max 0 (e + int (length ds)) + scale
            in if digits > 76 \<or> scale > 76 then query_refused ''decimal query values may use at most 76 digits'' else Inr d)
       | _ \<Rightarrow> Inr d)"

definition decimal_params :: "ustring \<Rightarrow> nat \<times> nat" where
  "decimal_params kind =
     (case split_on 44 (butlast (drop 8 kind)) of [a, b] \<Rightarrow> (digits_value a, digits_value b) | _ \<Rightarrow> (0, 0))"

section \<open>Floating-point numbers\<close>

definition round_half_even :: "rat \<Rightarrow> int" where
  "round_half_even r =
     (let low = \<lfloor>r\<rfloor>; rest = r - of_int low
      in if rest < 1 / 2 then low else if rest > 1 / 2 then low + 1 else if even low then low else low + 1)"

fun bit_length :: "nat \<Rightarrow> nat" where
  "bit_length n = (if n = 0 then 0 else Suc (bit_length (n div 2)))"

declare bit_length.simps [simp del]

text \<open>\<open>float(value)\<close> of an integer: the nearest double, \<open>None\<close> for an \<open>OverflowError\<close>.\<close>

definition float_of_int :: "int \<Rightarrow> pyfloat option" where
  "float_of_int i =
     (let k = bit_length (nat \<bar>i\<bar>) - 53; m = round_half_even (of_int \<bar>i\<bar> / 2 ^ k) * 2 ^ k
      in if m \<ge> 2 ^ 1024 then None else Some (Finite (of_int (if i < 0 then - m else m))))"

text \<open>
  Rounding to single precision gives an infinity from halfway past the largest float32 on, and zero
  up to half the smallest.
\<close>

definition outside_float32 :: "rat \<Rightarrow> bool" where
  "outside_float32 r \<longleftrightarrow> r \<noteq> 0 \<and> (\<bar>r\<bar> \<ge> 2 ^ 128 - 2 ^ 103 \<or> \<bar>r\<bar> \<le> 1 / 2 ^ 150)"

section \<open>Text, UUIDs, dates and times\<close>

definition query_text :: "ustring \<Rightarrow> query_error + ustring" where
  "query_text s =
     (if list_ex (\<lambda>c. 55296 \<le> c \<and> c \<le> 57343) s then query_refused ''query strings must contain Unicode scalar values''
      else if 0 \<in> set s then Inl NulText else Inr s)"

definition any_hex :: "nat \<Rightarrow> bool" where
  "any_hex c \<longleftrightarrow> hex_digit c \<or> 65 \<le> c \<and> c \<le> 70"

definition hex_value :: "nat \<Rightarrow> nat" where
  "hex_value c = (if c \<le> 57 then c - 48 else if c \<le> 70 then c - 55 else c - 87)"

definition uuid_of_text :: "ustring \<Rightarrow> nat option" where
  "uuid_of_text s =
     (if length s = 36 \<and> list_all (\<lambda>(i, c). if i \<in> {8, 13, 18, 23} then c = 45 else any_hex c) (enumerate 0 s)
      then Some (foldl (\<lambda>a c. 16 * a + hex_value c) 0 (filter any_hex s)) else None)"

definition date_of_text :: "ustring \<Rightarrow> nat option" where
  "date_of_text s =
     (if length s \<noteq> 10 \<or> s ! 4 \<noteq> 45 \<or> s ! 7 \<noteq> 45 then None
      else case (ascii_number (take 4 s), ascii_number (take 2 (drop 5 s)), ascii_number (drop 8 s)) of
             (Some y, Some m, Some d) \<Rightarrow>
               if 1 \<le> y \<and> 1 \<le> m \<and> m \<le> 12 \<and> 1 \<le> d \<and> d \<le> days_in_month y m then Some (days_before y m d) else None
           | _ \<Rightarrow> None)"

text \<open>\<open>(?:\.\d{1,6})?\<close>, in microseconds\<close>

definition optional_fraction :: "ustring \<Rightarrow> (nat \<times> ustring) option" where
  "optional_fraction s = (if s = [] then Some (0, []) else read_fraction s)"

text \<open>The offset at the end of a timestamp, in microseconds; a timestamp may have none.\<close>

definition optional_offset :: "ustring \<Rightarrow> int option option" where
  "optional_offset s =
     (if s = [] then Some None
      else if s = [90] then Some (Some 0)
      else if s ! 0 \<noteq> 43 \<and> s ! 0 \<noteq> 45 then None
      else
        (let sign = (if s ! 0 = 45 then - 1 else 1)
         in if length s = 6 \<and> s ! 3 = 58 then
              (case (ascii_number (take 2 (drop 1 s)), ascii_number (drop 4 s)) of
                 (Some h, Some m) \<Rightarrow> if h \<le> 23 \<and> m \<le> 59 then Some (Some (sign * int (60 * h + m) * 60000000)) else None
               | _ \<Rightarrow> None)
            else if length s = 9 \<and> s ! 3 = 58 \<and> s ! 6 = 58 then
              (case (ascii_number (take 2 (drop 1 s)), ascii_number (take 2 (drop 4 s)), ascii_number (drop 7 s)) of
                 (Some h, Some m, Some sec) \<Rightarrow>
                   if h \<le> 23 \<and> m \<le> 59 \<and> sec \<le> 59 then Some (Some (sign * int ((60 * h + m) * 60 + sec) * 1000000)) else None
               | _ \<Rightarrow> None)
            else None))"

definition time_of_text :: "ustring \<Rightarrow> (int \<times> int option) option" where
  "time_of_text s =
     (if length s < 19 \<or> (s ! 10 \<noteq> 84 \<and> s ! 10 \<noteq> 32) \<or> s ! 13 \<noteq> 58 \<or> s ! 16 \<noteq> 58 then None
      else
        (case (date_of_text (take 10 s), ascii_number (take 2 (drop 11 s)), ascii_number (take 2 (drop 14 s)), ascii_number (take 2 (drop 17 s))) of
           (Some day, Some h, Some m, Some sec) \<Rightarrow>
             if h \<le> 23 \<and> m \<le> 59 \<and> sec \<le> 59 then
               (case optional_fraction (drop 19 s) of
                  Some (us, rest) \<Rightarrow>
                    map_option (\<lambda>off. (int ((((day * 24 + h) * 60 + m) * 60 + sec) * 1000000 + us), off)) (optional_offset rest)
                | None \<Rightarrow> None)
             else None
         | _ \<Rightarrow> None))"

definition MAX_INSTANT :: int where
  "MAX_INSTANT = int (days_before 9999 12 31 + 1) * 86400000000 - 1"

text \<open>The instant of a wall time: \<open>astimezone(UTC)\<close> fails outside the years 1 to 9999.\<close>

definition instant_of :: "int \<Rightarrow> int option \<Rightarrow> query_error + int" where
  "instant_of t off =
     (case off of
        None \<Rightarrow> Inr t
      | Some d \<Rightarrow>
          if 0 \<le> t - d \<and> t - d \<le> MAX_INSTANT then Inr (t - d)
          else query_refused ''timestamp query value is outside UTC years 0001 through 9999'')"

fun query_time :: "ustring \<Rightarrow> cell \<Rightarrow> query_error + cell" where
  "query_time kind (CStr s) =
     (case time_of_text s of
        None \<Rightarrow> query_refused ''invalid timestamp query value''
      | Some (t, off) \<Rightarrow> and_then (instant_of t off) (\<lambda>i. Inr (CTime i (if kind = lit ''timestamp'' then None else Some 0))))"
| "query_time kind (CTime t off) =
     and_then (instant_of t off) (\<lambda>i. Inr (CTime i (if kind = lit ''timestamp'' then None else Some 0)))"
| "query_time kind _ = query_refused ''a timestamp query value must be datetime or ISO text''"

fun query_date :: "cell \<Rightarrow> query_error + cell" where
  "query_date (CStr s) =
     (case date_of_text s of None \<Rightarrow> query_refused ''a date query value must be a date or YYYY-MM-DD text'' | Some d \<Rightarrow> Inr (CDate d))"
| "query_date (CDate d) = Inr (CDate d)"
| "query_date _ = query_refused ''a date query value must be a date or YYYY-MM-DD text''"

fun query_uuid :: "cell \<Rightarrow> query_error + cell" where
  "query_uuid (CUuid n) = Inr (CUuid n)"
| "query_uuid (CStr s) =
     (case uuid_of_text s of None \<Rightarrow> query_refused ''a UUID query value must be UUID or canonical UUID text'' | Some n \<Rightarrow> Inr (CUuid n))"
| "query_uuid _ = query_refused ''a UUID query value must be UUID or canonical UUID text''"

definition int_bits :: "ustring \<Rightarrow> nat" where
  "int_bits kind = (if kind = lit ''int32'' then 32 else 64)"

fun query_int :: "ustring \<Rightarrow> cell \<Rightarrow> query_error + cell" where
  "query_int kind (CInt i) =
     (if - (2 ^ (int_bits kind - 1)) \<le> i \<and> i < 2 ^ (int_bits kind - 1) then Inr (CInt i)
      else query_refused ''integer query value is outside its type'')"
| "query_int kind _ = query_refused ''an integer query value must be an integer''"

fun query_float :: "cell \<Rightarrow> query_error + cell" where
  "query_float (CInt i) =
     (case float_of_int i of None \<Rightarrow> query_refused ''float query value is outside float64'' | Some f \<Rightarrow> Inr (CFloat f))"
| "query_float (CFloat (Finite r)) = Inr (CFloat (Finite r))"
| "query_float (CFloat f) = query_refused ''float query bounds must be finite''"
| "query_float _ = query_refused ''a float query value must be a finite number''"

fun query_bool :: "cell \<Rightarrow> query_error + cell" where
  "query_bool (CBool b) = Inr (CBool b)"
| "query_bool _ = query_refused ''a boolean query value must be a bool''"

fun query_string :: "cell \<Rightarrow> query_error + cell" where
  "query_string (CStr s) = and_then (query_text s) (\<lambda>s. Inr (CStr s))"
| "query_string _ = query_refused ''a string query value must be text''"

fun query_bytes :: "cell \<Rightarrow> query_error + cell" where
  "query_bytes (CBytes b) = Inr (CBytes b)"
| "query_bytes _ = query_refused ''query predicates are not supported for bytes''"

definition query_value :: "ustring \<Rightarrow> cell \<Rightarrow> query_error + cell" where
  "query_value kind v =
     (if v = CNone then Inr CNone
      else if starts_with kind (lit ''decimal('') then and_then (query_decimal v) (\<lambda>d. Inr (CDec d))
      else if kind = lit ''bool'' then query_bool v
      else if kind \<in> {lit ''int32'', lit ''int64''} then query_int kind v
      else if kind \<in> {lit ''float32'', lit ''float64''} then query_float v
      else if kind = lit ''string'' then query_string v
      else if kind = lit ''uuid'' then query_uuid v
      else if kind = lit ''date'' then query_date v
      else if kind \<in> {lit ''timestamp'', lit ''timestamptz''} then query_time kind v
      else if kind = lit ''bytes'' then query_bytes v
      else query_refused ''query predicates are not supported for this type'')"

end
