(* ===== verification/Admission.thy ===== *)
theory Admission
  imports Cells
begin

text \<open>
  What a row may give a field of each neutral type, and the form the value reaches an engine in
  (\<open>admission.py\<close>), with the theorem that a decimal is admitted exactly when its column holds it and
  then in the one form the column gives its value.
\<close>

section \<open>Checks\<close>

type_synonym misfit = string

definition NOUNS :: "(ustring, string) dict" where
  "NOUNS =
     [(lit ''bool'', ''a boolean''), (lit ''string'', ''text''), (lit ''uuid'', ''a UUID''), (lit ''date'', ''a date''),
      (lit ''timestamp'', ''a timestamp''), (lit ''timestamptz'', ''a timestamp''), (lit ''bytes'', ''bytes'')]"

definition as_filter :: "ustring \<Rightarrow> cell \<Rightarrow> misfit + cell" where
  "as_filter kind v =
     (case query_value kind v of
        Inr w \<Rightarrow> Inr w
      | Inl NulText \<Rightarrow> Inl ''text holding U+0000''
      | Inl (QueryRefused _) \<Rightarrow> Inl (''a value that is not '' @ the (map_of NOUNS kind)))"

fun integer_check :: "ustring \<Rightarrow> cell \<Rightarrow> misfit + cell" where
  "integer_check kind (CInt i) =
     (let bound = (if kind = lit ''int32'' then 2 ^ 31 else 2 ^ 63)
      in if - bound \<le> i \<and> i < bound then Inr (CInt i) else Inl ''an integer outside its type'')"
| "integer_check kind _ = Inl ''a value that is not an integer''"

definition float_fits :: "ustring \<Rightarrow> pyfloat \<Rightarrow> misfit + cell" where
  "float_fits kind f =
     (case f of
        Finite r \<Rightarrow> if kind = lit ''float32'' \<and> outside_float32 r then Inl ''a number outside float32'' else Inr (CFloat f)
      | _ \<Rightarrow> Inr (CFloat f))"

fun float_check :: "ustring \<Rightarrow> cell \<Rightarrow> misfit + cell" where
  "float_check kind (CInt i) =
     (case float_of_int i of None \<Rightarrow> Inl ''a number outside float64'' | Some f \<Rightarrow> float_fits kind f)"
| "float_check kind (CFloat f) = float_fits kind f"
| "float_check kind _ = Inl ''a value that is not a number''"

text \<open>\<open>while digits[length - 1] == 0\<close>\<close>

function drop_zeros :: "nat list \<Rightarrow> int \<Rightarrow> nat list \<times> int" where
  "drop_zeros ds e = (if ds \<noteq> [] \<and> last ds = 0 then drop_zeros (butlast ds) (e + 1) else (ds, e))"
  by pat_completeness auto

termination
  by (relation "measure (length \<circ> fst)") auto

declare drop_zeros.simps [simp del]

definition rjust :: "nat \<Rightarrow> nat \<Rightarrow> ustring \<Rightarrow> ustring" where
  "rjust width fill s = replicate (width - length s) fill @ s"

text \<open>\<open>10 ** (exponent + scale)\<close> is asked only when that is not negative.\<close>

definition at_scale :: "bool \<Rightarrow> nat \<Rightarrow> int \<Rightarrow> nat \<Rightarrow> ustring" where
  "at_scale negative coefficient e scale =
     (let plain = rjust (scale + 1) 48 (nat_text (coefficient * 10 ^ nat (e + int scale)));
          plain = (if scale \<noteq> 0 then take (length plain - scale) plain @ [46] @ drop (length plain - scale) plain else plain)
      in if negative then 45 # plain else plain)"

definition any_digit :: "nat list \<Rightarrow> bool" where
  "any_digit ds \<longleftrightarrow> list_ex (\<lambda>d. d \<noteq> 0) ds"

text \<open>The slow path: trailing zeros say nothing about the value.\<close>

definition decimal_parts :: "nat \<Rightarrow> nat \<Rightarrow> bool \<Rightarrow> nat list \<Rightarrow> int \<Rightarrow> misfit + bool \<times> nat \<times> int" where
  "decimal_parts whole scale sign ds e =
     (if any_digit ds then
        (let (ds', e') = drop_zeros ds e
         in if - e' > int scale then Inl ''more fractional digits than the type holds''
            else if int (length ds') + e' > int whole then Inl ''more integer digits than the type holds''
            else Inr (sign, digits_sum ds', e'))
      else Inr (False, 0, 0))"

definition decimal_check :: "ustring \<Rightarrow> cell \<Rightarrow> misfit + cell" where
  "decimal_check kind v =
     (let (precision, scale) = decimal_params kind; whole = precision - scale
      in case exact_decimal v of
           Inr (Dec sign ds e) \<Rightarrow>
             if v = CDec (Dec sign ds e) \<and> e = - int scale \<and> \<not> (sign \<and> \<not> any_digit ds) then
               (if any_digit ds \<and> int (length ds) + e > int whole then Inl ''more integer digits than the type holds'' else Inr v)
             else
               (case decimal_parts whole scale sign ds e of
                  Inl m \<Rightarrow> Inl m
                | Inr (negative, coefficient, e') \<Rightarrow>
                    (case v of
                       CInt i \<Rightarrow> Inr v
                     | _ \<Rightarrow> Inr (CDec (the (decimal_of_text (at_scale negative coefficient e' scale))))))
         | _ \<Rightarrow> Inl ''a value that is not an exact decimal'')"

definition check_for :: "ustring \<Rightarrow> (cell \<Rightarrow> misfit + cell) option" where
  "check_for kind =
     (if kind \<in> set (keys NOUNS) then Some (as_filter kind)
      else if kind \<in> {lit ''int32'', lit ''int64''} then Some (integer_check kind)
      else if kind \<in> {lit ''float32'', lit ''float64''} then Some (float_check kind)
      else if starts_with kind (lit ''decimal('') then Some (decimal_check kind)
      else None)"

section \<open>Digits\<close>

lemma digits_sum_Nil [simp]: "digits_sum [] = 0"
  by (simp add: digits_sum_def)

lemma digits_sum_snoc: "digits_sum (ds @ [d]) = digits_sum ds * 10 + d"
  by (simp add: digits_sum_def)

lemma digits_sum_map: "digits_sum (map (\<lambda>c. c - 48) ds) = digits_value ds"
  by (simp add: digits_sum_def digits_value_def foldl_map mult.commute)

lemma digits_sum_digits_of [simp]: "digits_sum (digits_of n) = n"
  by (simp add: digits_of_def digits_sum_map digits_value_nat_text)

text \<open>The digits of a \<open>Decimal\<close>: decimal, and without leading zeros.\<close>

definition digits_ok :: "nat list \<Rightarrow> bool" where
  "digits_ok ds \<longleftrightarrow> ds \<noteq> [] \<and> (\<forall>d \<in> set ds. d < 10) \<and> (hd ds = 0 \<longrightarrow> ds = [0])"

lemma digits_sum_less: "\<forall>d \<in> set ds. d < 10 \<Longrightarrow> digits_sum ds < 10 ^ length ds"
proof (induction ds rule: rev_induct)
  case (snoc d ds)
  then have "digits_sum ds + 1 \<le> 10 ^ length ds" by simp
  then have "(digits_sum ds + 1) * 10 \<le> 10 ^ length ds * 10" by (rule mult_le_mono1)
  then show ?case using snoc.prems by (simp add: digits_sum_snoc)
qed simp

lemma digits_sum_ge: "ds \<noteq> [] \<Longrightarrow> hd ds \<noteq> 0 \<Longrightarrow> 10 ^ (length ds - 1) \<le> digits_sum ds"
proof (induction ds rule: rev_induct)
  case (snoc d ds)
  show ?case
  proof (cases ds)
    case Nil
    then show ?thesis using snoc.prems by (simp add: digits_sum_def)
  next
    case (Cons a as)
    then have "10 ^ (length ds - 1) \<le> digits_sum ds" using snoc by simp
    then have "10 ^ (length ds - 1) * 10 \<le> digits_sum ds * 10 + d" by simp
    moreover have "length ds = Suc (length ds - 1)" using Cons by simp
    ultimately show ?thesis unfolding digits_sum_snoc by (metis diff_Suc_1 length_append_singleton mult.commute power_Suc)
  qed
qed simp

lemma digits_of_sum: "digits_ok ds \<Longrightarrow> digits_of (digits_sum ds) = ds"
proof (induction ds rule: rev_induct)
  case (snoc d ds)
  then have d: "d < 10" by (simp add: digits_ok_def)
  show ?case
  proof (cases ds)
    case Nil
    then show ?thesis using d by (simp add: digits_sum_def digits_of_def nat_text.simps [of d])
  next
    case (Cons a as)
    then have hd: "hd ds \<noteq> 0" and small: "\<forall>d \<in> set ds. d < 10" using snoc.prems by (auto simp: digits_ok_def)
    then have "digits_ok ds" using Cons by (simp add: digits_ok_def)
    then have IH: "digits_of (digits_sum ds) = ds" by (rule snoc.IH)
    have "10 ^ (length ds - 1) \<le> digits_sum ds" using digits_sum_ge [of ds] hd Cons by simp
    then have pos: "0 < digits_sum ds" by (rule less_le_trans [rotated]) simp
    have "digits_of (digits_sum ds * 10 + d) = digits_of (digits_sum ds) @ [d]"
      using d pos by (simp add: digits_of_def nat_text.simps [of "digits_sum ds * 10 + d"])
    then show ?thesis using IH by (simp add: digits_sum_snoc)
  qed
qed (simp add: digits_ok_def)

lemma digits_of_ok: "digits_ok (digits_of n)"
proof (induction n rule: nat_text.induct)
  case (1 n)
  show ?case
  proof (cases "n < 10")
    case True
    then show ?thesis by (simp add: digits_of_def nat_text.simps [of n] digits_ok_def)
  next
    case False
    have split: "digits_of n = digits_of (n div 10) @ [n mod 10]" using False by (simp add: digits_of_def nat_text.simps [of n])
    have ok: "digits_ok (digits_of (n div 10))" by (rule 1) (use False in simp)
    have "hd (digits_of (n div 10)) \<noteq> 0"
    proof
      assume "hd (digits_of (n div 10)) = 0"
      then have "digits_of (n div 10) = [0]" using ok by (simp add: digits_ok_def)
      then have "n div 10 = 0" using digits_sum_digits_of [of "n div 10"] by (simp add: digits_sum_def)
      then show False using False by simp
    qed
    then show ?thesis using ok unfolding split by (auto simp: digits_ok_def)
  qed
qed

section \<open>Text at a scale\<close>

lemma digits_value_zeros: "digits_value (replicate n 48 @ ds) = digits_value ds"
  by (induction n) (simp_all add: digits_value_def)

lemma dropWhile_digits: "list_all is_digit ds \<Longrightarrow> digit_free r \<Longrightarrow> dropWhile is_digit (ds @ r) = r"
  by (induction ds) (auto simp: digit_free_def split: list.splits)

lemma read_decimal_point:
  assumes "whole \<noteq> []" "list_all is_digit whole" "list_all is_digit fraction"
  shows "read_decimal ((if negative then [45] else []) @ whole @ (if fraction = [] then [] else 46 # fraction)) = Some (negative, whole, fraction, 0)"
proof -
  let ?tail = "if fraction = [] then [] else 46 # fraction"
  obtain c cs where c: "whole = c # cs" "is_digit c" using assms(1,2) by (cases whole) auto
  have sign: "read_sign ((if negative then [45] else []) @ whole @ ?tail) = (negative, whole @ ?tail)"
    using c by (auto simp: read_sign_def is_digit_def)
  have "digit_free ?tail" by (simp add: digit_free_def is_digit_def)
  then have whole: "takeWhile is_digit (whole @ ?tail) = whole" "dropWhile is_digit (whole @ ?tail) = ?tail"
    using assms(2) by (simp_all add: takeWhile_digits dropWhile_digits)
  have fraction: "takeWhile is_digit fraction = fraction" "dropWhile is_digit fraction = []"
    using assms(3) by (simp_all add: takeWhile_eq_all_conv dropWhile_eq_Nil_conv list_all_iff)
  show ?thesis
    unfolding read_decimal_def sign Let_def case_prod_conv whole
    using assms(1) by (cases "fraction = []") (simp_all add: read_exponent_def fraction del: takeWhile_eq_all_conv dropWhile_eq_Nil_conv)
qed

lemma decimal_of_at_scale:
  assumes "decimal_fits (digits_of (c * 10 ^ nat (e + int s))) (- int s)"
  shows "decimal_of_text (at_scale negative c e s) = Some (Dec negative (digits_of (c * 10 ^ nat (e + int s))) (- int s))"
proof -
  let ?n = "c * 10 ^ nat (e + int s)"
  define plain where "plain = rjust (s + 1) 48 (nat_text ?n)"
  define whole where "whole = take (length plain - s) plain"
  define fraction where "fraction = drop (length plain - s) plain"
  have "length plain \<ge> s + 1" by (simp add: plain_def rjust_def)
  then have parts: "whole \<noteq> []" "length fraction = s" "whole @ fraction = plain" by (auto simp: whole_def fraction_def)
  have "list_all is_digit plain" using nat_text_digits [of ?n] by (auto simp: plain_def rjust_def list_all_iff is_digit_def)
  then have digits: "list_all is_digit whole" "list_all is_digit fraction" using parts(3) by (metis list_all_append)+
  have "at_scale negative c e s = (if negative then [45] else []) @ whole @ (if fraction = [] then [] else 46 # fraction)"
    unfolding at_scale_def Let_def plain_def [symmetric] whole_def [symmetric] fraction_def [symmetric]
    using parts by (cases "fraction = []") auto
  moreover have "digits_value (whole @ fraction) = ?n"
    unfolding parts(3) by (simp add: plain_def rjust_def digits_value_zeros digits_value_nat_text)
  ultimately show ?thesis
    using read_decimal_point [OF parts(1) digits] assms parts(2) by (simp add: decimal_of_text_def)
qed

section \<open>What a decimal column holds\<close>

fun decimal_value :: "decimal \<Rightarrow> rat" where
  "decimal_value (Dec sign ds e) = (if sign then - 1 else 1) * of_nat (digits_sum ds) * 10 powi e"
| "decimal_value _ = 0"

definition column_value :: "nat \<Rightarrow> nat \<Rightarrow> decimal \<Rightarrow> int \<Rightarrow> bool" where
  "column_value p s d k \<longleftrightarrow> \<bar>k\<bar> < 10 ^ p \<and> decimal_value d * 10 ^ s = of_int k"

definition column_decimal :: "nat \<Rightarrow> int \<Rightarrow> decimal" where
  "column_decimal s k = Dec (k < 0) (digits_of (nat \<bar>k\<bar>)) (- int s)"

lemma digits_sum_0: "digits_sum ds = 0 \<longleftrightarrow> \<not> any_digit ds"
  by (induction ds rule: rev_induct) (auto simp: digits_sum_snoc any_digit_def)

lemma drop_zeros_props:
  assumes "digits_ok ds" "any_digit ds" "drop_zeros ds e = (ds', e')"
  shows "digits_ok ds'" "any_digit ds'" "digits_sum ds' mod 10 \<noteq> 0"
    "of_nat (digits_sum ds) * 10 powi e = (of_nat (digits_sum ds') * 10 powi e' :: rat)"
proof -
  have "digits_ok ds' \<and> any_digit ds' \<and> digits_sum ds' mod 10 \<noteq> 0 \<and>
    of_nat (digits_sum ds) * 10 powi e = (of_nat (digits_sum ds') * 10 powi e' :: rat)"
    using assms
  proof (induction ds e rule: drop_zeros.induct)
    case (1 ds e)
    have ne: "ds \<noteq> []" using 1(2) by (simp add: digits_ok_def)
    then have split: "digits_sum ds = digits_sum (butlast ds) * 10 + last ds" using digits_sum_snoc [of "butlast ds" "last ds"] by simp
    show ?case
    proof (cases "last ds = 0")
      case True
      have any: "any_digit (butlast ds)"
        using 1(3) split True digits_sum_0 [of ds] digits_sum_0 [of "butlast ds"] by auto
      then have "butlast ds \<noteq> []" by (auto simp: any_digit_def)
      moreover have "hd (butlast ds) = hd ds" using calculation by (metis append_butlast_last_id hd_append2 ne)
      ultimately have ok: "digits_ok (butlast ds)" using 1(2) any by (auto simp: digits_ok_def any_digit_def dest: in_set_butlastD)
      have drop: "drop_zeros (butlast ds) (e + 1) = (ds', e')" using 1(4) True ne by (simp add: drop_zeros.simps [of ds])
      have "digits_sum ds = digits_sum (butlast ds) * 10" using split True by simp
      then have "of_nat (digits_sum ds) * 10 powi e = (of_nat (digits_sum (butlast ds)) * 10 powi (e + 1) :: rat)"
        by (simp add: power_int_add)
      then show ?thesis using 1(1) [OF _ ok any drop] True ne by simp
    next
      case False
      then have "ds' = ds" "e' = e" using 1(4) ne by (simp_all add: drop_zeros.simps [of ds])
      moreover have "last ds < 10" using 1(2) ne by (simp add: digits_ok_def)
      then have "digits_sum ds mod 10 \<noteq> 0" using split False by simp
      ultimately show ?thesis using 1(2,3) by simp
    qed
  qed
  then show "digits_ok ds'" "any_digit ds'" "digits_sum ds' mod 10 \<noteq> 0"
    "of_nat (digits_sum ds) * 10 powi e = (of_nat (digits_sum ds') * 10 powi e' :: rat)" by auto
qed

text \<open>A coefficient that does not end in zero has an integer value at a scale only if the scale holds its digits.\<close>

lemma scaled_pow:
  assumes "- e \<le> int s"
  shows "of_nat c * 10 powi e * 10 ^ s = (of_int (int c * 10 ^ nat (e + int s)) :: rat)"
proof -
  have "of_nat c * 10 powi e * 10 ^ s = (of_nat c * 10 powi (e + int s) :: rat)" by (simp add: power_int_add mult.assoc)
  then show ?thesis using assms by (simp add: power_int_def)
qed

lemma scaled_coefficient:
  assumes "c mod 10 \<noteq> 0"
  shows "of_nat c * 10 powi e * 10 ^ s = (of_int k :: rat) \<longleftrightarrow> - e \<le> int s \<and> k = int c * 10 ^ nat (e + int s)"
proof -
  have pow: "of_nat c * 10 powi e * 10 ^ s = (of_nat c * 10 powi (e + int s) :: rat)"
    by (simp add: power_int_add mult.assoc)
  show ?thesis
  proof (cases "- e \<le> int s")
    case True
    then show ?thesis unfolding scaled_pow [OF True] of_int_eq_iff by auto
  next
    case False
    define n where "n = nat (- (e + int s))"
    have n: "0 < n" "(10 :: rat) powi (e + int s) = inverse (10 ^ n)" using False by (auto simp: n_def power_int_def power_one_over inverse_eq_divide)
    have "of_nat c * 10 powi (e + int s) \<noteq> (of_int k :: rat)"
    proof
      assume "of_nat c * 10 powi (e + int s) = (of_int k :: rat)"
      then have "(of_nat c :: rat) = of_int k * 10 ^ n" by (simp add: n(2) field_simps)
      then have "(of_int (int c) :: rat) = of_int (k * 10 ^ n)" by simp
      then have "int c = k * 10 ^ n" by (simp only: of_int_eq_iff)
      moreover have "(10 :: int) dvd k * 10 ^ n" using n(1) by (metis dvd_mult dvd_power)
      ultimately have "10 dvd c" by (metis int_dvd_int_iff of_nat_numeral)
      then show False using assms by auto
    qed
    then show ?thesis using False unfolding pow by simp
  qed
qed

lemma length_bounds:
  assumes "digits_ok ds" "any_digit ds"
  shows "digits_sum ds * 10 ^ n < 10 ^ p \<longleftrightarrow> length ds + n \<le> p"
proof -
  have hd: "ds \<noteq> []" "hd ds \<noteq> 0" using assms by (auto simp: digits_ok_def any_digit_def)
  have upper: "digits_sum ds < 10 ^ length ds" using assms(1) by (intro digits_sum_less) (simp add: digits_ok_def)
  have lower: "10 ^ (length ds - 1) \<le> digits_sum ds" using hd by (rule digits_sum_ge)
  show ?thesis
  proof
    assume small: "digits_sum ds * 10 ^ n < 10 ^ p"
    have "(10 :: nat) ^ (length ds - 1 + n) \<le> digits_sum ds * 10 ^ n" using lower by (simp add: power_add)
    then have "(10 :: nat) ^ (length ds - 1 + n) < 10 ^ p" using small by (rule le_less_trans)
    then have "length ds - 1 + n < p" by (simp add: power_strict_increasing_iff)
    then show "length ds + n \<le> p" using hd(1) by (cases ds) auto
  next
    assume "length ds + n \<le> p"
    then have "(10 :: nat) ^ (length ds + n) \<le> 10 ^ p" by (simp add: power_increasing)
    moreover have "digits_sum ds * 10 ^ n < 10 ^ (length ds + n)" using upper by (simp add: power_add)
    ultimately show "digits_sum ds * 10 ^ n < 10 ^ p" by (rule less_le_trans [rotated])
  qed
qed

lemma column_value_unique: "column_value p s d k \<Longrightarrow> column_value p s d k' \<Longrightarrow> k = k'"
  unfolding column_value_def by (metis of_int_eq_iff)

lemma column_value_zero: "\<not> any_digit ds \<Longrightarrow> column_value p s (Dec sign ds e) k \<longleftrightarrow> k = 0"
  by (auto simp: column_value_def digits_sum_0 [symmetric])

lemma column_value_digits:
  assumes "digits_ok ds" "any_digit ds" "digits_sum ds mod 10 \<noteq> 0 \<or> - e \<le> int s" "s \<le> p"
    and "of_nat (digits_sum ds0) * 10 powi e0 = (of_nat (digits_sum ds) * 10 powi e :: rat)"
  shows "column_value p s (Dec sign ds0 e0) k \<longleftrightarrow>
    - e \<le> int s \<and> int (length ds) + e \<le> int (p - s) \<and> k = (if sign then - 1 else 1) * int (digits_sum ds * 10 ^ nat (e + int s))"
proof -
  let ?c = "digits_sum ds" and ?sg = "if sign then - 1 else (1 :: int)"
  have "decimal_value (Dec sign ds0 e0) * 10 ^ s = of_int ?sg * (of_nat ?c * 10 powi e * 10 ^ s)"
    using assms(5) by (simp add: mult.assoc)
  then have val: "decimal_value (Dec sign ds0 e0) * 10 ^ s = of_int k \<longleftrightarrow> of_nat ?c * 10 powi e * 10 ^ s = (of_int (?sg * k) :: rat)"
    by auto
  have whole: "of_nat ?c * 10 powi e * 10 ^ s = (of_int (?sg * k) :: rat) \<longleftrightarrow> - e \<le> int s \<and> ?sg * k = int ?c * 10 ^ nat (e + int s)"
  proof (cases "- e \<le> int s")
    case True
    then show ?thesis unfolding scaled_pow [OF True] of_int_eq_iff by auto
  next
    case False
    then show ?thesis using scaled_coefficient [of ?c] assms(3) by blast
  qed
  have sgn: "?sg * k = x \<longleftrightarrow> k = ?sg * x" for x by auto
  have abs: "\<bar>?sg * int (?c * 10 ^ nat (e + int s))\<bar> < 10 ^ p \<longleftrightarrow> length ds + nat (e + int s) \<le> p"
  proof -
    have "\<bar>?sg * int (?c * 10 ^ nat (e + int s))\<bar> = int (?c * 10 ^ nat (e + int s))" by simp
    also have "\<dots> < 10 ^ p \<longleftrightarrow> ?c * 10 ^ nat (e + int s) < 10 ^ p" by (metis of_nat_less_iff of_nat_numeral of_nat_power)
    finally show ?thesis using length_bounds [OF assms(1,2)] by simp
  qed
  have "length ds + nat (e + int s) \<le> p \<longleftrightarrow> int (length ds) + e \<le> int (p - s)" if "- e \<le> int s" using that assms(4) by linarith
  then show ?thesis unfolding column_value_def val whole sgn using abs by (auto simp: mult.assoc)
qed

lemma decimal_parts_exact:
  assumes "digits_ok ds" "s \<le> p"
  shows "case decimal_parts (p - s) s sign ds e of
      Inl m \<Rightarrow> \<nexists>k. column_value p s (Dec sign ds e) k
    | Inr (negative, c, e') \<Rightarrow> column_value p s (Dec sign ds e) ((if negative then - 1 else 1) * int (c * 10 ^ nat (e' + int s))) \<and>
        (negative \<longrightarrow> 0 < c)"
proof (cases "any_digit ds")
  case False
  then show ?thesis by (simp add: decimal_parts_def column_value_zero)
next
  case True
  obtain ds' e' where d: "drop_zeros ds e = (ds', e')" by (cases "drop_zeros ds e")
  note props = drop_zeros_props [OF assms(1) True d]
  have "0 < digits_sum ds'" using props(2) digits_sum_0 [of ds'] by auto
  then show ?thesis
    using True column_value_digits [OF props(1,2) disjI1 [OF props(3)] assms(2) props(4)]
    by (auto simp: decimal_parts_def d)
qed

lemma decimal_params_text:
  "decimal_params (lit ''decimal('' @ nat_text p @ [44] @ nat_text s @ [41]) = (p, s)"
proof -
  have "butlast (drop 8 (lit ''decimal('' @ nat_text p @ [44] @ nat_text s @ [41])) = nat_text p @ 44 # nat_text s"
    by (simp add: lit_def butlast_append)
  then show ?thesis
    by (simp add: decimal_params_def split_on_append [OF comma_not_digit] split_on_plain [OF comma_not_digit] digits_value_nat_text)
qed

lemma column_decimal_fits:
  assumes "\<bar>k\<bar> < 10 ^ p" "p \<le> 1000" "s \<le> p"
  shows "decimal_fits (digits_of (nat \<bar>k\<bar>)) (- int s)"
proof -
  have "length (digits_of (nat \<bar>k\<bar>)) \<le> Suc p"
  proof (cases "nat \<bar>k\<bar> = 0")
    case True
    then show ?thesis by (simp add: digits_of_def nat_text.simps [of 0])
  next
    case False
    then have "any_digit (digits_of (nat \<bar>k\<bar>))" using digits_sum_0 [of "digits_of (nat \<bar>k\<bar>)"] by auto
    moreover have "nat \<bar>k\<bar> < 10 ^ p" using assms(1) by (simp add: nat_less_iff)
    ultimately show ?thesis using length_bounds [OF digits_of_ok, of "nat \<bar>k\<bar>" 0 p] by simp
  qed
  then show ?thesis using assms(2,3) by (auto simp: decimal_fits_def)
qed

text \<open>
  C6. A row's decimal is admitted exactly when its column holds it, and then in one form. For a field
  of type \<open>decimal(p,s)\<close> and any value given as an exact decimal, the check returns exactly when the
  value is \<open>k\<close> units of \<open>10\<^sup>-\<^sup>s\<close> for an integer \<open>k\<close> of at most \<open>p\<close> digits; no digit is rounded or
  truncated. Except for an integer, which is passed on as it is, the engine receives the decimal of
  \<open>k\<close> with exactly \<open>s\<close> fractional digits, whatever the spelling given.
\<close>

theorem decimal_admitted_exactly:
  assumes "kind = lit ''decimal('' @ nat_text p @ [44] @ nat_text s @ [41]" "s \<le> p" "p \<le> 1000"
    and "exact_decimal v = Inr (Dec sign ds e)" "digits_ok ds"
  shows "decimal_check kind v = Inr w \<longleftrightarrow>
    (\<exists>k. column_value p s (Dec sign ds e) k \<and> w = (case v of CInt i \<Rightarrow> v | _ \<Rightarrow> CDec (column_decimal s k)))"
proof (cases "v = CDec (Dec sign ds e) \<and> e = - int s \<and> \<not> (sign \<and> \<not> any_digit ds)")
  case True
  have same: "column_decimal s ((if sign then - 1 else 1) * int (digits_sum ds)) = Dec sign ds e"
    using True digits_of_sum [OF assms(5)] digits_sum_0 [of ds] by (auto simp: column_decimal_def)
  show ?thesis
  proof (cases "any_digit ds")
    case True': True
    have "- e \<le> int s" using True by simp
    from column_value_digits [OF assms(5) True' disjI2 [OF this] assms(2) refl]
    have "column_value p s (Dec sign ds e) k \<longleftrightarrow>
      int (length ds) + e \<le> int (p - s) \<and> k = (if sign then - 1 else 1) * int (digits_sum ds)" for k
      using True by (auto simp: assms(2))
    then show ?thesis
      unfolding decimal_check_def assms(1) decimal_params_text using True True' same assms(4) by auto
  next
    case False
    then have "digits_sum ds = 0" using digits_sum_0 [of ds] by simp
    then show ?thesis
      unfolding decimal_check_def assms(1) decimal_params_text
      using True False same assms(4) column_value_zero [OF False, of p s sign e] by auto
  qed
next
  case False
  note parts = decimal_parts_exact [OF assms(5,2), of sign e]
  have check: "decimal_check kind v =
    (case decimal_parts (p - s) s sign ds e of
       Inl m \<Rightarrow> Inl m
     | Inr (negative, coefficient, e') \<Rightarrow>
         (case v of CInt i \<Rightarrow> Inr v | _ \<Rightarrow> Inr (CDec (the (decimal_of_text (at_scale negative coefficient e' s))))))"
    unfolding decimal_check_def assms(1) decimal_params_text
    by (simp only: assms(4) Let_def case_prod_conv sum.case decimal.case False if_False)
  show ?thesis
  proof (cases "decimal_parts (p - s) s sign ds e")
    case (Inl m)
    then show ?thesis using parts by (simp add: check)
  next
    case (Inr r)
    obtain negative c e' where r: "r = (negative, c, e')" by (cases r)
    define n where "n = c * 10 ^ nat (e' + int s)"
    define k where "k = (if negative then - 1 else 1) * int n"
    have k: "column_value p s (Dec sign ds e) k" "negative \<longrightarrow> 0 < n" using parts Inr r by (auto simp: k_def n_def)
    have abs: "nat \<bar>k\<bar> = n" "k < 0 \<longleftrightarrow> negative" using k(2) by (auto simp: k_def)
    have "decimal_fits (digits_of n) (- int s)"
      using column_decimal_fits [OF _ assms(3,2), of k] k(1) unfolding abs(1) column_value_def by blast
    then have canonical: "the (decimal_of_text (at_scale negative c e' s)) = column_decimal s k"
      using decimal_of_at_scale [of c e' s negative] by (simp add: n_def [symmetric] column_decimal_def abs)
    have only: "column_value p s (Dec sign ds e) k' \<longleftrightarrow> k' = k" for k' using k(1) column_value_unique by blast
    show ?thesis unfolding check Inr r sum.case case_prod_conv canonical only by (cases v) auto
  qed
qed

lemma witness_price: "exact_decimal (CStr (lit '' 123E-2 '')) = Inr (Dec False [1, 2, 3] (- 2))"
  by (simp add: strip_white_def WHITE_SPACE_def lit_def decimal_of_text_def read_decimal_def read_sign_def read_exponent_def
      digits_value_def digits_of_def nat_text.simps decimal_fits_def is_digit_def)

theorem decimal_admitted_exactly_witness:
  "decimal_check (lit ''decimal(12,3)'') (CStr (lit '' 123E-2 '')) = Inr (CDec (Dec False [1, 2, 3, 0] (- 3)))"
proof -
  have kind: "lit ''decimal(12,3)'' = lit ''decimal('' @ nat_text 12 @ [44] @ nat_text 3 @ [41]" by code_simp
  have "column_value 12 3 (Dec False [1, 2, 3] (- 2)) 1230" by (simp add: column_value_def digits_sum_def power_int_def power_one_over)
  moreover have "column_decimal 3 1230 = Dec False [1, 2, 3, 0] (- 3)" by code_simp
  ultimately show ?thesis
    using decimal_admitted_exactly [OF kind _ _ witness_price, of "CDec (Dec False [1, 2, 3, 0] (- 3))"]
    by (auto simp: digits_ok_def intro!: exI [of _ 1230])
qed

end
