(* ===== verification/Query.thy ===== *)
theory Query
  imports Admission Memory Layout
begin

text \<open>
  Logical reads (\<open>query.py\<close>): the plan of a bounded page, the native query for it, and the numeric
  summary of what an engine answers.

  The source builds the text of a query in one pass. Here the conditions of a query are a datatype and
  \<open>read_sql\<close> is their rendering, with the parameters in the order the text binds them, so that what a
  condition selects can be stated of the same object the text is made from. The placeholder a driver
  uses for a parameter is an argument, \<open>place\<close>.
\<close>

section \<open>Plans\<close>

record range_arg =
  rg_field :: ustring
  rg_low :: cell
  rg_high :: cell

record read_column =
  rc_name :: ustring
  rc_type :: ustring

datatype read_op = OpEq | OpGe | OpLt | OpGt

record read_filter =
  rf_column :: read_column
  rf_operation :: read_op
  rf_value :: cell

record read_plan =
  rp_columns :: "read_column list"
  rp_filters :: "read_filter list"
  rp_order :: "read_column list"
  rp_descending :: bool
  rp_after :: "cell list option"
  rp_limit :: nat

definition MAX_PAGE_ROWS :: nat where
  "MAX_PAGE_ROWS = 1000"

definition MAX_ORDER_FIELDS :: nat where
  "MAX_ORDER_FIELDS = 32"

text \<open>The arguments of a read.\<close>

record read_args =
  ra_where :: "(ustring, cell) dict option"
  ra_bounds :: "range_arg option"
  ra_order_by :: "ustring option"
  ra_descending :: cell
  ra_after :: "(ustring, cell) dict option"
  ra_limit :: cell
  ra_paginate :: bool

definition read_field :: "read_column list \<Rightarrow> ustring \<Rightarrow> query_error + read_column" where
  "read_field cols name =
     (case map_of (rev (map (\<lambda>c. (rc_name c, c)) cols)) name of
        None \<Rightarrow> query_refused ''query refers to a field this entity does not declare'' | Some c \<Rightarrow> Inr c)"

definition page_limit :: "cell \<Rightarrow> query_error + nat" where
  "page_limit v =
     (case v of
        CInt i \<Rightarrow> if 1 \<le> i \<and> i \<le> int MAX_PAGE_ROWS then Inr (nat i) else query_refused ''page limit must be an integer between 1 and 1000''
      | _ \<Rightarrow> query_refused ''page limit must be an integer between 1 and 1000'')"

definition order_names :: "ustring option \<Rightarrow> ustring list \<Rightarrow> ustring list" where
  "order_names order_by key = (case order_by of None \<Rightarrow> [] | Some n \<Rightarrow> [n]) @ filter (\<lambda>n. Some n \<noteq> order_by) key"

text \<open>The ordering columns: none of a type whose order engines disagree on.\<close>

definition read_order :: "read_column list \<Rightarrow> ustring list \<Rightarrow> bool \<Rightarrow> query_error + read_column list" where
  "read_order cols names paginate =
     and_then (if paginate then traverse (read_field cols) names else Inr []) (\<lambda>order.
     and_then (require (\<forall>c \<in> set order. rc_type c \<notin> {lit ''json'', lit ''float32'', lit ''float64''})
       (QueryRefused ''JSON and floating-point ordering are not supported by this read API'')) (\<lambda>_.
     and_then (require (\<forall>c \<in> set order. starts_with (rc_type c) (lit ''decimal('') \<longrightarrow> fst (decimal_params (rc_type c)) \<le> 76)
       (QueryRefused ''decimal ordering supports at most 76 digits'')) (\<lambda>_. Inr order)))"

definition where_filter :: "read_column list \<Rightarrow> ustring \<times> cell \<Rightarrow> query_error + read_filter" where
  "where_filter cols = (\<lambda>(name, v).
     and_then (read_field cols name) (\<lambda>c.
     and_then (require (rc_type c \<noteq> lit ''json'') (QueryRefused ''JSON predicates are not supported by this read API'')) (\<lambda>_.
     and_then (query_value (rc_type c) v) (\<lambda>w. Inr \<lparr>rf_column = c, rf_operation = OpEq, rf_value = w\<rparr>))))"

definition bound_filter :: "read_column \<Rightarrow> read_op \<Rightarrow> cell \<Rightarrow> query_error + read_filter list" where
  "bound_filter c op v =
     (if v = CNone then Inr []
      else and_then (query_value (rc_type c) v) (\<lambda>w. Inr [\<lparr>rf_column = c, rf_operation = op, rf_value = w\<rparr>]))"

definition ranged_type :: "ustring \<Rightarrow> bool" where
  "ranged_type kind \<longleftrightarrow> list_ex (\<lambda>p. starts_with kind (lit p)) [''int32'', ''int64'', ''float32'', ''float64'', ''decimal('', ''date'', ''timestamp'']"

definition range_filters :: "read_column list \<Rightarrow> range_arg \<Rightarrow> query_error + read_filter list" where
  "range_filters cols b =
     and_then (read_field cols (rg_field b)) (\<lambda>c.
     and_then (require (ranged_type (rc_type c)) (QueryRefused ''this field has no range-read shape'')) (\<lambda>_.
     and_then (require (\<not> (rg_low b = CNone \<and> rg_high b = CNone)) (QueryRefused ''a range needs at least one bound'')) (\<lambda>_.
     and_then (bound_filter c OpGe (rg_low b)) (\<lambda>low.
     and_then (bound_filter c OpLt (rg_high b)) (\<lambda>high. Inr (low @ high))))))"

definition read_position :: "read_column list \<Rightarrow> (ustring, cell) dict \<Rightarrow> query_error + cell list" where
  "read_position order given =
     traverse (\<lambda>c. query_value (rc_type c) (row_get CNone given (rc_name c))) order"

definition plan_read :: "read_column list \<Rightarrow> ustring list \<Rightarrow> read_args \<Rightarrow> query_error + read_plan" where
  "plan_read cols key a =
     and_then (page_limit (ra_limit a)) (\<lambda>limit.
     and_then (case ra_descending a of CBool b \<Rightarrow> Inr b | _ \<Rightarrow> query_refused ''descending must be a bool'') (\<lambda>descending.
     and_then (require (\<not> (ra_paginate a \<and> key = [])) (QueryRefused ''a paginated read requires an entity key'')) (\<lambda>_.
       let names = order_names (ra_order_by a) key
       in and_then (require (\<not> (ra_paginate a \<and> length names > MAX_ORDER_FIELDS)) (QueryRefused ''a read may order by at most 32 fields'')) (\<lambda>_.
          and_then (read_order cols names (ra_paginate a)) (\<lambda>order.
          and_then (case ra_where a of None \<Rightarrow> Inr [] | Some w \<Rightarrow> traverse (where_filter cols) (sort_key fst w)) (\<lambda>equal.
          and_then (case ra_bounds a of None \<Rightarrow> Inr [] | Some b \<Rightarrow> range_filters cols b) (\<lambda>ranged.
          and_then (case ra_after a of
                      None \<Rightarrow> Inr None
                    | Some given \<Rightarrow>
                        if \<not> ra_paginate a then query_refused ''an aggregate has no pagination position''
                        else if set (keys given) \<noteq> set names then query_refused ''after must contain exactly the complete ordering key''
                        else map_sum id Some (read_position order given)) (\<lambda>position.
            Inr \<lparr>rp_columns = cols, rp_filters = equal @ ranged, rp_order = order, rp_descending = descending,
                 rp_after = position, rp_limit = limit\<rparr>))))))))"

section \<open>Conditions\<close>

datatype condition =
    IsNull read_column
  | Compare read_column read_op cell nat
  | Conj "condition list"
  | Disj "condition list"
  | Falsity

text \<open>
  \<open>_comparison\<close>: the last argument of a comparison is the scale a decimal is compared at.
\<close>

definition comparison :: "read_column \<Rightarrow> read_op \<Rightarrow> cell \<Rightarrow> query_error + condition" where
  "comparison c op v =
     (if v = CNone then Inr (IsNull c)
      else if starts_with (rc_type c) (lit ''decimal('') then
        (case v of
           CDec (Dec sign ds e) \<Rightarrow>
             (let (precision, scale) = decimal_params (rc_type c); wide = max scale (nat (max 0 (- e)))
              in if precision - scale + wide > 76 then query_refused ''decimal comparison requires more than 76 digits''
                 else Inr (Compare c op v wide))
         | _ \<Rightarrow> Inr (Compare c op v 0))
      else Inr (Compare c op v 0))"

text \<open>
  The rows after a position, in the order of the columns: equal in some columns before, and later, or
  null, in the next. A column whose value in the position is null has nothing after it.
\<close>

definition later_in :: "bool \<Rightarrow> (read_column \<times> cell) list \<Rightarrow> read_column \<Rightarrow> cell \<Rightarrow> query_error + condition list" where
  "later_in descending before c v =
     (if v = CNone then Inr []
      else and_then (traverse (\<lambda>(p, w). comparison p OpEq w) before) (\<lambda>prefix.
           and_then (comparison c (if descending then OpLt else OpGt) v) (\<lambda>later.
             Inr [Conj (prefix @ [Disj [IsNull c, later]])])))"

fun alternatives :: "bool \<Rightarrow> (read_column \<times> cell) list \<Rightarrow> (read_column \<times> cell) list \<Rightarrow> query_error + condition list" where
  "alternatives descending before [] = Inr []"
| "alternatives descending before ((c, v) # rest) =
     and_then (later_in descending before c v) (\<lambda>here.
     and_then (alternatives descending (before @ [(c, v)]) rest) (\<lambda>later. Inr (here @ later)))"

definition after_condition :: "read_plan \<Rightarrow> query_error + condition list" where
  "after_condition p =
     (case rp_after p of
        None \<Rightarrow> Inr []
      | Some after \<Rightarrow>
          and_then (alternatives (rp_descending p) [] (zip (rp_order p) after)) (\<lambda>alts.
            Inr [if alts \<noteq> [] then Disj alts else Falsity]))"

definition filter_conditions :: "read_plan \<Rightarrow> query_error + condition list" where
  "filter_conditions p = traverse (\<lambda>f. comparison (rf_column f) (rf_operation f) (rf_value f)) (rp_filters p)"

definition read_conditions :: "read_plan \<Rightarrow> bool \<Rightarrow> query_error + condition list" where
  "read_conditions p only_count =
     and_then (filter_conditions p) (\<lambda>fs.
     and_then (if only_count then Inr [] else after_condition p) (\<lambda>position. Inr (fs @ position)))"

section \<open>The text of a query\<close>

definition quote_ansi :: "ustring \<Rightarrow> ustring" where
  "quote_ansi identifier = [34] @ concat (map (\<lambda>c. if c = 34 then [34, 34] else [c]) identifier) @ [34]"

text \<open>The dialects that take SQL from the library.\<close>

definition QUOTE :: "dialect \<Rightarrow> ustring \<Rightarrow> ustring" where
  "QUOTE dialect = (if dialect = Postgres then quote_ansi else quote_backtick)"

definition is_float :: "ustring \<Rightarrow> bool" where
  "is_float kind \<longleftrightarrow> kind = lit ''float32'' \<or> kind = lit ''float64''"

definition expression :: "dialect \<Rightarrow> read_column \<Rightarrow> ustring" where
  "expression dialect c =
     (let e = QUOTE dialect (rc_name c)
      in if rc_type c = lit ''string'' \<and> dialect = Postgres then lit ''('' @ e @ lit '' COLLATE \"C\")''
         else if rc_type c = lit ''uuid'' \<and> dialect = Clickhouse then lit ''toString('' @ e @ lit '')''
         else if is_float (rc_type c)
         then (if dialect = Postgres then lit ''CAST('' @ e @ lit '' AS double precision)'' else lit ''toFloat64('' @ e @ lit '')'')
         else e)"

text \<open>\<open>format(value, "f")\<close> of a finite decimal, and \<open>str\<close> of a UUID\<close>

definition plain_decimal :: "bool \<Rightarrow> nat list \<Rightarrow> int \<Rightarrow> ustring" where
  "plain_decimal sign ds e =
     (let whole = map (\<lambda>d. d + 48) ds
      in (if sign then [45] else []) @
         (if e \<ge> 0 then (if list_all (\<lambda>d. d = 0) ds then [48] else whole @ replicate (nat e) 48)
          else (let padded = rjust (nat (- e) + 1) 48 whole
                in take (length padded - nat (- e)) padded @ [46] @ drop (length padded - nat (- e)) padded)))"

definition hex_char :: "nat \<Rightarrow> nat" where
  "hex_char d = (if d < 10 then 48 + d else 87 + d)"

definition uuid_text :: "nat \<Rightarrow> ustring" where
  "uuid_text n =
     (let h = map (\<lambda>i. hex_char (n div 16 ^ i mod 16)) (rev [0..<32])
      in take 8 h @ [45] @ take 4 (drop 8 h) @ [45] @ take 4 (drop 12 h) @ [45] @ take 4 (drop 16 h) @ [45] @ drop 20 h)"

text \<open>A parameter: its placeholder, and the values bound so far.\<close>

type_synonym bound_text = "cell list \<Rightarrow> ustring \<times> cell list"

definition parameter :: "(nat \<Rightarrow> cell \<Rightarrow> ustring) \<Rightarrow> cell \<Rightarrow> bound_text" where
  "parameter place v ps = (place (length ps) v, ps @ [v])"

definition plain :: "ustring \<Rightarrow> bound_text" where
  "plain s ps = (s, ps)"

definition beside :: "bound_text \<Rightarrow> bound_text \<Rightarrow> bound_text" where
  "beside a b ps = (let (s, ps) = a ps; (t, ps) = b ps in (s @ t, ps))"

primrec joined :: "ustring \<Rightarrow> bound_text list \<Rightarrow> bound_text" where
  "joined sep [] = plain []"
| "joined sep (a # bs) = (if bs = [] then a else beside a (beside (plain sep) (joined sep bs)))"

fun op_text :: "read_op \<Rightarrow> ustring" where
  "op_text OpEq = lit ''=''"
| "op_text OpGe = lit ''>=''"
| "op_text OpLt = lit ''<''"
| "op_text OpGt = lit ''>''"

definition decimal_target :: "dialect \<Rightarrow> nat \<Rightarrow> ustring" where
  "decimal_target dialect scale =
     (if dialect = Postgres then lit ''numeric(76,'' @ nat_text scale @ lit '')''
      else lit ''Nullable(Decimal(76,'' @ nat_text scale @ lit ''))'')"

fun decimal_text :: "cell \<Rightarrow> cell" where
  "decimal_text (CDec (Dec sign ds e)) = CStr (plain_decimal sign ds e)"
| "decimal_text v = v"

fun uuid_parameter :: "cell \<Rightarrow> cell" where
  "uuid_parameter (CUuid n) = CStr (uuid_text n)"
| "uuid_parameter v = v"

definition compare_text :: "dialect \<Rightarrow> (nat \<Rightarrow> cell \<Rightarrow> ustring) \<Rightarrow> read_column \<Rightarrow> read_op \<Rightarrow> cell \<Rightarrow> nat \<Rightarrow> bound_text" where
  "compare_text dialect place c op v scale =
     (let e = expression dialect c;
          target = decimal_target dialect scale;
          bare = beside (plain (e @ lit '' '' @ op_text op @ lit '' ''))
            (parameter place (if rc_type c = lit ''uuid'' \<and> dialect = Clickhouse then uuid_parameter v else v))
      in if rc_type c = lit ''uuid'' \<and> dialect = Clickhouse \<and> op = OpEq then
           beside (plain (QUOTE dialect (rc_name c) @ lit '' = toUUID('')) (beside (parameter place (uuid_parameter v)) (plain (lit '')'')))
         else if starts_with (rc_type c) (lit ''decimal('') then
           beside (plain (lit ''CAST('' @ e @ lit '' AS '' @ target @ lit '') '' @ op_text op @ lit '' CAST(''))
             (beside (parameter place (decimal_text v)) (plain (lit '' AS '' @ target @ lit '')'')))
         else if is_float (rc_type c) \<and> op \<noteq> OpEq then
           beside (plain (lit ''('' @ (if dialect = Postgres then e @ lit '' <> '' @ [39] @ lit ''NaN'' @ [39] @ lit ''::double precision''
                                       else lit ''NOT isNaN('' @ e @ lit '')'') @ lit '' AND ''))
             (beside bare (plain (lit '')'')))
         else bare)"

text \<open>
  A disjunction stands in parentheses, and so does a conjunction inside one; the conditions of a query
  are joined bare.
\<close>

fun condition_text :: "dialect \<Rightarrow> (nat \<Rightarrow> cell \<Rightarrow> ustring) \<Rightarrow> condition \<Rightarrow> bound_text" where
  "condition_text dialect place (IsNull c) = plain (expression dialect c @ lit '' IS NULL'')"
| "condition_text dialect place (Compare c op v scale) = compare_text dialect place c op v scale"
| "condition_text dialect place (Conj cs) =
     beside (plain (lit ''('')) (beside (joined (lit '' AND '') (map (condition_text dialect place) cs)) (plain (lit '')'')))"
| "condition_text dialect place (Disj cs) =
     beside (plain (lit ''('')) (beside (joined (lit '' OR '') (map (condition_text dialect place) cs)) (plain (lit '')'')))"
| "condition_text dialect place Falsity = plain (lit ''FALSE'')"

definition where_text :: "dialect \<Rightarrow> (nat \<Rightarrow> cell \<Rightarrow> ustring) \<Rightarrow> condition list \<Rightarrow> bound_text" where
  "where_text dialect place cs =
     (if cs = [] then plain [] else beside (plain (lit '' WHERE '')) (joined (lit '' AND '') (map (condition_text dialect place) cs)))"

definition projection_text :: "dialect \<Rightarrow> read_column \<Rightarrow> ustring" where
  "projection_text dialect c =
     (let q = QUOTE dialect (rc_name c)
      in if dialect = Clickhouse \<and> rc_type c \<in> {lit ''timestamp'', lit ''timestamptz''}
         then lit ''toTimeZone('' @ q @ lit '', '' @ [39] @ lit ''UTC'' @ [39] @ lit '') AS '' @ q
         else if starts_with (rc_type c) (lit ''decimal('')
         then (if dialect = Postgres then lit ''CAST('' @ q @ lit '' AS text) AS '' @ q else lit ''toString('' @ q @ lit '') AS '' @ q)
         else q)"

definition order_text :: "dialect \<Rightarrow> bool \<Rightarrow> read_column \<Rightarrow> ustring" where
  "order_text dialect descending c =
     expression dialect c @ lit '' '' @ (if descending then lit ''DESC'' else lit ''ASC'') @ lit '' NULLS LAST''"

definition read_sql :: "dialect \<Rightarrow> (nat \<Rightarrow> cell \<Rightarrow> ustring) \<Rightarrow> ustring \<Rightarrow> read_plan \<Rightarrow> bool \<Rightarrow> query_error + ustring \<times> cell list" where
  "read_sql dialect place table p only_count =
     and_then (read_conditions p only_count) (\<lambda>cs.
       let from_text = QUOTE dialect table @ (if dialect = Clickhouse then lit '' FINAL'' else [])
       in Inr (if only_count then
                 beside (plain (lit ''SELECT '' @ (if dialect = Postgres then lit ''CAST(count(*) AS text)'' else lit ''toString(count())'')
                   @ lit '' AS sde_count FROM '' @ from_text)) (where_text dialect place cs) []
               else
                 beside (plain (lit ''SELECT '' @ comma_space_join (map (projection_text dialect) (rp_columns p)) @ lit '' FROM '' @ from_text))
                  (beside (where_text dialect place cs)
                  (beside (plain (lit '' ORDER BY '' @ comma_space_join (map (order_text dialect (rp_descending p)) (rp_order p)) @ lit '' LIMIT ''))
                    (parameter place (CInt (int (rp_limit p) + 1))))) []))"

section \<open>What a condition selects\<close>

text \<open>
  SQL's three truth values; \<open>rank\<close> is how the engine orders the values of a column that are not null.
\<close>

definition sql_and :: "bool option \<Rightarrow> bool option \<Rightarrow> bool option" where
  "sql_and a b = (if a = Some False \<or> b = Some False then Some False else if a = None \<or> b = None then None else Some True)"

definition sql_or :: "bool option \<Rightarrow> bool option \<Rightarrow> bool option" where
  "sql_or a b = (if a = Some True \<or> b = Some True then Some True else if a = None \<or> b = None then None else Some False)"

fun op_holds :: "read_op \<Rightarrow> 'o::linorder \<Rightarrow> 'o \<Rightarrow> bool" where
  "op_holds OpEq a b \<longleftrightarrow> a = b"
| "op_holds OpGe a b \<longleftrightarrow> b \<le> a"
| "op_holds OpLt a b \<longleftrightarrow> a < b"
| "op_holds OpGt a b \<longleftrightarrow> b < a"

fun satisfied :: "(read_column \<Rightarrow> cell \<Rightarrow> 'o::linorder) \<Rightarrow> cell row \<Rightarrow> condition \<Rightarrow> bool option" where
  "satisfied rank r (IsNull c) = Some (row_get CNone r (rc_name c) = CNone)"
| "satisfied rank r (Compare c op v scale) =
     (let w = row_get CNone r (rc_name c) in if w = CNone then None else Some (op_holds op (rank c w) (rank c v)))"
| "satisfied rank r (Conj cs) = foldr sql_and (map (satisfied rank r) cs) (Some True)"
| "satisfied rank r (Disj cs) = foldr sql_or (map (satisfied rank r) cs) (Some False)"
| "satisfied rank r Falsity = Some False"

text \<open>\<open>ORDER BY\<close> with nulls last: one column, then the columns in turn.\<close>

fun column_before :: "bool \<Rightarrow> 'o::linorder option \<Rightarrow> 'o option \<Rightarrow> bool" where
  "column_before descending (Some a) (Some b) \<longleftrightarrow> (if descending then b < a else a < b)"
| "column_before descending (Some a) None \<longleftrightarrow> True"
| "column_before descending None b \<longleftrightarrow> False"

fun before :: "bool \<Rightarrow> 'o::linorder option list \<Rightarrow> 'o option list \<Rightarrow> bool" where
  "before descending (a # as) (b # bs) \<longleftrightarrow> column_before descending a b \<or> (a = b \<and> before descending as bs)"
| "before descending _ _ \<longleftrightarrow> False"

definition cell_rank :: "(read_column \<Rightarrow> cell \<Rightarrow> 'o::linorder) \<Rightarrow> read_column \<Rightarrow> cell \<Rightarrow> 'o option" where
  "cell_rank rank c v = (if v = CNone then None else Some (rank c v))"

definition sort_ranks :: "(read_column \<Rightarrow> cell \<Rightarrow> 'o::linorder) \<Rightarrow> read_column list \<Rightarrow> cell row \<Rightarrow> 'o option list" where
  "sort_ranks rank order r = map (\<lambda>c. cell_rank rank c (row_get CNone r (rc_name c))) order"

fun place_row :: "('r \<Rightarrow> 'r \<Rightarrow> bool) \<Rightarrow> 'r \<Rightarrow> 'r list \<Rightarrow> 'r list" where
  "place_row comes r [] = [r]"
| "place_row comes r (x # xs) = (if comes x r then x # place_row comes r xs else r # x # xs)"

definition in_order :: "('r \<Rightarrow> 'r \<Rightarrow> bool) \<Rightarrow> 'r list \<Rightarrow> 'r list" where
  "in_order comes xs = foldr (place_row comes) xs []"

text \<open>What an engine answers to the query of a plan.\<close>

definition select_rows :: "(read_column \<Rightarrow> cell \<Rightarrow> 'o::linorder) \<Rightarrow> cell row list \<Rightarrow> read_plan \<Rightarrow> query_error + cell row list" where
  "select_rows rank rows p =
     and_then (read_conditions p False) (\<lambda>cs.
       Inr (take (rp_limit p + 1)
         (in_order (\<lambda>a b. before (rp_descending p) (sort_ranks rank (rp_order p) a) (sort_ranks rank (rp_order p) b))
           (filter (\<lambda>r. satisfied rank r (Conj cs) = Some True) rows))))"

text \<open>The page of \<open>Session.scan\<close>: at most the limit, and the position to go on from if there is more.\<close>

record scan_page =
  sp_rows :: "cell row list"
  sp_next_after :: "(ustring, cell) dict option"

definition scan_page_of :: "read_plan \<Rightarrow> cell row list \<Rightarrow> scan_page" where
  "scan_page_of p rows =
     (let visible = take (rp_limit p) rows
      in \<lparr>sp_rows = visible,
          sp_next_after =
            (if length rows > rp_limit p
             then Some (map (\<lambda>c. (rc_name c, row_get CNone (last visible) (rc_name c))) (rp_order p)) else None)\<rparr>)"

definition scan_rows ::
  "(read_column \<Rightarrow> cell \<Rightarrow> 'o::linorder) \<Rightarrow> read_column list \<Rightarrow> ustring list \<Rightarrow> read_args \<Rightarrow> cell row list \<Rightarrow> query_error + scan_page" where
  "scan_rows rank cols key a rows =
     and_then (plan_read cols key a) (\<lambda>p. and_then (select_rows rank rows p) (\<lambda>found. Inr (scan_page_of p found)))"

end
