(* ===== verification/Pages.thy ===== *)
theory Pages
  imports Query
begin

text \<open>
  Reading a table page by page: each page is asked for with the position of the last row of the page
  before. Between two pages the table may change. The condition a position is turned into selects
  exactly the rows that come after it, so a row that stays is read exactly once.
\<close>

section \<open>The order of a query\<close>

lemma column_before_trans: "column_before d a b \<Longrightarrow> column_before d b c \<Longrightarrow> column_before d a c"
  by (cases a; cases b; cases c) (auto split: if_splits)

lemma column_before_irrefl: "\<not> column_before d a a"
  by (cases a) auto

lemma column_before_total: "a \<noteq> b \<Longrightarrow> column_before d a b \<or> column_before d b a"
  by (cases a; cases b) auto

lemma before_trans: "before d a b \<Longrightarrow> before d b c \<Longrightarrow> before d a c"
proof (induction d a b arbitrary: c rule: before.induct)
  case (1 d a as b bs)
  then show ?case by (cases c) (auto dest: column_before_trans)
qed auto

lemma before_irrefl: "\<not> before d a a"
  by (induction a) (auto simp: column_before_irrefl)

lemma before_total: "length a = length b \<Longrightarrow> a \<noteq> b \<Longrightarrow> before d a b \<or> before d b a"
proof (induction a b rule: list_induct2')
  case (4 a as b bs)
  then show ?case using column_before_total [of a b d] by auto
qed auto

lemma set_place_row [simp]: "set (place_row comes r xs) = insert r (set xs)"
  by (induction xs) auto

lemma set_in_order [simp]: "set (in_order comes xs) = set xs"
  by (induction xs) (auto simp: in_order_def)

lemma length_place_row [simp]: "length (place_row comes r xs) = Suc (length xs)"
  by (induction xs) auto

lemma length_in_order [simp]: "length (in_order comes xs) = length xs"
  by (induction xs) (auto simp: in_order_def)

lemma sorted_place_row:
  assumes "sorted_wrt comes xs" "\<forall>x \<in> set xs. comes x r \<or> comes r x" "\<And>x y z. comes x y \<Longrightarrow> comes y z \<Longrightarrow> comes x z"
  shows "sorted_wrt comes (place_row comes r xs)"
  using assms(1,2)
proof (induction xs)
  case (Cons x xs)
  then show ?case using assms(3) by (cases "comes x r") auto
qed simp

text \<open>The order of the rows of a plan.\<close>

definition row_before :: "(read_column \<Rightarrow> cell \<Rightarrow> 'o::linorder) \<Rightarrow> read_plan \<Rightarrow> cell row \<Rightarrow> cell row \<Rightarrow> bool" where
  "row_before rank p a b \<longleftrightarrow> before (rp_descending p) (sort_ranks rank (rp_order p) a) (sort_ranks rank (rp_order p) b)"

definition one_per_position :: "(read_column \<Rightarrow> cell \<Rightarrow> 'o::linorder) \<Rightarrow> read_plan \<Rightarrow> cell row list \<Rightarrow> bool" where
  "one_per_position rank p rows \<longleftrightarrow> distinct (map (sort_ranks rank (rp_order p)) rows)"

lemma row_before_trans: "row_before rank p a b \<Longrightarrow> row_before rank p b c \<Longrightarrow> row_before rank p a c"
  unfolding row_before_def by (rule before_trans)

lemma row_before_irrefl: "\<not> row_before rank p a a"
  by (simp add: row_before_def before_irrefl)

lemma in_order_sorted: "one_per_position rank p rows \<Longrightarrow> sorted_wrt (row_before rank p) (in_order (row_before rank p) rows)"
proof (induction rows)
  case (Cons r rows)
  have "row_before rank p x r \<or> row_before rank p r x" if "x \<in> set rows" for x
  proof -
    have "sort_ranks rank (rp_order p) x \<noteq> sort_ranks rank (rp_order p) r" using Cons.prems that unfolding one_per_position_def list.map distinct.simps set_map by (metis imageI)
    then show ?thesis unfolding row_before_def by (intro before_total) (simp_all add: sort_ranks_def)
  qed
  then have "sorted_wrt (row_before rank p) (place_row (row_before rank p) r (in_order (row_before rank p) rows))"
    using Cons by (intro sorted_place_row) (auto simp: one_per_position_def dest: row_before_trans)
  then show ?case by (simp add: in_order_def)
qed (simp add: in_order_def)

lemma one_per_position_filter: "one_per_position rank p rows \<Longrightarrow> one_per_position rank p (filter P rows)"
  by (simp add: one_per_position_def distinct_map_filter)

section \<open>What a position selects\<close>

lemma foldr_sql_or: "foldr sql_or bs (Some False) = Some True \<longleftrightarrow> Some True \<in> set bs"
  by (induction bs) (auto simp: sql_or_def)

lemma foldr_sql_and: "foldr sql_and bs (Some True) = Some True \<longleftrightarrow> (\<forall>b \<in> set bs. b = Some True)"
  by (induction bs) (auto simp: sql_and_def)

lemma satisfied_Disj: "satisfied rank r (Disj cs) = Some True \<longleftrightarrow> (\<exists>c \<in> set cs. satisfied rank r c = Some True)"
  unfolding satisfied.simps foldr_sql_or set_map by (metis imageE imageI)

lemma satisfied_Conj: "satisfied rank r (Conj cs) = Some True \<longleftrightarrow> (\<forall>c \<in> set cs. satisfied rank r c = Some True)"
  unfolding satisfied.simps foldr_sql_and by auto

declare satisfied.simps(3,4) [simp del]

lemma comparison_Inr:
  assumes "comparison c op v = Inr cond"
  shows "v = CNone \<and> cond = IsNull c \<or> v \<noteq> CNone \<and> (\<exists>scale. cond = Compare c op v scale)"
  using assms by (auto simp: comparison_def Let_def split: if_splits cell.splits decimal.splits prod.splits)

abbreviation cell_of :: "cell row \<Rightarrow> read_column \<Rightarrow> cell" where
  "cell_of r c \<equiv> row_get CNone r (rc_name c)"

lemma equal_selects:
  assumes "comparison c OpEq v = Inr cond"
  shows "satisfied rank r cond = Some True \<longleftrightarrow> cell_rank rank c v = cell_rank rank c (cell_of r c)"
  using comparison_Inr [OF assms] by (auto simp: cell_rank_def Let_def)

lemma later_selects:
  assumes "comparison c (if descending then OpLt else OpGt) v = Inr cond" "v \<noteq> CNone"
  shows "satisfied rank r (Disj [IsNull c, cond]) = Some True \<longleftrightarrow>
    column_before descending (cell_rank rank c v) (cell_rank rank c (cell_of r c))"
  using comparison_Inr [OF assms(1)] assms(2) unfolding satisfied_Disj
  by (cases descending) (auto simp: cell_rank_def Let_def)

lemma alternatives_select:
  assumes "alternatives descending pre rest = Inr alts"
  shows "(\<exists>alt \<in> set alts. satisfied rank r alt = Some True) \<longleftrightarrow>
    (\<forall>(c, v) \<in> set pre. cell_rank rank c v = cell_rank rank c (cell_of r c)) \<and>
    before descending (map (\<lambda>(c, v). cell_rank rank c v) rest) (map (\<lambda>(c, v). cell_rank rank c (cell_of r c)) rest)"
  using assms
proof (induction descending pre rest arbitrary: alts rule: alternatives.induct)
  case (2 descending pre c v rest)
  then obtain here later where parts: "later_in descending pre c v = Inr here"
    "alternatives descending (pre @ [(c, v)]) rest = Inr later" "alts = here @ later"
    by (auto simp: and_then_Inr)
  have "(\<exists>alt \<in> set here. satisfied rank r alt = Some True) \<longleftrightarrow>
    (\<forall>(c, v) \<in> set pre. cell_rank rank c v = cell_rank rank c (cell_of r c)) \<and>
    column_before descending (cell_rank rank c v) (cell_rank rank c (cell_of r c))"
  proof (cases "v = CNone")
    case True
    then show ?thesis using parts(1) by (auto simp: later_in_def cell_rank_def)
  next
    case False
    then obtain prefix cond where cond: "traverse (\<lambda>(p, w). comparison p OpEq w) pre = Inr prefix"
      "comparison c (if descending then OpLt else OpGt) v = Inr cond" "here = [Conj (prefix @ [Disj [IsNull c, cond]])]"
      using parts(1) by (auto simp: later_in_def and_then_Inr)
    have "(\<forall>cond \<in> set prefix. satisfied rank r cond = Some True) \<longleftrightarrow>
      (\<forall>(c, v) \<in> set pre. cell_rank rank c v = cell_rank rank c (cell_of r c))"
      using cond(1) unfolding traverse_Inr
    proof (induction rule: list_all2_induct)
      case (Cons x xs y ys)
      obtain c v where "x = (c, v)" by (cases x)
      then show ?case using Cons equal_selects [of c v y rank r] by auto
    qed simp
    then show ?thesis using later_selects [OF cond(2) False, of rank r] cond(3) by (auto simp: satisfied_Conj)
  qed
  then show ?case using "2.IH" [OF parts(1,2)] parts(3) by auto
qed simp

section \<open>One page\<close>

text \<open>The position of a row in an order.\<close>

definition position_of :: "read_column list \<Rightarrow> cell row \<Rightarrow> (ustring, cell) dict" where
  "position_of order r = map (\<lambda>c. (rc_name c, cell_of r c)) order"

text \<open>
  A row whose ordering values a position may carry: they are read back as themselves, and a decimal
  compares within 76 digits.
\<close>

definition orderable :: "read_plan \<Rightarrow> cell row \<Rightarrow> bool" where
  "orderable p r \<longleftrightarrow> (\<forall>c \<in> set (rp_order p). query_value (rc_type c) (cell_of r c) = Inr (cell_of r c) \<and>
     (\<forall>op. \<exists>cond. comparison c op (cell_of r c) = Inr cond))"

lemma row_get_position: "c \<in> set order \<Longrightarrow> cell_of (position_of order r) c = cell_of r c"
proof -
  assume "c \<in> set order"
  then have "map_of (position_of order r) (rc_name c) = Some (cell_of r c)"
    by (induction order) (auto simp: position_of_def)
  then show ?thesis by (simp add: row_get_def)
qed

lemma read_field_name: "read_field cols n = Inr c \<Longrightarrow> rc_name c = n"
  by (auto simp: read_field_def split: option.splits dest!: map_of_SomeD)

lemma plan_read_order:
  assumes "plan_read cols key a = Inr p" "ra_paginate a"
  shows "map rc_name (rp_order p) = order_names (ra_order_by a) key" "1 \<le> rp_limit p"
proof -
  obtain order limit where order: "read_order cols (order_names (ra_order_by a) key) True = Inr order"
    "page_limit (ra_limit a) = Inr limit" "rp_order p = order" "rp_limit p = limit"
    using assms by (auto simp: plan_read_def Let_def and_then_Inr)
  have "list_all2 (\<lambda>n c. read_field cols n = Inr c) (order_names (ra_order_by a) key) order"
    using order(1) by (auto simp: read_order_def and_then_Inr traverse_Inr)
  then have "list_all2 (\<lambda>n c. rc_name c = n) (order_names (ra_order_by a) key) order"
    by (rule list_all2_mono) (simp add: read_field_name)
  then show "map rc_name (rp_order p) = order_names (ra_order_by a) key"
    unfolding order(3) by (induction rule: list_all2_induct) auto
  show "1 \<le> rp_limit p" using order(2,4) by (auto simp: page_limit_def split: cell.splits if_splits)
qed

lemma plan_read_after:
  assumes "plan_read cols key (a\<lparr>ra_after := None\<rparr>) = Inr p" "ra_paginate a" "orderable p r"
  shows "plan_read cols key (a\<lparr>ra_after := Some (position_of (rp_order p) r)\<rparr>) = Inr (p\<lparr>rp_after := Some (map (cell_of r) (rp_order p))\<rparr>)"
proof -
  have names: "map rc_name (rp_order p) = order_names (ra_order_by a) key" using plan_read_order(1) [OF assms(1)] assms(2) by simp
  then have "set (keys (position_of (rp_order p) r)) = set (order_names (ra_order_by a) key)"
    unfolding names [symmetric] by (auto simp: position_of_def)
  moreover have "read_position (rp_order p) (position_of (rp_order p) r) = Inr (map (cell_of r) (rp_order p))"
    unfolding read_position_def using assms(3) by (intro traverse_pure) (simp add: row_get_position orderable_def)
  ultimately show ?thesis
    using assms(1,2) by (auto simp: plan_read_def Let_def and_then_Inr)
qed

text \<open>The rows of a table that are still to be read, in order.\<close>

definition selected :: "(read_column \<Rightarrow> cell \<Rightarrow> 'o::linorder) \<Rightarrow> condition list \<Rightarrow> cell row \<Rightarrow> bool" where
  "selected rank fs r \<longleftrightarrow> (\<forall>f \<in> set fs. satisfied rank r f = Some True)"

definition remaining ::
  "(read_column \<Rightarrow> cell \<Rightarrow> 'o::linorder) \<Rightarrow> read_plan \<Rightarrow> condition list \<Rightarrow> cell row option \<Rightarrow> cell row list \<Rightarrow> cell row list" where
  "remaining rank p fs cur rows =
     in_order (row_before rank p) (filter (\<lambda>r. selected rank fs r \<and> (case cur of None \<Rightarrow> True | Some r0 \<Rightarrow> row_before rank p r0 r)) rows)"

lemma alternatives_defined:
  assumes "\<forall>(c, v) \<in> set (pre @ rest). \<forall>op. \<exists>cond. comparison c op v = Inr cond"
  shows "\<exists>alts. alternatives descending pre rest = Inr alts"
  using assms
proof (induction descending pre rest rule: alternatives.induct)
  case (2 descending pre c v rest)
  have "\<exists>prefix. traverse (\<lambda>(p, w). comparison p OpEq w) pre = Inr prefix"
    using "2.prems" by (induction pre) (force simp: and_then_Inr)+
  then have "\<exists>here. later_in descending pre c v = Inr here"
    using "2.prems" by (auto simp: later_in_def and_then_Inr)
  then obtain here where here: "later_in descending pre c v = Inr here" by blast
  then have "\<exists>later. alternatives descending (pre @ [(c, v)]) rest = Inr later" using "2.IH" "2.prems" by simp
  then show ?case using here by (auto simp: and_then_Inr)
qed simp

lemma after_selects:
  assumes "orderable p r0"
  shows "\<exists>cs. after_condition (p\<lparr>rp_after := Some (map (cell_of r0) (rp_order p))\<rparr>) = Inr cs \<and>
    (\<forall>r. (\<forall>c \<in> set cs. satisfied rank r c = Some True) \<longleftrightarrow> row_before rank p r0 r)"
proof -
  let ?z = "zip (rp_order p) (map (cell_of r0) (rp_order p))"
  have z: "?z = map (\<lambda>c. (c, cell_of r0 c)) (rp_order p)" by (simp add: zip_map2 zip_same_conv_map)
  have "\<forall>(c, v) \<in> set ([] @ ?z). \<forall>op. \<exists>cond. comparison c op v = Inr cond"
    unfolding z using assms by (auto simp: orderable_def)
  then obtain alts where alts: "alternatives (rp_descending p) [] ?z = Inr alts" using alternatives_defined by blast
  have "(\<exists>alt \<in> set alts. satisfied rank r alt = Some True) \<longleftrightarrow> row_before rank p r0 r" for r
    using alternatives_select [OF alts, of rank r] unfolding z row_before_def sort_ranks_def by (simp add: comp_def)
  then show ?thesis
    using alts by (cases "alts = []") (auto simp: after_condition_def and_then_Inr satisfied_Disj)
qed

lemma filter_conditions_after [simp]: "filter_conditions (p\<lparr>rp_after := after\<rparr>) = filter_conditions p"
  by (simp add: filter_conditions_def)

definition cursor_arg :: "read_plan \<Rightarrow> cell row option \<Rightarrow> (ustring, cell) dict option" where
  "cursor_arg p cur = map_option (position_of (rp_order p)) cur"

lemma scan_rows_remaining:
  assumes "plan_read cols key (a\<lparr>ra_after := None\<rparr>) = Inr p" "ra_paginate a" "filter_conditions p = Inr fs" "pred_option (orderable p) cur"
  shows "scan_rows rank cols key (a\<lparr>ra_after := cursor_arg p cur\<rparr>) rows =
    Inr \<lparr>sp_rows = take (rp_limit p) (remaining rank p fs cur rows),
         sp_next_after = cursor_arg p (if length (remaining rank p fs cur rows) > rp_limit p
           then Some (last (take (rp_limit p) (remaining rank p fs cur rows))) else None)\<rparr>"
proof -
  obtain p' cs where p': "plan_read cols key (a\<lparr>ra_after := cursor_arg p cur\<rparr>) = Inr p'" "p' = p\<lparr>rp_after := rp_after p'\<rparr>"
    "after_condition p' = Inr cs"
    "\<And>r. (\<forall>c \<in> set cs. satisfied rank r c = Some True) \<longleftrightarrow> (case cur of None \<Rightarrow> True | Some r0 \<Rightarrow> row_before rank p r0 r)"
  proof (cases cur)
    case None
    have "rp_after p = None" using assms(1) by (auto simp: plan_read_def Let_def and_then_Inr)
    then show ?thesis using that [of p "[]"] assms(1) None by (simp add: cursor_arg_def after_condition_def)
  next
    case (Some r0)
    then have r0: "orderable p r0" using assms(4) by simp
    obtain cs where cs: "after_condition (p\<lparr>rp_after := Some (map (cell_of r0) (rp_order p))\<rparr>) = Inr cs"
      "\<And>r. (\<forall>c \<in> set cs. satisfied rank r c = Some True) \<longleftrightarrow> row_before rank p r0 r"
      using after_selects [OF r0] by blast
    show ?thesis using that [OF _ _ cs(1)] plan_read_after [OF assms(1,2) r0] cs(2) Some by (simp add: cursor_arg_def)
  qed
  have same: "rp_limit p' = rp_limit p" "rp_order p' = rp_order p" "rp_descending p' = rp_descending p"
    using p'(2) by (metis read_plan.select_convs read_plan.surjective read_plan.update_convs(5))+
  have "filter_conditions p' = Inr fs" using assms(3) p'(2) filter_conditions_after by metis
  then have conditions: "read_conditions p' False = Inr (fs @ cs)" using p'(3) by (simp add: read_conditions_def and_then_Inr)
  have "select_rows rank rows p' = Inr (take (rp_limit p + 1) (remaining rank p fs cur rows))"
    using p'(4) unfolding select_rows_def conditions remaining_def selected_def
    by (simp add: satisfied_Conj same row_before_def [abs_def] ball_Un)
  then show ?thesis
    unfolding scan_rows_def p'(1)
    by (simp add: scan_page_of_def same Let_def cursor_arg_def position_of_def min_def)
qed

section \<open>Page after page\<close>

text \<open>
  A reader asks for pages until one has no next position. The list is the table as it is at each page;
  \<open>None\<close> means the reader had not finished when the list ended.
\<close>

fun read_pages ::
  "(read_column \<Rightarrow> cell \<Rightarrow> 'o::linorder) \<Rightarrow> read_column list \<Rightarrow> ustring list \<Rightarrow> read_args \<Rightarrow> (ustring, cell) dict option \<Rightarrow>
     cell row list list \<Rightarrow> query_error + cell row list list option" where
  "read_pages rank cols key a after [] = Inr None"
| "read_pages rank cols key a after (rows # states) =
     and_then (scan_rows rank cols key (a\<lparr>ra_after := after\<rparr>) rows) (\<lambda>page.
       case sp_next_after page of
         None \<Rightarrow> Inr (Some [sp_rows page])
       | Some next \<Rightarrow> and_then (read_pages rank cols key a (Some next) states) (\<lambda>rest. Inr (map_option ((#) (sp_rows page)) rest)))"

text \<open>The pages, by the rows that remain.\<close>

fun pages_from ::
  "(read_column \<Rightarrow> cell \<Rightarrow> 'o::linorder) \<Rightarrow> read_plan \<Rightarrow> condition list \<Rightarrow> cell row option \<Rightarrow> cell row list list \<Rightarrow> cell row list list option" where
  "pages_from rank p fs cur [] = None"
| "pages_from rank p fs cur (rows # states) =
     (let left = remaining rank p fs cur rows; page = take (rp_limit p) left
      in if length left > rp_limit p then map_option ((#) page) (pages_from rank p fs (Some (last page)) states)
         else Some [page])"

definition table_ok :: "(read_column \<Rightarrow> cell \<Rightarrow> 'o::linorder) \<Rightarrow> read_plan \<Rightarrow> cell row list \<Rightarrow> bool" where
  "table_ok rank p rows \<longleftrightarrow> one_per_position rank p rows \<and> (\<forall>r \<in> set rows. orderable p r)"

lemma set_remaining:
  "set (remaining rank p fs cur rows) =
     {r \<in> set rows. selected rank fs r \<and> (case cur of None \<Rightarrow> True | Some r0 \<Rightarrow> row_before rank p r0 r)}"
  by (auto simp: remaining_def)

lemma sorted_remaining: "one_per_position rank p rows \<Longrightarrow> sorted_wrt (row_before rank p) (remaining rank p fs cur rows)"
  unfolding remaining_def by (intro in_order_sorted one_per_position_filter)

lemma last_visible:
  assumes "1 \<le> rp_limit p" "length left > rp_limit p"
  shows "last (take (rp_limit p) left) \<in> set left" "take (rp_limit p) left \<noteq> []"
proof -
  show "take (rp_limit p) left \<noteq> []" using assms by auto
  then show "last (take (rp_limit p) left) \<in> set left" using in_set_takeD last_in_set by metis
qed

lemma read_pages_from:
  assumes "plan_read cols key (a\<lparr>ra_after := None\<rparr>) = Inr p" "ra_paginate a" "filter_conditions p = Inr fs"
    and "\<forall>rows \<in> set states. table_ok rank p rows" "pred_option (orderable p) cur"
  shows "read_pages rank cols key a (cursor_arg p cur) states = Inr (pages_from rank p fs cur states)"
  using assms(4,5)
proof (induction states arbitrary: cur)
  case (Cons rows states)
  note page = scan_rows_remaining [OF assms(1-3) Cons.prems(2), of rank rows]
  let ?left = "remaining rank p fs cur rows"
  show ?case
  proof (cases "length ?left > rp_limit p")
    case True
    have "1 \<le> rp_limit p" using plan_read_order(2) [OF assms(1)] assms(2) by simp
    then have "last (take (rp_limit p) ?left) \<in> set rows" using last_visible(1) [OF _ True] set_remaining by blast
    then have "pred_option (orderable p) (Some (last (take (rp_limit p) ?left)))" using Cons.prems(1) by (auto simp: table_ok_def)
    from Cons.IH [OF _ this] Cons.prems(1) show ?thesis using True page by (simp add: Let_def cursor_arg_def)
  next
    case False
    then show ?thesis using page by (simp add: Let_def cursor_arg_def)
  qed
qed simp

lemma sorted_split_at:
  assumes "sorted_wrt (row_before rank p) xs" "x \<in> set xs" "x \<notin> set (take n xs)" "take n xs \<noteq> []"
  shows "row_before rank p (last (take n xs)) x"
proof -
  have "x \<in> set (drop n xs)" using assms(2,3) by (metis Un_iff append_take_drop_id set_append)
  moreover have "last (take n xs) \<in> set (take n xs)" using assms(4) by (rule last_in_set)
  ultimately show ?thesis using assms(1) by (metis append_take_drop_id sorted_wrt_append)
qed

lemma sorted_take_le_last:
  assumes "sorted_wrt (row_before rank p) xs" "x \<in> set (take n xs)"
  shows "x = last (take n xs) \<or> row_before rank p x (last (take n xs))"
proof -
  have ne: "take n xs \<noteq> []" using assms(2) by (metis empty_iff list.set(1))
  then have "take n xs = butlast (take n xs) @ [last (take n xs)]" by simp
  moreover have "sorted_wrt (row_before rank p) (take n xs)" using assms(1) by (rule sorted_wrt_take)
  ultimately have "\<forall>y \<in> set (butlast (take n xs)). row_before rank p y (last (take n xs))"
    by (metis list.set_intros(1) sorted_wrt_append)
  then show ?thesis using assms(2) ne by (metis append_butlast_last_id rotate1.simps(2) set_ConsD set_rotate1)
qed

text \<open>What pages from a position hold.\<close>

lemma pages_from_sound:
  assumes "pages_from rank p fs cur states = Some pages" "\<forall>rows \<in> set states. table_ok rank p rows" "1 \<le> rp_limit p"
  shows "\<forall>page \<in> set pages. length page \<le> rp_limit p" "sorted_wrt (row_before rank p) (concat pages)"
    "\<forall>r \<in> set (concat pages). selected rank fs r \<and> (\<exists>rows \<in> set states. r \<in> set rows) \<and> (\<forall>r0. cur = Some r0 \<longrightarrow> row_before rank p r0 r)"
    "\<forall>r. (\<forall>rows \<in> set states. r \<in> set rows) \<and> selected rank fs r \<and> (\<forall>r0. cur = Some r0 \<longrightarrow> row_before rank p r0 r) \<longrightarrow> r \<in> set (concat pages)"
proof -
  have all: "(\<forall>page \<in> set pages. length page \<le> rp_limit p) \<and> sorted_wrt (row_before rank p) (concat pages) \<and>
    (\<forall>r \<in> set (concat pages). selected rank fs r \<and> (\<exists>rows \<in> set states. r \<in> set rows) \<and> (\<forall>r0. cur = Some r0 \<longrightarrow> row_before rank p r0 r)) \<and>
    (\<forall>r. (\<forall>rows \<in> set states. r \<in> set rows) \<and> selected rank fs r \<and> (\<forall>r0. cur = Some r0 \<longrightarrow> row_before rank p r0 r) \<longrightarrow> r \<in> set (concat pages))"
    using assms(1,2)
  proof (induction states arbitrary: cur pages)
    case (Cons rows states)
    define left where "left = remaining rank p fs cur rows"
    define page where "page = take (rp_limit p) left"
    have sorted: "sorted_wrt (row_before rank p) left" using Cons.prems(2) by (simp add: left_def table_ok_def sorted_remaining)
    have left: "r \<in> set left \<longleftrightarrow> r \<in> set rows \<and> selected rank fs r \<and> (\<forall>r0. cur = Some r0 \<longrightarrow> row_before rank p r0 r)" for r
      by (auto simp: left_def set_remaining split: option.splits)
    have page: "set page \<subseteq> set left" "length page \<le> rp_limit p" "sorted_wrt (row_before rank p) page"
      using sorted by (auto simp: page_def set_take_subset sorted_wrt_take dest: in_set_takeD)
    show ?case
    proof (cases "length left > rp_limit p")
      case True
      then obtain rest where rest: "pages_from rank p fs (Some (last page)) states = Some rest" "pages = page # rest"
        using Cons.prems(1) by (auto simp: Let_def left_def page_def)
      have IH: "\<forall>page \<in> set rest. length page \<le> rp_limit p" "sorted_wrt (row_before rank p) (concat rest)"
        "\<forall>r \<in> set (concat rest). selected rank fs r \<and> (\<exists>rows \<in> set states. r \<in> set rows) \<and> row_before rank p (last page) r"
        "\<forall>r. (\<forall>rows \<in> set states. r \<in> set rows) \<and> selected rank fs r \<and> row_before rank p (last page) r \<longrightarrow> r \<in> set (concat rest)"
        using Cons.IH [OF rest(1)] Cons.prems(2) by (simp_all only: list.set ball_simps option.inject) blast+
      have later: "row_before rank p r r'" if "r \<in> set page" "r' \<in> set (concat rest)" for r r'
      proof -
        have "row_before rank p (last page) r'" using IH(3) that(2) by blast
        then show ?thesis using sorted_take_le_last [OF sorted, of r "rp_limit p"] that(1) row_before_trans by (auto simp: page_def)
      qed
      have ne: "page \<noteq> []" using last_visible(2) [OF assms(3) True] by (simp add: page_def)
      have reads: "r \<in> set (concat pages)"
        if "\<forall>rows \<in> set (rows # states). r \<in> set rows" "selected rank fs r" "\<forall>r0. cur = Some r0 \<longrightarrow> row_before rank p r0 r" for r
      proof (cases "r \<in> set page")
        case False
        then have "row_before rank p (last page) r"
          using sorted_split_at [OF sorted, of r "rp_limit p"] left that ne by (simp add: page_def)
        then have "r \<in> set (concat rest)" using IH(4) that(1,2) by simp
        then show ?thesis using rest(2) by simp
      qed (simp add: rest(2))
      have from_left: "row_before rank p r0 r" if "r \<in> set (concat rest)" "cur = Some r0" for r r0
      proof (rule row_before_trans)
        have "last page \<in> set left" using page(1) ne last_in_set by blast
        then show "row_before rank p r0 (last page)" using left that(2) by blast
        show "row_before rank p (last page) r" using IH(3) that(1) by blast
      qed
      have sound: "selected rank fs r \<and> (\<exists>rows \<in> set (rows # states). r \<in> set rows) \<and> (\<forall>r0. cur = Some r0 \<longrightarrow> row_before rank p r0 r)"
        if r: "r \<in> set (concat pages)" for r
      proof (cases "r \<in> set page")
        case True
        then have "r \<in> set left" using page(1) by blast
        then show ?thesis using left by simp
      next
        case False
        then have "r \<in> set (concat rest)" using r rest(2) by simp
        then show ?thesis using IH(3) from_left by auto
      qed
      have "sorted_wrt (row_before rank p) (concat pages)" using page(3) IH(2) later rest(2) by (simp add: sorted_wrt_append)
      moreover have "\<forall>page \<in> set pages. length page \<le> rp_limit p" using page(2) IH(1) rest(2) by simp
      ultimately show ?thesis using sound reads by blast
    next
      case False
      then have "pages = [left]" using Cons.prems(1) by (auto simp: Let_def left_def page_def)
      then show ?thesis using left sorted False by auto
    qed
  qed simp
  show "\<forall>page \<in> set pages. length page \<le> rp_limit p" by (rule all [THEN conjunct1])
  show "sorted_wrt (row_before rank p) (concat pages)" by (rule all [THEN conjunct2, THEN conjunct1])
  show "\<forall>r \<in> set (concat pages). selected rank fs r \<and> (\<exists>rows \<in> set states. r \<in> set rows) \<and> (\<forall>r0. cur = Some r0 \<longrightarrow> row_before rank p r0 r)"
    by (rule all [THEN conjunct2, THEN conjunct2, THEN conjunct1])
  show "\<forall>r. (\<forall>rows \<in> set states. r \<in> set rows) \<and> selected rank fs r \<and> (\<forall>r0. cur = Some r0 \<longrightarrow> row_before rank p r0 r) \<longrightarrow> r \<in> set (concat pages)"
    by (rule all [THEN conjunct2, THEN conjunct2, THEN conjunct2])
qed

lemma sorted_unique:
  assumes "sorted_wrt (row_before rank p) xs" "sorted_wrt (row_before rank p) ys" "set xs = set ys"
  shows "xs = ys"
  using assms
proof (induction xs arbitrary: ys)
  case (Cons x xs)
  then obtain y ys' where ys: "ys = y # ys'" by (cases ys) auto
  have irrefl: "row_before rank p a b \<Longrightarrow> \<not> row_before rank p b a" for a b using row_before_trans row_before_irrefl by blast
  have "x = y"
  proof (rule ccontr)
    assume "x \<noteq> y"
    then have "x \<in> set ys'" "y \<in> set xs" using Cons.prems(3) ys by auto
    then show False using Cons.prems(1,2) ys irrefl by auto
  qed
  moreover have "x \<notin> set xs" "y \<notin> set ys'" using Cons.prems(1,2) ys row_before_irrefl [of rank p x] row_before_irrefl [of rank p y] by auto
  ultimately have "set xs = set ys'" using Cons.prems(3) ys by auto
  then have "xs = ys'" using Cons.IH Cons.prems(1,2) ys by simp
  then show ?case using ys \<open>x = y\<close> by simp
qed simp

lemma remaining_next:
  assumes "table_ok rank p rows" "1 \<le> rp_limit p" "length (remaining rank p fs cur rows) > rp_limit p"
  shows "remaining rank p fs (Some (last (take (rp_limit p) (remaining rank p fs cur rows)))) rows = drop (rp_limit p) (remaining rank p fs cur rows)"
proof -
  define left where "left = remaining rank p fs cur rows"
  define page where "page = take (rp_limit p) left"
  have sorted: "sorted_wrt (row_before rank p) left" using assms(1) by (simp add: left_def table_ok_def sorted_remaining)
  have ne: "page \<noteq> []" and last: "last page \<in> set left" using last_visible [OF assms(2,3)] by (simp_all add: left_def page_def)
  have left: "r \<in> set left \<longleftrightarrow> r \<in> set rows \<and> selected rank fs r \<and> (\<forall>r0. cur = Some r0 \<longrightarrow> row_before rank p r0 r)" for r
    by (auto simp: left_def set_remaining split: option.splits)
  have "set (remaining rank p fs (Some (last page)) rows) = set (drop (rp_limit p) left)"
  proof (intro equalityI subsetI)
    fix r assume "r \<in> set (remaining rank p fs (Some (last page)) rows)"
    then have r: "r \<in> set rows" "selected rank fs r" "row_before rank p (last page) r" by (auto simp: set_remaining)
    then have "r \<in> set left" using left last row_before_trans by blast
    moreover have "r \<notin> set page"
      using sorted_take_le_last [OF sorted, of r "rp_limit p"] r(3) row_before_trans row_before_irrefl unfolding page_def by metis
    ultimately show "r \<in> set (drop (rp_limit p) left)" unfolding page_def by (metis Un_iff append_take_drop_id set_append)
  next
    fix r assume r: "r \<in> set (drop (rp_limit p) left)"
    then have "row_before rank p (last page) r"
      using sorted ne last_in_set unfolding page_def by (metis append_take_drop_id sorted_wrt_append)
    then show "r \<in> set (remaining rank p fs (Some (last page)) rows)" using r left in_set_dropD by (fastforce simp: set_remaining)
  qed
  moreover have "sorted_wrt (row_before rank p) (remaining rank p fs (Some (last page)) rows)"
    using assms(1) by (simp add: table_ok_def sorted_remaining)
  ultimately have "remaining rank p fs (Some (last page)) rows = drop (rp_limit p) left"
    using sorted by (intro sorted_unique) (simp_all, metis append_take_drop_id sorted_wrt_append)
  then show ?thesis by (simp add: left_def page_def)
qed

lemma pages_from_still:
  assumes "table_ok rank p rows" "1 \<le> rp_limit p" "length (remaining rank p fs cur rows) < n"
  shows "\<exists>pages. pages_from rank p fs cur (replicate n rows) = Some pages \<and> concat pages = remaining rank p fs cur rows"
  using assms(3)
proof (induction n arbitrary: cur)
  case (Suc n)
  let ?left = "remaining rank p fs cur rows"
  show ?case
  proof (cases "length ?left > rp_limit p")
    case True
    let ?cur = "Some (last (take (rp_limit p) ?left))"
    have next_left: "remaining rank p fs ?cur rows = drop (rp_limit p) ?left" by (rule remaining_next [OF assms(1,2) True])
    have "length (remaining rank p fs ?cur rows) < n" unfolding next_left using Suc.prems True assms(2) by simp
    from Suc.IH [OF this] obtain pages where pages: "pages_from rank p fs ?cur (replicate n rows) = Some pages"
      "concat pages = drop (rp_limit p) ?left" unfolding next_left by blast
    have "pages_from rank p fs cur (replicate (Suc n) rows) = Some (take (rp_limit p) ?left # pages)"
      using True pages(1) by (simp add: Let_def)
    moreover have "concat (take (rp_limit p) ?left # pages) = ?left" using pages(2) by simp
    ultimately show ?thesis by blast
  next
    case False
    then show ?thesis by (simp add: Let_def)
  qed
qed simp


section \<open>A read\<close>

text \<open>A table of integers ordered by a column that may be null.\<close>

definition paged_rank :: "read_column \<Rightarrow> cell \<Rightarrow> int" where
  "paged_rank c v = (case v of CInt i \<Rightarrow> i | _ \<Rightarrow> 0)"

definition paged_columns :: "read_column list" where
  "paged_columns = [\<lparr>rc_name = lit ''id'', rc_type = lit ''int64''\<rparr>, \<lparr>rc_name = lit ''n'', rc_type = lit ''int32''\<rparr>]"

definition paged_args :: read_args where
  "paged_args = \<lparr>ra_where = None, ra_bounds = None, ra_order_by = Some (lit ''n''), ra_descending = CBool True,
     ra_after = None, ra_limit = CInt 2, ra_paginate = True\<rparr>"

definition paged_row :: "int \<Rightarrow> cell \<Rightarrow> cell row" where
  "paged_row i v = [(lit ''id'', CInt i), (lit ''n'', v)]"

definition paged_rows :: "cell row list" where
  "paged_rows = [paged_row 1 (CInt 5), paged_row 2 CNone, paged_row 3 (CInt 5), paged_row 4 (CInt 9)]"

definition paged_plan :: read_plan where
  "paged_plan = \<lparr>rp_columns = paged_columns, rp_filters = [], rp_order = rev paged_columns, rp_descending = True, rp_after = None, rp_limit = 2\<rparr>"

lemma paged_planned: "plan_read paged_columns [lit ''id''] (paged_args\<lparr>ra_after := None\<rparr>) = Inr paged_plan" "filter_conditions paged_plan = Inr []"
  by (simp_all add: plan_read_def paged_args_def paged_plan_def paged_columns_def page_limit_def MAX_PAGE_ROWS_def MAX_ORDER_FIELDS_def
      order_names_def read_order_def read_field_def starts_with_def filter_conditions_def)

lemma paged_table_ok: "table_ok paged_rank paged_plan paged_rows"
  by (simp add: table_ok_def one_per_position_def orderable_def sort_ranks_def cell_rank_def paged_rank_def paged_rows_def paged_row_def
      paged_plan_def paged_columns_def row_get_def comparison_def query_value_def starts_with_def int_bits_def)

lemma paged_sorted: "in_order (row_before paged_rank paged_plan) (filter (selected paged_rank []) paged_rows) =
    [paged_row 4 (CInt 9), paged_row 3 (CInt 5), paged_row 1 (CInt 5), paged_row 2 CNone]"
  by (simp add: in_order_def selected_def row_before_def sort_ranks_def cell_rank_def paged_rank_def paged_rows_def paged_row_def
      paged_plan_def paged_columns_def row_get_def)


end
