(* ===== verification/Summary.thy ===== *)
theory Summary
  imports Query
begin

text \<open>
  Numeric summaries and rows read back (\<open>query.py\<close>): the exact text an engine answers is decoded to
  integers at the scale of the column, and the mean is rounded from the exact quotient. The two counts
  are given as the integers \<open>int\<close> reads from the engine's text.
\<close>

section \<open>Definitions\<close>

datatype summary_error = SummaryRefused query_error | SummaryValueError string

definition refused_query :: "query_error + 'a \<Rightarrow> summary_error + 'a" where
  "refused_query r = (case r of Inl e \<Rightarrow> Inl (SummaryRefused e) | Inr x \<Rightarrow> Inr x)"

definition summary_scale :: "read_column \<Rightarrow> cell \<Rightarrow> query_error + nat" where
  "summary_scale c mean_scale =
     (case mean_scale of
        CInt m \<Rightarrow>
          if \<not> (0 \<le> m \<and> m \<le> 38) then query_refused ''mean_scale must be an integer between 0 and 38''
          else if rc_type c \<in> {lit ''int32'', lit ''int64''} then Inr 0
          else if starts_with (rc_type c) (lit ''decimal('') \<and> fst (decimal_params (rc_type c)) \<le> 56
          then Inr (snd (decimal_params (rc_type c)))
          else query_refused ''summaries require int32, int64 or decimal precision up to 56''
      | _ \<Rightarrow> query_refused ''mean_scale must be an integer between 0 and 38'')"

fun decimal_integer :: "decimal \<Rightarrow> nat \<Rightarrow> summary_error + int" where
  "decimal_integer (Dec sign ds e) scale =
     (let c = int (digits_sum ds); shift = e + int scale; signed = (\<lambda>k. if sign then - k else k)
      in if shift < 0 then
           (if c mod 10 ^ nat (- shift) \<noteq> 0 then Inl (SummaryValueError ''summary result has fractional digits outside the stored scale'')
            else Inr (signed (c div 10 ^ nat (- shift))))
         else Inr (signed (c * 10 ^ nat shift)))"
| "decimal_integer _ scale = Inl (SummaryValueError ''not a finite decimal'')"

record numeric_result =
  ns_count :: int
  ns_non_null_count :: int
  ns_minimum :: cell
  ns_maximum :: cell
  ns_total :: cell
  ns_mean :: cell

definition summary_sql :: "dialect \<Rightarrow> (nat \<Rightarrow> cell \<Rightarrow> ustring) \<Rightarrow> ustring \<Rightarrow> read_plan \<Rightarrow> read_column \<Rightarrow> query_error + ustring \<times> cell list" where
  "summary_sql dialect place table p c =
     and_then (summary_scale c (CInt 0)) (\<lambda>scale.
     and_then (filter_conditions p) (\<lambda>cs.
       let quoted = QUOTE dialect (rc_name c);
           shown = (\<lambda>e. if dialect = Postgres then lit ''CAST('' @ e @ lit '' AS text)'' else lit ''toString('' @ e @ lit '')'');
           outputs = [shown (lit ''count(*)'') @ lit '' AS sde_count'',
             shown (lit ''count('' @ quoted @ lit '')'') @ lit '' AS sde_present'',
             shown (lit ''min('' @ quoted @ lit '')'') @ lit '' AS sde_min'',
             shown (lit ''max('' @ quoted @ lit '')'') @ lit '' AS sde_max'',
             shown (lit ''sum(CAST('' @ quoted @ lit '' AS '' @ decimal_target dialect scale @ lit ''))'') @ lit '' AS sde_total'']
       in Inr (beside (plain (lit ''SELECT '' @ comma_space_join outputs @ lit '' FROM '' @ QUOTE dialect table
            @ (if dialect = Clickhouse then lit '' FINAL'' else []))) (where_text dialect place cs) [])))"

text \<open>A decimal at the scale of its column.\<close>

definition scaled_decimal :: "nat \<Rightarrow> int \<Rightarrow> cell" where
  "scaled_decimal scale k = CDec (Dec (k < 0) (digits_of (nat \<bar>k\<bar>)) (- int scale))"

text \<open>The quotient rounded to an integer, a half to the even one.\<close>

definition rounded_mean :: "int \<Rightarrow> int \<Rightarrow> int" where
  "rounded_mean numerator denominator =
     (let q = numerator div denominator; r = numerator mod denominator
      in if r * 2 > denominator \<or> (r * 2 = denominator \<and> q mod 2 \<noteq> 0) then q + 1 else q)"

definition numeric_summary ::
  "read_column \<Rightarrow> nat \<Rightarrow> int \<Rightarrow> int \<Rightarrow> cell \<Rightarrow> cell \<Rightarrow> cell \<Rightarrow> summary_error + numeric_result" where
  "numeric_summary c mean_scale rows present low high sum_text =
     and_then (refused_query (summary_scale c (CInt (int mean_scale)))) (\<lambda>scale.
     if \<not> (0 \<le> present \<and> present \<le> rows) then Inl (SummaryValueError ''summary counts are inconsistent'')
     else if present = 0 then
       Inr \<lparr>ns_count = rows, ns_non_null_count = 0, ns_minimum = CNone, ns_maximum = CNone, ns_total = CNone, ns_mean = CNone\<rparr>
     else
       and_then (refused_query (query_decimal low)) (\<lambda>minimum.
       and_then (refused_query (query_decimal high)) (\<lambda>maximum.
       and_then (refused_query (query_decimal sum_text)) (\<lambda>whole_sum.
       and_then (decimal_integer whole_sum scale) (\<lambda>unscaled.
         let mean = CDec (Dec (unscaled < 0)
               (digits_of (nat (rounded_mean (\<bar>unscaled\<bar> * 10 ^ mean_scale) (present * 10 ^ scale)))) (- int mean_scale));
             shown = (\<lambda>d. if rc_type c \<in> {lit ''int32'', lit ''int64''} then map_sum id CInt (decimal_integer d 0)
                          else map_sum id (scaled_decimal scale) (decimal_integer d scale))
         in and_then (shown minimum) (\<lambda>mi. and_then (shown maximum) (\<lambda>ma. and_then (shown whole_sum) (\<lambda>t.
              Inr \<lparr>ns_count = rows, ns_non_null_count = present, ns_minimum = mi, ns_maximum = ma, ns_total = t, ns_mean = mean\<rparr>))))))))"

text \<open>\<open>read_row\<close>: a decimal column is decoded from its text, every other as it came.\<close>

definition read_cell :: "read_column \<Rightarrow> cell row \<Rightarrow> summary_error + cell row" where
  "read_cell c r =
     (let v = row_get CNone r (rc_name c)
      in if v \<noteq> CNone \<and> starts_with (rc_type c) (lit ''decimal('') then
           (let scale = snd (decimal_params (rc_type c))
            in and_then (refused_query (query_decimal v)) (\<lambda>d.
               and_then (decimal_integer d scale) (\<lambda>k. Inr (AList.update (rc_name c) (scaled_decimal scale k) r))))
         else Inr r)"

fun read_row :: "read_column list \<Rightarrow> cell row \<Rightarrow> summary_error + cell row" where
  "read_row [] r = Inr r"
| "read_row (c # cs) r = and_then (read_cell c r) (read_row cs)"

section \<open>Exactness\<close>

fun finite_decimal :: "decimal \<Rightarrow> bool" where
  "finite_decimal (Dec sign ds e) \<longleftrightarrow> True"
| "finite_decimal _ \<longleftrightarrow> False"

lemma decimal_integer_exact:
  assumes "finite_decimal d"
  shows "decimal_integer d scale = Inr k \<longleftrightarrow> decimal_value d * 10 ^ scale = of_int k"
proof -
  obtain sign ds e where d: "d = Dec sign ds e" using assms by (cases d) auto
  define c where "c = digits_sum ds"
  let ?sg = "if sign then - 1 else (1 :: int)"
  have val: "decimal_value d * 10 ^ scale = of_int ?sg * (of_nat c * 10 powi e * 10 ^ scale)" by (simp add: d c_def mult.assoc)
  have sgn: "of_int ?sg * x = of_int k \<longleftrightarrow> x = (of_int (?sg * k) :: rat)" for x by auto
  show ?thesis
  proof (cases "e + int scale < 0")
    case True
    define n where "n = nat (- (e + int scale))"
    have "10 powi e * 10 ^ scale = (10 powi (e + int scale) :: rat)" by (simp add: power_int_add)
    also have "\<dots> = inverse (10 ^ n)" using True by (auto simp: n_def power_int_def power_one_over inverse_eq_divide)
    finally have pow: "of_nat c * 10 powi e * 10 ^ scale = (of_nat c / 10 ^ n :: rat)" by (simp add: divide_inverse mult.assoc)
    have "of_nat c / 10 ^ n = (of_int (?sg * k) :: rat) \<longleftrightarrow> of_int (int c) = (of_int (?sg * k * 10 ^ n) :: rat)"
      by (simp add: field_simps)
    also have "\<dots> \<longleftrightarrow> int c = ?sg * k * 10 ^ n" by (simp only: of_int_eq_iff)
    also have "\<dots> \<longleftrightarrow> int c mod 10 ^ n = 0 \<and> (if sign then - (int c div 10 ^ n) else int c div 10 ^ n) = k"
    proof -
      have "int c = m * 10 ^ n \<longleftrightarrow> int c mod 10 ^ n = 0 \<and> int c div 10 ^ n = m" for m by auto
      from this [of "?sg * k"] show ?thesis by auto
    qed
    finally have "decimal_value d * 10 ^ scale = of_int k \<longleftrightarrow>
      int c mod 10 ^ n = 0 \<and> (if sign then - (int c div 10 ^ n) else int c div 10 ^ n) = k"
      unfolding val sgn pow .
    then show ?thesis
      using True unfolding d decimal_integer.simps Let_def c_def [symmetric] n_def [symmetric] by (auto simp del: decimal_value.simps)
  next
    case False
    then have "of_nat c * 10 powi e * 10 ^ scale = (of_int (int c * 10 ^ nat (e + int scale)) :: rat)" by (intro scaled_pow) simp
    then have "decimal_value d * 10 ^ scale = of_int k \<longleftrightarrow> int c * 10 ^ nat (e + int scale) = ?sg * k"
      unfolding val sgn by (simp only: of_int_eq_iff)
    then show ?thesis using False unfolding d decimal_integer.simps Let_def c_def [symmetric] by (auto simp del: decimal_value.simps)
  qed
qed

lemma rounded_mean_nearest:
  assumes "0 \<le> n" "0 < d"
  shows "\<bar>rounded_mean n d * d - n\<bar> * 2 \<le> d" "\<bar>rounded_mean n d * d - n\<bar> * 2 = d \<Longrightarrow> even (rounded_mean n d)" "0 \<le> rounded_mean n d"
proof -
  define q r where "q = n div d" and "r = n mod d"
  have n: "n = q * d + r" "0 \<le> r" "r < d" "0 \<le> q" using assms by (simp_all add: q_def r_def pos_imp_zdiv_nonneg_iff)
  have m: "rounded_mean n d = (if r * 2 > d \<or> (r * 2 = d \<and> odd q) then q + 1 else q)"
    by (auto simp: rounded_mean_def q_def r_def odd_iff_mod_2_eq_one)
  show "\<bar>rounded_mean n d * d - n\<bar> * 2 \<le> d" "0 \<le> rounded_mean n d" using n unfolding m by (auto simp: distrib_right)
  show "\<bar>rounded_mean n d * d - n\<bar> * 2 = d \<Longrightarrow> even (rounded_mean n d)" using n unfolding m by (auto simp: distrib_right split: if_splits)
qed

lemma query_decimal_finite: "query_decimal v = Inr d \<Longrightarrow> finite_decimal d"
proof -
  assume "query_decimal v = Inr d"
  then obtain x where x: "exact_decimal v = Inr x" "(case x of Dec sign ds e \<Rightarrow>
      (let scale = max 0 (- e); digits = max 0 (e + int (length ds)) + scale
       in if digits > 76 \<or> scale > 76 then query_refused ''decimal query values may use at most 76 digits'' else Inr x) | _ \<Rightarrow> Inr x) = Inr d"
    unfolding query_decimal_def and_then_Inr by blast
  have "exact_decimal v = Inr d" using x by (cases x) (auto simp: Let_def split: if_splits)
  then show ?thesis
    by (cases v rule: exact_decimal.cases) (auto simp: decimal_of_text_def Let_def split: option.splits if_splits)
qed

lemma refused_query_Inr: "refused_query r = Inr x \<longleftrightarrow> r = Inr x"
  by (cases r) (auto simp: refused_query_def)

fun cell_value :: "cell \<Rightarrow> rat" where
  "cell_value (CInt i) = of_int i"
| "cell_value (CDec d) = decimal_value d"
| "cell_value _ = 0"

lemma scaled_decimal_value: "cell_value (scaled_decimal scale k) = of_int k / 10 ^ scale"
  by (simp add: scaled_decimal_def power_int_minus divide_inverse)

lemma map_sum_Inr: "map_sum id f r = Inr y \<longleftrightarrow> (\<exists>x. r = Inr x \<and> y = f x)"
  by (cases r) auto

lemma shown_value:
  assumes "(if integral then map_sum id CInt (decimal_integer d 0) else map_sum id (scaled_decimal scale) (decimal_integer d scale)) = Inr v"
    and "finite_decimal d"
  shows "cell_value v = decimal_value d"
proof (cases integral)
  case True
  then obtain k where "decimal_integer d 0 = Inr k" "v = CInt k" using assms(1) by (auto simp: map_sum_Inr)
  then show ?thesis using decimal_integer_exact [OF assms(2), of 0 k] by simp
next
  case False
  then obtain k where k: "decimal_integer d scale = Inr k" "v = scaled_decimal scale k" using assms(1) by (auto simp: map_sum_Inr)
  then have "decimal_value d * 10 ^ scale = of_int k" using decimal_integer_exact [OF assms(2)] by simp
  then show ?thesis using k(2) by (simp add: scaled_decimal_value field_simps)
qed

text \<open>
  C7. A summary is exact and its mean is the nearest. When an engine's answer is decoded, minimum,
  maximum and total are the values the engine's text spells, digit for digit, and the mean is the
  multiple of \<open>10\<^sup>-\<^sup>m\<close> nearest to the exact quotient of total and count, at most half a unit away and,
  exactly half a unit away, the even one.
\<close>

theorem summary_is_exact:
  assumes "numeric_summary c m rows present low high sum_text = Inr s" "present \<noteq> 0"
    and "query_decimal low = Inr lo" "query_decimal high = Inr hi" "query_decimal sum_text = Inr whole_sum"
  shows "ns_count s = rows \<and> ns_non_null_count s = present \<and> cell_value (ns_minimum s) = decimal_value lo \<and>
    cell_value (ns_maximum s) = decimal_value hi \<and> cell_value (ns_total s) = decimal_value whole_sum \<and>
    (\<exists>sign ds. ns_mean s = CDec (Dec sign ds (- int m)) \<and>
       \<bar>cell_value (ns_mean s) - decimal_value whole_sum / of_int present\<bar> \<le> 1 / (2 * 10 ^ m) \<and>
       (\<bar>cell_value (ns_mean s) - decimal_value whole_sum / of_int present\<bar> = 1 / (2 * 10 ^ m) \<longrightarrow> even (digits_sum ds)))"
proof -
  define integral where "integral \<longleftrightarrow> rc_type c \<in> {lit ''int32'', lit ''int64''}"
  obtain scale k where scale: "summary_scale c (CInt (int m)) = Inr scale" "0 \<le> present" "decimal_integer whole_sum scale = Inr k"
    and shown: "(if integral then map_sum id CInt (decimal_integer lo 0) else map_sum id (scaled_decimal scale) (decimal_integer lo scale)) = Inr (ns_minimum s)"
      "(if integral then map_sum id CInt (decimal_integer hi 0) else map_sum id (scaled_decimal scale) (decimal_integer hi scale)) = Inr (ns_maximum s)"
      "(if integral then map_sum id CInt (decimal_integer whole_sum 0) else map_sum id (scaled_decimal scale) (decimal_integer whole_sum scale)) = Inr (ns_total s)"
    and rest: "ns_count s = rows" "ns_non_null_count s = present"
      "ns_mean s = CDec (Dec (k < 0) (digits_of (nat (rounded_mean (\<bar>k\<bar> * 10 ^ m) (present * 10 ^ scale)))) (- int m))"
    using assms unfolding numeric_summary_def integral_def [symmetric]
    by (auto simp: and_then_Inr refused_query_Inr Let_def split: if_splits)
  define R where "R = rounded_mean (\<bar>k\<bar> * 10 ^ m) (present * 10 ^ scale)"
  define D where "D = present * 10 ^ scale"
  have D: "0 < D" using scale(2) assms(2) by (simp add: D_def)
  note near = rounded_mean_nearest [of "\<bar>k\<bar> * 10 ^ m" D, folded R_def [folded D_def]]
  have sum_value: "decimal_value whole_sum * 10 ^ scale = of_int k" using decimal_integer_exact [OF query_decimal_finite [OF assms(5)]] scale(3) by simp
  define sg :: rat where "sg = (if k < 0 then - 1 else 1)"
  have sg: "\<bar>sg\<bar> = 1" "of_int k = sg * of_int \<bar>k\<bar>" by (auto simp: sg_def)
  have mean: "cell_value (ns_mean s) = sg * of_int R / 10 ^ m"
    using near(3) D by (simp add: rest(3) R_def [symmetric] sg_def power_int_minus divide_inverse)
  have quotient: "decimal_value whole_sum / of_int present = sg * (of_int (\<bar>k\<bar> * 10 ^ m) / of_int D) / 10 ^ m"
  proof -
    have "decimal_value whole_sum = sg * of_int \<bar>k\<bar> / 10 ^ scale" using sum_value unfolding sg(2) by (simp add: eq_divide_eq)
    then have "decimal_value whole_sum / of_int present = sg * of_int \<bar>k\<bar> / of_int D"
      by (simp only: divide_divide_eq_left) (simp add: D_def mult.commute)
    then show ?thesis by simp
  qed
  have "cell_value (ns_mean s) - decimal_value whole_sum / of_int present = sg * (of_int R - of_int (\<bar>k\<bar> * 10 ^ m) / of_int D) / 10 ^ m"
    unfolding mean quotient by (simp only: diff_divide_distrib right_diff_distrib)
  also have "of_int R - of_int (\<bar>k\<bar> * 10 ^ m) / of_int D = (of_int (R * D - \<bar>k\<bar> * 10 ^ m) / of_int D :: rat)"
    using D by (simp add: diff_divide_distrib)
  also have "sg * (of_int (R * D - \<bar>k\<bar> * 10 ^ m) / of_int D) / 10 ^ m = sg * of_int (R * D - \<bar>k\<bar> * 10 ^ m) / (of_int D * 10 ^ m)"
    by (simp only: times_divide_eq_right divide_divide_eq_left)
  finally have error: "\<bar>cell_value (ns_mean s) - decimal_value whole_sum / of_int present\<bar> = of_int \<bar>R * D - \<bar>k\<bar> * 10 ^ m\<bar> / (of_int D * 10 ^ m)"
    using D sg(1) by (simp add: abs_mult)
  have half: "x / (of_int D * 10 ^ m) \<le> 1 / (2 * 10 ^ m) \<longleftrightarrow> x * 2 \<le> of_int D" "x / (of_int D * 10 ^ m) = 1 / (2 * 10 ^ m) \<longleftrightarrow> x * 2 = of_int D" for x :: rat
    using D by (simp add: field_simps, auto simp: field_simps)
  have cast: "of_int x * 2 \<le> (of_int D :: rat) \<longleftrightarrow> x * 2 \<le> D" "of_int x * 2 = (of_int D :: rat) \<longleftrightarrow> x * 2 = D" for x
    by (metis of_int_le_iff of_int_mult of_int_numeral, metis of_int_eq_iff of_int_mult of_int_numeral)
  have "\<bar>cell_value (ns_mean s) - decimal_value whole_sum / of_int present\<bar> \<le> 1 / (2 * 10 ^ m)"
    unfolding error half(1) cast(1) using near(1) D by simp
  moreover have "even (digits_sum (digits_of (nat R)))" if "\<bar>cell_value (ns_mean s) - decimal_value whole_sum / of_int present\<bar> = 1 / (2 * 10 ^ m)"
    using that near(2,3) D unfolding error half(2) cast(2) by (simp add: even_nat_iff)
  ultimately show ?thesis
    using rest(1,2) rest(3) [folded R_def] shown [THEN shown_value] query_decimal_finite assms(3-5) by blast
qed

section \<open>A summary\<close>

definition price_column :: read_column where
  "price_column = \<lparr>rc_name = lit ''price'', rc_type = lit ''decimal(12,2)''\<rparr>"

lemmas decimal_reading = strip_white_def WHITE_SPACE_def lit_def decimal_of_text_def read_decimal_def read_sign_def read_exponent_def
  digits_value_def digits_of_def nat_text.simps decimal_fits_def is_digit_def query_decimal_def

lemma price_texts:
  "query_decimal (CStr (lit ''-0.10'')) = Inr (Dec True [1, 0] (- 2))" "query_decimal (CStr (lit ''0.35'')) = Inr (Dec False [3, 5] (- 2))"
  "query_decimal (CStr (lit ''0.25'')) = Inr (Dec False [2, 5] (- 2))"
  by (simp_all add: decimal_reading)

lemma price_scale: "summary_scale price_column (CInt 2) = Inr 2"
proof -
  have "lit ''decimal(12,2)'' = lit ''decimal('' @ nat_text 12 @ [44] @ nat_text 2 @ [41]" by (simp add: lit_def nat_text.simps)
  then have "decimal_params (lit ''decimal(12,2)'') = (12, 2)" by (simp only: decimal_params_text)
  moreover have "starts_with (lit ''decimal(12,2)'') (lit ''decimal('')" by (simp add: starts_with_def lit_def)
  ultimately show ?thesis by (simp add: summary_scale_def price_column_def)
qed

text \<open>Two prices of sum 0.25: the mean 0.125 is half way and goes to the even 0.12.\<close>

theorem summary_is_exact_witness:
  "\<exists>s. numeric_summary price_column 2 3 2 (CStr (lit ''-0.10'')) (CStr (lit ''0.35'')) (CStr (lit ''0.25'')) = Inr s \<and>
     cell_value (ns_total s) = 1 / 4 \<and> ns_mean s = CDec (Dec False [1, 2] (- 2)) \<and> \<bar>cell_value (ns_mean s) - 1 / 8\<bar> \<le> 1 / 200"
proof -
  let ?call = "numeric_summary price_column 2 3 2 (CStr (lit ''-0.10'')) (CStr (lit ''0.35'')) (CStr (lit ''0.25''))"
  have kind: "rc_type price_column \<noteq> lit ''int32''" "rc_type price_column \<noteq> lit ''int64''" by (simp_all add: price_column_def)
  have "rounded_mean 2500 200 = 12" "digits_of 12 = [1, 2]" by (simp_all add: rounded_mean_def digits_of_def nat_text.simps)
  then obtain s where s: "?call = Inr s" "ns_mean s = CDec (Dec False [1, 2] (- 2))"
    by (simp add: numeric_summary_def price_scale price_texts refused_query_def digits_sum_def kind)
  have total: "decimal_value (Dec False [2, 5] (- 2)) = 1 / 4" by (simp add: digits_sum_def power_int_def power_one_over)
  have "(2 :: int) \<noteq> 0" by simp
  from summary_is_exact [OF s(1) this price_texts] show ?thesis using s total by auto
qed

end
