(* ===== verification/Session.thy ===== *)
theory Session
  imports Admission Layout Routing Memory Fence
begin

text \<open>
  Writes and point reads of a session (\<open>session.py\<close>, \<open>bulk.py\<close>, \<open>generation.py\<close>): admission of a row, the
  engine the operation goes to, the write generation it carries, the fan-out to the copies of a group
  and transactions. A session is used by one thread and without hashed names, so the ownership locks of
  \<open>_usage.py\<close> reduce to the colocation group of the transaction that is open, and \<open>_entity\<close>,
  \<open>_fields_in\<close> and \<open>_fields_out\<close> to the identity; telemetry and log lines are left out.

  An engine adapter is a record of operations over a state. A failure is either an error, which a
  fan-out swallows, or an interruption, which it does not.
\<close>

section \<open>What a session is given\<close>

datatype failure = Fails string | Interrupts

record temporal_span =
  ts_first_day :: nat
  ts_last_day :: nat
  ts_first_instant :: int
  ts_last_instant :: int

record 'e engine_ops =
  eo_insert :: "'e \<Rightarrow> ustring \<Rightarrow> cell row \<Rightarrow> failure option \<times> 'e"
  eo_insert_many :: "'e \<Rightarrow> ustring \<Rightarrow> cell row list \<Rightarrow> failure option \<times> 'e"
  eo_bulk :: "'e \<Rightarrow> bool"
  eo_get :: "'e \<Rightarrow> ustring \<Rightarrow> cell row \<Rightarrow> failure + cell row option"
  eo_begin :: "'e \<Rightarrow> failure option \<times> 'e"
  eo_commit :: "'e \<Rightarrow> 'e \<Rightarrow> failure option \<times> 'e"
  eo_rollback :: "'e \<Rightarrow> 'e \<Rightarrow> 'e"
  eo_temporal_range :: "'e \<Rightarrow> temporal_span option"

record admission =
  ad_declared :: "ustring list"
  ad_required :: "ustring list"
  ad_checks :: "(ustring \<times> ustring) list"

record session =
  se_model :: logical_model
  se_placement :: placement_map
  se_groups :: "group list"
  se_shapes :: "operation_shape list"
  se_admission :: "(ustring, admission) dict"

datatype session_error =
    ModelPlanning string
  | BulkWriteRefused string
  | SessionEngine string
  | SessionMap map_error
  | SessionMigration string
  | SessionKeyError
  | SessionInterrupted
  | ClientError

section \<open>Generations\<close>

definition GENERATIONS_SINCE :: int where
  "GENERATIONS_SINCE = 4"

definition stamp_values :: "placement_map \<Rightarrow> ustring \<Rightarrow> cell row \<Rightarrow> session_error + cell row" where
  "stamp_values pm g row =
     (case placement_of pm g of
        Inl e \<Rightarrow> Inl (SessionMap e)
      | Inr p \<Rightarrow>
          if pm_contract pm \<ge> GENERATIONS_SINCE \<and> EPOCH_COLUMN \<in> set (keys row)
          then Inl (SessionMigration ''the write-epoch column is reserved for the SDK'')
          else case gp_write_epoch p of None \<Rightarrow> Inr row | Some e \<Rightarrow> Inr (AList.update EPOCH_COLUMN (CInt e) row))"

definition logical_row :: "placement_map \<Rightarrow> cell row option \<Rightarrow> cell row option" where
  "logical_row pm r = (if pm_contract pm \<ge> 4 then map_option (filter (\<lambda>(k, _). k \<noteq> EPOCH_COLUMN)) r else r)"

definition check_map_project :: "placement_map \<Rightarrow> ustring option \<Rightarrow> session_error + ustring option" where
  "check_map_project pm project_id =
     (if pm_contract pm < 4 then Inr None
      else if project_id = None \<or> project_id \<noteq> pm_project_id pm
      then Inl (SessionMigration ''this generation-bearing map needs its locally configured project_id'')
      else if pm_fingerprint pm = None
      then Inl (SessionMigration ''generation-bearing sessions need an immutable loaded placement map'')
      else Inr project_id)"

definition fenced_groups :: "placement_map \<Rightarrow> (ustring, physical_layout group_placement) dict" where
  "fenced_groups pm = filter (\<lambda>(_, p). gp_write_epoch p \<noteq> None) (sort_key fst (pm_groups pm))"

section \<open>Admission\<close>

text \<open>\<open>_admission\<close> of one entity of a group\<close>

definition entity_admission :: "logical_model \<Rightarrow> int \<Rightarrow> (ustring, (ustring, ustring) dict) dict \<Rightarrow> ustring \<Rightarrow> layout_error + ustring \<times> admission" where
  "entity_admission m contract cols entity =
     and_then (the_entity m entity) (\<lambda>spec.
       case map_of cols entity of
         None \<Rightarrow> Inl LayoutKeyError
       | Some cs \<Rightarrow>
           Inr (entity,
             \<lparr>ad_declared = keys cs @ (if contract \<ge> GENERATIONS_SINCE then [EPOCH_COLUMN] else []),
              ad_required = sort (map fname (filter (\<lambda>f. \<not> fnullable f \<or> fname f \<in> set (ekey spec)) (efields spec))),
              ad_checks = filter (\<lambda>(_, kind). check_for kind \<noteq> None) (sort_key fst cs)\<rparr>))"

definition admissions :: "logical_model \<Rightarrow> int \<Rightarrow> group list \<Rightarrow> layout_error + (ustring, admission) dict" where
  "admissions m contract groups =
     and_then (traverse (\<lambda>g. and_then (neutral_columns m g) (\<lambda>cols. traverse (entity_admission m contract cols) (gmembers g))) groups)
       (\<lambda>ass. Inr (concat ass))"

definition ad_temporal :: "admission \<Rightarrow> (ustring \<times> ustring) list" where
  "ad_temporal ad = filter (\<lambda>(_, kind). kind \<in> {lit ''date'', lit ''timestamp'', lit ''timestamptz''}) (ad_checks ad)"

definition null_required :: "cell row \<Rightarrow> ustring list \<Rightarrow> ustring option" where
  "null_required row required = List.find (\<lambda>n. row_get CNone row n = CNone) required"

fun typed :: "(ustring \<times> ustring) list \<Rightarrow> cell row \<Rightarrow> session_error + cell row" where
  "typed [] row = Inr row"
| "typed ((name, kind) # checks) row =
     (let v = row_get CNone row name
      in if v = CNone then typed checks row
         else case check_for kind of
                None \<Rightarrow> typed checks row
              | Some check \<Rightarrow>
                  (case check v of
                     Inl misfit \<Rightarrow> Inl (ModelPlanning misfit)
                   | Inr given \<Rightarrow> typed checks (AList.update name given row)))"

definition admit :: "session \<Rightarrow> ustring \<Rightarrow> cell row \<Rightarrow> session_error + cell row" where
  "admit se target row =
     (case map_of (se_admission se) target of
        None \<Rightarrow> Inl SessionKeyError
      | Some ad \<Rightarrow>
          if set (keys row) \<subseteq> set (ad_declared ad) \<and> set (ad_required ad) \<subseteq> set (keys row) then
            (case null_required row (ad_required ad) of
               None \<Rightarrow> typed (ad_checks ad) row
             | Some name \<Rightarrow> Inl (ModelPlanning ''a required field is given null''))
          else if \<not> set (keys row) \<subseteq> set (ad_declared ad) then Inl (ModelPlanning ''the entity declares no such field'')
          else Inl (ModelPlanning ''a required field is left out''))"

text \<open>\<open>TemporalRange.holds\<close>\<close>

fun span_holds :: "temporal_span \<Rightarrow> cell \<Rightarrow> bool" where
  "span_holds sp (CDate d) \<longleftrightarrow> ts_first_day sp \<le> d \<and> d \<le> ts_last_day sp"
| "span_holds sp (CTime t off) \<longleftrightarrow>
     (let i = (case off of None \<Rightarrow> t | Some d \<Rightarrow> t - d) in ts_first_instant sp \<le> i \<and> i \<le> ts_last_instant sp)"
| "span_holds sp _ \<longleftrightarrow> True"

definition engine_holds :: "'e engine_ops \<Rightarrow> 'e \<Rightarrow> (ustring \<times> ustring) list \<Rightarrow> cell row list \<Rightarrow> bool" where
  "engine_holds ops e flds rows \<longleftrightarrow>
     (case eo_temporal_range ops e of
        None \<Rightarrow> True
      | Some sp \<Rightarrow> list_all (\<lambda>row. list_all (\<lambda>(f, _). let v = row_get CNone row f in v = CNone \<or> span_holds sp v) flds) rows)"

section \<open>State and operations\<close>

datatype write_values = OneRow "cell row" | Batch "cell row list"

record deferred =
  de_engine :: ustring
  de_table :: ustring
  de_group :: ustring
  de_copy :: ustring
  de_values :: write_values

record 'e session_state =
  st_engines :: "(ustring, 'e) dict"
  st_in_write :: bool
  st_deferred :: "deferred list"
  st_scope :: "ustring option"

definition the_engine :: "'e session_state \<Rightarrow> ustring \<Rightarrow> session_error + 'e" where
  "the_engine st name = (case map_of (st_engines st) name of None \<Rightarrow> Inl SessionKeyError | Some e \<Rightarrow> Inr e)"

definition set_engine :: "ustring \<Rightarrow> 'e \<Rightarrow> 'e session_state \<Rightarrow> 'e session_state" where
  "set_engine name e st = st\<lparr>st_engines := AList.update name e (st_engines st)\<rparr>"

definition failed_with :: "failure \<Rightarrow> session_error" where
  "failed_with f = (case f of Fails why \<Rightarrow> SessionEngine why | Interrupts \<Rightarrow> SessionInterrupted)"

definition in_map :: "map_error + 'a \<Rightarrow> session_error + 'a" where
  "in_map r = (case r of Inl e \<Rightarrow> Inl (SessionMap e) | Inr x \<Rightarrow> Inr x)"

text \<open>\<open>_held\<close>: every engine the row goes to is asked, the copies as well.\<close>

definition held :: "'e engine_ops \<Rightarrow> session \<Rightarrow> 'e session_state \<Rightarrow> ustring \<Rightarrow> ustring \<Rightarrow> ustring \<Rightarrow> cell row list \<Rightarrow> session_error + unit" where
  "held ops se st target g engine rows =
     (case map_of (se_admission se) target of
        None \<Rightarrow> Inl SessionKeyError
      | Some ad \<Rightarrow>
          if ad_temporal ad = [] then Inr ()
          else
            and_then (in_map (placement_of (se_placement se) g)) (\<lambda>p.
            and_then (traverse (\<lambda>name. and_then (the_engine st name) (\<lambda>e.
                require (engine_holds ops e (ad_temporal ad) rows) (SessionEngine ''the engine cannot hold a value; nothing was sent'')))
              (engine # map mat_engine (gp_also_write p))) (\<lambda>_. Inr ())))"

definition shape_of :: "session \<Rightarrow> ustring \<Rightarrow> shape_kind \<Rightarrow> ustring list \<Rightarrow> session_error + operation_shape" where
  "shape_of se entity kind flds =
     (case List.find (\<lambda>s. sh_entity s = entity \<and> sh_kind s = kind \<and> sh_fields s = flds) (rev (se_shapes se)) of
        Some s \<Rightarrow> Inr s
      | None \<Rightarrow>
          if entity \<notin> ename ` set (mentities (se_model se)) then Inl (ModelPlanning ''this model has no such entity'')
          else Inl (ModelPlanning ''the model admits no such operation''))"

text \<open>\<open>_target\<close>: inside a transaction only its own colocation group may be used.\<close>

definition target_of :: "session \<Rightarrow> 'e session_state \<Rightarrow> operation_shape \<Rightarrow> bool \<Rightarrow> session_error + 'e \<times> physical_layout materialization" where
  "target_of se st s fresh =
     (if st_scope st \<noteq> None \<and> st_scope st \<noteq> Some (sh_group s)
      then Inl (ModelPlanning ''the operation is outside the active transaction's colocation group'')
      else
        and_then (in_map (resolve (se_placement se) s (st_in_write st) fresh)) (\<lambda>mat.
        and_then (the_engine st (mat_engine mat)) (\<lambda>e. Inr (e, mat))))"

definition stamp_all :: "placement_map \<Rightarrow> ustring \<Rightarrow> cell row list \<Rightarrow> session_error + cell row list" where
  "stamp_all pm g rows = traverse (stamp_values pm g) rows"

definition write_to :: "'e engine_ops \<Rightarrow> placement_map \<Rightarrow> ustring \<Rightarrow> ustring \<Rightarrow> write_values \<Rightarrow> 'e \<Rightarrow> session_error option \<times> 'e" where
  "write_to ops pm table g body e =
     (case body of
        OneRow row \<Rightarrow>
          (case stamp_values pm g row of
             Inl err \<Rightarrow> (Some err, e)
           | Inr stamped \<Rightarrow> apfst (map_option failed_with) (eo_insert ops e table stamped))
      | Batch rows \<Rightarrow>
          if \<not> eo_bulk ops e then (Some (BulkWriteRefused ''this adapter does not support bulk writes''), e)
          else (case stamp_all pm g rows of
                  Inl err \<Rightarrow> (Some err, e)
                | Inr stamped \<Rightarrow> apfst (map_option failed_with) (eo_insert_many ops e table stamped)))"

text \<open>\<open>_replay_one\<close>: every error is swallowed, an interruption is not.\<close>

definition replay_one :: "'e engine_ops \<Rightarrow> session \<Rightarrow> deferred \<Rightarrow> 'e session_state \<Rightarrow> session_error option \<times> 'e session_state" where
  "replay_one ops se d st =
     (case map_of (st_engines st) (de_engine d) of
        None \<Rightarrow> (None, st)
      | Some e \<Rightarrow>
          (case write_to ops (se_placement se) (de_table d) (de_group d) (de_values d) e of
             (err, e') \<Rightarrow> (if err = Some SessionInterrupted then err else None, set_engine (de_engine d) e' st)))"

fun replay_all :: "'e engine_ops \<Rightarrow> session \<Rightarrow> deferred list \<Rightarrow> 'e session_state \<Rightarrow> session_error option \<times> 'e session_state" where
  "replay_all ops se [] st = (None, st)"
| "replay_all ops se (d # ds) st =
     (case replay_one ops se d st of (None, st') \<Rightarrow> replay_all ops se ds st' | (Some err, st') \<Rightarrow> (Some err, st'))"

text \<open>The loop of \<open>_fan_out\<close> over the copies.\<close>

fun fan_out_copies ::
  "'e engine_ops \<Rightarrow> session \<Rightarrow> ustring \<Rightarrow> ustring \<Rightarrow> write_values \<Rightarrow> physical_layout materialization list \<Rightarrow> 'e session_state \<Rightarrow>
     session_error option \<times> 'e session_state" where
  "fan_out_copies ops se entity g body [] st = (None, st)"
| "fan_out_copies ops se entity g body (c # cs) st =
     (case table_for (mat_layout c) entity of
        Inl e \<Rightarrow> (Some (SessionMap e), st)
      | Inr table \<Rightarrow>
          (let d = \<lparr>de_engine = mat_engine c, de_table = table, de_group = g, de_copy = mat_id c, de_values = body\<rparr>
           in if st_in_write st then fan_out_copies ops se entity g body cs (st\<lparr>st_deferred := st_deferred st @ [d]\<rparr>)
              else case replay_one ops se d st of
                     (None, st') \<Rightarrow> fan_out_copies ops se entity g body cs st'
                   | (Some err, st') \<Rightarrow> (Some err, st')))"

definition fan_out :: "'e engine_ops \<Rightarrow> session \<Rightarrow> ustring \<Rightarrow> ustring \<Rightarrow> write_values \<Rightarrow> 'e session_state \<Rightarrow> session_error option \<times> 'e session_state" where
  "fan_out ops se entity g body st =
     (case placement_of (se_placement se) g of
        Inl e \<Rightarrow> (Some (SessionMap e), st)
      | Inr p \<Rightarrow> fan_out_copies ops se entity g body (gp_also_write p) st)"

text \<open>The source is written, then the copies.\<close>

definition write_out ::
  "'e engine_ops \<Rightarrow> session \<Rightarrow> ustring \<Rightarrow> ustring \<Rightarrow> ustring \<Rightarrow> ustring \<Rightarrow> write_values \<Rightarrow> 'e session_state \<Rightarrow> session_error option \<times> 'e session_state" where
  "write_out ops se entity g engine table body st =
     (case the_engine st engine of
        Inl err \<Rightarrow> (Some err, st)
      | Inr e \<Rightarrow>
          (case write_to ops (se_placement se) table g body e of
             (Some err, e') \<Rightarrow> (Some err, set_engine engine e' st)
           | (None, e') \<Rightarrow> fan_out ops se entity g body (set_engine engine e' st)))"

definition save_check :: "'e engine_ops \<Rightarrow> session \<Rightarrow> ustring \<Rightarrow> cell row \<Rightarrow> 'e session_state \<Rightarrow> session_error + ustring \<times> ustring \<times> ustring \<times> cell row" where
  "save_check ops se entity row st =
     and_then (shape_of se entity WRITE []) (\<lambda>s.
     and_then (admit se entity row) (\<lambda>admitted.
     and_then (target_of se st s False) (\<lambda>(e, mat).
     and_then (held ops se st entity (sh_group s) (mat_engine mat) [admitted]) (\<lambda>_.
     and_then (in_map (table_for (mat_layout mat) entity)) (\<lambda>table. Inr (sh_group s, mat_engine mat, table, admitted))))))"

definition save :: "'e engine_ops \<Rightarrow> session \<Rightarrow> ustring \<Rightarrow> cell row \<Rightarrow> 'e session_state \<Rightarrow> session_error option \<times> 'e session_state" where
  "save ops se entity row st =
     (case save_check ops se entity row st of
        Inl err \<Rightarrow> (Some err, st)
      | Inr (g, engine, table, admitted) \<Rightarrow> write_out ops se entity g engine table (OneRow admitted) st)"

section \<open>Batches\<close>

definition MAX_BATCH_ROWS :: nat where
  "MAX_BATCH_ROWS = 1000"

definition MAX_BATCH_VALUES :: nat where
  "MAX_BATCH_VALUES = 60000"

fun same_fields :: "ustring list \<Rightarrow> cell row list \<Rightarrow> session_error + ustring list" where
  "same_fields cols [] = Inr cols"
| "same_fields cols (row # rows) =
     (if row = [] then Inl (BulkWriteRefused ''each batch row must be a nonempty mapping with string fields'')
      else if sort (keys row) \<noteq> cols then Inl (BulkWriteRefused ''all batch rows must have the same fields'')
      else same_fields cols rows)"

text \<open>The columns of a batch in order; an empty batch has none.\<close>

definition batch_columns :: "nat \<Rightarrow> cell row list \<Rightarrow> session_error + ustring list" where
  "batch_columns extra rows =
     (if length rows > MAX_BATCH_ROWS then Inl (BulkWriteRefused ''a batch may contain at most 1000 rows'')
      else case rows of
             [] \<Rightarrow> Inr []
           | first # rest \<Rightarrow>
               if first = [] then Inl (BulkWriteRefused ''each batch row must be a nonempty mapping with string fields'')
               else if length rows * (length first + extra) > MAX_BATCH_VALUES
               then Inl (BulkWriteRefused ''a batch may contain at most 60000 values, including generation'')
               else same_fields (sort (keys first)) rest)"

definition batch_row :: "admission \<Rightarrow> cell row \<Rightarrow> session_error + cell row" where
  "batch_row ad row =
     (case null_required row (ad_required ad) of
        Some name \<Rightarrow> Inl (BulkWriteRefused ''a required field is given null'')
      | None \<Rightarrow>
          (case typed (ad_checks ad) row of
             Inl (ModelPlanning why) \<Rightarrow> Inl (BulkWriteRefused why) | r \<Rightarrow> r))"

definition batch_fields :: "session \<Rightarrow> ustring \<Rightarrow> ustring list \<Rightarrow> session_error + unit" where
  "batch_fields se entity flds =
     (case (group_of (se_groups se) entity, entity_of (se_model se) entity) of
        (Inr g, Some spec) \<Rightarrow>
          (case neutral_columns (se_model se) g of
             Inl _ \<Rightarrow> Inl SessionKeyError
           | Inr cols \<Rightarrow>
               (case map_of cols entity of
                  None \<Rightarrow> Inl SessionKeyError
                | Some declared_columns \<Rightarrow>
                    require (set flds \<subseteq> set (keys declared_columns) \<and>
                        set (map fname (filter (\<lambda>f. \<not> fnullable f) (efields spec)) @ ekey spec) \<subseteq> set flds)
                      (BulkWriteRefused ''batch fields must be declared and include the key and all non-nullable fields'')))
      | _ \<Rightarrow> Inl SessionKeyError)"

definition batch_check ::
  "'e engine_ops \<Rightarrow> session \<Rightarrow> ustring \<Rightarrow> cell row list \<Rightarrow> 'e session_state \<Rightarrow> session_error + (ustring \<times> ustring \<times> ustring \<times> cell row list) option" where
  "batch_check ops se entity rows st =
     and_then (shape_of se entity BULK_WRITE []) (\<lambda>s.
     and_then (target_of se st s False) (\<lambda>(e, mat).
     and_then (in_map (placement_of (se_placement se) (sh_group s))) (\<lambda>spot.
     and_then (batch_columns (if gp_write_epoch spot = None then 0 else 1) rows) (\<lambda>cols.
       if cols = [] then Inr None
       else
         and_then (batch_fields se entity (keys (hd rows))) (\<lambda>_.
         and_then (case map_of (se_admission se) entity of None \<Rightarrow> Inl SessionKeyError | Some ad \<Rightarrow> traverse (batch_row ad) rows) (\<lambda>admitted.
         and_then (held ops se st entity (sh_group s) (mat_engine mat) admitted) (\<lambda>_.
         and_then (require (eo_bulk ops e) (BulkWriteRefused ''this adapter does not support bulk writes'')) (\<lambda>_.
         and_then (traverse (\<lambda>c. and_then (the_engine st (mat_engine c)) (\<lambda>ce.
             require (eo_bulk ops ce) (BulkWriteRefused ''this adapter does not support bulk writes''))) (gp_also_write spot)) (\<lambda>_.
         and_then (stamp_all (se_placement se) (sh_group s) admitted) (\<lambda>_.
         and_then (in_map (table_for (mat_layout mat) entity)) (\<lambda>table.
           Inr (Some (sh_group s, mat_engine mat, table, admitted)))))))))))))"

definition save_many :: "'e engine_ops \<Rightarrow> session \<Rightarrow> ustring \<Rightarrow> cell row list \<Rightarrow> 'e session_state \<Rightarrow> session_error option \<times> 'e session_state" where
  "save_many ops se entity rows st =
     (case batch_check ops se entity rows st of
        Inl err \<Rightarrow> (Some err, st)
      | Inr None \<Rightarrow> (None, st)
      | Inr (Some (g, engine, table, admitted)) \<Rightarrow> write_out ops se entity g engine table (Batch admitted) st)"

section \<open>Point reads\<close>

definition key_values :: "session \<Rightarrow> ustring \<Rightarrow> cell row \<Rightarrow> ustring list \<Rightarrow> session_error + cell row" where
  "key_values se target key flds =
     (case null_required key flds of
        Some name \<Rightarrow> Inl (ModelPlanning ''a required field is given null'')
      | None \<Rightarrow> (case map_of (se_admission se) target of None \<Rightarrow> Inl SessionKeyError | Some ad \<Rightarrow> typed (ad_checks ad) key))"

definition get_row :: "'e engine_ops \<Rightarrow> session \<Rightarrow> ustring \<Rightarrow> cell row \<Rightarrow> bool \<Rightarrow> 'e session_state \<Rightarrow> session_error + cell row option" where
  "get_row ops se entity key fresh st =
     (case entity_of (se_model se) entity of
        None \<Rightarrow> Inl (ModelPlanning ''this model has no such entity'')
      | Some spec \<Rightarrow>
          if sort (keys key) \<noteq> sort (ekey spec) then Inl (ModelPlanning ''a point read needs exactly its key'')
          else
            and_then (key_values se entity key (sort (ekey spec))) (\<lambda>given.
            and_then (shape_of se entity POINT_READ (sort (ekey spec))) (\<lambda>s.
            and_then (target_of se st s fresh) (\<lambda>(e, mat).
            and_then (in_map (table_for (mat_layout mat) entity)) (\<lambda>table.
              case eo_get ops e table given of
                Inl f \<Rightarrow> Inl (failed_with f)
              | Inr row \<Rightarrow> Inr (logical_row (se_placement se) row))))))"

section \<open>Transactions and the client between them\<close>

text \<open>
  What an application does with a session: writes, transactions, blocks whose error it catches, and
  errors of its own.
\<close>

datatype client =
    Save ustring "cell row"
  | SaveMany ustring "cell row list"
  | Get ustring "cell row" bool
  | Transaction "ustring list" "client list"
  | Attempt "client list"
  | Throw

definition transaction_group :: "session \<Rightarrow> ustring list \<Rightarrow> session_error + ustring" where
  "transaction_group se entities =
     (let names = (if entities = [] then map ename (mentities (se_model se)) else entities)
      in and_then (traverse (\<lambda>n. case group_of (se_groups se) n of Inl _ \<Rightarrow> Inl (ModelPlanning ''not in this model'') | Inr g \<Rightarrow> Inr (gname g)) names)
           (\<lambda>gs. case gs of
              [] \<Rightarrow> Inl SessionKeyError
            | g # _ \<Rightarrow> if card (set gs) > 1 then Inl (ModelPlanning ''a transaction cannot span colocation groups'') else Inr g))"

text \<open>
  The end of a transaction's block, committed or not: the rows queued inside it go to the copies when
  the outermost block has committed, are dropped when it has not, and wait for the outer block otherwise.
\<close>

definition after_transaction ::
  "'e engine_ops \<Rightarrow> session \<Rightarrow> bool \<Rightarrow> bool \<Rightarrow> nat \<Rightarrow> 'e session_state \<Rightarrow> session_error option \<times> 'e session_state" where
  "after_transaction ops se committed previous outer st =
     (let pending = drop outer (st_deferred st);
          st = st\<lparr>st_in_write := previous, st_deferred := take outer (st_deferred st)\<rparr>
      in if committed \<and> \<not> previous then replay_all ops se pending st
         else if \<not> committed then (None, st)
         else (None, st\<lparr>st_deferred := st_deferred st @ pending\<rparr>))"

definition end_block ::
  "'e engine_ops \<Rightarrow> session \<Rightarrow> ustring \<Rightarrow> 'e \<Rightarrow> bool \<Rightarrow> nat \<Rightarrow> session_error option \<times> 'e session_state \<Rightarrow> session_error option \<times> 'e session_state" where
  "end_block ops se engine start previous outer result =
     (case result of
        (err, st) \<Rightarrow>
          (case (err, map_of (st_engines st) engine) of
             (None, Some e) \<Rightarrow>
               (case eo_commit ops start e of
                  (None, e') \<Rightarrow> after_transaction ops se True previous outer (set_engine engine e' st)
                | (Some f, e') \<Rightarrow> (Some (failed_with f), snd (after_transaction ops se False previous outer (set_engine engine e' st))))
           | (Some why, Some e) \<Rightarrow>
               (Some why, snd (after_transaction ops se False previous outer (set_engine engine (eo_rollback ops start e) st)))
           | (_, None) \<Rightarrow> (Some SessionKeyError, st)))"

fun run_client :: "'e engine_ops \<Rightarrow> session \<Rightarrow> client \<Rightarrow> 'e session_state \<Rightarrow> session_error option \<times> 'e session_state"
  and run_clients :: "'e engine_ops \<Rightarrow> session \<Rightarrow> client list \<Rightarrow> 'e session_state \<Rightarrow> session_error option \<times> 'e session_state" where
  "run_client ops se (Save entity row) st = save ops se entity row st"
| "run_client ops se (SaveMany entity rows) st = save_many ops se entity rows st"
| "run_client ops se (Get entity key fresh) st =
     (case get_row ops se entity key fresh st of Inl err \<Rightarrow> (Some err, st) | Inr _ \<Rightarrow> (None, st))"
| "run_client ops se (Attempt body) st =
     (case run_clients ops se body st of (err, st') \<Rightarrow> (if err = Some SessionInterrupted then err else None, st'))"
| "run_client ops se Throw st = (Some ClientError, st)"
| "run_client ops se (Transaction entities body) st =
     (case transaction_group se entities of
        Inl err \<Rightarrow> (Some err, st)
      | Inr g \<Rightarrow>
          if st_scope st \<noteq> None \<and> st_scope st \<noteq> Some g
          then (Some (ModelPlanning ''the operation is outside the active transaction's colocation group''), st)
          else
            (case placement_of (se_placement se) g of
               Inl e \<Rightarrow> (Some (SessionMap e), st)
             | Inr p \<Rightarrow>
                 (case the_engine st (mat_engine (gp_source p)) of
                    Inl err \<Rightarrow> (Some err, st)
                  | Inr e \<Rightarrow>
                      (case eo_begin ops e of
                         (Some f, e') \<Rightarrow> (Some (failed_with f), set_engine (mat_engine (gp_source p)) e' st)
                       | (None, e') \<Rightarrow>
                           apsnd (\<lambda>st'. st'\<lparr>st_scope := st_scope st\<rparr>)
                            (end_block ops se (mat_engine (gp_source p)) e' (st_in_write st) (length (st_deferred st))
                              (run_clients ops se body
                                ((set_engine (mat_engine (gp_source p)) e' st)\<lparr>st_in_write := True, st_scope := Some g\<rparr>)))))))"
| "run_clients ops se [] st = (None, st)"
| "run_clients ops se (c # cs) st =
     (case run_client ops se c st of (None, st') \<Rightarrow> run_clients ops se cs st' | (Some err, st') \<Rightarrow> (Some err, st'))"

end
