(* ===== verification/Copies.thy ===== *)
theory Copies
  imports Session "HOL-Library.Sublist"
begin

text \<open>
  What a copy holds while applications write through a session: the rows that reach it are rows of the
  source, in the order of the source, whatever fails and whatever is rolled back; when nothing fails at
  the copies, they are all of them. Both are one argument over an interface, \<open>following_store\<close>, whose
  relation \<open>R\<close> says how the rows of a copy may differ from those of the source: a subsequence, or not at
  all.
\<close>

section \<open>Stores\<close>

text \<open>
  What a write of \<open>xs\<close> to a table did when it ended with \<open>f\<close> and \<open>ys\<close> are in the table: a failed write may have
  landed as far as \<open>R\<close> lets a copy miss rows, and a copy's write fails only if it lets it miss any.
\<close>

definition lands ::
  "('r list \<Rightarrow> 'r list \<Rightarrow> bool) \<Rightarrow> bool \<Rightarrow> 'f option \<Rightarrow> 'r list \<Rightarrow> 'r list \<Rightarrow> bool" where
  "lands R copied f ys xs \<longleftrightarrow>
     (f = None \<longrightarrow> ys = xs) \<and> (f \<noteq> None \<longrightarrow> R [] ys) \<and> (copied \<longrightarrow> R ys xs \<and> (f \<noteq> None \<longrightarrow> (\<forall>zs. R [] zs)))"

text \<open>The rows at a place, an engine and a table of it.\<close>

type_synonym place = "ustring \<times> ustring"

definition place_rows :: "('e \<Rightarrow> ustring \<Rightarrow> cell row list) \<Rightarrow> 'e session_state \<Rightarrow> place \<Rightarrow> cell row list" where
  "place_rows rows st = (\<lambda>(n, t). case map_of (st_engines st) n of None \<Rightarrow> [] | Some e \<Rightarrow> rows e t)"

definition copy_place :: "physical_layout materialization \<Rightarrow> ustring \<Rightarrow> place \<Rightarrow> bool" where
  "copy_place c entity pl \<longleftrightarrow> fst pl = mat_engine c \<and> table_for (mat_layout c) entity = Inr (snd pl)"

text \<open>
  The source and one copy of an entity. Nothing else is written at their places, and every copy of the
  group has a table for the entity.
\<close>

definition copied_entity :: "session \<Rightarrow> (ustring \<Rightarrow> bool) \<Rightarrow> ustring \<Rightarrow> ustring \<Rightarrow> place \<Rightarrow> place \<Rightarrow> bool" where
  "copied_entity se copy_table x g S C \<longleftrightarrow>
     (\<forall>s \<in> set (se_shapes se). sh_entity s = x \<longrightarrow> sh_group s = g) \<and> S \<noteq> C \<and>
     (\<forall>g' p y. placement_of (se_placement se) g' = Inr p \<longrightarrow>
        \<not> copy_place (gp_source p) y C \<and> (copy_place (gp_source p) y S \<longrightarrow> y = x \<and> g' = g) \<and>
        (\<forall>c \<in> set (gp_also_write p). \<not> copy_place c y S \<and> (copy_place c y C \<longrightarrow> y = x \<and> g' = g) \<and>
           (\<forall>t. table_for (mat_layout c) y = Inr t \<longrightarrow> copy_table t))) \<and>
     (\<exists>p. placement_of (se_placement se) g = Inr p \<and> copy_place (gp_source p) x S \<and>
        length (filter (\<lambda>c. copy_place c x C) (gp_also_write p)) = 1 \<and>
        (\<forall>c \<in> set (gp_also_write p). \<exists>t. table_for (mat_layout c) x = Inr t))"

text \<open>The rows a write carries, stamped with the generation of its group.\<close>

definition stamped_body :: "placement_map \<Rightarrow> ustring \<Rightarrow> write_values \<Rightarrow> session_error + cell row list" where
  "stamped_body pm g body = (case body of OneRow r \<Rightarrow> map_sum id (\<lambda>x. [x]) (stamp_values pm g r) | Batch rs \<Rightarrow> stamp_all pm g rs)"

definition delivered :: "session \<Rightarrow> place \<Rightarrow> deferred \<Rightarrow> cell row list" where
  "delivered se C d =
     (if (de_engine d, de_table d) = C then (case stamped_body (se_placement se) (de_group d) (de_values d) of Inl _ \<Rightarrow> [] | Inr xs \<Rightarrow> xs) else [])"

definition deliverable :: "session \<Rightarrow> (ustring \<Rightarrow> bool) \<Rightarrow> place \<Rightarrow> deferred \<Rightarrow> bool" where
  "deliverable se copy_table S d \<longleftrightarrow> copy_table (de_table d) \<and> (de_engine d, de_table d) \<noteq> S \<and>
     (\<exists>xs. stamped_body (se_placement se) (de_group d) (de_values d) = Inr xs)"

definition pend :: "session \<Rightarrow> place \<Rightarrow> deferred list \<Rightarrow> cell row list" where
  "pend se C ds = concat (map (delivered se C) ds)"

lemma pend_simps [simp]: "pend se C [] = []" "pend se C (d # ds) = delivered se C d @ pend se C ds" "pend se C (ds @ ds') = pend se C ds @ pend se C ds'"
  by (simp_all add: pend_def)

lemma place_rows_set_engine:
  "place_rows rows (set_engine n e st) pl = (if fst pl = n then rows e (snd pl) else place_rows rows st pl)"
  by (cases pl) (auto simp: place_rows_def set_engine_def)

lemma st_simps [simp]:
  "st_in_write (set_engine n e st) = st_in_write st" "st_deferred (set_engine n e st) = st_deferred st"
  "st_scope (set_engine n e st) = st_scope st"
  "place_rows rows (st\<lparr>st_in_write := b\<rparr>) = place_rows rows st" "place_rows rows (st\<lparr>st_deferred := ds\<rparr>) = place_rows rows st"
  "place_rows rows (st\<lparr>st_scope := sc\<rparr>) = place_rows rows st"
  by (auto simp: set_engine_def place_rows_def)

text \<open>What is known of a state between the operations of a client.\<close>

definition session_ok :: "('e \<Rightarrow> bool) \<Rightarrow> ustring set \<Rightarrow> place \<Rightarrow> 'e session_state \<Rightarrow> bool" where
  "session_ok ok N C st \<longleftrightarrow> (\<forall>n e. map_of (st_engines st) n = Some e \<longrightarrow> ok e) \<and> (st_in_write st \<longleftrightarrow> st_scope st \<noteq> None) \<and>
     (\<not> st_in_write st \<longrightarrow> st_deferred st = []) \<and> dom (map_of (st_engines st)) = N \<and> fst C \<in> N"

text \<open>
  What an operation does to the source at \<open>S\<close>, the copy at \<open>C\<close> and the queue: outside a transaction the copy
  follows, inside one the rows wait.
\<close>

definition advanced ::
  "('e \<Rightarrow> ustring \<Rightarrow> cell row list) \<Rightarrow> (cell row list \<Rightarrow> cell row list \<Rightarrow> bool) \<Rightarrow> ('e \<Rightarrow> bool) \<Rightarrow> ustring set \<Rightarrow>
     (ustring \<Rightarrow> bool) \<Rightarrow> session \<Rightarrow>     ustring \<Rightarrow> place \<Rightarrow> place \<Rightarrow> 'e session_state \<Rightarrow> 'e session_state \<Rightarrow> bool" where
  "advanced rows R ok N copy_table se g S C st st' \<longleftrightarrow>
     session_ok ok N C st' \<and> st_in_write st' = st_in_write st \<and> st_scope st' = st_scope st \<and>
     (\<exists>new copied q. place_rows rows st' S = place_rows rows st S @ new \<and> place_rows rows st' C = place_rows rows st C @ copied \<and>
        st_deferred st' = st_deferred st @ q \<and> (\<forall>d \<in> set q. deliverable se copy_table S d) \<and>
        (if st_in_write st then copied = [] \<and> R (pend se C q) new \<and> (st_scope st \<noteq> Some g \<longrightarrow> new = [] \<and> pend se C q = [])
         else q = [] \<and> R copied new))"

lemma map_of_set_engine: "map_of (st_engines (set_engine n e st)) m = (if m = n then Some e else map_of (st_engines st) m)"
  by (simp add: set_engine_def)

lemma place_rows_write:
  assumes "map_of (st_engines st) n = Some e" "rows e' = (rows e)(t := ys)"
  shows "place_rows rows (set_engine n e' st) pl = (if pl = (n, t) then ys else place_rows rows st pl)"
  using assms by (cases pl) (auto simp: place_rows_def map_of_set_engine)

lemma place_rows_at: "map_of (st_engines st) n = Some e \<Longrightarrow> place_rows rows st (n, t) = rows e t"
  by (simp add: place_rows_def)

lemma place_rows_same:
  assumes "map_of (st_engines st) n = Some e" "rows e' = rows e"
  shows "place_rows rows (set_engine n e' st) = place_rows rows st"
  using assms by (auto simp: fun_eq_iff place_rows_def map_of_set_engine)

lemma session_ok_set_engine:
  "session_ok ok N C st \<Longrightarrow> map_of (st_engines st) n = Some e \<Longrightarrow> ok e' \<Longrightarrow> session_ok ok N C (set_engine n e' st)"
  by (auto simp: session_ok_def map_of_set_engine set_engine_def update_conv' split: if_splits)

definition sent_to :: "place \<Rightarrow> ustring \<Rightarrow> 'r list \<Rightarrow> physical_layout materialization list \<Rightarrow> 'r list" where
  "sent_to C y xs cs = concat (map (\<lambda>c. if copy_place c y C then xs else []) cs)"

lemma copy_place_iff: "table_for (mat_layout c) y = Inr t \<Longrightarrow> copy_place c y pl \<longleftrightarrow> pl = (mat_engine c, t)"
  by (cases pl) (auto simp: copy_place_def)

lemma sent_to_none: "\<forall>c \<in> set cs. \<not> copy_place c y C \<Longrightarrow> sent_to C y xs cs = []"
  by (simp add: sent_to_def)

lemma sent_to_one: "length (filter (\<lambda>c. copy_place c y C) cs) = 1 \<Longrightarrow> sent_to C y xs cs = xs"
proof (induction cs)
  case (Cons c cs)
  then show ?case
    using sent_to_none [of cs y C xs] by (cases "copy_place c y C") (auto simp: sent_to_def filter_empty_conv)
qed simp

lemma copied_entity_at:
  assumes "copied_entity se copy_table x g S C" "s \<in> set (se_shapes se)" "sh_entity s = y" "sh_group s = h"
    "placement_of (se_placement se) h = Inr p" "table_for (mat_layout (gp_source p)) y = Inr t"
  shows "S = (mat_engine (gp_source p), t) \<longleftrightarrow> y = x" "C \<noteq> (mat_engine (gp_source p), t)"
    "\<forall>c \<in> set (gp_also_write p). \<not> copy_place c y S \<and> (\<forall>t. table_for (mat_layout c) y = Inr t \<longrightarrow> copy_table t)"
    "(\<forall>c \<in> set (gp_also_write p). \<exists>t. table_for (mat_layout c) y = Inr t) \<or> (\<forall>c \<in> set (gp_also_write p). \<not> copy_place c y C)"
    "sent_to C y ys (gp_also_write p) = (if y = x then ys else [])" "y = x \<Longrightarrow> h = g"
proof -
  note all = assms(1) [unfolded copied_entity_def]
  show h: "y = x \<Longrightarrow> h = g" using all assms(2-4) by blast
  note here = all [THEN conjunct2, THEN conjunct2, THEN conjunct1, rule_format, OF assms(5)]
  obtain p' where p': "placement_of (se_placement se) g = Inr p'" "copy_place (gp_source p') x S"
    "length (filter (\<lambda>c. copy_place c x C) (gp_also_write p')) = 1" "\<forall>c \<in> set (gp_also_write p'). \<exists>t. table_for (mat_layout c) x = Inr t"
    using all by blast
  have pp: "y = x \<Longrightarrow> p' = p" using h p'(1) assms(5) by simp
  show "S = (mat_engine (gp_source p), t) \<longleftrightarrow> y = x"
  proof
    assume "S = (mat_engine (gp_source p), t)"
    then show "y = x" using here [of y] assms(6) by (auto simp: copy_place_def)
  next
    assume "y = x"
    then show "S = (mat_engine (gp_source p), t)" using p'(2) pp assms(6) by (cases S) (auto simp: copy_place_def)
  qed
  show "C \<noteq> (mat_engine (gp_source p), t)" using here [of y] assms(6) by (auto simp: copy_place_def)
  show "\<forall>c \<in> set (gp_also_write p). \<not> copy_place c y S \<and> (\<forall>t. table_for (mat_layout c) y = Inr t \<longrightarrow> copy_table t)"
    using here [of y] by blast
  show "(\<forall>c \<in> set (gp_also_write p). \<exists>t. table_for (mat_layout c) y = Inr t) \<or> (\<forall>c \<in> set (gp_also_write p). \<not> copy_place c y C)"
    using here [of y] p'(4) pp by (cases "y = x") blast+
  show "sent_to C y ys (gp_also_write p) = (if y = x then ys else [])"
  proof (cases "y = x")
    case True
    then show ?thesis using sent_to_one [of x C "gp_also_write p" ys] p'(3) pp by auto
  next
    case False
    then have "\<forall>c \<in> set (gp_also_write p). \<not> copy_place c y C" using here [of y] by blast
    then show ?thesis using False sent_to_none [of _ y C ys] by auto
  qed
qed

text \<open>An admitted write goes to the source of its entity's group.\<close>

lemma target_of_source:
  assumes "shape_of se y kind flds = Inr s" "kind = WRITE \<or> kind = BULK_WRITE" "target_of se st s False = Inr (e, mat)"
  shows "s \<in> set (se_shapes se) \<and> sh_entity s = y \<and> (st_scope st = None \<or> st_scope st = Some (sh_group s)) \<and>
    (\<exists>p. placement_of (se_placement se) (sh_group s) = Inr p \<and> mat = gp_source p)"
proof -
  have s: "s \<in> set (se_shapes se) \<and> sh_entity s = y \<and> sh_kind s = kind"
    using assms(1) by (auto simp: shape_of_def split: option.splits if_splits dest!: find_SomeD)
  then show ?thesis using assms(2,3)
    by (auto simp: target_of_def resolve_def WRITE_KINDS_def in_map_def and_then_def split: if_splits sum.splits option.splits)
qed

lemma save_check_source:
  assumes "save_check ops se y row st = Inr (h, n, t, admitted)"
  shows "\<exists>s p. s \<in> set (se_shapes se) \<and> sh_entity s = y \<and> sh_group s = h \<and> placement_of (se_placement se) h = Inr p \<and>
    table_for (mat_layout (gp_source p)) y = Inr t \<and> (st_scope st = None \<or> st_scope st = Some h) \<and> n = mat_engine (gp_source p)"
  using assms by (auto simp: save_check_def and_then_def in_map_def split: sum.splits dest!: target_of_source)

lemma batch_check_source:
  assumes "batch_check ops se y batch st = Inr (Some (h, n, t, admitted))"
  shows "\<exists>s p. s \<in> set (se_shapes se) \<and> sh_entity s = y \<and> sh_group s = h \<and> placement_of (se_placement se) h = Inr p \<and>
    table_for (mat_layout (gp_source p)) y = Inr t \<and> (st_scope st = None \<or> st_scope st = Some h) \<and> n = mat_engine (gp_source p)"
  using assms by (auto simp: batch_check_def and_then_def in_map_def split: sum.splits if_splits dest!: target_of_source)

text \<open>A replay does not look at the transaction that is open.\<close>

lemma replay_one_scope: "replay_one ops se d (st\<lparr>st_scope := sc\<rparr>) = apsnd (\<lambda>st. st\<lparr>st_scope := sc\<rparr>) (replay_one ops se d st)"
  by (simp add: replay_one_def set_engine_def split: option.splits prod.splits)

lemma replay_all_scope: "replay_all ops se ds (st\<lparr>st_scope := sc\<rparr>) = apsnd (\<lambda>st. st\<lparr>st_scope := sc\<rparr>) (replay_all ops se ds st)"
  by (induction ds arbitrary: st) (auto simp: replay_one_scope split: prod.splits option.splits)

locale following_store =
  fixes ops :: "'e engine_ops" and rows :: "'e \<Rightarrow> ustring \<Rightarrow> cell row list"
    and R :: "cell row list \<Rightarrow> cell row list \<Rightarrow> bool" and ok :: "'e \<Rightarrow> bool" and copy_table :: "ustring \<Rightarrow> bool"
  assumes R_refl: "R a a" and R_trans: "R a b \<Longrightarrow> R b c \<Longrightarrow> R a c"
    and R_append: "R a b \<Longrightarrow> R c d \<Longrightarrow> R (a @ c) (b @ d)"
    and insert_rows: "ok e \<Longrightarrow> eo_insert ops e t r = (f, e') \<Longrightarrow>
      ok e' \<and> (\<exists>ys. rows e' = (rows e)(t := rows e t @ ys) \<and> lands R (copy_table t) f ys [r])"
    and insert_many_rows: "ok e \<Longrightarrow> eo_insert_many ops e t rs = (f, e') \<Longrightarrow>
      ok e' \<and> (\<exists>ys. rows e' = (rows e)(t := rows e t @ ys) \<and> lands R (copy_table t) f ys rs)"
    and bulk_rows: "ok e \<Longrightarrow> \<not> eo_bulk ops e \<Longrightarrow> R [] zs"
    and begin_rows: "ok e \<Longrightarrow> eo_begin ops e = (f, e') \<Longrightarrow> ok e' \<and> rows e' = rows e"
    and commit_rows: "ok start \<Longrightarrow> ok e \<Longrightarrow> eo_commit ops start e = (f, e') \<Longrightarrow>
      ok e' \<and> (f = None \<longrightarrow> rows e' = rows e) \<and> (f \<noteq> None \<longrightarrow> rows e' = rows start \<or> rows e' = rows e \<and> (\<forall>zs. R [] zs))"
    and rollback_rows: "ok start \<Longrightarrow> ok e \<Longrightarrow> ok (eo_rollback ops start e) \<and> rows (eo_rollback ops start e) = rows start"
begin

lemma write_to_rows:
  assumes "ok e" "write_to ops pm t g body e = (err, e')"
  shows "ok e' \<and> (\<exists>ys. rows e' = (rows e)(t := rows e t @ ys) \<and> (err = None \<longrightarrow> stamped_body pm g body = Inr ys) \<and>
    (err \<noteq> None \<longrightarrow> R [] ys) \<and>
    (\<forall>xs. copy_table t \<and> stamped_body pm g body = Inr xs \<longrightarrow> R ys xs \<and> (err \<noteq> None \<longrightarrow> (\<forall>zs. R [] zs))))"
proof (cases "stamped_body pm g body")
  case (Inl x)
  then have "e' = e" "err \<noteq> None" using assms(2)
    by (auto simp: write_to_def stamped_body_def split: write_values.splits sum.splits if_splits)
  then show ?thesis using assms(1) Inl R_refl by (auto intro!: exI [of _ "[]"])
next
  case (Inr xs)
  show ?thesis
  proof (cases body)
    case (OneRow r)
    then obtain stamped f where "stamp_values pm g r = Inr stamped" "xs = [stamped]" "eo_insert ops e t stamped = (f, e')" "err = map_option failed_with f"
      using assms(2) Inr by (cases "stamp_values pm g r") (auto simp: write_to_def stamped_body_def apfst_def map_prod_def split: prod.splits)
    then show ?thesis using insert_rows [OF assms(1), of t stamped f e'] Inr by (auto simp: lands_def)
  next
    case (Batch rs)
    show ?thesis
    proof (cases "eo_bulk ops e")
      case True
      then obtain f where "stamp_all pm g rs = Inr xs" "eo_insert_many ops e t xs = (f, e')" "err = map_option failed_with f"
        using assms(2) Inr Batch by (auto simp: write_to_def stamped_body_def apfst_def map_prod_def split: prod.splits)
      then show ?thesis using insert_many_rows [OF assms(1), of t xs f e'] Inr by (auto simp: lands_def)
    next
      case False
      then have "e' = e" "err \<noteq> None" using assms(2) Batch by (auto simp: write_to_def)
      then show ?thesis using assms(1) Inr bulk_rows [OF assms(1) False] R_refl by (auto intro!: exI [of _ "[]"])
    qed
  qed
qed

lemma advanced_trans:
  assumes "advanced rows R ok N copy_table se g S C st st'" "advanced rows R ok N copy_table se g S C st' st''"
  shows "advanced rows R ok N copy_table se g S C st st''"
proof -
  obtain n1 c1 q1 where 1: "place_rows rows st' S = place_rows rows st S @ n1" "place_rows rows st' C = place_rows rows st C @ c1"
    "st_deferred st' = st_deferred st @ q1" "\<forall>d \<in> set q1. deliverable se copy_table S d"
    "if st_in_write st then c1 = [] \<and> R (pend se C q1) n1 \<and> (st_scope st \<noteq> Some g \<longrightarrow> n1 = [] \<and> pend se C q1 = []) else q1 = [] \<and> R c1 n1"
    using assms(1) unfolding advanced_def by blast
  obtain n2 c2 q2 where 2: "place_rows rows st'' S = place_rows rows st' S @ n2" "place_rows rows st'' C = place_rows rows st' C @ c2"
    "st_deferred st'' = st_deferred st' @ q2" "\<forall>d \<in> set q2. deliverable se copy_table S d"
    "if st_in_write st' then c2 = [] \<and> R (pend se C q2) n2 \<and> (st_scope st' \<noteq> Some g \<longrightarrow> n2 = [] \<and> pend se C q2 = []) else q2 = [] \<and> R c2 n2"
    using assms(2) unfolding advanced_def by blast
  have flags: "st_in_write st' = st_in_write st" "st_scope st' = st_scope st" "st_in_write st'' = st_in_write st" "st_scope st'' = st_scope st"
    "session_ok ok N C st''"
    using assms unfolding advanced_def by auto
  have "place_rows rows st'' S = place_rows rows st S @ (n1 @ n2)" "place_rows rows st'' C = place_rows rows st C @ (c1 @ c2)"
    "st_deferred st'' = st_deferred st @ (q1 @ q2)" "\<forall>d \<in> set (q1 @ q2). deliverable se copy_table S d"
    using 1(1-4) 2(1-4) by auto
  moreover have "if st_in_write st then c1 @ c2 = [] \<and> R (pend se C (q1 @ q2)) (n1 @ n2) \<and>
      (st_scope st \<noteq> Some g \<longrightarrow> n1 @ n2 = [] \<and> pend se C (q1 @ q2) = []) else q1 @ q2 = [] \<and> R (c1 @ c2) (n1 @ n2)"
    using 1(5) 2(5) R_append flags(1,2) by (auto split: if_splits)
  ultimately show ?thesis unfolding advanced_def using flags(3-5) by blast
qed

lemma advanced_same:
  assumes "session_ok ok N C st"
  shows "advanced rows R ok N copy_table se g S C st st"
  unfolding advanced_def using assms R_refl by (auto intro!: exI [of _ "[]"])

text \<open>A write at a place that is neither.\<close>

lemma advanced_elsewhere:
  assumes "session_ok ok N C st" "map_of (st_engines st) n = Some e" "ok e'" "rows e' = (rows e)(t := ys)" "(n, t) \<noteq> S" "(n, t) \<noteq> C"
  shows "advanced rows R ok N copy_table se g S C st (set_engine n e' st)"
  unfolding advanced_def using session_ok_set_engine [OF assms(1-3)] assms(5,6) R_refl
  by (auto simp: place_rows_write [OF assms(2,4)] intro!: exI [of _ "[]"])

lemma replay_one_rows:
  assumes "session_ok ok N C st" "\<not> st_in_write st" "deliverable se copy_table S d" "replay_one ops se d st = (err, st')"
  shows "session_ok ok N C st' \<and> st_in_write st' = st_in_write st \<and> st_scope st' = st_scope st \<and> st_deferred st' = st_deferred st \<and>
    place_rows rows st' S = place_rows rows st S \<and>
    (\<exists>ys. place_rows rows st' C = place_rows rows st C @ ys \<and> R ys (delivered se C d)) \<and> (err \<noteq> None \<longrightarrow> (\<forall>zs. R [] zs))"
proof (cases "map_of (st_engines st) (de_engine d)")
  case None
  then have "st' = st" "err = None" using assms(4) by (auto simp: replay_one_def)
  moreover have "delivered se C d = []" using None assms(1) by (auto simp: delivered_def session_ok_def)
  ultimately show ?thesis using assms(1) R_refl by auto
next
  case (Some e)
  then have e: "ok e" using assms(1) by (auto simp: session_ok_def)
  obtain xs where xs: "copy_table (de_table d)" "stamped_body (se_placement se) (de_group d) (de_values d) = Inr xs"
    using assms(3) by (auto simp: deliverable_def)
  obtain err' e' where wrote: "write_to ops (se_placement se) (de_table d) (de_group d) (de_values d) e = (err', e')" by (cases "write_to ops (se_placement se) (de_table d) (de_group d) (de_values d) e")
  then have st': "st' = set_engine (de_engine d) e' st" "err \<noteq> None \<longrightarrow> err' \<noteq> None" using assms(4) Some by (auto simp: replay_one_def split: if_splits)
  obtain ys where ys: "ok e'" "rows e' = (rows e)(de_table d := rows e (de_table d) @ ys)" "R ys xs" "err' \<noteq> None \<longrightarrow> (\<forall>zs. R [] zs)"
    using write_to_rows [OF e wrote] xs by blast
  note at = place_rows_write [OF Some ys(2)]
  have S: "place_rows rows st' S = place_rows rows st S"
    using assms(3) unfolding st'(1) at by (auto simp: deliverable_def)
  have "\<exists>zs. place_rows rows st' C = place_rows rows st C @ zs \<and> R zs (delivered se C d)"
  proof (cases "(de_engine d, de_table d) = C")
    case True
    then have "place_rows rows st' C = place_rows rows st C @ ys"
      unfolding st'(1) at using place_rows_at [OF Some, of rows "de_table d"] by simp
    then show ?thesis using True xs(2) ys(3) by (auto simp: delivered_def)
  next
    case False
    then have "place_rows rows st' C = place_rows rows st C" unfolding st'(1) at by auto
    then show ?thesis using False R_refl by (auto simp: delivered_def)
  qed
  then show ?thesis using S ys(1,4) st' session_ok_set_engine [OF assms(1) Some] by auto
qed

lemma replay_all_rows:
  assumes "session_ok ok N C st" "\<not> st_in_write st" "\<forall>d \<in> set ds. deliverable se copy_table S d" "replay_all ops se ds st = (err, st')"
  shows "session_ok ok N C st' \<and> st_in_write st' = st_in_write st \<and> st_scope st' = st_scope st \<and> st_deferred st' = st_deferred st \<and>
    place_rows rows st' S = place_rows rows st S \<and> (\<exists>ys. place_rows rows st' C = place_rows rows st C @ ys \<and> R ys (pend se C ds))"
  using assms
proof (induction ds arbitrary: st)
  case Nil
  then show ?case using R_refl by auto
next
  case (Cons d ds)
  obtain err1 st1 where step: "replay_one ops se d st = (err1, st1)" by (cases "replay_one ops se d st")
  have "deliverable se copy_table S d" using Cons.prems(3) by auto
  note one = replay_one_rows [OF Cons.prems(1,2) this step]
  then obtain ys where ys: "place_rows rows st1 C = place_rows rows st C @ ys" "R ys (delivered se C d)" by auto
  have st1: "session_ok ok N C st1" "st_in_write st1 = st_in_write st" "st_scope st1 = st_scope st" "st_deferred st1 = st_deferred st"
    "place_rows rows st1 S = place_rows rows st S" "err1 \<noteq> None \<Longrightarrow> R [] zs" for zs
    using one by auto
  show ?case
  proof (cases err1)
    case None
    then have "replay_all ops se ds st1 = (err, st')" using Cons.prems(4) step by simp
    from Cons.IH [OF st1(1) _ _ this] obtain zs where zs: "place_rows rows st' C = place_rows rows st1 C @ zs" "R zs (pend se C ds)"
      and rest: "session_ok ok N C st' \<and> st_in_write st' = st_in_write st \<and> st_scope st' = st_scope st \<and> st_deferred st' = st_deferred st \<and>
        place_rows rows st' S = place_rows rows st S"
      using Cons.prems(2,3) st1 by auto
    show ?thesis using rest zs ys R_append [OF ys(2) zs(2)] by auto
  next
    case (Some why)
    then have "st' = st1" using Cons.prems(4) step by simp
    moreover have "R (ys @ []) (pend se C (d # ds))" using R_append [OF ys(2) st1(6) [of "pend se C ds"]] Some by simp
    ultimately show ?thesis using st1(1-5) ys(1) by auto
  qed
qed

text \<open>The rows that the copies \<open>cs\<close> of entity \<open>y\<close> are sent at the place \<open>C\<close>.\<close>

lemma fan_out_copies_rows:
  assumes "session_ok ok N C st" "\<forall>c \<in> set cs. \<not> copy_place c y S \<and> (\<forall>t. table_for (mat_layout c) y = Inr t \<longrightarrow> copy_table t)"
    "stamped_body (se_placement se) h body = Inr xs"
    "(\<forall>c \<in> set cs. \<exists>t. table_for (mat_layout c) y = Inr t) \<or> (\<forall>c \<in> set cs. \<not> copy_place c y C)"
    "fan_out_copies ops se y h body cs st = (err, st')"
  shows "session_ok ok N C st' \<and> st_in_write st' = st_in_write st \<and> st_scope st' = st_scope st \<and> place_rows rows st' S = place_rows rows st S \<and>
    (if st_in_write st then place_rows rows st' C = place_rows rows st C \<and>
       (\<exists>q. st_deferred st' = st_deferred st @ q \<and> (\<forall>d \<in> set q. deliverable se copy_table S d) \<and> pend se C q = sent_to C y xs cs)
     else st_deferred st' = st_deferred st \<and> (\<exists>ys. place_rows rows st' C = place_rows rows st C @ ys \<and> R ys (sent_to C y xs cs)))"
  using assms
proof (induction cs arbitrary: st)
  case Nil
  then show ?case using R_refl by (auto simp: sent_to_def)
next
  case (Cons c cs)
  have later: "\<forall>c \<in> set cs. \<not> copy_place c y S \<and> (\<forall>t. table_for (mat_layout c) y = Inr t \<longrightarrow> copy_table t)"
    "(\<forall>c \<in> set cs. \<exists>t. table_for (mat_layout c) y = Inr t) \<or> (\<forall>c \<in> set cs. \<not> copy_place c y C)"
    using Cons.prems(2,4) by auto
  show ?case
  proof (cases "table_for (mat_layout c) y")
    case (Inl e)
    then have "sent_to C y xs (c # cs) = []" "st' = st" using Cons.prems(4,5) by (auto simp: sent_to_def)
    then show ?thesis using Cons.prems(1) R_refl by (auto intro!: exI [of _ "[]"])
  next
    case (Inr t)
    let ?d = "\<lparr>de_engine = mat_engine c, de_table = t, de_group = h, de_copy = mat_id c, de_values = body\<rparr>"
    have d: "deliverable se copy_table S ?d" "delivered se C ?d @ sent_to C y xs cs = sent_to C y xs (c # cs)"
      using Cons.prems(2,3) Inr by (auto simp: deliverable_def delivered_def sent_to_def copy_place_iff [OF Inr])
    show ?thesis
    proof (cases "st_in_write st")
      case True
      then have "fan_out_copies ops se y h body cs (st\<lparr>st_deferred := st_deferred st @ [?d]\<rparr>) = (err, st')" using Cons.prems(5) Inr by (simp add: Let_def)
      moreover have "session_ok ok N C (st\<lparr>st_deferred := st_deferred st @ [?d]\<rparr>)" using Cons.prems(1) True by (auto simp: session_ok_def)
      ultimately obtain q where q: "st_deferred st' = st_deferred st @ [?d] @ q" "\<forall>d \<in> set q. deliverable se copy_table S d"
          "pend se C q = sent_to C y xs cs"
        and rest: "session_ok ok N C st'" "st_in_write st' = st_in_write st" "st_scope st' = st_scope st"
          "place_rows rows st' S = place_rows rows st S" "place_rows rows st' C = place_rows rows st C"
        using Cons.IH [OF _ later(1) Cons.prems(3) later(2), of "st\<lparr>st_deferred := st_deferred st @ [?d]\<rparr>"] True by auto
      have "st_deferred st' = st_deferred st @ (?d # q)" "\<forall>d \<in> set (?d # q). deliverable se copy_table S d"
        "pend se C (?d # q) = sent_to C y xs (c # cs)"
        using q d by simp_all
      then show ?thesis using rest True by metis
    next
      case False
      obtain err1 st1 where step: "replay_one ops se ?d st = (err1, st1)" by (cases "replay_one ops se ?d st")
      note one = replay_one_rows [OF Cons.prems(1) False d(1) step]
      then obtain ys where ys: "place_rows rows st1 C = place_rows rows st C @ ys" "R ys (delivered se C ?d)" by auto
      show ?thesis
      proof (cases err1)
        case None
        then have "fan_out_copies ops se y h body cs st1 = (err, st')" using Cons.prems(5) Inr False step by (simp add: Let_def)
        from Cons.IH [OF _ later(1) Cons.prems(3) later(2) this] one False
        obtain zs where "place_rows rows st' C = place_rows rows st1 C @ zs" "R zs (sent_to C y xs cs)" "session_ok ok N C st'"
          "st_in_write st' = st_in_write st" "st_scope st' = st_scope st" "place_rows rows st' S = place_rows rows st S"
          "st_deferred st' = st_deferred st"
          by auto
        then show ?thesis using False ys R_append [OF ys(2), of zs "sent_to C y xs cs"] d(2) by auto
      next
        case (Some why)
        then have "st' = st1" "\<forall>zs. R [] zs" using Cons.prems(5) Inr False step one by (auto simp: Let_def)
        then show ?thesis using False one ys R_append [OF ys(2), of "[]" "sent_to C y xs cs"] d(2) by auto
      qed
    qed
  qed
qed

lemma write_out_advanced:
  assumes "copied_entity se copy_table x g S C" "session_ok ok N C st" "s \<in> set (se_shapes se)" "sh_entity s = y" "sh_group s = h"
    "placement_of (se_placement se) h = Inr p" "table_for (mat_layout (gp_source p)) y = Inr t" "st_scope st = None \<or> st_scope st = Some h"
    "write_out ops se y h (mat_engine (gp_source p)) t body st = (err, st')"
  shows "advanced rows R ok N copy_table se g S C st st'"
proof (cases "map_of (st_engines st) (mat_engine (gp_source p))")
  case None
  then show ?thesis using assms(9) advanced_same [OF assms(2)] by (auto simp: write_out_def the_engine_def)
next
  case (Some e)
  let ?n = "mat_engine (gp_source p)"
  note at_x = copied_entity_at [OF assms(1,3-7)]
  have e: "ok e" using assms(2) Some by (auto simp: session_ok_def)
  obtain err1 e' where wrote: "write_to ops (se_placement se) t h body e = (err1, e')" by (cases "write_to ops (se_placement se) t h body e")
  from write_to_rows [OF e wrote] obtain ys where ys: "ok e'" "rows e' = (rows e)(t := rows e t @ ys)"
    "err1 = None \<Longrightarrow> stamped_body (se_placement se) h body = Inr ys" "err1 \<noteq> None \<Longrightarrow> R [] ys" by blast
  let ?st = "set_engine ?n e' st"
  note at = place_rows_write [OF Some ys(2)] place_rows_at [OF Some, symmetric, of rows t]
  have S: "place_rows rows ?st S = place_rows rows st S @ (if y = x then ys else [])" and C: "place_rows rows ?st C = place_rows rows st C"
    using at_x(1,2) by (auto simp: at)
  have st: "session_ok ok N C ?st" by (rule session_ok_set_engine [OF assms(2) Some ys(1)])
  have inside: "st_in_write st \<Longrightarrow> st_scope st = Some h" using assms(2,8) by (auto simp: session_ok_def)
  show ?thesis
  proof (cases err1)
    case None
    then have "fan_out_copies ops se y h body (gp_also_write p) ?st = (err, st')"
      using assms(6,9) Some wrote by (simp add: write_out_def the_engine_def fan_out_def)
    note out = fan_out_copies_rows [OF st at_x(3) ys(3) [OF None] at_x(4) this, unfolded st_simps at_x(5) S C]
    then show ?thesis unfolding advanced_def using at_x(6) inside R_refl
      by (cases "st_in_write st") (auto simp: set_engine_def)
  next
    case (Some why)
    then have "st' = ?st" using assms(9) \<open>map_of (st_engines st) ?n = Some e\<close> wrote by (auto simp: write_out_def the_engine_def)
    then show ?thesis unfolding advanced_def using S C st ys(4) Some R_refl at_x(6) inside
      by (cases "st_in_write st"; cases "y = x") (auto intro!: exI [of _ "[]"])
  qed
qed

lemma save_advanced:
  assumes "copied_entity se copy_table x g S C" "session_ok ok N C st" "save ops se y row st = (err, st')"
  shows "advanced rows R ok N copy_table se g S C st st'"
proof (cases "save_check ops se y row st")
  case (Inl e)
  then show ?thesis using assms(3) advanced_same [OF assms(2)] by (simp add: save_def)
next
  case (Inr checked)
  obtain h n t admitted where checked: "checked = (h, n, t, admitted)" by (cases checked)
  from save_check_source [OF Inr [unfolded checked]] show ?thesis
    using write_out_advanced [OF assms(1,2)] assms(3) Inr checked by (auto simp: save_def)
qed

lemma save_many_advanced:
  assumes "copied_entity se copy_table x g S C" "session_ok ok N C st" "save_many ops se y batch st = (err, st')"
  shows "advanced rows R ok N copy_table se g S C st st'"
proof (cases "batch_check ops se y batch st")
  case (Inl e)
  then show ?thesis using assms(3) advanced_same [OF assms(2)] by (simp add: save_many_def)
next
  case (Inr checked)
  show ?thesis
  proof (cases checked)
    case None
    then show ?thesis using assms(3) Inr advanced_same [OF assms(2)] by (simp add: save_many_def)
  next
    case (Some c)
    obtain h n t admitted where c: "c = (h, n, t, admitted)" by (cases c)
    from batch_check_source [OF Inr [unfolded Some c]] show ?thesis
      using write_out_advanced [OF assms(1,2)] assms(3) Inr Some c by (auto simp: save_many_def)
  qed
qed

text \<open>The queue of a block is replayed, dropped or kept.\<close>

lemma after_transaction_advanced:
  assumes "session_ok ok N C st" "session_ok ok N C (st1\<lparr>st_scope := st_scope st, st_in_write := st_in_write st, st_deferred := st_deferred st\<rparr>)"
    "st_deferred st1 = st_deferred st @ q" "\<forall>d \<in> set q. deliverable se copy_table S d" "place_rows rows st1 C = place_rows rows st C"
    "place_rows rows st1 S = place_rows rows st S @ new"
    "st_in_write st \<Longrightarrow> st_scope st \<noteq> Some g \<Longrightarrow> new = [] \<and> pend se C q = []"
    "if committed then R (pend se C q) new else R [] new"
    "after_transaction ops se committed (st_in_write st) (length (st_deferred st)) st1 = (err, st2)"
  shows "advanced rows R ok N copy_table se g S C st (st2\<lparr>st_scope := st_scope st\<rparr>)"
proof (cases "committed \<and> \<not> st_in_write st")
  case True
  let ?st = "st1\<lparr>st_in_write := False, st_deferred := []\<rparr>"
  have none: "st_deferred st = []" "st_scope st = None" using assms(1) True by (auto simp: session_ok_def)
  have replay: "replay_all ops se q ?st = (err, st2)" using assms(3,9) True none by (simp add: after_transaction_def Let_def)
  have "replay_all ops se q (?st\<lparr>st_scope := None\<rparr>) = (err, st2\<lparr>st_scope := None\<rparr>)" using replay_all_scope [of ops se q None ?st] replay by simp
  moreover have "session_ok ok N C (?st\<lparr>st_scope := None\<rparr>)" using assms(2) True none by (simp add: session_ok_def)
  ultimately obtain ys where "session_ok ok N C (st2\<lparr>st_scope := None\<rparr>)" "\<not> st_in_write st2" "st_deferred st2 = []"
    "place_rows rows st2 S = place_rows rows st1 S" "place_rows rows st2 C = place_rows rows st1 C @ ys" "R ys (pend se C q)"
    using replay_all_rows [of N C "?st\<lparr>st_scope := None\<rparr>" q se S err "st2\<lparr>st_scope := None\<rparr>"] assms(4) by auto
  then show ?thesis unfolding advanced_def using True none assms(5,6,8) R_trans by auto
next
  case False
  then have st2: "st2 = (if committed then st1\<lparr>st_in_write := st_in_write st\<rparr> else st1\<lparr>st_in_write := st_in_write st, st_deferred := st_deferred st\<rparr>)"
    using assms(3,9) by (auto simp: after_transaction_def Let_def)
  show ?thesis
  proof (cases committed)
    case True
    then have "session_ok ok N C (st2\<lparr>st_scope := st_scope st\<rparr>)" using assms(2) st2 False by (simp add: session_ok_def)
    then show ?thesis unfolding advanced_def using True False assms(3-8) st2 by auto
  next
    case False
    then have "session_ok ok N C (st2\<lparr>st_scope := st_scope st\<rparr>)" using assms(2) st2 by (simp add: session_ok_def)
    then show ?thesis unfolding advanced_def using False assms(5-8) st2 by (auto intro!: exI [of _ "[]"])
  qed
qed

lemma end_block_advanced:
  assumes "copied_entity se copy_table x g S C" "session_ok ok N C st" "placement_of (se_placement se) h = Inr p" "n = mat_engine (gp_source p)"
    "st_scope st = None \<or> st_scope st = Some h" "map_of (st_engines st) n = Some e" "ok start" "rows start = rows e"
    "advanced rows R ok N copy_table se g S C ((set_engine n start st)\<lparr>st_in_write := True, st_scope := Some h\<rparr>) st1"
    "end_block ops se n start (st_in_write st) (length (st_deferred st)) (err1, st1) = (err, st2)"
  shows "advanced rows R ok N copy_table se g S C st (st2\<lparr>st_scope := st_scope st\<rparr>)"
proof -
  have same: "place_rows rows (set_engine n start st) = place_rows rows st"
    by (rule place_rows_same [OF assms(6,8)])
  let ?st = "(set_engine n start st)\<lparr>st_in_write := True, st_scope := Some h\<rparr>"
  obtain new copied q where moved: "place_rows rows st1 S = place_rows rows ?st S @ new" "place_rows rows st1 C = place_rows rows ?st C @ copied"
    "st_deferred st1 = st_deferred ?st @ q" "\<forall>d \<in> set q. deliverable se copy_table S d"
    "if st_in_write ?st then copied = [] \<and> R (pend se C q) new \<and> (st_scope ?st \<noteq> Some g \<longrightarrow> new = [] \<and> pend se C q = [])
     else q = [] \<and> R copied new"
    and st1: "session_ok ok N C st1"
    using assms(9) unfolding advanced_def by blast
  have new: "place_rows rows st1 S = place_rows rows st S @ new" "place_rows rows st1 C = place_rows rows st C"
    "st_deferred st1 = st_deferred st @ q" "\<forall>d \<in> set q. deliverable se copy_table S d" "R (pend se C q) new"
    "h \<noteq> g \<Longrightarrow> new = [] \<and> pend se C q = []"
    using moved by (simp_all add: same)
  have scoped: "st_scope st \<noteq> Some g \<Longrightarrow> st_in_write st \<Longrightarrow> new = [] \<and> pend se C q = []"
    using new(6) assms(2,5) by (auto simp: session_ok_def)
  obtain e1 where e1: "map_of (st_engines st1) n = Some e1" "ok e1"
    using st1 assms(2,6) unfolding session_ok_def by (metis domD domI)
  have left: "session_ok ok N C ((set_engine n e' st1)\<lparr>st_scope := st_scope st, st_in_write := st_in_write st, st_deferred := st_deferred st\<rparr>)"
    if "ok e'" for e'
    using session_ok_set_engine [OF st1 e1(1) that] assms(2) by (auto simp: session_ok_def)
  have kept: "place_rows rows (set_engine n e' st1) = place_rows rows st1" if "rows e' = rows e1" for e'
    by (rule place_rows_same [OF e1(1) that])
  have undone: "place_rows rows (set_engine n e' st1) S = place_rows rows st S" "place_rows rows (set_engine n e' st1) C = place_rows rows st C"
    if "rows e' = rows start" for e'
  proof -
    have at_n: "place_rows rows (set_engine n e' st1) pl = place_rows rows st pl" if "fst pl = n" for pl
      using that \<open>rows e' = rows start\<close> assms(6,8) by (cases pl) (simp add: place_rows_set_engine place_rows_at)
    have "fst S = n \<or> h \<noteq> g"
    proof (cases "h = g")
      case True
      obtain p' where "placement_of (se_placement se) g = Inr p'" "copy_place (gp_source p') x S"
        using assms(1) unfolding copied_entity_def by blast
      then show ?thesis using True assms(3,4) by (simp add: copy_place_def)
    qed simp
    then show "place_rows rows (set_engine n e' st1) S = place_rows rows st S"
      using at_n [of S] new(1,6) by (cases "fst S = n") (auto simp: place_rows_set_engine)
    show "place_rows rows (set_engine n e' st1) C = place_rows rows st C"
      using at_n [of C] new(2) by (cases "fst C = n") (auto simp: place_rows_set_engine)
  qed
  note ended = after_transaction_advanced [OF assms(2) left, of _ q se S _ g]
  show ?thesis
  proof (cases err1)
    case None
    obtain f e' where commit: "eo_commit ops start e1 = (f, e')" by (cases "eo_commit ops start e1")
    note e' = commit_rows [OF assms(7) e1(2) commit]
    show ?thesis
    proof (cases f)
      case None
      then have "after_transaction ops se True (st_in_write st) (length (st_deferred st)) (set_engine n e' st1) = (err, st2)"
        using assms(10) \<open>err1 = None\<close> commit e1 by (simp add: end_block_def)
      then show ?thesis using ended [of e' new True err st2] e' None kept [of e'] new scoped by simp
    next
      case (Some why)
      then obtain err2 where "after_transaction ops se False (st_in_write st) (length (st_deferred st)) (set_engine n e' st1) = (err2, st2)"
        using assms(10) \<open>err1 = None\<close> commit e1 by (auto simp: end_block_def prod_eq_iff)
      then show ?thesis
        using ended [of e' new False err2 st2] ended [of e' "[]" False err2 st2] e' Some kept [of e'] undone [of e'] new scoped R_refl by auto
    qed
  next
    case (Some why)
    let ?e = "eo_rollback ops start e1"
    obtain err2 where "after_transaction ops se False (st_in_write st) (length (st_deferred st)) (set_engine n ?e st1) = (err2, st2)"
      using assms(10) Some e1 by (auto simp: end_block_def prod_eq_iff)
    then show ?thesis
      using ended [of ?e "[]" False err2 st2] rollback_rows [OF assms(7) e1(2)] undone [of ?e] new scoped R_refl by auto
  qed
qed

text \<open>A transaction whose block advances, advances.\<close>

lemma transaction_advanced:
  assumes "copied_entity se copy_table x g S C" "session_ok ok N C st" "run_client ops se (Transaction entities body) st = (err, st')"
    and block: "\<And>h p e e' err1 st1. placement_of (se_placement se) h = Inr p \<Longrightarrow> transaction_group se entities = Inr h \<Longrightarrow>
      \<not> (st_scope st \<noteq> None \<and> st_scope st \<noteq> Some h) \<Longrightarrow> the_engine st (mat_engine (gp_source p)) = Inr e \<Longrightarrow> eo_begin ops e = (None, e') \<Longrightarrow>
      session_ok ok N C ((set_engine (mat_engine (gp_source p)) e' st)\<lparr>st_in_write := True, st_scope := Some h\<rparr>) \<Longrightarrow>
      run_clients ops se body ((set_engine (mat_engine (gp_source p)) e' st)\<lparr>st_in_write := True, st_scope := Some h\<rparr>) = (err1, st1) \<Longrightarrow>
      advanced rows R ok N copy_table se g S C ((set_engine (mat_engine (gp_source p)) e' st)\<lparr>st_in_write := True, st_scope := Some h\<rparr>) st1"
  shows "advanced rows R ok N copy_table se g S C st st'"
proof (cases "st' = st")
  case True
  then show ?thesis using advanced_same [OF assms(2)] by simp
next
  case False
  then obtain h p e f e' where h: "transaction_group se entities = Inr h" "\<not> (st_scope st \<noteq> None \<and> st_scope st \<noteq> Some h)"
    "placement_of (se_placement se) h = Inr p" "the_engine st (mat_engine (gp_source p)) = Inr e" "eo_begin ops e = (f, e')"
    using assms(3) by (auto split: sum.splits if_splits prod.splits)
  let ?n = "mat_engine (gp_source p)"
  let ?st = "(set_engine ?n e' st)\<lparr>st_in_write := True, st_scope := Some h\<rparr>"
  have e: "map_of (st_engines st) ?n = Some e" "ok e" using h(4) assms(2) by (auto simp: the_engine_def session_ok_def split: option.splits)
  note e' = begin_rows [OF e(2) h(5)]
  show ?thesis
  proof (cases f)
    case None
    obtain err1 st1 where run: "run_clients ops se body ?st = (err1, st1)" by (cases "run_clients ops se body ?st")
    obtain st2 where ended: "end_block ops se ?n e' (st_in_write st) (length (st_deferred st)) (err1, st1) = (err, st2)" "st' = st2\<lparr>st_scope := st_scope st\<rparr>"
      using assms(3) h None run by (auto simp: apsnd_def map_prod_def split: prod.splits)
    have "session_ok ok N C ?st" using session_ok_set_engine [OF assms(2) e(1)] e' by (auto simp: session_ok_def)
    note inner = block [OF h(3,1,2,4) h(5) [unfolded None] this run]
    show ?thesis unfolding ended(2)
      by (rule end_block_advanced [OF assms(1,2) h(3) refl _ e(1) _ _ inner ended(1)]) (use h(2) e' in auto)
  next
    case (Some why)
    then have "st' = set_engine ?n e' st" using assms(3) h by (auto split: if_splits)
    then have at: "place_rows rows st' = place_rows rows st" using place_rows_same [OF e(1)] e' by simp
    show ?thesis using at e' session_ok_set_engine [OF assms(2) e(1)] R_refl \<open>st' = set_engine ?n e' st\<close>
      unfolding advanced_def by (auto intro!: exI [of _ "[]"])
  qed
qed

text \<open>Every client program, whatever it catches and wherever it stops.\<close>

lemma run_client_advanced:
  assumes "copied_entity se copy_table x g S C"
  shows "ops' = ops \<Longrightarrow> se' = se \<Longrightarrow> session_ok ok N C st \<Longrightarrow> run_client ops' se' c st = (err, st') \<Longrightarrow> advanced rows R ok N copy_table se g S C st st'"
    and "ops' = ops \<Longrightarrow> se' = se \<Longrightarrow> session_ok ok N C st \<Longrightarrow> run_clients ops' se' cs st = (err, st') \<Longrightarrow> advanced rows R ok N copy_table se g S C st st'"
proof (induction ops' se' c st and ops' se' cs st arbitrary: err st' and err st' rule: run_client_run_clients.induct)
  case (1 ops' se' entity row st)
  then show ?case using save_advanced [OF assms] by auto
next
  case (2 ops' se' entity batch st)
  then show ?case using save_many_advanced [OF assms] by auto
next
  case (3 ops' se' entity key fresh st)
  then have "st' = st" by (auto split: sum.splits)
  then show ?case using advanced_same 3 by blast
next
  case (4 ops' se' body st)
  then show ?case by (auto split: prod.splits)
next
  case (5 ops' se' st)
  then show ?case using advanced_same by auto
next
  case (6 ops' se' entities body st)
  note 6(2,3) [simp]
  show ?case
    by (rule transaction_advanced [OF assms 6(4) 6(5) [simplified 6(2,3)]]) (use 6(1) in auto)
next
  case (7 ops' se' st)
  then show ?case using advanced_same by auto
next
  case (8 ops' se' c cs st)
  obtain err1 st1 where one: "run_client ops' se' c st = (err1, st1)" by (cases "run_client ops' se' c st")
  note first = "8.IH"(1) [OF "8.prems"(1-3) one]
  show ?case
  proof (cases err1)
    case None
    have "session_ok ok N C st1" using first by (simp add: advanced_def)
    moreover have "run_clients ops' se' cs st1 = (err, st')" using "8.prems"(4) one None by simp
    ultimately have "advanced rows R ok N copy_table se g S C st1 st'"
      using "8.IH"(2) [OF one [symmetric] None "8.prems"(1,2)] by blast
    then show ?thesis using advanced_trans first by blast
  next
    case (Some why)
    then show ?thesis using "8.prems"(4) one first by simp
  qed
qed

text \<open>From a session with no transaction open, the copy has followed when the program is over.\<close>

lemma run_clients_follow:
  assumes "copied_entity se copy_table x g S C" "\<forall>n e. map_of (st_engines st) n = Some e \<longrightarrow> ok e" "map_of (st_engines st) (fst C) \<noteq> None"
    "\<not> st_in_write st" "st_scope st = None" "st_deferred st = []" "run_clients ops se cs st = (err, st')"
  shows "\<exists>new copied. place_rows rows st' S = place_rows rows st S @ new \<and> place_rows rows st' C = place_rows rows st C @ copied \<and> R copied new \<and>
    \<not> st_in_write st' \<and> st_scope st' = None \<and> st_deferred st' = []"
proof -
  have "session_ok ok (dom (map_of (st_engines st))) C st" using assms(2-6) by (auto simp: session_ok_def)
  from run_client_advanced(2) [OF assms(1) refl refl this assms(7)] show ?thesis
    unfolding advanced_def using assms(4-6) by auto
qed

end

section \<open>The in-memory engine\<close>

text \<open>
  The operations of \<open>MemoryEngine\<close> a session calls. Its equality of values, the days and instants it is
  told to hold and whether it takes batches are arguments of its constructor.
\<close>

definition memory_get :: "('v \<Rightarrow> 'v \<Rightarrow> bool) \<Rightarrow> 'v \<Rightarrow> 'v memory_engine \<Rightarrow> ustring \<Rightarrow> 'v row \<Rightarrow> 'v row option" where
  "memory_get same absent e t key = List.find (\<lambda>r. list_all (\<lambda>(c, v). same (row_get absent r c) v) key) (table_rows e t)"

definition memory_ops ::
  "(cell \<Rightarrow> cell \<Rightarrow> bool) \<Rightarrow> (cell memory_engine \<Rightarrow> temporal_span option) \<Rightarrow> bool \<Rightarrow> cell memory_engine engine_ops" where
  "memory_ops same range_of can_bulk_write =
     \<lparr>eo_insert = (\<lambda>e t r. apfst (map_option Fails) (mem_insert e t r)),
      eo_insert_many = (\<lambda>e t rs. apfst (map_option Fails) (mem_insert_many e t rs)),
      eo_bulk = (\<lambda>_. can_bulk_write),
      eo_get = (\<lambda>e t key. Inr (memory_get same CNone e t key)),
      eo_begin = (\<lambda>e. (None, e)),
      eo_commit = (\<lambda>start e. (None, e)),
      eo_rollback = mem_rollback,
      eo_temporal_range = range_of\<rparr>"

definition never_refuses :: "ustring set \<Rightarrow> 'v memory_engine \<Rightarrow> bool" where
  "never_refuses T e \<longleftrightarrow> (\<forall>t \<in> T. refuse_insert e t = None)"

lemma refuse_insert_rows: "refuse_insert e t = Some e' \<Longrightarrow> table_rows e' = table_rows e \<and> (never_refuses T e \<longrightarrow> t \<notin> T)"
  by (auto simp: refuse_insert_def never_refuses_def table_rows_def fun_eq_iff Let_def split: if_splits)

lemma never_refuses_kept:
  "refuse_insert e t = Some e' \<Longrightarrow> never_refuses T e \<Longrightarrow> never_refuses T e'"
  "never_refuses T (set_table t rs e) = never_refuses T e"
  "never_refuses T (mem_rollback start e) = never_refuses T e"
  by (auto simp: refuse_insert_def never_refuses_def set_table_def mem_rollback_def update_conv' Let_def split: if_splits)

lemma table_rows_written: "table_rows (set_table t (table_rows e t @ ys) e) = (table_rows e)(t := table_rows e t @ ys)"
  by (auto simp: table_rows_def set_table_def fun_eq_iff update_conv')

lemmas memory_rows = memory_ops_def mem_insert_def mem_insert_many_def mem_rollback_def apfst_def map_prod_def lands_def table_rows_written

interpretation followed: following_store "memory_ops same range_of can_bulk_write" table_rows subseq "\<lambda>_. True" "\<lambda>_. True"
  for same range_of can_bulk_write
proof (unfold_locales, goal_cases)
  case (4 e t r f e')
  then show ?case
    by (cases "refuse_insert e t") (auto simp: memory_rows dest!: refuse_insert_rows intro!: exI [of _ "[]"])
next
  case (5 e t rs f e')
  then show ?case
    by (cases "refuse_insert e t") (auto simp: memory_rows dest!: refuse_insert_rows intro!: exI [of _ "[]"])
qed (auto simp: memory_rows table_rows_def list_emb_append_mono intro: subseq_order.trans)

interpretation mirrored: following_store "memory_ops same range_of True" table_rows "(=)" "never_refuses T" "\<lambda>t. t \<in> T"
  for same range_of T
proof (unfold_locales, goal_cases)
  case (4 e t r f e')
  then show ?case
    using refuse_insert_rows [of e t _ T] never_refuses_kept(1) [of e t _ T]
    by (cases "refuse_insert e t") (auto simp: memory_rows never_refuses_kept intro!: exI [of _ "[]"])
next
  case (5 e t rs f e')
  then show ?case
    using refuse_insert_rows [of e t _ T] never_refuses_kept(1) [of e t _ T]
    by (cases "refuse_insert e t") (auto simp: memory_rows never_refuses_kept intro!: exI [of _ "[]"])
qed (auto simp: memory_rows table_rows_def never_refuses_kept never_refuses_kept [unfolded mem_rollback_def])

lemma copied_entity_any: "copied_entity se copy_table x g S C \<Longrightarrow> copied_entity se (\<lambda>_. True) x g S C"
  unfolding copied_entity_def by blast

text \<open>
  C1. Whatever an application does through a session over in-memory engines - rows, batches, nested
  transactions, errors it raises and errors it catches, inserts an engine refuses - the rows that have
  reached a copy when it is done are rows that have reached the source, in the same order: a row of a
  transaction that was rolled back never reaches the copy, and no row reaches it twice or ahead of
  another. When no copy table refuses an insert, the copy has received exactly the rows the source has.
  Nothing is left queued.
\<close>

theorem copies_follow_the_source:
  assumes "copied_entity se (\<lambda>t. t \<in> T) x g S C" "\<not> st_in_write st" "st_scope st = None" "st_deferred st = []"
    "map_of (st_engines st) (fst C) \<noteq> None" "run_clients (memory_ops same range_of True) se program st = (err, st')"
  shows "\<exists>new copied. place_rows table_rows st' S = place_rows table_rows st S @ new \<and>
    place_rows table_rows st' C = place_rows table_rows st C @ copied \<and> subseq copied new \<and>
    ((\<forall>(n, e) \<in> set (st_engines st). never_refuses T e) \<longrightarrow> copied = new) \<and>
    \<not> st_in_write st' \<and> st_scope st' = None \<and> st_deferred st' = []"
proof (cases "\<forall>(n, e) \<in> set (st_engines st). never_refuses T e")
  case True
  then have "\<forall>n e. map_of (st_engines st) n = Some e \<longrightarrow> never_refuses T e" by (auto dest!: map_of_SomeD)
  from mirrored.run_clients_follow [OF assms(1) this assms(5,2-4,6)] show ?thesis by auto
next
  case False
  from followed.run_clients_follow [OF copied_entity_any [OF assms(1)] _ assms(5,2-4,6)] show ?thesis using False by auto
qed

text \<open>A session with one entity, its source and one copy, and a program with a transaction that fails.\<close>

definition copy_layout :: "string \<Rightarrow> physical_layout" where
  "copy_layout t = \<lparr>tables = [(lit ''O'', lit t)], columns = [], indexes = [], partition_by = [], key_order = []\<rparr>"

definition copied_placement :: "physical_layout group_placement" where
  "copied_placement =
     \<lparr>gp_group = lit ''O'', gp_source = \<lparr>mat_id = lit ''s'', mat_engine = lit ''pg'', mat_layout = copy_layout ''o1'', mat_lag = None\<rparr>,
      gp_derived = [], gp_also_write = [\<lparr>mat_id = lit ''d'', mat_engine = lit ''ch'', mat_layout = copy_layout ''o2'', mat_lag = Some 30\<rparr>],
      gp_write_epoch = Some 7\<rparr>"

definition copied_session :: session where
  "copied_session =
     \<lparr>se_model = \<lparr>mentities = [], mrelations = [], matomic = [], mcost_ceiling = None, mir = PNone, mversion = []\<rparr>,
      se_placement = \<lparr>pm_contract = 4, pm_model_version = [], pm_map_version = 1, pm_groups = [(lit ''O'', copied_placement)], pm_routing = [],
        pm_signed = False, pm_verified_with = None, pm_project_id = None, pm_fingerprint = None\<rparr>,
      se_groups = [\<lparr>gname = lit ''O'', gmembers = [lit ''O'']\<rparr>],
      se_shapes = [\<lparr>sh_group = lit ''O'', sh_kind = WRITE, sh_entity = lit ''O'', sh_fields = [], sh_target = None, sh_id = []\<rparr>],
      se_admission = [(lit ''O'', \<lparr>ad_declared = [lit ''i''], ad_required = [lit ''i''], ad_checks = []\<rparr>)]\<rparr>"

definition empty_engine :: "cell memory_engine" where
  "empty_engine = \<lparr>me_tables = [], me_fail_inserts = [], me_watermarks = [], me_markers = [], me_bookkeeping = True, me_migratable = True\<rparr>"

definition idle_state :: "cell memory_engine session_state" where
  "idle_state = \<lparr>st_engines = [(lit ''pg'', empty_engine), (lit ''ch'', empty_engine)], st_in_write = False, st_deferred = [], st_scope = None\<rparr>"

definition copied_program :: "client list" where
  "copied_program =
     [Transaction [lit ''O''] [Save (lit ''O'') [(lit ''i'', CInt 1)]],
      Attempt [Transaction [lit ''O''] [Save (lit ''O'') [(lit ''i'', CInt 2)], Throw]],
      Save (lit ''O'') [(lit ''i'', CInt 3)]]"

abbreviation sample_ops :: "cell memory_engine engine_ops" where
  "sample_ops \<equiv> memory_ops (=) (\<lambda>_. None) True"

lemma copied_program_rows:
  "apsnd (\<lambda>st. place_rows table_rows st (lit ''pg'', lit ''o1'')) (run_clients sample_ops copied_session copied_program idle_state) =
   (None, map (\<lambda>i. [(lit ''i'', CInt i), (EPOCH_COLUMN, CInt 7)]) [1, 3])"
  by code_simp

lemma copied_session_copies: "copied_entity copied_session (\<lambda>t. t \<in> {lit ''o2''}) (lit ''O'') (lit ''O'') (lit ''pg'', lit ''o1'') (lit ''ch'', lit ''o2'')"
  by (auto simp: copied_entity_def copied_session_def placement_of_def copied_placement_def copy_place_def table_for_def copy_layout_def lit_def
    split: if_splits)

theorem copies_follow_the_source_witness:
  "\<exists>st'. run_clients sample_ops copied_session copied_program idle_state = (None, st') \<and>
     place_rows table_rows st' (lit ''pg'', lit ''o1'') = map (\<lambda>i. [(lit ''i'', CInt i), (EPOCH_COLUMN, CInt 7)]) [1, 3] \<and>
     place_rows table_rows st' (lit ''ch'', lit ''o2'') = map (\<lambda>i. [(lit ''i'', CInt i), (EPOCH_COLUMN, CInt 7)]) [1, 3]"
proof -
  obtain st' where run: "run_clients sample_ops copied_session copied_program idle_state = (None, st')"
    "place_rows table_rows st' (lit ''pg'', lit ''o1'') = map (\<lambda>i. [(lit ''i'', CInt i), (EPOCH_COLUMN, CInt 7)]) [1, 3]"
    using copied_program_rows by (cases "run_clients sample_ops copied_session copied_program idle_state") auto
  have idle: "\<not> st_in_write idle_state" "st_scope idle_state = None" "st_deferred idle_state = []" "map_of (st_engines idle_state) (fst (lit ''ch'', lit ''o2'')) \<noteq> None"
    "\<forall>(n, e) \<in> set (st_engines idle_state). never_refuses {lit ''o2''} e"
    "place_rows table_rows idle_state (lit ''pg'', lit ''o1'') = []" "place_rows table_rows idle_state (lit ''ch'', lit ''o2'') = []"
    by (auto simp: idle_state_def empty_engine_def never_refuses_def refuse_insert_def place_rows_def table_rows_def lit_def)
  from copies_follow_the_source [OF copied_session_copies idle(1-4) run(1)] idle(5-7) run show ?thesis by auto
qed

end
