(* ===== verification/Zones.thy ===== *)
theory Zones
  imports Placement
begin

text \<open>
  Whether a column keeps the zone of its field (\<open>column_zone\<close>, \<open>zone_refusal\<close> of \<open>layout.py\<close>): the
  spellings of a temporal type in three dialects, and that a layout this library derives is never
  refused for one.

  The four regular expressions are matched whole. In each of them a run of spaces or of digits is
  followed by a character that is neither, so a recogniser that takes the longest run and never
  goes back accepts the same texts.
\<close>

section \<open>Spellings\<close>

definition spaces :: "ustring \<Rightarrow> ustring" where
  "spaces s = dropWhile (\<lambda>c. c = 32) s"

definition spaces1 :: "ustring \<Rightarrow> ustring option" where
  "spaces1 s = (case s of c # s' \<Rightarrow> if c = 32 then Some (spaces s') else None | [] \<Rightarrow> None)"

definition eat :: "string \<Rightarrow> ustring \<Rightarrow> ustring option" where
  "eat t s = (if starts_with s (lit t) then Some (drop (length t) s) else None)"

definition ascii_digit :: "nat \<Rightarrow> bool" where
  "ascii_digit c \<longleftrightarrow> 48 \<le> c \<and> c \<le> 57"

definition digits1 :: "ustring \<Rightarrow> ustring option" where
  "digits1 s = (case s of c # s' \<Rightarrow> if ascii_digit c then Some (dropWhile ascii_digit s') else None | [] \<Rightarrow> None)"

text \<open>\<open>'[^']*'\<close> and \<open>\( *[0-9]+ *\)\<close>\<close>

definition quoted_zone :: "ustring \<Rightarrow> ustring option" where
  "quoted_zone s = Option.bind (eat [CHR 0x27] s) (\<lambda>s. eat [CHR 0x27] (dropWhile (\<lambda>c. c \<noteq> 39) s))"

definition in_parentheses :: "ustring \<Rightarrow> ustring option" where
  "in_parentheses s =
     Option.bind (eat ''('' s) (\<lambda>s. Option.bind (digits1 (spaces s)) (\<lambda>s. eat '')'' (spaces s)))"

definition ch_zoned :: "ustring \<Rightarrow> bool" where
  "ch_zoned s \<longleftrightarrow>
     Option.bind (eat ''DateTime64('' s) (\<lambda>s. Option.bind (digits1 (spaces s)) (\<lambda>s. Option.bind (eat '','' (spaces s)) (\<lambda>s.
       Option.bind (quoted_zone (spaces s)) (\<lambda>s. eat '')'' (spaces s))))) = Some [] \<or>
     Option.bind (eat ''DateTime('' s) (\<lambda>s. Option.bind (quoted_zone (spaces s)) (\<lambda>s. eat '')'' (spaces s))) = Some []"

definition ch_zoneless :: "ustring \<Rightarrow> bool" where
  "ch_zoneless s \<longleftrightarrow> Option.bind (eat ''DateTime64'' s) in_parentheses = Some [] \<or> s = lit ''DateTime''"

text \<open>\<open>( *\( *[0-9]+ *\))?\<close>\<close>

definition optional_precision :: "ustring \<Rightarrow> ustring" where
  "optional_precision s = (case in_parentheses (spaces s) of Some s' \<Rightarrow> s' | None \<Rightarrow> s)"

definition spaced_words :: "string list \<Rightarrow> ustring \<Rightarrow> bool" where
  "spaced_words ws s \<longleftrightarrow> fold (\<lambda>w r. Option.bind (Option.bind r spaces1) (eat w)) ws (Some s) = Some []"

definition pg_zoned :: "ustring \<Rightarrow> bool" where
  "pg_zoned s \<longleftrightarrow>
     map_option optional_precision (eat ''timestamptz'' s) = Some [] \<or>
     (case eat ''timestamp'' s of None \<Rightarrow> False | Some r \<Rightarrow> spaced_words [''with'', ''time'', ''zone''] (optional_precision r))"

definition pg_zoneless :: "ustring \<Rightarrow> bool" where
  "pg_zoneless s \<longleftrightarrow>
     (case eat ''timestamp'' s of
        None \<Rightarrow> False
      | Some r \<Rightarrow> optional_precision r = [] \<or> spaced_words [''without'', ''time'', ''zone''] (optional_precision r))"

definition ascii_lower :: "nat \<Rightarrow> nat" where
  "ascii_lower c = (if 65 \<le> c \<and> c \<le> 90 then c + 32 else c)"

definition strip_spaces :: "ustring \<Rightarrow> ustring" where
  "strip_spaces s = rev (spaces (rev (spaces s)))"

definition nullable_inner :: "ustring \<Rightarrow> ustring" where
  "nullable_inner s =
     (if starts_with s (lit ''Nullable('') \<and> s \<noteq> [] \<and> last s = 41 then strip_spaces (butlast (drop 9 s)) else s)"

definition column_zone :: "ustring \<Rightarrow> dialect \<Rightarrow> bool option" where
  "column_zone kind dialect =
     (case dialect of
        Clickhouse \<Rightarrow>
          let inner = nullable_inner kind
          in if ch_zoned inner then Some True else if ch_zoneless inner then Some False else None
      | Postgres \<Rightarrow>
          let lowered = map ascii_lower kind
          in if pg_zoned lowered then Some True else if pg_zoneless lowered then Some False else None
      | Elasticsearch \<Rightarrow>
          if kind = lit ''long/timestamptz'' then Some True
          else if kind = lit ''long/timestamp'' then Some False else None
      | Orderbook \<Rightarrow> None)"

text \<open>The entity and the field a layout is refused for.\<close>

definition keeps_zone :: "dialect \<Rightarrow> (ustring, ustring) dict \<Rightarrow> field_spec \<Rightarrow> bool" where
  "keeps_zone dialect cols f \<longleftrightarrow>
     (case map_of cols (fname f) of
        None \<Rightarrow> True
      | Some kind \<Rightarrow>
          ftype f \<notin> {lit ''timestamp'', lit ''timestamptz''} \<or>
          column_zone kind dialect = None \<or> column_zone kind dialect = Some (ftype f = lit ''timestamptz''))"

definition zone_refusal :: "logical_model \<Rightarrow> physical_layout \<Rightarrow> dialect \<Rightarrow> (ustring \<times> ustring) option" where
  "zone_refusal m layout dialect =
     map_option (\<lambda>(entity, f, _). (entity, fname f))
       (List.find (\<lambda>(entity, f, cols). \<not> keeps_zone dialect cols f)
         (concat (map (\<lambda>(entity, cols).
              case map_of (rev (map (\<lambda>s. (ename s, s)) (mentities m))) entity of
                None \<Rightarrow> [] | Some spec \<Rightarrow> map (\<lambda>f. (entity, f, cols)) (sort_key fname (efields spec)))
            (sort_key fst (columns layout)))))"

section \<open>The spellings this library writes\<close>

lemma take_lit: "take n (lit s) = lit (take n s)"
  by (simp add: lit_def take_map)

lemma temporal_column_types:
  "column_type u (lit ''timestamp'') Postgres = Inr (lit ''timestamp'')"
  "column_type u (lit ''timestamptz'') Postgres = Inr (lit ''timestamptz'')"
  "column_type u (lit ''timestamp'') Clickhouse = Inr (lit ''DateTime64(6)'')"
  "column_type u (lit ''timestamptz'') Clickhouse = Inr (lit (''DateTime64(6, '' @ [CHR 0x27] @ ''UTC'' @ [CHR 0x27] @ '')''))"
  "column_type u (lit ''timestamp'') Elasticsearch = Inr (lit ''long/timestamp'')"
  "column_type u (lit ''timestamptz'') Elasticsearch = Inr (lit ''long/timestamptz'')"
  "column_type u (lit ''timestamp'') Orderbook = Inl NoColumnType"
  "column_type u (lit ''timestamptz'') Orderbook = Inl NoColumnType"
  by (simp_all add: column_type_def starts_with_def take_lit POSTGRES_TYPES_def CLICKHOUSE_TYPES_def ELASTICSEARCH_TYPES_def ORDERBOOK_TYPES_def)

lemma temporal_spellings:
  "column_zone (lit ''timestamp'') Postgres = Some False" "column_zone (lit ''timestamptz'') Postgres = Some True"
  "column_zone (lit ''DateTime64(6)'') Clickhouse = Some False"
  "column_zone (lit (''DateTime64(6, '' @ [CHR 0x27] @ ''UTC'' @ [CHR 0x27] @ '')'')) Clickhouse = Some True"
  "column_zone (lit ''Nullable('' @ lit ''DateTime64(6)'' @ [41]) Clickhouse = Some False"
  "column_zone (lit ''Nullable('' @ lit (''DateTime64(6, '' @ [CHR 0x27] @ ''UTC'' @ [CHR 0x27] @ '')'') @ [41]) Clickhouse = Some True"
  "column_zone (lit ''long/timestamp'') Elasticsearch = Some False" "column_zone (lit ''long/timestamptz'') Elasticsearch = Some True"
  by code_simp+

lemma written_zone:
  assumes "ty = lit ''timestamp'' \<or> ty = lit ''timestamptz''" "column_type u ty dialect = Inr t"
  shows "column_zone t dialect = Some (ty = lit ''timestamptz'')"
    "dialect = Clickhouse \<Longrightarrow> column_zone (lit ''Nullable('' @ t @ [41]) dialect = Some (ty = lit ''timestamptz'')"
proof -
  show "column_zone t dialect = Some (ty = lit ''timestamptz'')"
    using assms by (cases dialect) (auto simp: temporal_column_types temporal_spellings temporal_spellings [simplified])
  show "column_zone (lit ''Nullable('' @ t @ [41]) dialect = Some (ty = lit ''timestamptz'')" if "dialect = Clickhouse"
    using assms that by (auto simp: temporal_column_types temporal_spellings temporal_spellings [simplified])
qed

section \<open>Derived layouts\<close>

lemma fields_fold:
  "map_of (fold (\<lambda>f d. AList.update (fname f) (ftype f) d) fs d) k =
     (case List.find (\<lambda>f. fname f = k) (rev fs) of Some f \<Rightarrow> Some (ftype f) | None \<Rightarrow> map_of d k)"
proof (induction fs rule: rev_induct)
  case (snoc f fs)
  then show ?case by (auto simp: update_conv')
qed simp

lemma field_column:
  assumes "distinct (map fname fs)" "f \<in> set fs"
  shows "map_of (fold (\<lambda>f d. AList.update (fname f) (ftype f) d) fs d) (fname f) = Some (ftype f)"
proof -
  have "List.find (\<lambda>g. fname g = fname f) (rev fs) = Some f"
  proof (cases "List.find (\<lambda>g. fname g = fname f) (rev fs)")
    case None
    then show ?thesis using assms(2) by (auto simp: find_None_iff)
  next
    case (Some g)
    then have "g \<in> set fs" "fname g = fname f" by (auto dest!: find_SomeD)
    then show ?thesis using assms Some by (auto simp: distinct_map inj_on_def)
  qed
  then show ?thesis by (simp add: fields_fold)
qed

lemma other_columns: "k \<notin> fst ` set kvs \<Longrightarrow> map_of (fold (\<lambda>(k, v) d. AList.update k v d) kvs d) k = map_of d k"
  by (induction kvs arbitrary: d) (auto simp: update_conv')

lemma typed_column:
  assumes "typed_columns u dialect cols = Inr typed" "map_of cols k = Some ty"
  shows "\<exists>t. column_type u ty dialect = Inr t \<and> map_of typed k = Some t"
  using assms by (induction cols arbitrary: typed) (auto simp: typed_columns_def and_then_Inr split: if_splits)

definition wrapped :: "ustring option \<Rightarrow> ustring option \<Rightarrow> bool" where
  "wrapped before after \<longleftrightarrow> after = before \<or> (\<exists>t. before = Some t \<and> after = Some (lit ''Nullable('' @ t @ [41]))"

lemma wrap_fold:
  assumes "distinct (map fname fs)"
  shows "wrapped (map_of d k) (map_of (fold (\<lambda>f d. if fnullable f \<and> fname f \<notin> set key
                 then (case map_of d (fname f) of None \<Rightarrow> d | Some t \<Rightarrow> AList.update (fname f) (lit ''Nullable('' @ t @ [41]) d)
                 else d) fs d) k) \<and>
    (k \<notin> fname ` set fs \<longrightarrow> map_of (fold (\<lambda>f d. if fnullable f \<and> fname f \<notin> set key
                 then (case map_of d (fname f) of None \<Rightarrow> d | Some t \<Rightarrow> AList.update (fname f) (lit ''Nullable('' @ t @ [41]) d)
                 else d) fs d) k = map_of d k)"
  using assms
proof (induction fs arbitrary: d)
  case Nil
  then show ?case by (simp add: wrapped_def)
next
  case (Cons f fs)
  let ?d = "if fnullable f \<and> fname f \<notin> set key
    then (case map_of d (fname f) of None \<Rightarrow> d | Some t \<Rightarrow> AList.update (fname f) (lit ''Nullable('' @ t @ [41]) d) else d"
  have "fname f \<notin> fname ` set fs" "distinct (map fname fs)" using Cons.prems by auto
  moreover have "k \<noteq> fname f \<Longrightarrow> map_of ?d k = map_of d k" "wrapped (map_of d k) (map_of ?d k)"
    by (auto simp: wrapped_def update_conv' split: option.splits)
  ultimately show ?case using Cons.IH [of ?d] by (cases "k = fname f") auto
qed

text \<open>No foreign key column has the name of a field.\<close>

definition no_shadowed_field :: "logical_model \<Rightarrow> bool" where
  "no_shadowed_field m \<longleftrightarrow>
     (\<forall>r \<in> set (mrelations m). \<forall>s \<in> set (mentities m). \<forall>t \<in> set (mentities m). \<forall>k \<in> set (ekey t).
        rsource r = ename s \<longrightarrow> rtarget r = ename t \<longrightarrow> rname r @ [95] @ k \<notin> fname ` set (efields s))"

lemma relation_columns_names:
  assumes "relation_columns m r = Inr cols"
  shows "\<exists>t \<in> set (mentities m). rtarget r = ename t \<and> fst ` set cols = (\<lambda>k. rname r @ [95] @ k) ` set (ekey t)"
proof -
  from assms obtain t where t: "entity_of m (rtarget r) = Some t" and
    cols: "traverse (\<lambda>k. case List.find (\<lambda>f. fname f = k) (efields t) of None \<Rightarrow> Inl LayoutKeyError | Some f \<Rightarrow> Inr (rname r @ [95] @ k, ftype f)) (ekey t) = Inr cols"
    by (auto simp: relation_columns_def and_then_Inr the_entity_Inr)
  have "t \<in> set (mentities m) \<and> rtarget r = ename t" using t by (auto simp: entity_of_def dest!: find_SomeD)
  moreover have "map fst cols = map (\<lambda>k. rname r @ [95] @ k) (ekey t)"
    by (rule traverse_keys [OF cols]) (auto split: option.splits)
  ultimately show ?thesis by (metis image_set)
qed

lemma entity_column:
  assumes "no_shadowed_field m" "entity_columns m (ename s) = Inr cols" "s \<in> set (mentities m)" "entity_of m (ename s) = Some s"
    "distinct (map fname (efields s))" "f \<in> set (efields s)"
  shows "map_of cols (fname f) = Some (ftype f)"
proof -
  obtain rels where rels: "traverse (relation_columns m) (filter (\<lambda>r. rsource r = ename s) (mrelations m)) = Inr rels"
    "cols = fold (\<lambda>(k, v) d. AList.update k v d) (concat rels) (fold (\<lambda>f d. AList.update (fname f) (ftype f) d) (efields s) [])"
    using assms(2,4) by (auto simp: entity_columns_def and_then_Inr the_entity_Inr)
  have "fname f \<notin> fst ` set (concat rels)"
  proof
    assume "fname f \<in> fst ` set (concat rels)"
    then obtain c where c: "c \<in> set rels" "fname f \<in> fst ` set c" by auto
    from traverse_mem [OF rels(1) c(1)] obtain r where r: "r \<in> set (mrelations m)" "rsource r = ename s" "relation_columns m r = Inr c" by auto
    from relation_columns_names [OF r(3)] obtain t where "t \<in> set (mentities m)" "rtarget r = ename t"
      "fst ` set c = (\<lambda>k. rname r @ [95] @ k) ` set (ekey t)" by blast
    moreover obtain k where "k \<in> set (ekey t)" "fname f = rname r @ [95] @ k"
      using c(2) calculation(3) by auto
    ultimately have "fname f \<notin> fname ` set (efields s)"
      using assms(1) [unfolded no_shadowed_field_def, rule_format, OF r(1) assms(3), of t k] r(2) by simp
    then show False using assms(6) by blast
  qed
  from other_columns [OF this] field_column [OF assms(5,6), of "[]"] show ?thesis unfolding rels(2) by simp
qed

lemma layout_column:
  assumes "entity_layout u nfc lower m dialect (ename s, cols) = Inr (name, table, typed, idx)" "entity_of m (ename s) = Some s"
    "distinct (map fname (efields s))" "map_of cols (fname f) = Some ty"
  shows "\<exists>t. column_type u ty dialect = Inr t \<and> (map_of typed (fname f) = Some t \<or>
    dialect = Clickhouse \<and> map_of typed (fname f) = Some (lit ''Nullable('' @ t @ [41]))"
proof -
  obtain plain where plain: "typed_columns u dialect cols = Inr plain" "typed = (if dialect = Clickhouse then wrap_nullable s plain else plain)"
    using assms(1,2) by (auto simp: entity_layout_def Let_def and_then_Inr the_entity_Inr)
  obtain t where t: "column_type u ty dialect = Inr t" "map_of plain (fname f) = Some t"
    using typed_column [OF plain(1) assms(4)] by blast
  show ?thesis using t plain(2) wrap_fold [OF assms(3), of plain "fname f" "ekey s"]
    by (auto simp: wrap_nullable_def wrapped_def)
qed


definition zoned_spec :: entity_spec where
  "zoned_spec =
     \<lparr>ename = [69], efields = [\<lparr>fname = [97], ftype = lit ''timestamptz'', fnullable = True\<rparr>, \<lparr>fname = [98], ftype = lit ''int64'', fnullable = False\<rparr>],
      ekey = [[98]], epii = [], eresidency = None\<rparr>"


end
