(* ===== verification/Doubles.thy ===== *)
theory Doubles
  imports Cells
begin

text \<open>
  Binary64 numbers as the rationals they are. \<open>to_double\<close> is what an operation that IEEE 754 rounds
  correctly (a product, a quotient, and Python's division of two integers) gives for an exact
  nonnegative result: the nearest number with a significand of 53 bits, halves to even, down to the
  subnormal numbers. An overflow is outside the model: every result here is bounded by its operands.
\<close>

definition two_to :: "int \<Rightarrow> rat" where
  "two_to e = (if 0 \<le> e then 2 ^ nat e else 1 / 2 ^ nat (- e))"

text \<open>The exponent of the power of two at or below a positive rational.\<close>

definition floor_log2 :: "rat \<Rightarrow> int" where
  "floor_log2 r =
     (case quotient_of r of (n, d) \<Rightarrow>
        let k = int (bit_length (nat n)) - int (bit_length (nat d))
        in if r < two_to k then k - 1 else k)"

definition to_double :: "rat \<Rightarrow> rat" where
  "to_double r =
     (if r \<le> 0 then 0
      else let q = max (floor_log2 r - 52) (- 1074) in of_int (round_half_even (r / two_to q)) * two_to q)"

lemma two_to_pos [simp]: "0 < two_to e" "two_to e \<noteq> 0" "\<bar>two_to e\<bar> = two_to e"
  by (simp_all add: two_to_def)

lemma two_to_add: "two_to (a + b) = two_to a * two_to b"
proof -
  have eq: "two_to e = 2 powi e" for e
    unfolding two_to_def power_int_def by (simp add: inverse_eq_divide power_one_over)
  show ?thesis by (simp add: eq power_int_add)
qed

lemma two_to_simps [simp]: "two_to 0 = 1" "two_to 1 = 2" "two_to (int n) = 2 ^ n"
  by (simp_all add: two_to_def)

lemma two_to_mono: "a \<le> b \<Longrightarrow> two_to a \<le> two_to b"
proof -
  assume "a \<le> b"
  then have "two_to b = two_to a * 2 ^ nat (b - a)" using two_to_add [of a "b - a"] by (simp add: two_to_def)
  moreover have "(1::rat) \<le> 2 ^ nat (b - a)" by simp
  ultimately show ?thesis by (simp add: less_imp_le)
qed

lemma bit_length_bounds:
  assumes "0 < n"
  shows "2 ^ (bit_length n - 1) \<le> n" "n < 2 ^ bit_length n" "0 < bit_length n"
proof -
  have "2 ^ (bit_length n - 1) \<le> n \<and> n < 2 ^ bit_length n \<and> 0 < bit_length n"
    using assms
  proof (induction n rule: less_induct)
    case (less n)
    show ?case
    proof (cases "n = 1")
      case True
      then show ?thesis by (simp add: bit_length.simps [of "Suc 0"] bit_length.simps [of 0])
    next
      case False
      then have "0 < n div 2" "n div 2 < n" using less.prems by auto
      note half = less.IH [OF this(2,1)]
      have step: "bit_length n = Suc (bit_length (n div 2))" using less.prems by (simp add: bit_length.simps [of n])
      obtain k where k: "bit_length (n div 2) = Suc k" using half by (cases "bit_length (n div 2)") auto
      show ?thesis using half unfolding step k by simp linarith
    qed
  qed
  then show "2 ^ (bit_length n - 1) \<le> n" "n < 2 ^ bit_length n" "0 < bit_length n" by auto
qed

lemma floor_log2_bounds:
  assumes "0 < r"
  shows "two_to (floor_log2 r) \<le> r" "r < two_to (floor_log2 r + 1)"
proof -
  obtain n d where q: "quotient_of r = (n, d)" by (cases "quotient_of r")
  have d: "0 < d" and r: "r = of_int n / of_int d" using quotient_of_denom_pos [OF q] quotient_of_div [OF q] by auto
  then have n: "0 < n" using assms by (auto simp: zero_less_divide_iff)
  let ?a = "bit_length (nat n)" and ?b = "bit_length (nat d)"
  have a: "2 ^ (?a - 1) \<le> nat n" "nat n < 2 ^ ?a" "0 < ?a" and b: "2 ^ (?b - 1) \<le> nat d" "nat d < 2 ^ ?b" "0 < ?b"
    using bit_length_bounds [of "nat n"] bit_length_bounds [of "nat d"] n d by auto
  have as_int: "(of_nat (nat n) :: rat) = of_int n" "(of_nat (nat d) :: rat) = of_int d" using n d by simp_all
  have ra: "2 ^ (?a - 1) \<le> (of_int n :: rat)" "(of_int n :: rat) < 2 ^ ?a"
    using a(1,2) as_int(1) by (metis of_nat_le_iff of_nat_numeral of_nat_power, metis of_nat_less_iff of_nat_numeral of_nat_power)
  have rb: "2 ^ (?b - 1) \<le> (of_int d :: rat)" "(of_int d :: rat) < 2 ^ ?b"
    using b(1,2) as_int(2) by (metis of_nat_le_iff of_nat_numeral of_nat_power, metis of_nat_less_iff of_nat_numeral of_nat_power)
  have k: "two_to (int ?a - int ?b) * 2 ^ ?b = 2 ^ ?a"
    using two_to_add [of "int ?a - int ?b" "int ?b"] by simp
  have k1: "two_to (int ?a - int ?b - 1) * 2 ^ ?b = 2 ^ (?a - 1)"
    using two_to_add [of "int ?a - int ?b - 1" "int ?b"] a(3) by (simp add: of_nat_diff flip: two_to_simps(3))
  have up: "two_to (int ?a - int ?b + 1) * 2 ^ (?b - 1) = 2 ^ ?a"
    using two_to_add [of "int ?a - int ?b + 1" "int (?b - 1)"] b(3) by (simp add: of_nat_diff flip: two_to_simps(3))
  have low: "two_to (int ?a - int ?b - 1) \<le> r"
  proof -
    have "two_to (int ?a - int ?b - 1) * of_int d \<le> two_to (int ?a - int ?b - 1) * 2 ^ ?b"
      using rb(2) by (intro mult_left_mono) (auto simp: less_imp_le)
    also have "\<dots> \<le> of_int n" using k1 ra(1) by simp
    finally show ?thesis using d r by (simp add: le_divide_eq)
  qed
  have high: "r < two_to (int ?a - int ?b + 1)"
  proof -
    have "of_int n < two_to (int ?a - int ?b + 1) * 2 ^ (?b - 1)" using up ra(2) by simp
    also have "\<dots> \<le> two_to (int ?a - int ?b + 1) * of_int d" using rb(1) by (intro mult_left_mono) (auto simp: less_imp_le)
    finally show ?thesis using d r by (simp add: divide_less_eq)
  qed
  show "two_to (floor_log2 r) \<le> r" "r < two_to (floor_log2 r + 1)"
    using low high by (auto simp: floor_log2_def q Let_def)
qed

lemma round_half_even_near: "\<bar>of_int (round_half_even r) - r\<bar> \<le> 1 / 2"
  unfolding round_half_even_def Let_def by (auto simp: abs_if; linarith)

lemma round_half_even_int_le: "r \<le> of_int k \<Longrightarrow> round_half_even r \<le> k"
  unfolding round_half_even_def Let_def by (auto; linarith)

lemma round_half_even_int_ge: "of_int k \<le> r \<Longrightarrow> k \<le> round_half_even r"
  unfolding round_half_even_def Let_def by (auto; linarith)

section \<open>Bounds\<close>

lemma to_double_scaled:
  assumes "0 < x" "q = max (floor_log2 x - 52) (- 1074)"
  shows "to_double x = of_int (round_half_even (x / two_to q)) * two_to q"
  using assms by (simp add: to_double_def Let_def)

lemma small_exponent:
  assumes "0 < x" "x < 2 ^ 53"
  shows "max (floor_log2 x - 52) (- 1074) \<le> 0"
proof -
  have "floor_log2 x < 53"
  proof (rule ccontr)
    assume "\<not> floor_log2 x < 53"
    then have "two_to 53 \<le> x" using two_to_mono [of 53 "floor_log2 x"] floor_log2_bounds(1) [OF assms(1)] by linarith
    then show False using assms(2) by (simp add: two_to_def)
  qed
  then show ?thesis by simp
qed

lemma integral_scale:
  assumes "q \<le> 0"
  shows "of_int k / two_to q = of_int (k * 2 ^ nat (- q))"
  using assms by (simp add: two_to_def)

text \<open>An integer of at most 53 bits stays an upper and a lower bound.\<close>

lemma to_double_le:
  assumes "x \<le> of_int k" "0 \<le> k" "k < 2 ^ 53"
  shows "to_double x \<le> of_int k"
proof (cases "0 < x")
  case True
  define q where "q = max (floor_log2 x - 52) (- 1074)"
  have "(of_int k :: rat) < of_int (2 ^ 53)" using assms(3) by (simp only: of_int_less_iff)
  then have "x < 2 ^ 53" using assms(1) by simp
  then have q: "q \<le> 0" unfolding q_def by (rule small_exponent [OF True])
  have "x / two_to q \<le> of_int k / two_to q" using assms(1) by (simp add: divide_right_mono less_imp_le)
  then have "round_half_even (x / two_to q) \<le> k * 2 ^ nat (- q)"
    unfolding integral_scale [OF q] by (rule round_half_even_int_le)
  then have "of_int (round_half_even (x / two_to q)) \<le> of_int k / two_to q"
    unfolding integral_scale [OF q] by (simp only: of_int_le_iff)
  then show ?thesis unfolding to_double_scaled [OF True q_def] by (simp add: pos_le_divide_eq)
next
  case False
  then show ?thesis using assms(2) by (simp add: to_double_def)
qed

lemma to_double_nonneg: "0 \<le> to_double x"
proof (cases "0 < x")
  case True
  define q where "q = max (floor_log2 x - 52) (- 1074)"
  have "0 \<le> round_half_even (x / two_to q)" using True by (intro round_half_even_int_ge) (simp add: less_imp_le)
  then show ?thesis unfolding to_double_scaled [OF True q_def] by (simp add: less_imp_le)
qed (simp add: to_double_def)

text \<open>The relative error of a normal result.\<close>

lemma to_double_error:
  assumes "1 / 2 ^ 1000 \<le> x"
  shows "\<bar>to_double x - x\<bar> \<le> x / 2 ^ 53"
proof -
  have x: "0 < x" using assms by (auto intro: less_le_trans [OF _ assms])
  define q where "q = max (floor_log2 x - 52) (- 1074)"
  have "- 1001 < floor_log2 x"
  proof (rule ccontr)
    assume "\<not> - 1001 < floor_log2 x"
    then have "two_to (floor_log2 x + 1) \<le> two_to (- 1000)" by (intro two_to_mono) simp
    then show False using floor_log2_bounds(2) [OF x] assms by (simp add: two_to_def)
  qed
  then have q: "q = floor_log2 x - 52" by (simp add: q_def)
  have half: "\<bar>of_int (round_half_even (x / two_to q)) - x / two_to q\<bar> \<le> 1 / 2" by (rule round_half_even_near)
  have "to_double x - x = (of_int (round_half_even (x / two_to q)) - x / two_to q) * two_to q"
    unfolding to_double_scaled [OF x q_def] using two_to_pos(1) [of q] by (simp add: left_diff_distrib)
  then have "\<bar>to_double x - x\<bar> = \<bar>of_int (round_half_even (x / two_to q)) - x / two_to q\<bar> * two_to q"
    by (simp add: abs_mult)
  also have "\<dots> \<le> 1 / 2 * two_to q" by (rule mult_right_mono [OF half]) (simp add: less_imp_le)
  also have "\<dots> \<le> x / 2 ^ 53"
  proof -
    have "two_to q * 2 ^ 52 = two_to (floor_log2 x)" using two_to_add [of q 52] q by (simp add: two_to_def)
    then show ?thesis using floor_log2_bounds(1) [OF x] by (simp add: field_simps)
  qed
  finally show ?thesis .
qed

text \<open>
  \<open>math.ceil(fraction * n)\<close> in doubles is the ceiling of the exact product, for a fraction with a
  denominator of at most a hundred and counts below \<open>2 ^ 45\<close>.
\<close>

lemma ceiling_product:
  assumes "0 \<le> c" "c \<le> d" "1 \<le> d" "d \<le> 100" "f \<le> of_int c / of_int d" "of_int c / of_int d - f \<le> 1 / 10 ^ 17" "n < 2 ^ 45"
  shows "\<lceil>to_double (f * of_nat n)\<rceil> = \<lceil>of_int c / of_int d * (of_nat n :: rat)\<rceil>"
proof -
  let ?y = "of_int c / of_int d * (of_nat n :: rat)" and ?x = "f * of_nat n" and ?k = "\<lceil>of_int c / of_int d * (of_nat n :: rat)\<rceil>"
  have n: "(of_nat n :: rat) \<le> 2 ^ 45" using assms(7) by (metis less_imp_le of_nat_le_iff of_nat_numeral of_nat_power)
  have frac: "0 \<le> (of_int c / of_int d :: rat)" "(of_int c / of_int d :: rat) \<le> 1" using assms(1-3) by auto
  have y: "0 \<le> ?y" "?y \<le> of_nat n" using mult_nonneg_nonneg [OF frac(1), of "of_nat n"] mult_right_mono [OF frac(2), of "of_nat n"] by simp_all
  have xy: "?x \<le> ?y" using assms(5) by (intro mult_right_mono) auto
  have "?y - ?x = (of_int c / of_int d - f) * of_nat n" by (simp add: left_diff_distrib)
  also have "\<dots> \<le> 1 / 10 ^ 17 * 2 ^ 45" using assms(5,6) n by (intro mult_mono) auto
  finally have close: "?y - ?x \<le> 1 / 1000" by simp
  have k: "0 \<le> ?k" "?k < 2 ^ 53"
  proof -
    show "0 \<le> ?k" using y(1) by (simp add: le_ceiling_iff)
    have "?k \<le> int n" using y(2) by (simp add: ceiling_le_iff)
    moreover have "int n < int (2 ^ 45)" using assms(7) by (simp only: of_nat_less_iff)
    moreover have "int (2 ^ 45) < (2 ^ 53 :: int)" by simp
    ultimately show "?k < 2 ^ 53" by (meson le_less_trans less_trans)
  qed
  have upper: "to_double ?x \<le> of_int ?k" by (rule to_double_le [OF _ k]) (use xy in linarith)
  show ?thesis
  proof (cases "?y = 0")
    case True
    then have "?x \<le> 0" using xy by linarith
    then have "to_double ?x = 0" by (simp add: to_double_def)
    then show ?thesis unfolding True by simp
  next
    case False
    then have pos: "0 < ?y" using y(1) by linarith
    have multiple: "of_int (?k - 1) + 1 / 100 \<le> ?y"
    proof -
      have "of_int (?k - 1) < ?y" by linarith
      then have "of_int ((?k - 1) * d) < (of_int (c * int n) :: rat)" using assms(3) by (simp add: field_simps)
      then have "(?k - 1) * d + 1 \<le> c * int n" by linarith
      then have "(of_int ((?k - 1) * d + 1) :: rat) \<le> of_int (c * int n)" by (simp only: of_int_le_iff)
      then have "of_int ((?k - 1) * d + 1) / of_int d \<le> (of_int (c * int n) / of_int d :: rat)"
        using assms(3) by (intro divide_right_mono) auto
      then have "of_int (?k - 1) + 1 / of_int d \<le> ?y" using assms(3) by (simp add: add_divide_distrib)
      moreover have "(1 / 100 :: rat) \<le> 1 / of_int d" using assms(3,4) by (intro divide_left_mono) auto
      ultimately show ?thesis by linarith
    qed
    moreover have "0 \<le> ?k - 1" using pos by (simp add: le_ceiling_iff)
    then have "(0::rat) \<le> of_int (?k - 1)" by (simp only: of_int_0_le_iff)
    ultimately have x: "1 / 200 \<le> ?x" using close by linarith
    have "(1 / 2 ^ 1000 :: rat) \<le> 1 / 200" by (intro divide_left_mono) auto
    then have "\<bar>to_double ?x - ?x\<bar> \<le> ?x / 2 ^ 53" using x by (intro to_double_error) linarith
    moreover have "?x / 2 ^ 53 \<le> 2 ^ 45 / 2 ^ 53" using xy y(2) n by (intro divide_right_mono) auto
    moreover have "(2 ^ 45 / 2 ^ 53 :: rat) \<le> 1 / 200" by simp
    ultimately have "?x - 1 / 200 \<le> to_double ?x" by linarith
    then have "of_int (?k - 1) < to_double ?x" using multiple close by linarith
    then show ?thesis using upper by (intro ceiling_unique) auto
  qed
qed

text \<open>The two fractions the telemetry asks for, as the doubles Python reads them.\<close>

definition P50 :: rat where
  "P50 = to_double (1 / 2)"

definition P99 :: rat where
  "P99 = to_double (99 / 100)"

lemma P50_eq: "P50 = 1 / 2"
  unfolding P50_def by code_simp

lemma P99_eq: "P99 = 8917127262193582 / 9007199254740992"
  unfolding P99_def by code_simp

lemma ceiling_P50: "n < 2 ^ 45 \<Longrightarrow> \<lceil>to_double (P50 * of_nat n)\<rceil> = \<lceil>of_nat n / (2 :: rat)\<rceil>"
  using ceiling_product [of 1 2 P50 n] by (simp add: P50_eq)

lemma ceiling_P99: "n < 2 ^ 45 \<Longrightarrow> \<lceil>to_double (P99 * of_nat n)\<rceil> = \<lceil>99 / 100 * (of_nat n :: rat)\<rceil>"
  using ceiling_product [of 99 100 P99 n] by (simp add: P99_eq)

end
