(* ===== verification/Histogram.thy ===== *)
theory Histogram
  imports Doubles
begin

text \<open>
  The latency histogram of \<open>telemetry.py\<close>: buckets that double in width, filled with integer
  arithmetic, merged by adding, and read with a nearest-rank rule whose product is a double. The
  theorem says which sample a percentile stands for and how far above it the reported edge can be.
  A count below \<open>2 ^ 53\<close> is exact as a double, so the product has one rounding.
\<close>

section \<open>The histogram\<close>

definition BUCKET_COUNT :: nat where
  "BUCKET_COUNT = 25"

definition BUCKET_BASE_NS :: nat where
  "BUCKET_BASE_NS = 1000"

record histogram =
  h_buckets :: "nat list"
  h_count :: nat
  h_total :: int

definition new_histogram :: histogram where
  "new_histogram = \<lparr>h_buckets = replicate BUCKET_COUNT 0, h_count = 0, h_total = 0\<rparr>"

definition bucket_index :: "int \<Rightarrow> nat" where
  "bucket_index nanoseconds =
     (if nanoseconds < int BUCKET_BASE_NS then 0
      else min (BUCKET_COUNT - 1) (bit_length (nat (nanoseconds div int BUCKET_BASE_NS))))"

definition hist_record :: "int \<Rightarrow> histogram \<Rightarrow> histogram" where
  "hist_record nanoseconds h =
     (let i = bucket_index nanoseconds
      in \<lparr>h_buckets = (h_buckets h)[i := h_buckets h ! i + 1], h_count = h_count h + 1, h_total = h_total h + nanoseconds\<rparr>)"

text \<open>The upper edge of a bucket, in nanoseconds and as the milliseconds that are reported.\<close>

definition edge_ns :: "nat \<Rightarrow> nat" where
  "edge_ns i = BUCKET_BASE_NS * 2 ^ i"

definition edge_ms :: "nat \<Rightarrow> rat" where
  "edge_ms i = to_double (of_nat (edge_ns i) / 1000000)"

fun first_reaching :: "rat \<Rightarrow> nat \<Rightarrow> nat \<Rightarrow> nat list \<Rightarrow> rat option" where
  "first_reaching goal seen i [] = None"
| "first_reaching goal seen i (hits # rest) =
     (if goal \<le> of_nat (seen + hits) then Some (edge_ms i) else first_reaching goal (seen + hits) (Suc i) rest)"

definition percentile_ms :: "rat \<Rightarrow> histogram \<Rightarrow> rat option" where
  "percentile_ms fraction h =
     (if h_count h = 0 then None else first_reaching (to_double (fraction * of_nat (h_count h))) 0 0 (h_buckets h))"

definition hist_merge :: "histogram \<Rightarrow> histogram \<Rightarrow> histogram" where
  "hist_merge h other =
     \<lparr>h_buckets = map2 (+) (h_buckets h) (h_buckets other), h_count = h_count h + h_count other, h_total = h_total h + h_total other\<rparr>"

section \<open>A histogram is its samples\<close>

definition of_samples :: "int list \<Rightarrow> histogram" where
  "of_samples xs = fold hist_record xs new_histogram"

definition bucket_counts :: "int list \<Rightarrow> nat list" where
  "bucket_counts xs = map (\<lambda>i. length (filter (\<lambda>x. bucket_index x = i) xs)) [0..<BUCKET_COUNT]"

lemma bucket_index_less: "bucket_index x < BUCKET_COUNT"
  by (simp add: bucket_index_def BUCKET_COUNT_def min_def)

lemma of_samples_snoc: "of_samples (xs @ [x]) = hist_record x (of_samples xs)"
  by (simp add: of_samples_def)

lemma of_samples_eq: "of_samples xs = \<lparr>h_buckets = bucket_counts xs, h_count = length xs, h_total = sum_list xs\<rparr>"
proof (induction xs rule: rev_induct)
  case Nil
  then show ?case by (simp add: of_samples_def new_histogram_def bucket_counts_def map_replicate_const)
next
  case (snoc x xs)
  have "(bucket_counts xs)[bucket_index x := bucket_counts xs ! bucket_index x + 1] = bucket_counts (xs @ [x])"
    using bucket_index_less [of x] by (intro nth_equalityI) (auto simp: bucket_counts_def nth_list_update)
  then show ?case by (simp add: of_samples_snoc snoc.IH hist_record_def Let_def)
qed

lemma hist_merge_samples: "hist_merge (of_samples xs) (of_samples ys) = of_samples (xs @ ys)"
proof -
  have "map2 (+) (bucket_counts xs) (bucket_counts ys) = bucket_counts (xs @ ys)"
    by (intro nth_equalityI) (auto simp: bucket_counts_def)
  then show ?thesis by (simp add: of_samples_eq hist_merge_def)
qed

lemma hist_merge_all: "fold (\<lambda>h' h. hist_merge h h') (map of_samples xss) (of_samples ys) = of_samples (ys @ concat xss)"
  by (induction xss arbitrary: ys) (simp_all add: hist_merge_samples)

section \<open>Percentiles\<close>

lemma bit_length_mono: "a \<le> b \<Longrightarrow> bit_length a \<le> bit_length b"
proof (induction a arbitrary: b rule: less_induct)
  case (less a)
  show ?case
  proof (cases "a = 0")
    case True
    then show ?thesis by (simp add: bit_length.simps [of 0])
  next
    case False
    then have "bit_length (a div 2) \<le> bit_length (b div 2)" using less.prems by (intro less.IH) auto
    then show ?thesis using False less.prems by (simp add: bit_length.simps [of a] bit_length.simps [of b])
  qed
qed

lemma bucket_index_mono: "x \<le> y \<Longrightarrow> bucket_index x \<le> bucket_index y"
proof -
  assume "x \<le> y"
  then have "nat (x div int BUCKET_BASE_NS) \<le> nat (y div int BUCKET_BASE_NS)"
    by (intro nat_mono zdiv_mono1) (simp_all add: BUCKET_BASE_NS_def)
  from bit_length_mono [OF this] \<open>x \<le> y\<close> show ?thesis by (auto simp: bucket_index_def)
qed

lemma counts_up_to:
  "n \<le> BUCKET_COUNT \<Longrightarrow> sum_list (take n (bucket_counts xs)) = length (filter (\<lambda>x. bucket_index x < n) xs)"
proof (induction n)
  case (Suc n)
  have "length (filter (\<lambda>x. bucket_index x < Suc n) xs) =
      length (filter (\<lambda>x. bucket_index x < n) xs) + length (filter (\<lambda>x. bucket_index x = n) xs)"
    by (induction xs) auto
  moreover have "take (Suc n) (bucket_counts xs) = take n (bucket_counts xs) @ [bucket_counts xs ! n]"
    using Suc.prems by (intro take_Suc_conv_app_nth) (simp add: bucket_counts_def)
  ultimately show ?case using Suc by (simp add: bucket_counts_def)
qed simp

lemma first_reaching_at:
  assumes "j < length bs" "goal \<le> of_nat (seen + sum_list (take (Suc j) bs))" "\<forall>k < j. of_nat (seen + sum_list (take (Suc k) bs)) < goal"
  shows "first_reaching goal seen i bs = Some (edge_ms (i + j))"
  using assms
proof (induction bs arbitrary: seen i j)
  case (Cons hits rest)
  show ?case
  proof (cases j)
    case 0
    then show ?thesis using Cons.prems by simp
  next
    case (Suc j')
    then have "of_nat (seen + hits) < goal" using Cons.prems(3) by fastforce
    moreover have "\<forall>k < j'. of_nat (seen + hits + sum_list (take (Suc k) rest)) < goal"
      using Cons.prems(3) Suc by (fastforce simp: add.assoc)
    ultimately show ?thesis using Cons.IH [of j' "seen + hits" "Suc i"] Cons.prems(1,2) Suc by (simp add: add.assoc)
  qed
qed simp

text \<open>How many of a sorted list lie in a downward closed set.\<close>

lemma sorted_filter_rank:
  fixes ys :: "'a::linorder list"
  assumes "sorted ys" "k < length ys" "\<And>x y. x \<le> y \<Longrightarrow> P y \<Longrightarrow> P x"
  shows "k < length (filter P ys) \<longleftrightarrow> P (ys ! k)"
proof
  assume holds: "P (ys ! k)"
  have "\<forall>x \<in> set (take (Suc k) ys). P x"
  proof
    fix x assume "x \<in> set (take (Suc k) ys)"
    then obtain i where "x = ys ! i" "i \<le> k" by (auto simp: in_set_conv_nth less_Suc_eq_le)
    then show "P x" using assms(3) [OF sorted_nth_mono [OF assms(1) _ assms(2), of i] holds] by simp
  qed
  then have "filter P (take (Suc k) ys) = take (Suc k) ys" by (rule filter_True)
  then have "length (filter P (take (Suc k) ys)) = Suc k" using assms(2) by simp
  moreover have "filter P ys = filter P (take (Suc k) ys) @ filter P (drop (Suc k) ys)"
    by (metis append_take_drop_id filter_append)
  ultimately show "k < length (filter P ys)" by simp
next
  assume more: "k < length (filter P ys)"
  show "P (ys ! k)"
  proof (rule ccontr)
    assume not: "\<not> P (ys ! k)"
    have "\<forall>x \<in> set (drop k ys). \<not> P x"
    proof
      fix x assume "x \<in> set (drop k ys)"
      then obtain i where "x = ys ! (k + i)" "k + i < length ys" by (auto simp: in_set_conv_nth)
      then show "\<not> P x" using assms(1,3) not sorted_nth_mono [of ys k "k + i"] by auto
    qed
    then have "filter P ys = filter P (take k ys)"
      by (metis append_Nil2 append_take_drop_id filter_append filter_False)
    then have "length (filter P ys) \<le> k" using length_filter_le [of P "take k ys"] by simp
    then show False using more by simp
  qed
qed

lemma percentile_at_rank:
  assumes "0 < r" "r \<le> length xs" "\<lceil>to_double (f * of_nat (length xs))\<rceil> = int r"
  shows "percentile_ms f (of_samples xs) = Some (edge_ms (bucket_index (sort xs ! (r - 1))))"
proof -
  let ?goal = "to_double (f * of_nat (length xs))" and ?j = "bucket_index (sort xs ! (r - 1))"
  have goal: "?goal \<le> of_nat n \<longleftrightarrow> r \<le> n" for n
    using assms(3) by (metis ceiling_le_iff of_int_of_nat_eq of_nat_le_iff)
  have reached: "r \<le> sum_list (take (Suc k) (bucket_counts xs)) \<longleftrightarrow> ?j \<le> k" if "k < BUCKET_COUNT" for k
  proof -
    have "mset (filter (\<lambda>x. bucket_index x < Suc k) (sort xs)) = mset (filter (\<lambda>x. bucket_index x < Suc k) xs)" by simp
    then have "length (filter (\<lambda>x. bucket_index x < Suc k) (sort xs)) = length (filter (\<lambda>x. bucket_index x < Suc k) xs)" by (rule mset_eq_length)
    moreover have "r - 1 < length (filter (\<lambda>x. bucket_index x < Suc k) (sort xs)) \<longleftrightarrow> ?j < Suc k"
      by (rule sorted_filter_rank) (use assms(1,2) bucket_index_mono le_less_trans in \<open>auto, blast\<close>)
    moreover have "sum_list (take (Suc k) (bucket_counts xs)) = length (filter (\<lambda>x. bucket_index x < Suc k) xs)"
      using that by (intro counts_up_to) simp
    ultimately show ?thesis using assms(1) by linarith
  qed
  have j: "?j < BUCKET_COUNT" by (rule bucket_index_less)
  have "first_reaching ?goal 0 0 (bucket_counts xs) = Some (edge_ms (0 + ?j))"
  proof (rule first_reaching_at)
    show "?j < length (bucket_counts xs)" using j by (simp add: bucket_counts_def)
    show "?goal \<le> of_nat (0 + sum_list (take (Suc ?j) (bucket_counts xs)))" using reached [OF j] by (simp add: goal)
    show "\<forall>k < ?j. of_nat (0 + sum_list (take (Suc k) (bucket_counts xs))) < ?goal"
    proof (intro allI impI)
      fix k assume "k < ?j"
      then have "\<not> ?goal \<le> of_nat (sum_list (take (Suc k) (bucket_counts xs)))" using reached [of k] j by (simp add: goal)
      then show "of_nat (0 + sum_list (take (Suc k) (bucket_counts xs))) < ?goal" by simp
    qed
  qed
  moreover have "xs \<noteq> []" using assms(1,2) by auto
  ultimately show ?thesis by (simp add: percentile_ms_def of_samples_eq)
qed

text \<open>A duration is below the edge of its bucket and at least half of it, but for the first and the last.\<close>

lemma bucket_edges:
  assumes "i = bucket_index x"
  shows "x < int (edge_ns (BUCKET_COUNT - 1)) \<Longrightarrow> x < int (edge_ns i)" "int BUCKET_BASE_NS \<le> x \<Longrightarrow> int (edge_ns i) \<le> 2 * x"
proof -
  define m where "m = nat (x div 1000)"
  have "x < int (edge_ns (BUCKET_COUNT - 1)) \<longrightarrow> x < int (edge_ns i)" "int (edge_ns i) \<le> 2 * x" if "1000 \<le> x"
  proof -
    have m: "0 < m" "int m = x div 1000" using that by (auto simp: m_def)
    have mx: "1000 * int m \<le> x" "x < 1000 * (int m + 1)" using m(2) pos_mod_bound [of 1000 x] pos_mod_sign [of 1000 x] div_mult_mod_eq [of x 1000] by simp_all
    note b = bit_length_bounds [OF m(1)]
    have i: "i = min 24 (bit_length m)" using assms that by (simp add: bucket_index_def m_def BUCKET_BASE_NS_def BUCKET_COUNT_def)
    obtain k where k: "bit_length m = Suc k" using b(3) by (cases "bit_length m") auto
    have lower: "(2::int) ^ k \<le> int m" using b(1) k by (metis diff_Suc_1 of_nat_le_iff of_nat_numeral of_nat_power)
    have upper: "int m + 1 \<le> (2::int) ^ Suc k" using b(2) k by (metis Suc_leI of_nat_Suc add.commute of_nat_le_iff of_nat_numeral of_nat_power)
    have edge: "int (edge_ns j) = 1000 * 2 ^ j" for j by (simp add: edge_ns_def BUCKET_BASE_NS_def)
    show "x < int (edge_ns (BUCKET_COUNT - 1)) \<longrightarrow> x < int (edge_ns i)"
      using mx(2) upper i k unfolding edge BUCKET_COUNT_def by (cases "Suc k \<le> 24") (auto simp: min_def)
    have low: "1000 * 2 ^ k \<le> x" using mx(1) lower by linarith
    show "int (edge_ns i) \<le> 2 * x"
    proof (cases "Suc k \<le> 24")
      case True
      then have "i = Suc k" using i k by simp
      then show ?thesis using low unfolding edge by simp
    next
      case False
      then have "1000 * (2::int) ^ 24 \<le> 1000 * 2 ^ k" by (intro mult_left_mono power_increasing) auto
      from order_trans [OF this low] have "16777216000 \<le> x" by simp
      moreover have "i = 24" using i k False by simp
      ultimately show ?thesis unfolding edge by simp
    qed
  qed
  moreover have "x < int (edge_ns i)" if "x < 1000" using assms that by (simp add: bucket_index_def edge_ns_def BUCKET_BASE_NS_def)
  ultimately show "x < int (edge_ns (BUCKET_COUNT - 1)) \<Longrightarrow> x < int (edge_ns i)" "int BUCKET_BASE_NS \<le> x \<Longrightarrow> int (edge_ns i) \<le> 2 * x"
    by (force simp: BUCKET_BASE_NS_def not_less)+
qed

text \<open>
  C33. A percentile read out of the merged histograms of any number of operation shapes is the upper
  edge of the bucket of one sample: the one at the nearest rank of all their samples together. The
  rank is computed in doubles and is exact for fewer than \<open>2 ^ 45\<close> samples. The edge is above the
  sample (unless it is longer than the last bucket, 16.8 s) and at most twice the sample (from one
  microsecond on), so the reported latency is never optimistic and never more than double.
\<close>

theorem percentile_is_the_nearest_rank:
  assumes "f = P50 \<and> c = 1 / 2 \<or> f = P99 \<and> c = 99 / 100" "concat xss \<noteq> []" "length (concat xss) < 2 ^ 45"
    "x = sort (concat xss) ! (nat \<lceil>c * (of_nat (length (concat xss)) :: rat)\<rceil> - 1)"
  shows "percentile_ms f (fold (\<lambda>h' h. hist_merge h h') (map of_samples xss) new_histogram) = Some (edge_ms (bucket_index x)) \<and>
    (x < int (edge_ns (BUCKET_COUNT - 1)) \<longrightarrow> x < int (edge_ns (bucket_index x))) \<and>
    (int BUCKET_BASE_NS \<le> x \<longrightarrow> int (edge_ns (bucket_index x)) \<le> 2 * x)"
proof -
  let ?n = "length (concat xss)"
  have n: "0 < ?n" using assms(2) by (metis length_greater_0_conv)
  then have n': "(0::rat) < of_nat ?n" by (simp only: of_nat_0_less_iff)
  have c: "0 < c" "c \<le> 1" using assms(1) by auto
  have "0 < c * of_nat ?n" using c(1) n' by (rule mult_pos_pos)
  then have r: "0 < \<lceil>c * (of_nat ?n :: rat)\<rceil>" by (simp only: zero_less_ceiling)
  have "c * of_nat ?n \<le> of_nat ?n" using mult_right_mono [OF c(2), of "of_nat ?n"] n' by simp
  then have "\<lceil>c * (of_nat ?n :: rat)\<rceil> \<le> int ?n" by (simp only: ceiling_le_iff of_int_of_nat_eq)
  moreover have "\<lceil>to_double (f * of_nat ?n)\<rceil> = \<lceil>c * (of_nat ?n :: rat)\<rceil>"
    using assms(1) ceiling_P50 [OF assms(3)] ceiling_P99 [OF assms(3)] by (elim disjE) (simp_all only: mult.commute [of "1 / 2"] times_divide_eq_right mult_1_right)
  ultimately have "percentile_ms f (of_samples (concat xss)) = Some (edge_ms (bucket_index x))"
    unfolding assms(4) by (intro percentile_at_rank) (use r in auto)
  then show ?thesis
    using hist_merge_all [of xss "[]"] bucket_edges [of "bucket_index x" x] by (simp add: of_samples_def)
qed

theorem percentile_is_the_nearest_rank_witness:
  "percentile_ms P99 (fold (\<lambda>h' h. hist_merge h h') (map of_samples [[500, 7000], [3000000, 1500]]) new_histogram) = Some (edge_ms 12) \<and>
   (3000000 :: int) < int (edge_ns 12) \<and> int (edge_ns 12) \<le> 2 * 3000000"
proof -
  have "\<lceil>99 / 25 :: rat\<rceil> = 4" by (rule ceiling_unique) auto
  then have at: "sort (concat [[500, 7000], [3000000, 1500 :: int]]) ! (nat \<lceil>99 / 100 * (of_nat (length (concat [[500, 7000], [3000000, 1500 :: int]])) :: rat)\<rceil> - 1) = 3000000"
    by (simp add: sort_key_def)
  have i: "bucket_index 3000000 = 12" by (simp add: bucket_index_def BUCKET_BASE_NS_def BUCKET_COUNT_def bit_length.simps)
  have edges: "edge_ns 12 = 4096000" "edge_ns (BUCKET_COUNT - 1) = 16777216000" "BUCKET_BASE_NS = 1000"
    by (simp_all add: edge_ns_def BUCKET_BASE_NS_def BUCKET_COUNT_def)
  show ?thesis
    using percentile_is_the_nearest_rank [of P99 "99 / 100" "[[500, 7000], [3000000, 1500]]" 3000000] at
    by (simp add: i edges)
qed

end
