(* ===== verification/Telemetry.thy ===== *)
theory Telemetry
  imports Histogram Shapes
begin

text \<open>
  What a window of telemetry holds and the feature vector it is folded into (\<open>telemetry.py\<close>): the
  statistics of a shape and of a copy, the window, the features of a group with the names of the
  unknown ones, and the documents of a copy, a feature vector and a window.

  Every reported number is a correctly rounded quotient, \<open>ratio\<close>; the counts it divides are below
  \<open>2 ^ 53\<close>, so they are exact as doubles and no sum of them is rounded. Counters are natural numbers, times
  integers of nanoseconds on the recorder's clock. The frame walk of \<open>_call_site\<close> is an argument.
\<close>

section \<open>Statistics\<close>

type_synonym filter_key = "ustring list \<times> ustring"

record shape_stats =
  ss_shape_id :: ustring
  ss_group :: ustring
  ss_entity :: ustring
  ss_kind :: ustring
  ss_calls :: nat
  ss_rows :: nat
  ss_errors :: nat
  ss_latency :: histogram
  ss_call_site :: "ustring option"
  ss_filtered :: "(filter_key, nat) dict"
  ss_examined :: nat
  ss_searched :: "(ustring list, nat) dict"

definition bump :: "'k \<Rightarrow> nat \<Rightarrow> ('k, nat) dict \<Rightarrow> ('k, nat) dict" where
  "bump k n d = AList.update k ((case map_of d k of None \<Rightarrow> 0 | Some m \<Rightarrow> m) + n) d"

text \<open>What a call reports: the arguments of \<open>_record\<close>.\<close>

record call_report =
  cr_shape_id :: ustring
  cr_group :: ustring
  cr_entity :: ustring
  cr_kind :: ustring
  cr_nanoseconds :: int
  cr_rows :: nat
  cr_failed :: bool
  cr_predicates :: "filter_key option"
  cr_examined :: nat
  cr_searched :: "ustring list option"

definition sorted_names :: "ustring list \<Rightarrow> ustring list" where
  "sorted_names names = sort (remdups names)"

definition predicates_of :: "ustring list option \<Rightarrow> ustring option \<Rightarrow> filter_key option" where
  "predicates_of equal ranged =
     map_option (\<lambda>names. (sorted_names names, case ranged of None \<Rightarrow> [] | Some r \<Rightarrow> r)) equal"

definition stats_record :: "call_report \<Rightarrow> shape_stats \<Rightarrow> shape_stats" where
  "stats_record c s =
     s\<lparr>ss_calls := ss_calls s + 1,
       ss_rows := ss_rows s + cr_rows c,
       ss_errors := ss_errors s + (if cr_failed c then 1 else 0),
       ss_latency := hist_record (cr_nanoseconds c) (ss_latency s),
       ss_filtered := (case cr_predicates c of None \<Rightarrow> ss_filtered s | Some k \<Rightarrow> bump k 1 (ss_filtered s)),
       ss_examined := ss_examined s + cr_examined c,
       ss_searched := (case cr_searched c of None \<Rightarrow> ss_searched s | Some k \<Rightarrow> bump k 1 (ss_searched s))\<rparr>"

definition new_stats :: "ustring option \<Rightarrow> call_report \<Rightarrow> shape_stats" where
  "new_stats site c =
     \<lparr>ss_shape_id = cr_shape_id c, ss_group = cr_group c, ss_entity = cr_entity c, ss_kind = cr_kind c, ss_calls = 0, ss_rows = 0,
      ss_errors = 0, ss_latency = new_histogram, ss_call_site = site, ss_filtered = [], ss_examined = 0, ss_searched = []\<rparr>"

record fan_out_stats =
  fo_group :: ustring
  fo_materialization :: ustring
  fo_writes :: nat
  fo_failures :: nat
  fo_latency :: histogram

definition fan_record :: "int \<Rightarrow> bool \<Rightarrow> fan_out_stats \<Rightarrow> fan_out_stats" where
  "fan_record nanoseconds failed s =
     s\<lparr>fo_writes := fo_writes s + 1, fo_failures := fo_failures s + (if failed then 1 else 0),
       fo_latency := hist_record nanoseconds (fo_latency s)\<rparr>"

section \<open>Documents\<close>

definition number :: "rat option \<Rightarrow> pyval" where
  "number v = (case v of None \<Rightarrow> PNone | Some r \<Rightarrow> PFloat (Finite r))"

record copy_freshness =
  cf_group :: ustring
  cf_materialization :: ustring
  cf_writes :: nat
  cf_failures :: nat
  cf_lag_p50_ms :: "rat option"
  cf_lag_p99_ms :: "rat option"

definition cf_complete :: "copy_freshness \<Rightarrow> bool" where
  "cf_complete c \<longleftrightarrow> cf_failures c = 0"

definition copy_as_record :: "copy_freshness \<Rightarrow> pyval" where
  "copy_as_record c =
     PDict [(lit ''group'', PStr (cf_group c)), (lit ''materialization'', PStr (cf_materialization c)),
            (lit ''writes'', PInt (int (cf_writes c))), (lit ''failures'', PInt (int (cf_failures c))),
            (lit ''lag_p50_ms'', number (cf_lag_p50_ms c)), (lit ''lag_p99_ms'', number (cf_lag_p99_ms c)),
            (lit ''complete'', PBool (cf_complete c))]"

record group_features =
  gf_calls :: nat
  gf_read_write_ratio :: "rat option"
  gf_shape_mix :: "(ustring, rat) dict"
  gf_latency_p50_ms :: "rat option"
  gf_latency_p99_ms :: "rat option"
  gf_result_cardinality_p50 :: "rat option"
  gf_result_cardinality_p99 :: "rat option"
  gf_total_bytes :: "int option"
  gf_daily_growth_bytes :: "int option"
  gf_index_to_table_ratio :: "rat option"
  gf_pk_access_share :: "rat option"
  gf_has_time_dimension :: bool
  gf_time_filtered_share :: "rat option"
  gf_distinct_shapes :: nat
  gf_write_burstiness :: "rat option"
  gf_error_share :: "rat option"
  gf_missing :: "ustring list"
  gf_complete :: bool

definition no_features :: "bool \<Rightarrow> group_features" where
  "no_features whole =
     \<lparr>gf_calls = 0, gf_read_write_ratio = None, gf_shape_mix = [], gf_latency_p50_ms = None, gf_latency_p99_ms = None,
      gf_result_cardinality_p50 = None, gf_result_cardinality_p99 = None, gf_total_bytes = None, gf_daily_growth_bytes = None,
      gf_index_to_table_ratio = None, gf_pk_access_share = None, gf_has_time_dimension = False, gf_time_filtered_share = None,
      gf_distinct_shapes = 0, gf_write_burstiness = None, gf_error_share = None, gf_missing = [], gf_complete = whole\<rparr>"

text \<open>\<open>MEASURED_FIELDS\<close> with \<open>getattr\<close>: the measured fields in their order, \<open>None\<close> for an unknown one.\<close>

definition measured_fields :: "group_features \<Rightarrow> (ustring \<times> pyval option) list" where
  "measured_fields f =
     (let opt = map_option (\<lambda>r. PFloat (Finite r))
      in [(lit ''calls'', Some (PInt (int (gf_calls f)))),
          (lit ''read_write_ratio'', opt (gf_read_write_ratio f)),
          (lit ''shape_mix'', Some (PDict (map (\<lambda>(k, r). (k, PFloat (Finite r))) (gf_shape_mix f)))),
          (lit ''latency_p50_ms'', opt (gf_latency_p50_ms f)),
          (lit ''latency_p99_ms'', opt (gf_latency_p99_ms f)),
          (lit ''result_cardinality_p50'', opt (gf_result_cardinality_p50 f)),
          (lit ''result_cardinality_p99'', opt (gf_result_cardinality_p99 f)),
          (lit ''total_bytes'', map_option PInt (gf_total_bytes f)),
          (lit ''daily_growth_bytes'', map_option PInt (gf_daily_growth_bytes f)),
          (lit ''index_to_table_ratio'', opt (gf_index_to_table_ratio f)),
          (lit ''pk_access_share'', opt (gf_pk_access_share f)),
          (lit ''has_time_dimension'', Some (PBool (gf_has_time_dimension f))),
          (lit ''time_filtered_share'', opt (gf_time_filtered_share f)),
          (lit ''distinct_shapes'', Some (PInt (int (gf_distinct_shapes f)))),
          (lit ''write_burstiness'', opt (gf_write_burstiness f)),
          (lit ''error_share'', opt (gf_error_share f))])"

definition features_as_record :: "group_features \<Rightarrow> (ustring \<times> pyval) list" where
  "features_as_record f =
     concat (map (\<lambda>(n, v). case v of None \<Rightarrow> [] | Some x \<Rightarrow> [(n, x)]) (measured_fields f)) @
     [(lit ''missing'', PList (map PStr (sort (gf_missing f)))), (lit ''complete'', PBool (gf_complete f))]"

definition with_missing :: "ustring list \<Rightarrow> group_features \<Rightarrow> group_features" where
  "with_missing also f =
     f\<lparr>gf_missing := remdups (also @ map fst (filter (\<lambda>(n, v). v = None) (measured_fields f)))\<rparr>"

section \<open>Windows\<close>

definition SECOND_NS :: int where
  "SECOND_NS = 1000000000"

definition GROWTH_MIN_NS :: int where
  "GROWTH_MIN_NS = 3600000000000"

definition DAY_NS :: int where
  "DAY_NS = 86400000000000"

definition FILTERED_KINDS :: "ustring list" where
  "FILTERED_KINDS = map lit [''aggregate'', ''full_scan'', ''range_read'']"

record storage_sample =
  sa_group :: ustring
  sa_at_ns :: int
  sa_total_bytes :: int
  sa_secondary_index_bytes :: int

record window =
  wi_model_version :: ustring
  wi_started_ns :: int
  wi_ended_ns :: int
  wi_shapes :: "shape_stats list"
  wi_complete :: bool
  wi_dropped_windows :: nat
  wi_fanned :: "fan_out_stats list"
  wi_storage :: "storage_sample list"
  wi_storage_history :: "storage_sample list"
  wi_write_seconds :: "(ustring, (int, nat) dict) dict"

definition write_kind :: "ustring \<Rightarrow> bool" where
  "write_kind kind \<longleftrightarrow> kind \<in> kind_text ` WRITE_KINDS"

text \<open>\<open>a / b\<close> of two counts\<close>

definition ratio :: "nat \<Rightarrow> nat \<Rightarrow> rat" where
  "ratio a b = to_double (of_nat a / of_nat b)"

definition at_fraction :: "rat list \<Rightarrow> rat \<Rightarrow> rat option" where
  "at_fraction ordered fraction =
     (if ordered = [] then None
      else let rank = nat (max 1 \<lceil>to_double (fraction * of_nat (length ordered))\<rceil>) - 1
           in Some (ordered ! min (length ordered - 1) rank))"

definition window_copies :: "window \<Rightarrow> ustring \<Rightarrow> copy_freshness list" where
  "window_copies w g =
     map (\<lambda>s. \<lparr>cf_group = fo_group s, cf_materialization = fo_materialization s, cf_writes = fo_writes s, cf_failures = fo_failures s,
               cf_lag_p50_ms = percentile_ms P50 (fo_latency s), cf_lag_p99_ms = percentile_ms P99 (fo_latency s)\<rparr>)
       (sort_key fo_materialization (filter (\<lambda>s. fo_group s = g) (wi_fanned w)))"

text \<open>One record of the loop that counts the calls that filtered on time.\<close>

definition time_filtered_step ::
  "(ustring, ustring list) dict \<Rightarrow> (ustring, ustring) dict \<Rightarrow> shape_stats \<Rightarrow> nat \<times> bool \<Rightarrow> nat \<times> bool" where
  "time_filtered_step time_fields range_fields s = (\<lambda>(filtered, known).
     let at_times = (case map_of time_fields (ss_entity s) of None \<Rightarrow> [] | Some ts \<Rightarrow> ts);
         hits = sum_list (map snd (filter (\<lambda>((equal, ranged), _). ranged \<in> set at_times \<or> set at_times \<inter> set equal \<noteq> {}) (ss_filtered s)));
         reported = sum_list (map snd (ss_filtered s))
     in if ss_calls s \<le> reported \<or> ss_kind s \<notin> set FILTERED_KINDS \<or> at_times = [] then (filtered + hits, known)
        else case map_of range_fields (ss_shape_id s) of
               Some bounded \<Rightarrow>
                 if ss_kind s = lit ''range_read''
                 then (filtered + hits + (if bounded \<in> set at_times then ss_calls s - reported else 0), known)
                 else (filtered + hits, False)
             | None \<Rightarrow> (filtered + hits, False))"

definition latest_sample :: "ustring \<Rightarrow> storage_sample list \<Rightarrow> storage_sample option" where
  "latest_sample g samples =
     fold (\<lambda>s latest. if sa_group s = g \<and> (case latest of None \<Rightarrow> True | Some l \<Rightarrow> sa_at_ns s \<ge> sa_at_ns l) then Some s else latest)
       samples None"

fun oldest_sample :: "storage_sample \<Rightarrow> storage_sample list \<Rightarrow> storage_sample" where
  "oldest_sample best [] = best"
| "oldest_sample best (s # ss) = oldest_sample (if sa_at_ns s < sa_at_ns best then s else best) ss"

definition storage_features :: "window \<Rightarrow> ustring \<Rightarrow> int option \<times> rat option \<times> int option" where
  "storage_features w g =
     (case latest_sample g (wi_storage w) of
        None \<Rightarrow> (None, None, None)
      | Some latest \<Rightarrow>
          let rest = sa_total_bytes latest - sa_secondary_index_bytes latest;
              index_ratio = (if rest > 0 then Some (to_double (of_int (sa_secondary_index_bytes latest) / of_int rest)) else None);
              oldest = (case filter (\<lambda>s. sa_group s = g) (wi_storage_history w) of [] \<Rightarrow> latest | s # ss \<Rightarrow> oldest_sample s ss);
              elapsed = sa_at_ns latest - sa_at_ns oldest;
              delta = sa_total_bytes latest - sa_total_bytes oldest;
              projected = \<bar>delta\<bar> * DAY_NS div elapsed
          in (Some (sa_total_bytes latest), index_ratio,
              if elapsed \<ge> GROWTH_MIN_NS then Some (if delta \<ge> 0 then projected else - projected) else None))"

definition burstiness :: "window \<Rightarrow> ustring \<Rightarrow> rat option" where
  "burstiness w g =
     (let seconds = (case map_of (wi_write_seconds w) g of None \<Rightarrow> [] | Some s \<Rightarrow> s);
          written = sum_list (vals seconds)
      in if written = 0 then None
         else let duration = - ((- (wi_ended_ns w - wi_started_ns w)) div SECOND_NS);
                  sp = max (max 1 duration) (Max (set (keys seconds)) + 1)
              in Some (to_double (of_nat (Max (set (vals seconds))) * of_int sp / of_nat written)))"

definition features ::
  "window \<Rightarrow> ustring \<Rightarrow> bool \<Rightarrow> (ustring, ustring list) dict option \<Rightarrow> (ustring, ustring) dict \<Rightarrow> group_features" where
  "features w g has_time time_fields range_fields =
     (let records = filter (\<lambda>s. ss_group s = g) (wi_shapes w)
      in if records = [] then with_missing [lit ''no_traffic''] (no_features (wi_complete w))
         else
           let writes = sum_list (map ss_calls (filter (\<lambda>s. write_kind (ss_kind s)) records));
               reads = sum_list (map ss_calls (filter (\<lambda>s. \<not> write_kind (ss_kind s)) records));
               calls = writes + reads;
               latency = fold (\<lambda>s h. hist_merge h (ss_latency s)) records new_histogram;
               mix = fold (\<lambda>s d. bump (ss_kind s) (ss_calls s) d) records [];
               cardinalities = sort (map (\<lambda>s. ratio (ss_rows s) (ss_calls s - ss_errors s))
                 (filter (\<lambda>s. \<not> write_kind (ss_kind s) \<and> ss_errors s < ss_calls s) records));
               pk_calls = sum_list (map ss_calls (filter (\<lambda>s. ss_kind s = lit ''point_read'') records));
               errors = sum_list (map ss_errors records);
               time_filtered = (case time_fields of
                   None \<Rightarrow> None
                 | Some tf \<Rightarrow>
                     if calls = 0 then None
                     else (case fold (time_filtered_step tf range_fields) records (0, True) of
                             (filtered, known) \<Rightarrow> if known then Some (ratio filtered calls) else None));
               (total_bytes, index_ratio, growth) = storage_features w g
           in with_missing []
                \<lparr>gf_calls = calls,
                 gf_read_write_ratio = (if writes = 0 then None else Some (ratio reads writes)),
                 gf_shape_mix = (if calls = 0 then [] else map (\<lambda>(k, hits). (k, ratio hits calls)) (sort_key fst mix)),
                 gf_latency_p50_ms = percentile_ms P50 latency,
                 gf_latency_p99_ms = percentile_ms P99 latency,
                 gf_result_cardinality_p50 = at_fraction cardinalities P50,
                 gf_result_cardinality_p99 = at_fraction cardinalities P99,
                 gf_total_bytes = total_bytes,
                 gf_daily_growth_bytes = growth,
                 gf_index_to_table_ratio = index_ratio,
                 gf_pk_access_share = (if calls = 0 then None else Some (ratio pk_calls calls)),
                 gf_has_time_dimension = has_time,
                 gf_time_filtered_share = time_filtered,
                 gf_distinct_shapes = length records,
                 gf_write_burstiness = burstiness w g,
                 gf_error_share = (if calls = 0 then None else Some (ratio errors calls)),
                 gf_missing = [],
                 gf_complete = wi_complete w\<rparr>)"

section \<open>The document of a window\<close>

datatype telemetry_error =
    WrongModel
  | UnknownGroups "ustring list"
  | UnknownShapes "ustring list"
  | NoSuchEntity ustring
  | GroupsRaised uf_error
  | ShapesRaised shape_error

definition TIME_TYPES :: "ustring list" where
  "TIME_TYPES = map lit [''date'', ''timestamp'', ''timestamptz'']"

definition entity_times :: "logical_model \<Rightarrow> ustring \<Rightarrow> telemetry_error + ustring list" where
  "entity_times m name =
     (case entity_of m name of
        None \<Rightarrow> Inl (NoSuchEntity name)
      | Some spec \<Rightarrow> Inr (map fname (filter (\<lambda>f. ftype f \<in> set TIME_TYPES) (efields spec))))"

definition time_fields :: "logical_model \<Rightarrow> group \<Rightarrow> telemetry_error + (ustring, ustring list) dict" where
  "time_fields m g = traverse (\<lambda>name. and_then (entity_times m name) (\<lambda>ts. Inr (name, ts))) (gmembers g)"

text \<open>\<open>has_time_dimension\<close> stops at the first entity that has one.\<close>

fun has_time_dimension :: "logical_model \<Rightarrow> ustring list \<Rightarrow> telemetry_error + bool" where
  "has_time_dimension m [] = Inr False"
| "has_time_dimension m (name # names) =
     and_then (entity_times m name) (\<lambda>ts. if ts \<noteq> [] then Inr True else has_time_dimension m names)"

definition enumerated ::
  "(ustring \<Rightarrow> ustring) \<Rightarrow> (nat list \<Rightarrow> ustring) \<Rightarrow> logical_model \<Rightarrow> (ustring, shape_stats) dict \<Rightarrow> telemetry_error + operation_shape list" where
  "enumerated nfc sha256 m recorded =
     (case enumerate_shapes nfc sha256 m of
        Inl e \<Rightarrow> Inl (ShapesRaised e)
      | Inr shapes \<Rightarrow>
          let found = filter (\<lambda>s. sh_id s \<in> set (keys recorded)) shapes;
              unknown = sort (filter (\<lambda>i. i \<notin> sh_id ` set found) (remdups (keys recorded)))
          in if unknown = [] then Inr found else Inl (UnknownShapes unknown))"

definition shape_entry :: "operation_shape \<Rightarrow> shape_stats \<Rightarrow> pyval" where
  "shape_entry shape s =
     PDict
       ([(lit ''id'', PStr (sh_id shape)), (lit ''entity'', PStr (sh_entity shape)), (lit ''kind'', PStr (kind_text (sh_kind shape))),
         (lit ''fields'', PList (map PStr (sh_fields shape)))] @
        (case sh_target shape of None \<Rightarrow> [] | Some t \<Rightarrow> [(lit ''target'', PStr t)]) @
        [(lit ''calls'', PInt (int (ss_calls s))), (lit ''errors'', PInt (int (ss_errors s))), (lit ''rows'', PInt (int (ss_rows s)))] @
        (if sh_kind shape = SEARCH then [(lit ''examined'', PInt (int (ss_examined s)))] else []) @
        [(lit ''latency_p50_ms'', number (percentile_ms P50 (ss_latency s))), (lit ''latency_p99_ms'', number (percentile_ms P99 (ss_latency s)))] @
        (if ss_filtered s = [] then []
         else [(lit ''filtered_on'', PList (map (\<lambda>((equal, ranged), calls).
                 PDict ([(lit ''equal'', PList (map PStr equal))] @ (if ranged = [] then [] else [(lit ''range'', PStr ranged)]) @
                        [(lit ''calls'', PInt (int calls))])) (sort_key fst (ss_filtered s))))]) @
        (if ss_searched s = [] then []
         else [(lit ''searched_on'', PList (map (\<lambda>(names, calls).
                 PDict [(lit ''fields'', PList (map PStr names)), (lit ''calls'', PInt (int calls))]) (sort_key fst (ss_searched s))))]))"

definition shape_records ::
  "(ustring \<Rightarrow> ustring) \<Rightarrow> (nat list \<Rightarrow> ustring) \<Rightarrow> logical_model \<Rightarrow> window \<Rightarrow> ustring \<Rightarrow> telemetry_error + pyval list" where
  "shape_records nfc sha256 m w g =
     (let recorded = rev (map (\<lambda>s. (ss_shape_id s, s)) (filter (\<lambda>s. ss_group s = g) (wi_shapes w)))
      in and_then (enumerated nfc sha256 m recorded) (\<lambda>shapes.
           Inr (concat (map (\<lambda>shape. case map_of recorded (sh_id shape) of None \<Rightarrow> [] | Some s \<Rightarrow> [shape_entry shape s]) shapes))))"

text \<open>One group of the document: absent rather than empty where there is nothing to say.\<close>

definition group_record ::
  "(ustring \<Rightarrow> ustring) \<Rightarrow> (nat list \<Rightarrow> ustring) \<Rightarrow> logical_model \<Rightarrow> window \<Rightarrow> (ustring, ustring) dict \<Rightarrow> group \<Rightarrow> telemetry_error + ustring \<times> pyval" where
  "group_record nfc sha256 m w ranges g =
     and_then (has_time_dimension m (gmembers g)) (\<lambda>has_time.
     and_then (time_fields m g) (\<lambda>times_of.
     and_then (shape_records nfc sha256 m w (gname g)) (\<lambda>shapes.
       let copies = map copy_as_record (window_copies w (gname g))
       in Inr (gname g, PDict (features_as_record (features w (gname g) has_time (Some times_of) ranges) @
            (if shapes = [] then [] else [(lit ''shapes'', PList shapes)]) @
            (if copies = [] then [] else [(lit ''copies'', PList copies)]))))))"

definition window_as_record ::
  "(ustring \<Rightarrow> ustring) \<Rightarrow> (nat list \<Rightarrow> ustring) \<Rightarrow> logical_model \<Rightarrow> window \<Rightarrow> telemetry_error + pyval" where
  "window_as_record nfc sha256 m w =
     (if mversion m \<noteq> wi_model_version w then Inl WrongModel
      else case colocation_groups m of
             Inl e \<Rightarrow> Inl (GroupsRaised e)
           | Inr gs \<Rightarrow>
               let named = sort (remdups (map ss_group (wi_shapes w) @ map fo_group (wi_fanned w)));
                   unknown = filter (\<lambda>n. n \<notin> gname ` set gs) named
               in if unknown \<noteq> [] then Inl (UnknownGroups unknown)
                  else case enumerate_shapes nfc sha256 m of
                         Inl e \<Rightarrow> Inl (ShapesRaised e)
                       | Inr shapes \<Rightarrow>
                           let ranges = rev (map (\<lambda>s. (sh_id s, hd (sh_fields s)))
                                 (filter (\<lambda>s. sh_kind s = RANGE_READ \<and> sh_fields s \<noteq> []) shapes))
                           in and_then (traverse (\<lambda>n. case List.find (\<lambda>g. gname g = n) (rev gs) of
                                           None \<Rightarrow> Inl (UnknownGroups [n]) | Some g \<Rightarrow> group_record nfc sha256 m w ranges g) named) (\<lambda>groups.
                                Inr (PDict [(lit ''model_version'', PStr (wi_model_version w)), (lit ''complete'', PBool (wi_complete w)),
                                            (lit ''dropped_windows'', PInt (int (wi_dropped_windows w))), (lit ''groups'', PDict groups)])))"

section \<open>What is unknown is named\<close>

lemma measured_names_distinct: "distinct (map fst (measured_fields f))"
  by (simp add: measured_fields_def Let_def)

lemma measured_missing [simp]: "measured_fields (f\<lparr>gf_missing := ms\<rparr>) = measured_fields f"
  by (simp add: measured_fields_def)

lemma with_missing_missing:
  "set (gf_missing (with_missing also f)) = set also \<union> {n. (n, None) \<in> set (measured_fields (with_missing also f))}"
  unfolding with_missing_def by (auto simp: image_iff)

lemma features_missing:
  "set (gf_missing (features w g ht tf rf)) =
     {n. (n, None) \<in> set (measured_fields (features w g ht tf rf))} \<union>
     (if \<exists>s \<in> set (wi_shapes w). ss_group s = g then {} else {lit ''no_traffic''})"
proof (cases "filter (\<lambda>s. ss_group s = g) (wi_shapes w) = []")
  case True
  then have "\<not> (\<exists>s \<in> set (wi_shapes w). ss_group s = g)" by (auto simp: filter_empty_conv)
  then show ?thesis using True with_missing_missing [of "[lit ''no_traffic'']"] by (simp add: features_def Let_def)
next
  case False
  then have some: "\<exists>s \<in> set (wi_shapes w). ss_group s = g" by (auto simp: filter_empty_conv)
  obtain total_bytes index_ratio growth where storage: "storage_features w g = (total_bytes, index_ratio, growth)"
    by (cases "storage_features w g")
  have "\<exists>f. features w g ht tf rf = with_missing [] f"
    unfolding features_def Let_def storage prod.case if_not_P [OF False] by (rule exI, rule refl)
  then obtain f where "features w g ht tf rf = with_missing [] f" by blast
  then show ?thesis using some with_missing_missing [of "[]" f] by simp
qed

lemma record_names: "n \<in> set (map fst (features_as_record f)) \<longleftrightarrow>
    (\<exists>v. (n, Some v) \<in> set (measured_fields f)) \<or> n = lit ''missing'' \<or> n = lit ''complete''"
  unfolding features_as_record_def by (force split: option.splits)

end
