(* ===== verification/Recorder.thy ===== *)
theory Recorder
  imports Telemetry "HOL-Library.Sublist"
begin

text \<open>
  The recorder of \<open>telemetry.py\<close>: calls, fan-outs and storage samples accumulate until a roll closes
  the period into a window, and the buffer of windows drops its oldest when it is full. Every call of
  the clock is an argument of the operation that makes it, and operations run one after another: two
  threads that race on one counter, which may lose a call by design, are outside the model. The
  guard around each entry point never fires here, since nothing an operation does can raise.
\<close>

section \<open>The recorder\<close>

record recorder =
  rc_model_version :: ustring
  rc_current :: "(ustring, shape_stats) dict"
  rc_fanned :: "(ustring \<times> ustring, fan_out_stats) dict"
  rc_writes :: "(ustring, (int, nat) dict) dict"
  rc_storage :: "(ustring, storage_sample list) dict"
  rc_storage_window :: "storage_sample list"
  rc_started_ns :: int
  rc_windows :: "window list"
  rc_max_windows :: nat
  rc_dropped :: nat
  rc_incomplete :: bool

definition new_recorder :: "ustring \<Rightarrow> nat \<Rightarrow> int \<Rightarrow> recorder" where
  "new_recorder model_version max_windows now =
     \<lparr>rc_model_version = model_version, rc_current = [], rc_fanned = [], rc_writes = [], rc_storage = [], rc_storage_window = [],
      rc_started_ns = now, rc_windows = [], rc_max_windows = max_windows, rc_dropped = 0, rc_incomplete = False\<rparr>"

definition count_write :: "int \<Rightarrow> call_report \<Rightarrow> recorder \<Rightarrow> recorder" where
  "count_write now c r =
     (if cr_rows c > 0 \<and> \<not> cr_failed c \<and> write_kind (cr_kind c) then
        let second = max 0 ((now - rc_started_ns r) div SECOND_NS);
            seconds = (case map_of (rc_writes r) (cr_group c) of None \<Rightarrow> [] | Some s \<Rightarrow> s)
        in r\<lparr>rc_writes := AList.update (cr_group c) (bump second (cr_rows c) seconds) (rc_writes r)\<rparr>
      else r)"

definition record_call :: "ustring option \<Rightarrow> int \<Rightarrow> call_report \<Rightarrow> recorder \<Rightarrow> recorder" where
  "record_call site now c r =
     (let s = (case map_of (rc_current r) (cr_shape_id c) of None \<Rightarrow> new_stats site c | Some s \<Rightarrow> s)
      in count_write now c (r\<lparr>rc_current := AList.update (cr_shape_id c) (stats_record c s) (rc_current r)\<rparr>))"

definition record_fan_out :: "ustring \<Rightarrow> ustring \<Rightarrow> int \<Rightarrow> bool \<Rightarrow> recorder \<Rightarrow> recorder" where
  "record_fan_out g mat nanoseconds failed r =
     (let s = (case map_of (rc_fanned r) (g, mat) of
                 None \<Rightarrow> \<lparr>fo_group = g, fo_materialization = mat, fo_writes = 0, fo_failures = 0, fo_latency = new_histogram\<rparr>
               | Some s \<Rightarrow> s)
      in r\<lparr>rc_fanned := AList.update (g, mat) (fan_record nanoseconds failed s) (rc_fanned r)\<rparr>)"

definition record_storage :: "int \<Rightarrow> ustring \<Rightarrow> int \<Rightarrow> int \<Rightarrow> recorder \<Rightarrow> recorder" where
  "record_storage now g total_bytes secondary r =
     (if g = [] \<or> total_bytes < 0 \<or> \<not> (0 \<le> secondary \<and> secondary \<le> total_bytes) then r
      else let sample = \<lparr>sa_group = g, sa_at_ns = now, sa_total_bytes = total_bytes, sa_secondary_index_bytes = secondary\<rparr>;
               kept = filter (\<lambda>s. sa_at_ns s \<ge> now - DAY_NS) (case map_of (rc_storage r) g of None \<Rightarrow> [] | Some ss \<Rightarrow> ss) @ [sample]
           in r\<lparr>rc_storage := AList.update g kept (rc_storage r), rc_storage_window := rc_storage_window r @ [sample]\<rparr>)"

text \<open>\<open>deque.append\<close> with a maximal length\<close>

definition push_window :: "nat \<Rightarrow> window \<Rightarrow> window list \<Rightarrow> window list" where
  "push_window maxlen w ws = drop (length ws + 1 - maxlen) (ws @ [w])"

definition roll :: "int \<Rightarrow> int \<Rightarrow> recorder \<Rightarrow> window option \<times> recorder" where
  "roll ended restarted r =
     (if rc_current r = [] \<and> rc_fanned r = [] then (None, r)
      else
        let w = \<lparr>wi_model_version = rc_model_version r, wi_started_ns = rc_started_ns r, wi_ended_ns = ended,
                 wi_shapes = vals (rc_current r), wi_complete = (\<not> rc_incomplete r), wi_dropped_windows = rc_dropped r,
                 wi_fanned = vals (rc_fanned r), wi_storage = rc_storage_window r,
                 wi_storage_history = concat (vals (rc_storage r)), wi_write_seconds = rc_writes r\<rparr>
        in (Some w,
            r\<lparr>rc_current := [], rc_fanned := [], rc_writes := [], rc_storage_window := [], rc_started_ns := restarted,
              rc_incomplete := False, rc_dropped := rc_dropped r + (if length (rc_windows r) = rc_max_windows r then 1 else 0),
              rc_windows := push_window (rc_max_windows r) w (rc_windows r)\<rparr>))"

definition mark_incomplete :: "recorder \<Rightarrow> recorder" where
  "mark_incomplete r = r\<lparr>rc_incomplete := True\<rparr>"

definition acknowledge :: "int \<Rightarrow> recorder \<Rightarrow> recorder" where
  "acknowledge n r = r\<lparr>rc_windows := drop (nat n) (rc_windows r)\<rparr>"

datatype recorder_op =
    Called "ustring option" int call_report
  | FannedOut ustring ustring int bool
  | Sampled int ustring int int
  | Rolled int int
  | MarkedIncomplete
  | Acknowledged int

fun record_op :: "recorder_op \<Rightarrow> recorder \<Rightarrow> window list \<times> recorder" where
  "record_op (Called site now c) r = ([], record_call site now c r)"
| "record_op (FannedOut g mat ns failed) r = ([], record_fan_out g mat ns failed r)"
| "record_op (Sampled now g total_bytes secondary) r = ([], record_storage now g total_bytes secondary r)"
| "record_op (Rolled ended restarted) r = (case roll ended restarted r of (w, r') \<Rightarrow> (case w of None \<Rightarrow> [] | Some x \<Rightarrow> [x], r'))"
| "record_op MarkedIncomplete r = ([], mark_incomplete r)"
| "record_op (Acknowledged n) r = ([], acknowledge n r)"

text \<open>The windows the rolls of a sequence of operations return, and the recorder left behind.\<close>

fun run_recorder :: "recorder_op list \<Rightarrow> recorder \<Rightarrow> window list \<times> recorder" where
  "run_recorder [] r = ([], r)"
| "run_recorder (x # xs) r = (case record_op x r of (ws, r') \<Rightarrow> apfst ((@) ws) (run_recorder xs r'))"

section \<open>What statistics stand for\<close>

definition reports :: "recorder_op list \<Rightarrow> call_report list" where
  "reports xs = concat (map (\<lambda>x. case x of Called _ _ c \<Rightarrow> [c] | _ \<Rightarrow> []) xs)"

definition of_shape :: "ustring \<Rightarrow> call_report list \<Rightarrow> call_report list" where
  "of_shape i cs = filter (\<lambda>c. cr_shape_id c = i) cs"

definition tally :: "('k, nat) dict \<Rightarrow> 'k \<Rightarrow> nat" where
  "tally d k = (case map_of d k of None \<Rightarrow> 0 | Some n \<Rightarrow> n)"

text \<open>Statistics that are exactly those of a list of calls.\<close>

definition counts_calls :: "call_report list \<Rightarrow> shape_stats \<Rightarrow> bool" where
  "counts_calls cs s \<longleftrightarrow> cs \<noteq> [] \<and>
     ss_group s = cr_group (hd cs) \<and> ss_entity s = cr_entity (hd cs) \<and> ss_kind s = cr_kind (hd cs) \<and>
     ss_calls s = length cs \<and> ss_rows s = sum_list (map cr_rows cs) \<and> ss_errors s = length (filter cr_failed cs) \<and>
     ss_latency s = of_samples (map cr_nanoseconds cs) \<and> ss_examined s = sum_list (map cr_examined cs) \<and>
     (\<forall>k. tally (ss_filtered s) k = length (filter (\<lambda>c. cr_predicates c = Some k) cs)) \<and>
     distinct (keys (ss_filtered s)) \<and> sum_list (vals (ss_filtered s)) = length (filter (\<lambda>c. cr_predicates c \<noteq> None) cs) \<and>
     (\<forall>k. tally (ss_searched s) k = length (filter (\<lambda>c. cr_searched c = Some k) cs))"

definition counts_period :: "call_report list \<Rightarrow> shape_stats list \<Rightarrow> bool" where
  "counts_period cs ss \<longleftrightarrow> distinct (map ss_shape_id ss) \<and> ss_shape_id ` set ss = cr_shape_id ` set cs \<and>
     (\<forall>s \<in> set ss. counts_calls (of_shape (ss_shape_id s) cs) s)"

lemma tally_bump [simp]: "tally (bump k n d) j = tally d j + (if j = k then n else 0)"
  by (simp add: tally_def bump_def update_conv')

lemma tally_Nil [simp]: "tally [] k = 0"
  by (simp add: tally_def)

lemma sum_bump: "distinct (keys d) \<Longrightarrow> sum_list (vals (bump k n d)) = sum_list (vals d) + n"
proof -
  assume "distinct (keys d)"
  then have "sum_list (vals (AList.update k (tally d k + n) d)) = sum_list (vals d) + n"
  proof (induction d)
    case (Cons p d)
    obtain j v where p: "p = (j, v)" by (cases p)
    show ?case
    proof (cases "j = k")
      case True
      then show ?thesis using p by (simp add: tally_def)
    next
      case False
      then have "tally (p # d) k = tally d k" using p by (simp add: tally_def)
      then show ?thesis using False p Cons by simp
    qed
  qed (simp add: tally_def)
  then show ?thesis by (simp add: bump_def tally_def)
qed

lemma distinct_bump: "distinct (keys d) \<Longrightarrow> distinct (keys (bump k n d))"
  by (simp add: bump_def distinct_update)

lemma counts_calls_first: "counts_calls [c] (stats_record c (new_stats site c))"
  by (auto simp: counts_calls_def stats_record_def new_stats_def of_samples_def sum_bump distinct_bump split: option.splits)

lemma counts_calls_next: "counts_calls cs s \<Longrightarrow> counts_calls (cs @ [c]) (stats_record c s)"
  by (auto simp: counts_calls_def stats_record_def of_samples_snoc sum_bump distinct_bump split: option.splits)

lemma stats_record_id [simp]: "ss_shape_id (stats_record c s) = ss_shape_id s" "ss_shape_id (new_stats site c) = cr_shape_id c"
  by (simp_all add: stats_record_def new_stats_def)

text \<open>The dictionary of the current period.\<close>

definition counts_current :: "call_report list \<Rightarrow> (ustring, shape_stats) dict \<Rightarrow> bool" where
  "counts_current cs d \<longleftrightarrow> distinct (keys d) \<and> set (keys d) = cr_shape_id ` set cs \<and>
     (\<forall>(i, s) \<in> set d. ss_shape_id s = i \<and> counts_calls (of_shape i cs) s)"

lemma counts_current_period: "counts_current cs d \<Longrightarrow> counts_period cs (vals d)"
proof -
  assume d: "counts_current cs d"
  then have ids: "map ss_shape_id (vals d) = keys d" by (auto simp: counts_current_def)
  have "distinct (map ss_shape_id (vals d))" unfolding ids using d by (simp only: counts_current_def)
  moreover have "ss_shape_id ` set (vals d) = cr_shape_id ` set cs"
    unfolding set_map [symmetric] ids using d by (simp only: counts_current_def set_map)
  moreover have "\<forall>s \<in> set (vals d). counts_calls (of_shape (ss_shape_id s) cs) s"
    using d by (auto simp: counts_current_def)
  ultimately show ?thesis by (simp add: counts_period_def)
qed

lemma set_update_distinct:
  "distinct (keys d) \<Longrightarrow> set (AList.update k v d) = insert (k, v) {(j, w) \<in> set d. j \<noteq> k}"
proof (induction d)
  case (Cons p d)
  obtain j w where p: "p = (j, w)" by (cases p)
  show ?case
  proof (cases "j = k")
    case True
    then have "\<forall>w'. (k, w') \<notin> set d" using Cons.prems p by force
    then show ?thesis using True p by auto
  next
    case False
    then show ?thesis using Cons p by auto
  qed
qed simp

lemma counts_current_call:
  assumes "counts_current cs d"
  shows "counts_current (cs @ [c])
    (AList.update (cr_shape_id c) (stats_record c (case map_of d (cr_shape_id c) of None \<Rightarrow> new_stats site c | Some s \<Rightarrow> s)) d)"
proof -
  let ?i = "cr_shape_id c"
  let ?s = "stats_record c (case map_of d ?i of None \<Rightarrow> new_stats site c | Some s \<Rightarrow> s)"
  have d: "distinct (keys d)" "set (keys d) = cr_shape_id ` set cs" "\<And>i s. (i, s) \<in> set d \<Longrightarrow> ss_shape_id s = i \<and> counts_calls (of_shape i cs) s"
    using assms by (auto simp: counts_current_def)
  have "ss_shape_id ?s = ?i \<and> counts_calls (of_shape ?i (cs @ [c])) ?s"
  proof (cases "map_of d ?i")
    case None
    then have "?i \<notin> cr_shape_id ` set cs" unfolding d(2) [symmetric] by (simp add: map_of_eq_None_iff)
    then have "of_shape ?i cs = []" by (metis (mono_tags, lifting) filter_False image_eqI of_shape_def)
    then have "of_shape ?i (cs @ [c]) = [c]" by (simp add: of_shape_def)
    then show ?thesis using None counts_calls_first by simp
  next
    case (Some s)
    have "of_shape ?i (cs @ [c]) = of_shape ?i cs @ [c]" by (simp add: of_shape_def)
    then show ?thesis using d(3) [OF map_of_SomeD [OF Some]] Some counts_calls_next by simp
  qed
  moreover have "of_shape i (cs @ [c]) = of_shape i cs" if "i \<noteq> ?i" for i using that by (simp add: of_shape_def)
  ultimately show ?thesis
    unfolding counts_current_def set_update_distinct [OF d(1)] using d by (auto simp: distinct_update dom_update)
qed

section \<open>Nothing is lost but what is said to be\<close>

lemma reports_append [simp]: "reports (xs @ ys) = reports xs @ reports ys" "reports [] = []"
  by (simp_all add: reports_def)

lemma reports_one [simp]:
  "reports [Called site now c] = [c]" "reports [FannedOut g mat ns failed] = []" "reports [Sampled now g t s] = []"
  "reports [Rolled a b] = []" "reports [MarkedIncomplete] = []" "reports [Acknowledged n] = []"
  by (simp_all add: reports_def)

text \<open>A period is the operations since the last window.\<close>

definition in_period :: "recorder_op list \<Rightarrow> recorder \<Rightarrow> bool" where
  "in_period xs r \<longleftrightarrow> counts_current (reports xs) (rc_current r) \<and> (rc_incomplete r \<longleftrightarrow> MarkedIncomplete \<in> set xs)"

definition covers :: "recorder_op list \<Rightarrow> window \<Rightarrow> bool" where
  "covers xs w \<longleftrightarrow> counts_period (reports xs) (wi_shapes w) \<and> (wi_complete w \<longleftrightarrow> MarkedIncomplete \<notin> set xs)"

lemma count_write_current [simp]:
  "rc_current (count_write now c r) = rc_current r" "rc_incomplete (count_write now c r) = rc_incomplete r"
  "rc_windows (count_write now c r) = rc_windows r" "rc_max_windows (count_write now c r) = rc_max_windows r"
  "rc_dropped (count_write now c r) = rc_dropped r"
  by (simp_all add: count_write_def Let_def)

lemma record_storage_keeps [simp]:
  "rc_current (record_storage now g t sec r) = rc_current r" "rc_incomplete (record_storage now g t sec r) = rc_incomplete r"
  "rc_windows (record_storage now g t sec r) = rc_windows r" "rc_max_windows (record_storage now g t sec r) = rc_max_windows r"
  "rc_dropped (record_storage now g t sec r) = rc_dropped r"
  by (simp_all add: record_storage_def Let_def)

lemma record_op_period:
  assumes "in_period xs r" "record_op x r = (ws, r')"
  shows "ws = [] \<and> in_period (xs @ [x]) r' \<or> (\<exists>w. ws = [w] \<and> covers (xs @ [x]) w \<and> in_period [] r')"
proof (cases x)
  case (Called site now c)
  then show ?thesis
    using assms counts_current_call [of "reports xs" "rc_current r" c site] by (auto simp: in_period_def record_call_def Let_def)
next
  case (Rolled ended restarted)
  have empty: "counts_current [] []" by (simp add: counts_current_def)
  show ?thesis
  proof (cases "rc_current r = [] \<and> rc_fanned r = []")
    case True
    then show ?thesis using assms Rolled by (auto simp: in_period_def roll_def)
  next
    case False
    obtain w where "fst (roll ended restarted r) = Some w" "wi_shapes w = vals (rc_current r)" "wi_complete w = (\<not> rc_incomplete r)"
      using False by (simp add: roll_def Let_def)
    moreover have "rc_current (snd (roll ended restarted r)) = []" "\<not> rc_incomplete (snd (roll ended restarted r))"
      using False by (auto simp: roll_def Let_def)
    ultimately show ?thesis using assms Rolled empty counts_current_period by (auto simp: in_period_def covers_def split: prod.splits)
  qed
qed (use assms in \<open>auto simp: in_period_def record_fan_out_def mark_incomplete_def acknowledge_def Let_def\<close>)

lemma run_recorder_periods:
  assumes "in_period ps r" "run_recorder xs r = (ws, r')"
  shows "\<exists>periods now. concat periods @ now = ps @ xs \<and> list_all2 covers periods ws \<and> in_period now r'"
  using assms
proof (induction xs arbitrary: ps r ws)
  case Nil
  then show ?case by (intro exI [of _ "[]"] exI [of _ ps]) simp
next
  case (Cons x xs)
  obtain us r1 where one: "record_op x r = (us, r1)" by (cases "record_op x r")
  obtain vs where rest: "run_recorder xs r1 = (vs, r')" "ws = us @ vs"
    using Cons.prems(2) one by (cases "run_recorder xs r1") auto
  from record_op_period [OF Cons.prems(1) one] show ?case
  proof
    assume "us = [] \<and> in_period (ps @ [x]) r1"
    then show ?thesis using Cons.IH [of "ps @ [x]" r1 vs] rest by simp
  next
    assume "\<exists>w. us = [w] \<and> covers (ps @ [x]) w \<and> in_period [] r1"
    then obtain w where w: "us = [w]" "covers (ps @ [x]) w" "in_period [] r1" by blast
    from Cons.IH [OF w(3) rest(1)] obtain periods now where "concat periods @ now = xs" "list_all2 covers periods vs" "in_period now r'" by auto
    then show ?thesis using w(1,2) rest(2) by (intro exI [of _ "(ps @ [x]) # periods"] exI [of _ now]) simp
  qed
qed

text \<open>The buffer holds the last windows and counts the ones it dropped.\<close>

lemma push_window_spec:
  "suffix (push_window n w ws) (ws @ [w])"
  "length ws \<le> n \<Longrightarrow> length (push_window n w ws) = (if length ws = n then n else length ws + 1)"
  unfolding push_window_def by (rule suffix_drop) (cases n; auto)

lemma record_op_buffer:
  assumes "length (rc_windows r) \<le> rc_max_windows r" "record_op x r = (ws, r')"
  shows "suffix (rc_windows r') (rc_windows r @ ws) \<and> length (rc_windows r') \<le> rc_max_windows r' \<and> rc_max_windows r' = rc_max_windows r \<and>
    (x \<notin> range Acknowledged \<longrightarrow> length (rc_windows r') + rc_dropped r' = length (rc_windows r) + rc_dropped r + length ws)"
proof (cases x)
  case (Rolled ended restarted)
  then show ?thesis using assms by (auto simp: roll_def push_window_spec Let_def simp del: suffix_snoc split: if_splits)
qed (use assms in \<open>auto simp: record_call_def record_fan_out_def mark_incomplete_def acknowledge_def Let_def suffix_drop\<close>)

lemma run_recorder_buffer:
  assumes "length (rc_windows r) \<le> rc_max_windows r" "run_recorder xs r = (ws, r')"
  shows "suffix (rc_windows r') (rc_windows r @ ws) \<and> length (rc_windows r') \<le> rc_max_windows r' \<and> rc_max_windows r' = rc_max_windows r \<and>
    (set xs \<inter> range Acknowledged = {} \<longrightarrow> length (rc_windows r') + rc_dropped r' = length (rc_windows r) + rc_dropped r + length ws)"
  using assms
proof (induction xs arbitrary: r ws)
  case (Cons x xs)
  obtain us r1 where one: "record_op x r = (us, r1)" by (cases "record_op x r")
  obtain vs where rest: "run_recorder xs r1 = (vs, r')" "ws = us @ vs"
    using Cons.prems(2) one by (cases "run_recorder xs r1") auto
  note step = record_op_buffer [OF Cons.prems(1) one]
  note later = Cons.IH [OF _ rest(1)]
  have "suffix (rc_windows r1 @ vs) ((rc_windows r @ us) @ vs)" using step by (auto simp: suffix_def)
  then have "suffix (rc_windows r') (rc_windows r @ ws)" using step later rest(2) by (auto intro: suffix_order.trans)
  then show ?case using step later rest(2) by auto
qed simp


definition sample_call :: "string \<Rightarrow> int \<Rightarrow> bool \<Rightarrow> recorder_op" where
  "sample_call kind ns failed =
     Called None 0 \<lparr>cr_shape_id = lit kind, cr_group = lit ''g'', cr_entity = lit ''E'', cr_kind = lit kind, cr_nanoseconds = ns, cr_rows = 1,
       cr_failed = failed, cr_predicates = None, cr_examined = 0, cr_searched = None\<rparr>"

definition sample_ops_run :: "recorder_op list" where
  "sample_ops_run =
     [sample_call ''write'' 1500 False, sample_call ''write'' 900 True, Rolled 5 5, MarkedIncomplete, sample_call ''point_read'' 70 False, Rolled 9 9]"


section \<open>Features of recorded windows\<close>

lemma ratio_share: "a \<le> b \<Longrightarrow> 0 \<le> ratio a b \<and> ratio a b \<le> 1"
proof -
  assume "a \<le> b"
  then have "(of_nat a / of_nat b :: rat) \<le> of_int 1" by (cases "b = 0") (auto simp: divide_le_eq)
  then show ?thesis using to_double_le [of "of_nat a / of_nat b" 1] to_double_nonneg by (simp add: ratio_def)
qed

lemma sum_filter_le: "sum_list (map h (filter P xs)) \<le> (sum_list (map h xs) :: nat)"
  by (induction xs) auto

definition stats_ok :: "shape_stats \<Rightarrow> bool" where
  "stats_ok s \<longleftrightarrow> ss_errors s \<le> ss_calls s \<and> sum_list (vals (ss_filtered s)) \<le> ss_calls s"

lemma counts_calls_ok: "counts_calls cs s \<Longrightarrow> stats_ok s"
  by (auto simp: counts_calls_def stats_ok_def)

lemma time_filtered_total:
  assumes "\<forall>s \<in> set ss. stats_ok s" "fold (time_filtered_step tf rf) ss (n, known) = (m, known')"
  shows "m \<le> n + sum_list (map ss_calls ss)"
  using assms
proof (induction ss arbitrary: n known)
  case (Cons s ss)
  obtain n1 known1 where step: "time_filtered_step tf rf s (n, known) = (n1, known1)" by (cases "time_filtered_step tf rf s (n, known)")
  let ?T = "case map_of tf (ss_entity s) of None \<Rightarrow> [] | Some ts \<Rightarrow> ts" and ?all = "sum_list (map snd (ss_filtered s))"
  let ?hits = "sum_list (map snd (filter (\<lambda>((equal, ranged), _). ranged \<in> set ?T \<or> set ?T \<inter> set equal \<noteq> {}) (ss_filtered s)))"
  have "?hits \<le> ?all" by (rule sum_filter_le)
  moreover have "?all \<le> ss_calls s" using Cons.prems(1) by (simp add: stats_ok_def)
  moreover have "n1 = n + ?hits \<or> n1 = n + ?hits + (ss_calls s - ?all)"
    using arg_cong [OF step, of fst] unfolding time_filtered_step_def Let_def prod.case
    by (simp only: fst_conv split: if_splits option.splits) auto
  ultimately have "n1 \<le> n + ss_calls s" by linarith
  then show ?case using Cons.IH [of n1 known1] Cons.prems step by auto
qed simp

lemma sum_split: "sum_list (map h (filter P xs)) + sum_list (map h (filter (\<lambda>x. \<not> P x) xs)) = (sum_list (map h xs) :: nat)"
  by (induction xs) auto

lemma mix_total:
  assumes "distinct (keys d)"
  shows "distinct (keys (fold (\<lambda>s. bump (ss_kind s) (ss_calls s)) ss d)) \<and>
    sum_list (vals (fold (\<lambda>s. bump (ss_kind s) (ss_calls s)) ss d)) = sum_list (vals d) + sum_list (map ss_calls ss)"
  using assms by (induction ss arbitrary: d) (auto simp: sum_bump distinct_bump)

lemma features_shares:
  assumes "records = filter (\<lambda>s. ss_group s = g) (wi_shapes w)" "records \<noteq> []" "calls = sum_list (map ss_calls records)"
  shows "gf_pk_access_share (features w g ht tf rf) =
      (if calls = 0 then None else Some (ratio (sum_list (map ss_calls (filter (\<lambda>s. ss_kind s = lit ''point_read'') records))) calls))"
    "gf_error_share (features w g ht tf rf) = (if calls = 0 then None else Some (ratio (sum_list (map ss_errors records)) calls))"
    "gf_shape_mix (features w g ht tf rf) = (if calls = 0 then []
      else map (\<lambda>(k, hits). (k, ratio hits calls)) (sort_key fst (fold (\<lambda>s. bump (ss_kind s) (ss_calls s)) records [])))"
    "gf_time_filtered_share (features w g ht tf rf) = (case tf of None \<Rightarrow> None | Some f \<Rightarrow> if calls = 0 then None
      else (case fold (time_filtered_step f rf) records (0, True) of (filtered, known) \<Rightarrow> if known then Some (ratio filtered calls) else None))"
proof -
  obtain total_bytes index_ratio growth where storage: "storage_features w g = (total_bytes, index_ratio, growth)"
    by (cases "storage_features w g")
  note run = features_def Let_def storage prod.case assms(1) [symmetric] if_not_P [OF assms(2)] with_missing_def sum_split assms(3) [symmetric]
  show "gf_pk_access_share (features w g ht tf rf) =
      (if calls = 0 then None else Some (ratio (sum_list (map ss_calls (filter (\<lambda>s. ss_kind s = lit ''point_read'') records))) calls))"
    unfolding run by simp
  show "gf_error_share (features w g ht tf rf) = (if calls = 0 then None else Some (ratio (sum_list (map ss_errors records)) calls))"
    unfolding run by simp
  show "gf_shape_mix (features w g ht tf rf) = (if calls = 0 then []
      else map (\<lambda>(k, hits). (k, ratio hits calls)) (sort_key fst (fold (\<lambda>s. bump (ss_kind s) (ss_calls s)) records [])))"
    unfolding run by simp
  show "gf_time_filtered_share (features w g ht tf rf) = (case tf of None \<Rightarrow> None | Some f \<Rightarrow> if calls = 0 then None
      else (case fold (time_filtered_step f rf) records (0, True) of (filtered, known) \<Rightarrow> if known then Some (ratio filtered calls) else None))"
    unfolding run by simp
qed

lemma no_features_shares:
  assumes "filter (\<lambda>s. ss_group s = g) (wi_shapes w) = []"
  shows "gf_pk_access_share (features w g ht tf rf) = None" "gf_error_share (features w g ht tf rf) = None"
    "gf_shape_mix (features w g ht tf rf) = []" "gf_time_filtered_share (features w g ht tf rf) = None"
  using assms by (simp_all add: features_def Let_def with_missing_def no_features_def)

lemma shares_bounded:
  assumes "\<forall>s \<in> set (wi_shapes w). stats_ok s" "f = features w g ht tf rf"
  shows "(\<forall>x \<in> set_option (gf_pk_access_share f) \<union> set_option (gf_error_share f) \<union> set_option (gf_time_filtered_share f) \<union>
      snd ` set (gf_shape_mix f). 0 \<le> x \<and> x \<le> 1)"
proof (cases "filter (\<lambda>s. ss_group s = g) (wi_shapes w) = []")
  case True
  then show ?thesis unfolding assms(2) no_features_shares [OF True] by simp
next
  case False
  define records where "records = filter (\<lambda>s. ss_group s = g) (wi_shapes w)"
  define calls where "calls = sum_list (map ss_calls records)"
  have ok: "\<forall>s \<in> set records. stats_ok s" using assms(1) by (simp add: records_def)
  note eqs = features_shares [OF records_def False [folded records_def] calls_def, of ht tf rf, folded assms(2)]
  have "sum_list (map ss_errors records) \<le> calls"
    using ok unfolding calls_def by (intro sum_list_mono) (simp add: stats_ok_def)
  moreover have "m \<le> calls" if "fold (time_filtered_step tf' rf) records (0, True) = (m, known)" for tf' m known
    using time_filtered_total [OF ok that] by (simp add: calls_def)
  moreover have "hits \<le> calls" if "(k, hits) \<in> set (fold (\<lambda>s. bump (ss_kind s) (ss_calls s)) records [])" for k hits
    using mix_total [of "[]" records] member_le_sum_list [of hits "vals (fold (\<lambda>s. bump (ss_kind s) (ss_calls s)) records [])"] that
    by (force simp: calls_def)
  moreover have "sum_list (map ss_calls (filter P records)) \<le> calls" for P unfolding calls_def by (rule sum_filter_le)
  ultimately show ?thesis
    unfolding eqs using ratio_share by (auto split: option.splits if_splits prod.splits)
qed



end
