(* ===== verification/Search.thy ===== *)
theory Search
  imports Pages Session
begin

text \<open>
  Full-text search (\<open>search.py\<close>, \<open>Session.search\<close>): what a token is, when a row matches, and the loop
  that asks an engine for candidates and examines each of them. The tables of Unicode, the lower case of
  one character and its composition are given as a record; the engine of the group is a source of
  candidates, with an index of its own or without one.
\<close>

section \<open>Tokens\<close>

record text_tables =
  tt_word :: "nat \<Rightarrow> bool"
  tt_lower :: "nat \<Rightarrow> ustring"
  tt_nfc :: "ustring \<Rightarrow> ustring"

definition MAX_SEARCH_LIMIT :: nat where
  "MAX_SEARCH_LIMIT = 1000"

definition DEFAULT_MAX_EXAMINED :: nat where
  "DEFAULT_MAX_EXAMINED = 100000"

definition MAX_EXAMINED :: nat where
  "MAX_EXAMINED = 1000000"

definition fold_char :: "text_tables \<Rightarrow> nat \<Rightarrow> nat" where
  "fold_char u c = (if c = 304 then 105 else case tt_lower u c of [l] \<Rightarrow> l | _ \<Rightarrow> c)"

definition fold_token :: "text_tables \<Rightarrow> ustring \<Rightarrow> ustring" where
  "fold_token u token = map (fold_char u) token"

text \<open>The loop of \<open>tokens\<close>: the characters of the token that is open, folded.\<close>

fun split_tokens :: "text_tables \<Rightarrow> ustring \<Rightarrow> ustring \<Rightarrow> ustring list" where
  "split_tokens u current [] = (if current = [] then [] else [current])"
| "split_tokens u current (c # cs) =
     (if tt_word u c then split_tokens u (current @ [fold_char u c]) cs
      else if current \<noteq> [] then current # split_tokens u [] cs
      else split_tokens u [] cs)"

definition tokens :: "text_tables \<Rightarrow> ustring \<Rightarrow> ustring list" where
  "tokens u s = split_tokens u [] (tt_nfc u s)"

datatype search_error =
    SearchRefused string
  | SearchQuery query_error
  | SearchSession session_error

definition query_tokens :: "text_tables \<Rightarrow> cell \<Rightarrow> search_error + ustring list" where
  "query_tokens u v =
     (case v of
        CStr s \<Rightarrow>
          (let found = sort (remdups (tokens u s))
           in if found = [] then Inl (SearchRefused ''the query has no token'') else Inr found)
      | _ \<Rightarrow> Inl (SearchRefused ''a search query is text''))"

definition present_tokens :: "text_tables \<Rightarrow> cell row \<Rightarrow> ustring \<Rightarrow> ustring list" where
  "present_tokens u row name = (case row_get CNone row name of CStr s \<Rightarrow> tokens u s | _ \<Rightarrow> [])"

definition matches :: "text_tables \<Rightarrow> cell row \<Rightarrow> ustring list \<Rightarrow> ustring list \<Rightarrow> bool" where
  "matches u row query names \<longleftrightarrow>
     list_all (\<lambda>token. list_ex (\<lambda>name. token \<in> set (present_tokens u row name)) names) query"

section \<open>What a search looks in\<close>

definition string_cell :: "cell \<Rightarrow> ustring option" where
  "string_cell v = (case v of CStr s \<Rightarrow> Some s | _ \<Rightarrow> None)"

definition search_fields :: "entity_spec \<Rightarrow> cell \<Rightarrow> search_error + ustring list" where
  "search_fields spec given =
     (let texts = sort (map fname (filter (\<lambda>f. ftype f = lit ''string'') (efields spec)))
      in if texts = [] then Inl (SearchRefused ''the entity has no field of type string'')
         else case given of
                CNone \<Rightarrow> Inr texts
              | CList names \<Rightarrow>
                  if names = [] \<or> None \<in> set (map string_cell names)
                  then Inl (SearchRefused ''fields must be a non-empty list of text field names'')
                  else
                    (let chosen = sort (remdups (map (the \<circ> string_cell) names))
                     in if \<not> set chosen \<subseteq> fname ` set (efields spec) then Inl (SearchRefused ''the entity declares no such field'')
                        else if \<not> set chosen \<subseteq> set texts then Inl (SearchRefused ''a search looks in fields of type string only'')
                        else Inr chosen)
              | _ \<Rightarrow> Inl (SearchRefused ''fields must be a non-empty list of text field names''))"

definition bounded_int :: "nat \<Rightarrow> string \<Rightarrow> cell \<Rightarrow> search_error + nat" where
  "bounded_int most why v =
     (case v of CInt i \<Rightarrow> if 1 \<le> i \<and> i \<le> int most then Inr (nat i) else Inl (SearchRefused why) | _ \<Rightarrow> Inl (SearchRefused why))"

text \<open>\<open>_read_projection\<close>: the routed copy holds every column the query needs.\<close>

definition read_projection :: "ustring list \<Rightarrow> read_plan \<Rightarrow> bool \<Rightarrow> query_error + unit" where
  "read_projection available p is_count =
     require (set (map (rc_name \<circ> rf_column) (rp_filters p)) \<union> (if is_count then {} else set (map rc_name (rp_columns p))) \<subseteq> set available)
       (QueryRefused ''the routed materialization does not contain every field this query needs'')"

section \<open>Candidates\<close>

text \<open>An adapter: the reason it refuses a search for, its text index and its pages, when it has them.\<close>

record text_source =
  tx_refusal :: ustring
  tx_search_rows :: "(ustring \<Rightarrow> read_plan \<Rightarrow> ustring list \<Rightarrow> ustring list \<Rightarrow> search_error + cell row list) option"
  tx_select_rows :: "(ustring \<Rightarrow> read_plan \<Rightarrow> search_error + cell row list) option"

definition search_engine :: "text_source \<Rightarrow> search_error + unit" where
  "search_engine source =
     (if tx_refusal source \<noteq> [] then Inl (SearchRefused ''the adapter names a reason'')
      else require (tx_search_rows source \<noteq> None \<or> tx_select_rows source \<noteq> None)
             (SearchRefused ''this adapter supports neither a text index nor logical reads''))"

text \<open>The candidates of one page, examined until the page is full or the bound is reached.\<close>

fun examine ::
  "(cell row \<Rightarrow> bool) \<Rightarrow> nat \<Rightarrow> nat \<Rightarrow> cell row list \<Rightarrow> nat \<Rightarrow> nat \<Rightarrow> cell row list \<Rightarrow> cell row list \<times> nat \<times> nat option" where
  "examine hit limit bound found examined index [] = (found, examined, None)"
| "examine hit limit bound found examined index (row # rows) =
     (let examined' = examined + 1; found' = (if hit row then found @ [row] else found)
      in if length found' = limit \<or> examined' = bound then (found', examined', Some index)
         else examine hit limit bound found' examined' (index + 1) rows)"

lemma examine_all: "examine hit limit bound found examined index rows = (found', examined', None) \<Longrightarrow> examined' = examined + length rows"
  by (induction rows arbitrary: found examined index) (simp, fastforce simp: Let_def split: if_splits)

definition asked_limit :: "bool \<Rightarrow> nat \<Rightarrow> nat \<Rightarrow> nat \<Rightarrow> nat \<Rightarrow> nat" where
  "asked_limit indexed limit bound n_found examined =
     min MAX_PAGE_ROWS (if indexed then min (bound - examined) (limit - n_found) else bound - examined)"

lemma bound_decreases: "0 < w \<Longrightarrow> w \<le> b - e \<Longrightarrow> b - (e + w) < b - (e :: nat)"
  by simp

lemma least_middle: "min a (min b c) \<le> (b :: nat)"
  by simp

function search_loop ::
  "(read_plan \<Rightarrow> search_error + cell row list) \<Rightarrow> bool \<Rightarrow> (cell row \<Rightarrow> bool) \<Rightarrow> nat \<Rightarrow> nat \<Rightarrow> read_plan \<Rightarrow> cell row list \<Rightarrow> nat \<Rightarrow>
     search_error + cell row list \<times> cell row option \<times> nat" where
  "search_loop ask indexed hit limit bound p found examined =
     (let p' = p\<lparr>rp_limit := asked_limit indexed limit bound (length found) examined\<rparr>
      in and_then (ask p') (\<lambda>rows.
        let candidates = take (rp_limit p') rows; rest = length rows > rp_limit p'
        in case examine hit limit bound found examined 0 candidates of
             (found', examined', Some stopped) \<Rightarrow>
               Inr (found', if rest \<or> stopped < length candidates - 1 then Some (candidates ! stopped) else None, examined')
           | (found', examined', None) \<Rightarrow>
               if \<not> rest \<or> candidates = [] then Inr (found', None, examined')
               else and_then (map_sum SearchQuery id
                   (traverse (\<lambda>c. query_value (rc_type c) (row_get CNone (last candidates) (rc_name c))) (rp_order p'))) (\<lambda>position.
                 search_loop ask indexed hit limit bound (p'\<lparr>rp_after := Some position\<rparr>) found' examined')))"
  by pat_completeness auto
termination
  by (relation "measure (\<lambda>(ask, indexed, hit, limit, bound, p, found, examined). bound - examined)")
    (auto dest!: examine_all [OF sym] simp: asked_limit_def Let_def intro!: bound_decreases least_middle)

declare search_loop.simps [simp del]

text \<open>The page of a search.\<close>

record search_page =
  sr_rows :: "cell row list"
  sr_next_after :: "(ustring, cell) dict option"
  sr_examined :: nat

definition search_args :: "(ustring, cell) dict option \<Rightarrow> read_args" where
  "search_args after =
     \<lparr>ra_where = None, ra_bounds = None, ra_order_by = None, ra_descending = CBool False, ra_after = after,
      ra_limit = CInt (int MAX_PAGE_ROWS), ra_paginate = True\<rparr>"

text \<open>
  \<open>Session.search\<close>; \<open>prepared\<close> is the entity with the columns of its group and \<open>routed\<close> what the shape of
  the search resolves to: the adapter, the table and the columns of the copy.
\<close>

definition search ::
  "text_tables \<Rightarrow> search_error + read_column list \<times> entity_spec \<Rightarrow>
     search_error + text_source \<times> (search_error + ustring) \<times> ustring list \<Rightarrow>
     cell \<Rightarrow> cell \<Rightarrow> (ustring, cell) dict option \<Rightarrow> cell \<Rightarrow> cell \<Rightarrow> search_error + search_page" where
  "search u prepared routed s flds after limit bound =
     and_then (bounded_int MAX_SEARCH_LIMIT ''limit must be an integer between 1 and 1000'' limit) (\<lambda>limit.
     and_then (bounded_int MAX_EXAMINED ''max_examined must be an integer between 1 and 1000000'' bound) (\<lambda>bound.
     and_then (query_tokens u s) (\<lambda>query.
     and_then prepared (\<lambda>(cols, spec).
     and_then (map_sum SearchQuery id (plan_read cols (ekey spec) (search_args after))) (\<lambda>p.
     and_then (search_fields spec flds) (\<lambda>chosen.
     and_then routed (\<lambda>(source, laid, available).
     and_then (map_sum SearchQuery id (read_projection available p False)) (\<lambda>_.
     and_then laid (\<lambda>table.
     and_then (search_engine source) (\<lambda>_.
     and_then
       (case (tx_search_rows source, tx_select_rows source) of
          (Some by_index, _) \<Rightarrow> search_loop (\<lambda>p. by_index table p query chosen) True (\<lambda>row. matches u row query chosen) limit bound p [] 0
        | (None, Some by_page) \<Rightarrow> search_loop (by_page table) False (\<lambda>row. matches u row query chosen) limit bound p [] 0
        | (None, None) \<Rightarrow> Inl (SearchRefused ''this adapter does not support logical reads'')) (\<lambda>(found, position, examined).
       Inr \<lparr>sr_rows = found,
            sr_next_after = map_option (\<lambda>row. map (\<lambda>c. (rc_name c, row_get CNone row (rc_name c))) (rp_order p)) position,
            sr_examined = examined\<rparr>)))))))))))"

text \<open>\<open>_prepare_read\<close> and \<open>_target\<close> of a session: the source of the group is always the one that is searched.\<close>

definition prepared_entity :: "session \<Rightarrow> ustring \<Rightarrow> search_error + read_column list \<times> entity_spec" where
  "prepared_entity se entity =
     (case entity_of (se_model se) entity of
        None \<Rightarrow> Inl (SearchQuery (QueryRefused ''query refers to an entity this model does not declare''))
      | Some spec \<Rightarrow>
          (case group_of (se_groups se) entity of
             Inl _ \<Rightarrow> Inl (SearchSession SessionKeyError)
           | Inr g \<Rightarrow>
               (case neutral_columns (se_model se) g of
                  Inl _ \<Rightarrow> Inl (SearchSession SessionKeyError)
                | Inr cols \<Rightarrow>
                    (case map_of cols entity of
                       None \<Rightarrow> Inl (SearchSession SessionKeyError)
                     | Some cs \<Rightarrow> Inr (map (\<lambda>(n, kind). \<lparr>rc_name = n, rc_type = kind\<rparr>) (sort_key fst cs), spec)))))"

definition search_target ::
  "session \<Rightarrow> 'e session_state \<Rightarrow> ('e \<Rightarrow> text_source) \<Rightarrow> ustring \<Rightarrow> search_error + text_source \<times> (search_error + ustring) \<times> ustring list" where
  "search_target se st reads entity =
     map_sum SearchSession id
       (and_then (shape_of se entity SEARCH []) (\<lambda>s.
        and_then (target_of se st s False) (\<lambda>(e, mat).
          Inr (reads e, map_sum SearchSession id (in_map (table_for (mat_layout mat) entity)),
               case map_of (columns (mat_layout mat)) entity of None \<Rightarrow> [] | Some cs \<Rightarrow> keys cs))))"

definition session_search ::
  "text_tables \<Rightarrow> session \<Rightarrow> 'e session_state \<Rightarrow> ('e \<Rightarrow> text_source) \<Rightarrow> ustring \<Rightarrow> cell \<Rightarrow> cell \<Rightarrow> (ustring, cell) dict option \<Rightarrow>
     cell \<Rightarrow> cell \<Rightarrow> search_error + search_page" where
  "session_search u se st reads entity s flds after limit bound =
     search u (prepared_entity se entity) (search_target se st reads entity) s flds after limit bound"

section \<open>Tokens are the maximal runs of letters and digits\<close>

definition maximal_run :: "(nat \<Rightarrow> bool) \<Rightarrow> ustring \<Rightarrow> ustring \<Rightarrow> bool" where
  "maximal_run word s run \<longleftrightarrow>
     (\<exists>pre post. s = pre @ run @ post \<and> run \<noteq> [] \<and> list_all word run \<and>
        (pre = [] \<or> \<not> word (last pre)) \<and> (post = [] \<or> \<not> word (hd post)))"

lemma maximal_run_skip:
  assumes "\<not> word c"
  shows "maximal_run word (c # cs) run \<longleftrightarrow> maximal_run word cs run"
proof
  assume "maximal_run word (c # cs) run"
  then obtain pre post where r: "c # cs = pre @ run @ post" "run \<noteq> []" "list_all word run"
    "pre = [] \<or> \<not> word (last pre)" "post = [] \<or> \<not> word (hd post)" unfolding maximal_run_def by blast
  then obtain pre' where "pre = c # pre'" using assms by (cases pre; cases run) auto
  then show "maximal_run word cs run"
    unfolding maximal_run_def using r by (intro exI [of _ pre'] exI [of _ post]) (auto split: if_splits)
next
  assume "maximal_run word cs run"
  then obtain pre post where "cs = pre @ run @ post" "run \<noteq> []" "list_all word run"
    "pre = [] \<or> \<not> word (last pre)" "post = [] \<or> \<not> word (hd post)" unfolding maximal_run_def by blast
  then show "maximal_run word (c # cs) run"
    unfolding maximal_run_def using assms by (intro exI [of _ "c # pre"] exI [of _ post]) auto
qed

lemma takeWhile_run: "list_all word run \<Longrightarrow> post = [] \<or> \<not> word (hd post) \<Longrightarrow> takeWhile word (run @ post) = run"
  by (induction run) (cases post, auto)+

lemma maximal_run_first:
  assumes first: "first \<noteq> []" "list_all word first" and rest: "rest = [] \<or> \<not> word (hd rest)"
  shows "maximal_run word (first @ rest) run \<longleftrightarrow> run = first \<or> maximal_run word rest run"
proof
  assume "maximal_run word (first @ rest) run"
  then obtain pre post where r: "first @ rest = pre @ run @ post" "run \<noteq> []" "list_all word run"
    "pre = [] \<or> \<not> word (last pre)" "post = [] \<or> \<not> word (hd post)" unfolding maximal_run_def by blast
  from r(1) consider us where "first = pre @ us" | us where "pre = first @ us" "rest = us @ run @ post"
    by (auto simp: append_eq_append_conv2)
  then show "run = first \<or> maximal_run word rest run"
  proof cases
    case 1
    have "pre = []"
    proof (rule ccontr)
      assume "pre \<noteq> []"
      then have "word (last pre)" using 1 first(2) by (simp add: list_all_iff)
      then show False using r(4) \<open>pre \<noteq> []\<close> by simp
    qed
    then have "run = first" using takeWhile_run [OF r(3,5)] takeWhile_run [OF first(2) rest] r(1) by simp
    then show ?thesis by simp
  next
    case 2
    then show ?thesis unfolding maximal_run_def using r(2-5) by (intro disjI2 exI [of _ us] exI [of _ post]) (auto split: if_splits)
  qed
next
  assume "run = first \<or> maximal_run word rest run"
  then show "maximal_run word (first @ rest) run"
  proof
    assume "run = first"
    then show ?thesis unfolding maximal_run_def using first rest by (intro exI [of _ "[]"] exI [of _ rest]) simp
  next
    assume "maximal_run word rest run"
    then obtain pre post where r: "rest = pre @ run @ post" "run \<noteq> []" "list_all word run"
      "pre = [] \<or> \<not> word (last pre)" "post = [] \<or> \<not> word (hd post)" unfolding maximal_run_def by blast
    have "pre \<noteq> []" using rest r(1-3) by (cases run) auto
    then show ?thesis unfolding maximal_run_def using r by (intro exI [of _ "first @ pre"] exI [of _ post]) auto
  qed
qed

lemma split_tokens_open:
  "split_tokens u current cs =
     (let run = takeWhile (tt_word u) cs; token = current @ map (fold_char u) run
      in (if token = [] then [] else [token]) @ split_tokens u [] (dropWhile (tt_word u) cs))"
proof (induction cs arbitrary: current)
  case (Cons c cs)
  show ?case
  proof (cases "tt_word u c")
    case True
    then have "split_tokens u current (c # cs) = split_tokens u (current @ [fold_char u c]) cs" by simp
    also have "\<dots> = (current @ map (fold_char u) (takeWhile (tt_word u) (c # cs))) # split_tokens u [] (dropWhile (tt_word u) (c # cs))"
      using True by (subst Cons.IH) simp
    finally show ?thesis using True by simp
  next
    case False
    then show ?thesis by simp
  qed
qed simp

lemma split_tokens_runs: "set (split_tokens u [] cs) = fold_token u ` {run. maximal_run (tt_word u) cs run}"
proof (induction "length cs" arbitrary: cs rule: less_induct)
  case less
  show ?case
  proof (cases cs)
    case Nil
    then show ?thesis by (auto simp: maximal_run_def)
  next
    case (Cons c ds)
    show ?thesis
    proof (cases "tt_word u c")
      case True
      define first rest where parts: "first = takeWhile (tt_word u) cs" "rest = dropWhile (tt_word u) cs"
      have first: "first \<noteq> []" "list_all (tt_word u) first" using True Cons set_takeWhileD by (fastforce simp: parts list_all_iff)+
      have rest: "rest = [] \<or> \<not> tt_word u (hd rest)" using hd_dropWhile unfolding parts by blast
      have cs: "cs = first @ rest" by (simp add: parts)
      have "set (split_tokens u [] rest) = fold_token u ` {run. maximal_run (tt_word u) rest run}"
        using less [of rest] cs first(1) by simp
      then have "set (split_tokens u [] cs) = insert (fold_token u first) (fold_token u ` {run. maximal_run (tt_word u) rest run})"
        using first(1) by (subst split_tokens_open) (simp add: Let_def parts [symmetric] fold_token_def)
      moreover have "{run. maximal_run (tt_word u) cs run} = insert first {run. maximal_run (tt_word u) rest run}"
        unfolding cs maximal_run_first [OF first rest] by auto
      ultimately show ?thesis by simp
    next
      case False
      have "{run. maximal_run (tt_word u) cs run} = {run. maximal_run (tt_word u) ds run}"
        using maximal_run_skip [of "tt_word u" c ds] False Cons by auto
      then show ?thesis using less [of ds] Cons False by simp
    qed
  qed
qed

lemma split_tokens_Nil: "split_tokens u current cs = [] \<longleftrightarrow> current = [] \<and> (\<forall>c \<in> set cs. \<not> tt_word u c)"
  by (induction cs arbitrary: current) auto

lemma set_tokens: "set (tokens u s) = fold_token u ` {run. maximal_run (tt_word u) (tt_nfc u s) run}"
  by (simp add: tokens_def split_tokens_runs)

lemma sort_remdups_Nil: "sort (remdups xs) = [] \<longleftrightarrow> xs = []"
  by (metis remdups_eq_nil_iff set_empty set_sort)

lemma query_tokens_Inr: "query_tokens u (CStr s) = Inr query \<Longrightarrow> set query = set (tokens u s) \<and> query \<noteq> []"
  by (auto simp: query_tokens_def Let_def sort_remdups_Nil split: if_splits)

lemma in_present_tokens:
  "token \<in> set (present_tokens u row name) \<longleftrightarrow> (\<exists>held. row_get CNone row name = CStr held \<and> token \<in> set (tokens u held))"
  by (cases "row_get CNone row name") (auto simp: present_tokens_def)

text \<open>
  C30. A row matches a search exactly when every token of the query - every maximal run of letters and
  digits of its composed form, with each character folded - is also a token of one of the fields looked in.
  A query is refused exactly when it has no token.
\<close>

theorem matches_by_maximal_runs:
  "(query_tokens u (CStr s) = Inl (SearchRefused ''the query has no token'') \<longleftrightarrow> (\<forall>c \<in> set (tt_nfc u s). \<not> tt_word u c)) \<and>
   (\<forall>query. query_tokens u (CStr s) = Inr query \<longrightarrow>
      (matches u row query names \<longleftrightarrow>
         (\<forall>run. maximal_run (tt_word u) (tt_nfc u s) run \<longrightarrow>
            (\<exists>name \<in> set names. \<exists>held run'. row_get CNone row name = CStr held \<and>
               maximal_run (tt_word u) (tt_nfc u held) run' \<and> fold_token u run' = fold_token u run))))"
proof (intro conjI allI impI)
  show "query_tokens u (CStr s) = Inl (SearchRefused ''the query has no token'') \<longleftrightarrow> (\<forall>c \<in> set (tt_nfc u s). \<not> tt_word u c)"
    by (simp add: query_tokens_def Let_def sort_remdups_Nil tokens_def split_tokens_Nil)
  fix query assume "query_tokens u (CStr s) = Inr query"
  then have query: "set query = fold_token u ` {run. maximal_run (tt_word u) (tt_nfc u s) run}"
    using query_tokens_Inr set_tokens by metis
  show "matches u row query names \<longleftrightarrow>
         (\<forall>run. maximal_run (tt_word u) (tt_nfc u s) run \<longrightarrow>
            (\<exists>name \<in> set names. \<exists>held run'. row_get CNone row name = CStr held \<and>
               maximal_run (tt_word u) (tt_nfc u held) run' \<and> fold_token u run' = fold_token u run))"
    unfolding matches_def list_all_iff list_ex_iff query in_present_tokens set_tokens by (auto 0 4 simp: image_iff eq_commute)
qed

section \<open>Candidates in order\<close>

lemma examine_spec:
  assumes "examine hit limit bound found examined index rows = (found', examined', stop)" "length found < limit" "examined < bound"
  shows "\<exists>m \<le> length rows. found' = found @ filter hit (take m rows) \<and> examined' = examined + m \<and> length found' \<le> limit \<and> examined' \<le> bound \<and>
    (case stop of None \<Rightarrow> m = length rows \<and> length found' < limit \<and> examined' < bound
     | Some i \<Rightarrow> 1 \<le> m \<and> i + 1 = index + m \<and> (length found' = limit \<or> examined' = bound))"
  using assms
proof (induction rows arbitrary: found examined index)
  case (Cons row rows)
  define now where "now = (if hit row then found @ [row] else found)"
  show ?case
  proof (cases "length now = limit \<or> examined + 1 = bound")
    case True
    then have "found' = now" "examined' = examined + 1" "stop = Some index" using Cons.prems(1) by (auto simp: Let_def now_def)
    then show ?thesis using True Cons.prems(2,3) by (intro exI [of _ 1]) (auto simp: now_def)
  next
    case False
    have "examine hit limit bound now (examined + 1) (index + 1) rows = (found', examined', stop)"
      using False Cons.prems(1) unfolding examine.simps now_def Let_def by simp
    moreover have "length now < limit" "examined + 1 < bound" using False Cons.prems(2,3) by (auto simp: now_def split: if_splits)
    ultimately obtain m where m: "m \<le> length rows" "found' = now @ filter hit (take m rows)" "examined' = examined + 1 + m"
      "length found' \<le> limit" "examined' \<le> bound"
      "case stop of None \<Rightarrow> m = length rows \<and> length found' < limit \<and> examined' < bound
       | Some i \<Rightarrow> 1 \<le> m \<and> i + 1 = index + 1 + m \<and> (length found' = limit \<or> examined' = bound)"
      using Cons.IH by blast
    then show ?thesis by (intro exI [of _ "Suc m"]) (auto simp: now_def split: option.splits)
  qed
qed simp

text \<open>The plan that goes on after the first \<open>k\<close> rows.\<close>

definition after_row :: "read_plan \<Rightarrow> cell row list \<Rightarrow> nat \<Rightarrow> read_plan" where
  "after_row p rows k = p\<lparr>rp_after := if k = 0 then None else Some (map (cell_of (rows ! (k - 1))) (rp_order p))\<rparr>"

definition row_cursor :: "read_plan \<Rightarrow> cell row list \<Rightarrow> nat \<Rightarrow> (ustring, cell) dict option" where
  "row_cursor p rows k = (if k = 0 then None else Some (position_of (rp_order p) (rows ! (k - 1))))"

lemma after_row_simps [simp]:
  "rp_order (after_row p rows k) = rp_order p" "rp_columns (after_row p rows k) = rp_columns p"
  "rp_filters (after_row p rows k) = rp_filters p" "rp_descending (after_row p rows k) = rp_descending p"
  by (simp_all add: after_row_def)

text \<open>A reader follows the pages of a search.\<close>

fun search_all ::
  "nat \<Rightarrow> ((ustring, cell) dict option \<Rightarrow> search_error + search_page) \<Rightarrow> (ustring, cell) dict option \<Rightarrow> search_error + search_page list option" where
  "search_all 0 go after = Inr None"
| "search_all (Suc n) go after =
     and_then (go after) (\<lambda>page.
       case sr_next_after page of
         None \<Rightarrow> Inr (Some [page])
       | Some position \<Rightarrow> and_then (search_all n go (Some position)) (\<lambda>rest. Inr (map_option ((#) page) rest)))"

text \<open>
  What a search relies on: an engine that is asked again answers, in order and from where it was told to
  go on, the next of its candidates, one more than the limit of the plan if there are so many; and the
  values of a row it orders by can be sent back.
\<close>

locale candidate_source =
  fixes ask :: "'t \<Rightarrow> read_plan \<Rightarrow> search_error + cell row list"
    and plan_for :: "'t \<Rightarrow> read_plan"
    and ordered :: "'t \<Rightarrow> cell row list"
    and ready :: "'t \<Rightarrow> bool"
  assumes next_rows: "ready t \<Longrightarrow> k \<le> length (ordered t) \<Longrightarrow>
      ask t ((after_row (plan_for t) (ordered t) k)\<lparr>rp_limit := n\<rparr>) = Inr (take (n + 1) (drop k (ordered t)))"
    and readable: "ready t \<Longrightarrow> r \<in> set (ordered t) \<Longrightarrow> c \<in> set (rp_order (plan_for t)) \<Longrightarrow>
      query_value (rc_type c) (cell_of r c) = Inr (cell_of r c)"
begin

lemma loop_reads_on:
  assumes "ready t" "k \<le> length (ordered t)" "length found < limit" "examined < bound"
  shows "\<exists>m. search_loop (ask t) indexed hit limit bound ((after_row (plan_for t) (ordered t) k)\<lparr>rp_limit := l\<rparr>) found examined =
      Inr (found @ filter hit (take m (drop k (ordered t))),
           if k + m < length (ordered t) then Some (ordered t ! (k + m - 1)) else None, examined + m) \<and>
    k + m \<le> length (ordered t) \<and> (k < length (ordered t) \<longrightarrow> 1 \<le> m) \<and> examined + m \<le> bound \<and>
    length (found @ filter hit (take m (drop k (ordered t)))) \<le> limit \<and>
    (k + m < length (ordered t) \<longrightarrow> length (found @ filter hit (take m (drop k (ordered t)))) = limit \<or> examined + m = bound)"
  using assms(2-4)
proof (induction "bound - examined" arbitrary: k found examined l rule: less_induct)
  case less
  define n where "n = asked_limit indexed limit bound (length found) examined"
  define p where "p = (after_row (plan_for t) (ordered t) k)\<lparr>rp_limit := n\<rparr>"
  define here where "here = drop k (ordered t)"
  have n: "1 \<le> n" "n \<le> bound - examined" using less.prems by (auto simp: n_def asked_limit_def MAX_PAGE_ROWS_def)
  have asked: "ask t p = Inr (take (n + 1) here)" unfolding p_def here_def by (rule next_rows [OF assms(1) less.prems(1)])
  have pn: "rp_limit p = n" "rp_order p = rp_order (plan_for t)" by (simp_all add: p_def)
  obtain found' examined' stop where ex: "examine hit limit bound found examined 0 (take n here) = (found', examined', stop)"
    by (cases "examine hit limit bound found examined 0 (take n here)")
  then obtain m where m: "m \<le> length (take n here)" "found' = found @ filter hit (take m (take n here))" "examined' = examined + m"
    "length found' \<le> limit" "examined' \<le> bound"
    "case stop of None \<Rightarrow> m = length (take n here) \<and> length found' < limit \<and> examined' < bound
     | Some i \<Rightarrow> 1 \<le> m \<and> i + 1 = 0 + m \<and> (length found' = limit \<or> examined' = bound)"
    using examine_spec less.prems(2,3) by blast
  have mn: "m \<le> n" "k + m \<le> length (ordered t)" "found' = found @ filter hit (take m here)"
    using m(1,2) less.prems(1) by (auto simp: here_def min_def split: if_splits)
  have loop: "search_loop (ask t) indexed hit limit bound ((after_row (plan_for t) (ordered t) k)\<lparr>rp_limit := l\<rparr>) found examined =
    (case stop of
       Some i \<Rightarrow> Inr (found', if length (take (n + 1) here) > n \<or> i < length (take n here) - 1 then Some (take n here ! i) else None, examined')
     | None \<Rightarrow>
         if \<not> length (take (n + 1) here) > n \<or> take n here = [] then Inr (found', None, examined')
         else and_then (map_sum SearchQuery id
             (traverse (\<lambda>c. query_value (rc_type c) (cell_of (last (take n here)) c)) (rp_order (plan_for t)))) (\<lambda>position.
           search_loop (ask t) indexed hit limit bound (p\<lparr>rp_after := Some position\<rparr>) found' examined'))"
    using asked ex pn unfolding p_def
    by (subst search_loop.simps) (auto simp: Let_def n_def [symmetric] split: option.splits)
  show ?case
  proof (cases stop)
    case (Some i)
    have i: "i = m - 1" "1 \<le> m" "length found' = limit \<or> examined' = bound" using m(6) Some by auto
    have "(length (take (n + 1) here) > n \<or> i < length (take n here) - 1) \<longleftrightarrow> k + m < length (ordered t)"
      using i(1,2) mn by (auto simp: here_def min_def)
    moreover have "take n here ! i = ordered t ! (k + m - 1)" using i(1,2) mn by (simp add: here_def)
    ultimately show ?thesis
      using loop Some m(3-5) mn i by (intro exI [of _ m]) (simp add: here_def [symmetric])
  next
    case None
    then have none: "m = length (take n here)" "length found' < limit" "examined' < bound" using m(6) by auto
    show ?thesis
    proof (cases "length here > n")
      case False
      then have "m = length here" using none(1) by simp
      then show ?thesis using loop None False m(3-5) mn n less.prems(1)
        by (intro exI [of _ m]) (auto simp: here_def)
    next
      case True
      then have mm: "m = n" "take n here \<noteq> []" using none(1) n(1) by auto
      have lastrow: "last (take n here) = ordered t ! (k + n - 1)" "last (take n here) \<in> set (ordered t)"
      proof -
        show "last (take n here) = ordered t ! (k + n - 1)"
          using True mm(2) n(1) by (simp add: last_conv_nth here_def min_def)
        show "last (take n here) \<in> set (ordered t)" using last_in_set [OF mm(2)] unfolding here_def by (meson in_set_dropD in_set_takeD)
      qed
      have position: "traverse (\<lambda>c. query_value (rc_type c) (cell_of (last (take n here)) c)) (rp_order (plan_for t)) =
        Inr (map (cell_of (last (take n here))) (rp_order (plan_for t)))"
        using readable [OF assms(1) lastrow(2)] by (intro traverse_pure) simp
      have after: "p\<lparr>rp_after := Some (map (cell_of (last (take n here))) (rp_order (plan_for t)))\<rparr> =
        (after_row (plan_for t) (ordered t) (k + n))\<lparr>rp_limit := n\<rparr>"
        using n(1) unfolding p_def lastrow(1) after_row_def by simp
      have on: "search_loop (ask t) indexed hit limit bound ((after_row (plan_for t) (ordered t) k)\<lparr>rp_limit := l\<rparr>) found examined =
        search_loop (ask t) indexed hit limit bound ((after_row (plan_for t) (ordered t) (k + n))\<lparr>rp_limit := n\<rparr>) found' examined'"
        using loop None True mm(2) position after by simp
      have "bound - examined' < bound - examined" "k + n \<le> length (ordered t)" using m(3) mm(1) n(1) less.prems(3) mn(2) by auto
      from less.hyps [OF this none(2,3), of n] obtain m' where m': "search_loop (ask t) indexed hit limit bound
          ((after_row (plan_for t) (ordered t) (k + n))\<lparr>rp_limit := n\<rparr>) found' examined' =
        Inr (found' @ filter hit (take m' (drop (k + n) (ordered t))),
           if k + n + m' < length (ordered t) then Some (ordered t ! (k + n + m' - 1)) else None, examined' + m')"
        "k + n + m' \<le> length (ordered t)" "examined' + m' \<le> bound"
        "length (found' @ filter hit (take m' (drop (k + n) (ordered t)))) \<le> limit"
        "k + n + m' < length (ordered t) \<longrightarrow> length (found' @ filter hit (take m' (drop (k + n) (ordered t)))) = limit \<or> examined' + m' = bound"
        by blast
      have "found' @ filter hit (take m' (drop (k + n) (ordered t))) = found @ filter hit (take (n + m') (drop k (ordered t)))"
        unfolding mn(3) mm(1) here_def by (simp add: take_add add.commute [of n k])
      then show ?thesis using on m' m(3) mm(1) n(1) by (intro exI [of _ "n + m'"]) (simp add: add.assoc)
    qed
  qed
qed

lemma pages_read_on:
  assumes "ready t" "1 \<le> limit" "1 \<le> bound"
    and go: "\<And>k. k \<le> length (ordered t) \<Longrightarrow>
      go (row_cursor (plan_for t) (ordered t) k) =
        and_then (search_loop (ask t) indexed hit limit bound (after_row (plan_for t) (ordered t) k) [] 0) (\<lambda>(found, position, examined).
          Inr \<lparr>sr_rows = found, sr_next_after = map_option (position_of (rp_order (plan_for t))) position, sr_examined = examined\<rparr>)"
    and "k \<le> length (ordered t)" "length (ordered t) - k < n"
  shows "\<exists>pages. search_all n go (row_cursor (plan_for t) (ordered t) k) = Inr (Some pages) \<and>
    concat (map sr_rows pages) = filter hit (drop k (ordered t)) \<and>
    (\<forall>page \<in> set pages. length (sr_rows page) \<le> limit \<and> sr_examined page \<le> bound \<and>
       (sr_next_after page \<noteq> None \<longrightarrow> length (sr_rows page) = limit \<or> sr_examined page = bound))"
  using assms(5,6)
proof (induction n arbitrary: k)
  case (Suc n)
  have same: "(after_row (plan_for t) (ordered t) k)\<lparr>rp_limit := rp_limit (plan_for t)\<rparr> = after_row (plan_for t) (ordered t) k"
    by (simp add: after_row_def)
  obtain m where m: "search_loop (ask t) indexed hit limit bound (after_row (plan_for t) (ordered t) k) [] 0 =
      Inr (filter hit (take m (drop k (ordered t))), if k + m < length (ordered t) then Some (ordered t ! (k + m - 1)) else None, m)"
    "k + m \<le> length (ordered t)" "k < length (ordered t) \<longrightarrow> 1 \<le> m" "m \<le> bound"
    "length (filter hit (take m (drop k (ordered t)))) \<le> limit"
    "k + m < length (ordered t) \<longrightarrow> length (filter hit (take m (drop k (ordered t)))) = limit \<or> m = bound"
    using loop_reads_on [OF assms(1) Suc.prems(1), of "[]" limit 0 bound indexed hit "rp_limit (plan_for t)"] assms(2,3)
    unfolding same by auto
  define page where "page = \<lparr>sr_rows = filter hit (take m (drop k (ordered t))),
    sr_next_after = (if k + m < length (ordered t) then row_cursor (plan_for t) (ordered t) (k + m) else None), sr_examined = m\<rparr>"
  have "ordered t = [] \<or> 0 < k + m" using m(3) by (cases k) auto
  then have gone: "go (row_cursor (plan_for t) (ordered t) k) = Inr page"
    using m(1) unfolding go [OF Suc.prems(1)] page_def by (auto simp: row_cursor_def)
  have fine: "length (sr_rows page) \<le> limit \<and> sr_examined page \<le> bound \<and>
       (sr_next_after page \<noteq> None \<longrightarrow> length (sr_rows page) = limit \<or> sr_examined page = bound)"
    using m(4-6) by (simp add: page_def)
  show ?case
  proof (cases "k + m < length (ordered t)")
    case True
    then have "length (ordered t) - (k + m) < n" using m(3) Suc.prems by auto
    from Suc.IH [OF m(2) this] obtain pages where pages:
      "search_all n go (row_cursor (plan_for t) (ordered t) (k + m)) = Inr (Some pages)"
      "concat (map sr_rows pages) = filter hit (drop (k + m) (ordered t))"
      "\<forall>page \<in> set pages. length (sr_rows page) \<le> limit \<and> sr_examined page \<le> bound \<and>
       (sr_next_after page \<noteq> None \<longrightarrow> length (sr_rows page) = limit \<or> sr_examined page = bound)" by blast
    have "sr_next_after page = Some (position_of (rp_order (plan_for t)) (ordered t ! (k + m - 1)))"
      using True m(3) by (simp add: page_def row_cursor_def)
    moreover have "row_cursor (plan_for t) (ordered t) (k + m) = Some (position_of (rp_order (plan_for t)) (ordered t ! (k + m - 1)))"
      using True m(3) by (simp add: row_cursor_def)
    ultimately have "search_all (Suc n) go (row_cursor (plan_for t) (ordered t) k) = Inr (Some (page # pages))"
      using gone pages(1) by simp
    moreover have "concat (map sr_rows (page # pages)) = filter hit (drop k (ordered t))"
      using pages(2) by (simp add: page_def) (metis append_take_drop_id drop_drop add.commute filter_append)
    ultimately show ?thesis using fine pages(3) by (intro exI [of _ "page # pages"]) simp
  next
    case False
    then have all: "take m (drop k (ordered t)) = drop k (ordered t)" using m(2) by simp
    have "search_all (Suc n) go (row_cursor (plan_for t) (ordered t) k) = Inr (Some [page])"
      using gone False by (simp add: page_def)
    then show ?thesis using fine by (intro exI [of _ "[page]"]) (simp add: page_def all)
  qed
qed simp

end

section \<open>Tables as sources of candidates\<close>

lemma remaining_after_nth:
  assumes "table_ok rank p rows" "k < length (remaining rank p fs None rows)"
  shows "remaining rank p fs (Some (remaining rank p fs None rows ! k)) rows = drop (k + 1) (remaining rank p fs None rows)"
proof -
  define left where "left = remaining rank p fs None rows"
  have sorted: "sorted_wrt (row_before rank p) left" using assms(1) by (simp add: left_def table_ok_def sorted_remaining)
  have k: "k < length left" using assms(2) by (simp add: left_def)
  have split: "left = take k left @ left ! k # drop (k + 1) left" using id_take_nth_drop [OF k] by simp
  have parts: "sorted_wrt (row_before rank p) (drop (k + 1) left)" "\<forall>x \<in> set (drop (k + 1) left). row_before rank p (left ! k) x"
    "\<forall>x \<in> set (take k left). row_before rank p x (left ! k)"
    using sorted by (subst (asm) split; simp add: sorted_wrt_append)+
  have "set (remaining rank p fs (Some (left ! k)) rows) = {r \<in> set left. row_before rank p (left ! k) r}"
    by (auto simp: set_remaining left_def)
  also have "\<dots> = set (drop (k + 1) left)"
  proof (intro equalityI subsetI)
    fix r assume r: "r \<in> {r \<in> set left. row_before rank p (left ! k) r}"
    have "r \<in> set (take k left @ left ! k # drop (k + 1) left)" using r split by simp
    moreover have "r \<notin> set (take k left)" "r \<noteq> left ! k" using r parts(3) row_before_trans row_before_irrefl by blast+
    ultimately show "r \<in> set (drop (k + 1) left)" by simp
  next
    fix r assume "r \<in> set (drop (k + 1) left)"
    then show "r \<in> {r \<in> set left. row_before rank p (left ! k) r}" using parts(2) in_set_dropD by fast
  qed
  finally have "remaining rank p fs (Some (left ! k)) rows = drop (k + 1) left"
    using assms(1) parts(1) by (intro sorted_unique) (simp_all add: table_ok_def sorted_remaining)
  then show ?thesis by (simp add: left_def)
qed

lemma select_rows_after:
  assumes "table_ok rank p rows" "filter_conditions p = Inr fs" "k \<le> length (remaining rank p fs None rows)"
  shows "select_rows rank rows ((after_row p (remaining rank p fs None rows) k)\<lparr>rp_limit := n\<rparr>) =
    Inr (take (n + 1) (drop k (remaining rank p fs None rows)))"
proof (cases k)
  case 0
  then show ?thesis
    using assms(2)
    by (simp add: select_rows_def read_conditions_def after_condition_def after_row_def remaining_def selected_def satisfied_Conj
        filter_conditions_def row_before_def [abs_def] and_then_Inr)
next
  case (Suc i)
  define r0 where "r0 = remaining rank p fs None rows ! i"
  define q where "q = p\<lparr>rp_after := Some (map (cell_of r0) (rp_order p))\<rparr>"
  have "r0 \<in> set rows" using assms(3) Suc nth_mem [of i "remaining rank p fs None rows"] by (auto simp: r0_def set_remaining)
  then obtain cs where cs: "after_condition q = Inr cs" "\<And>r. (\<forall>c \<in> set cs. satisfied rank r c = Some True) \<longleftrightarrow> row_before rank p r0 r"
    using after_selects [of p r0 rank] assms(1) unfolding q_def by (auto simp: table_ok_def)
  have "after_condition (q\<lparr>rp_limit := n\<rparr>) = after_condition q" by (cases "rp_after q") (simp_all add: after_condition_def)
  moreover have "filter_conditions (q\<lparr>rp_limit := n\<rparr>) = Inr fs" using assms(2) by (simp add: filter_conditions_def q_def)
  ultimately have "select_rows rank rows (q\<lparr>rp_limit := n\<rparr>) = Inr (take (n + 1) (remaining rank p fs (Some r0) rows))"
    using cs by (simp add: select_rows_def read_conditions_def remaining_def selected_def satisfied_Conj ball_Un q_def row_before_def [abs_def])
  moreover have "remaining rank p fs (Some r0) rows = drop k (remaining rank p fs None rows)"
    unfolding r0_def using remaining_after_nth [OF assms(1), of i fs] assms(3) Suc by simp
  ultimately show ?thesis by (simp add: after_row_def Suc q_def r0_def)
qed

text \<open>
  A table without an index: its rows in key order. A table with an index: the rows the index finds. In
  both, the plan has no filter but its position.
\<close>

record 'o text_table =
  xt_rank :: "read_column \<Rightarrow> cell \<Rightarrow> 'o"
  xt_plan :: read_plan
  xt_rows :: "cell row list"

definition xt_ordered :: "'o::linorder text_table \<Rightarrow> cell row list" where
  "xt_ordered t = in_order (row_before (xt_rank t) (xt_plan t)) (xt_rows t)"

definition xt_ready :: "'o::linorder text_table \<Rightarrow> bool" where
  "xt_ready t \<longleftrightarrow> table_ok (xt_rank t) (xt_plan t) (xt_rows t) \<and> rp_filters (xt_plan t) = []"

definition xt_ask :: "'o::linorder text_table \<Rightarrow> read_plan \<Rightarrow> search_error + cell row list" where
  "xt_ask t p = map_sum SearchQuery id (select_rows (xt_rank t) (xt_rows t) p)"

lemma xt_ordered_remaining: "xt_ordered t = remaining (xt_rank t) (xt_plan t) [] None (xt_rows t)"
  by (simp add: xt_ordered_def remaining_def selected_def)

interpretation searched: candidate_source xt_ask xt_plan xt_ordered xt_ready
proof
  fix t :: "'a::linorder text_table" and k n
  assume t: "xt_ready t" "k \<le> length (xt_ordered t)"
  then show "xt_ask t ((after_row (xt_plan t) (xt_ordered t) k)\<lparr>rp_limit := n\<rparr>) = Inr (take (n + 1) (drop k (xt_ordered t)))"
    using select_rows_after [of "xt_rank t" "xt_plan t" "xt_rows t" "[]" k n]
    by (simp add: xt_ask_def xt_ready_def xt_ordered_remaining filter_conditions_def)
next
  fix t :: "'a::linorder text_table" and r c
  assume "xt_ready t" "r \<in> set (xt_ordered t)" "c \<in> set (rp_order (xt_plan t))"
  then show "query_value (rc_type c) (cell_of r c) = Inr (cell_of r c)"
    by (simp add: xt_ready_def xt_ordered_def table_ok_def orderable_def)
qed

section \<open>What a search returns\<close>

definition table_source :: "(read_column \<Rightarrow> cell \<Rightarrow> 'o::linorder) \<Rightarrow> (ustring \<Rightarrow> cell row list) \<Rightarrow> text_source" where
  "table_source rank rows =
     \<lparr>tx_refusal = [], tx_search_rows = None,
      tx_select_rows = Some (\<lambda>table p. map_sum SearchQuery id (select_rows rank (rows table) p))\<rparr>"

text \<open>\<open>may\<close> says which rows the index of an engine finds for a query.\<close>

definition indexed_source ::
  "(read_column \<Rightarrow> cell \<Rightarrow> 'o::linorder) \<Rightarrow> (ustring list \<Rightarrow> ustring list \<Rightarrow> cell row \<Rightarrow> bool) \<Rightarrow> (ustring \<Rightarrow> cell row list) \<Rightarrow> text_source" where
  "indexed_source rank may rows =
     \<lparr>tx_refusal = [],
      tx_search_rows = Some (\<lambda>table p query names. map_sum SearchQuery id (select_rows rank (filter (may query names) (rows table)) p)),
      tx_select_rows = None\<rparr>"

lemma bounded_int_ok: "1 \<le> n \<Longrightarrow> n \<le> most \<Longrightarrow> bounded_int most why (CInt (int n)) = Inr n"
  by (simp add: bounded_int_def)

lemma search_plan_at:
  assumes "plan_read cols key (search_args None) = Inr p" "\<forall>r \<in> set rows. orderable p r" "k \<le> length rows"
  shows "plan_read cols key (search_args (row_cursor p rows k)) = Inr (after_row p rows k)"
proof (cases k)
  case 0
  have "rp_after p = None" using assms(1) by (auto simp: plan_read_def search_args_def Let_def and_then_Inr)
  then show ?thesis using assms(1) 0 by (simp add: row_cursor_def after_row_def)
next
  case (Suc i)
  have "plan_read cols key ((search_args None)\<lparr>ra_after := None\<rparr>) = Inr p" "ra_paginate (search_args None)"
    using assms(1) by (simp_all add: search_args_def)
  from plan_read_after [OF this, of "rows ! i"] show ?thesis
    using assms(2,3) Suc by (simp add: row_cursor_def after_row_def search_args_def)
qed

lemma search_plan_filters: "plan_read cols key (search_args None) = Inr p \<Longrightarrow> rp_filters p = []"
  by (auto simp: plan_read_def search_args_def Let_def and_then_Inr)

lemma set_xt_ordered: "set (xt_ordered t) = set (xt_rows t)"
  by (simp add: xt_ordered_def)

lemma read_projection_after: "read_projection available (after_row p rows k) c = read_projection available p c"
  by (simp add: read_projection_def)

lemma position_of_cursor: "position_of order row = map (\<lambda>c. (rc_name c, cell_of row c)) order"
  by (rule position_of_def)

lemma search_of_source:
  assumes "plan_read cols (ekey spec) (search_args None) = Inr p" "query_tokens u s = Inr query" "search_fields spec flds = Inr chosen"
    and "read_projection available p False = Inr ()" "1 \<le> limit" "limit \<le> MAX_SEARCH_LIMIT" "1 \<le> bound" "bound \<le> MAX_EXAMINED"
    and t: "xt_ready t" "xt_plan t = p" "length (xt_rows t) < n" and refusal: "tx_refusal source = []"
    and source: "tx_search_rows source = None \<and> tx_select_rows source = Some ask \<and> ask table = xt_ask t \<or>
      (\<exists>by_index. tx_search_rows source = Some by_index \<and> (\<lambda>p. by_index table p query chosen) = xt_ask t)"
  shows "\<exists>pages. search_all n (\<lambda>after. search u (Inr (cols, spec)) (Inr (source, Inr table, available)) s flds after (CInt (int limit)) (CInt (int bound))) None =
      Inr (Some pages) \<and>
    concat (map sr_rows pages) = filter (\<lambda>row. matches u row query chosen) (xt_ordered t) \<and>
    (\<forall>page \<in> set pages. length (sr_rows page) \<le> limit \<and> sr_examined page \<le> bound \<and>
       (sr_next_after page \<noteq> None \<longrightarrow> length (sr_rows page) = limit \<or> sr_examined page = bound))"
proof -
  define go where "go = (\<lambda>after. search u (Inr (cols, spec)) (Inr (source, Inr table, available)) s flds after (CInt (int limit)) (CInt (int bound)))"
  obtain indexed where "\<forall>k \<le> length (xt_ordered t). go (row_cursor (xt_plan t) (xt_ordered t) k) =
      and_then (search_loop (xt_ask t) indexed (\<lambda>row. matches u row query chosen) limit bound (after_row (xt_plan t) (xt_ordered t) k) [] 0) (\<lambda>(found, position, examined).
        Inr \<lparr>sr_rows = found, sr_next_after = map_option (position_of (rp_order (xt_plan t))) position, sr_examined = examined\<rparr>)"
  proof -
    have rows: "\<forall>r \<in> set (xt_ordered t). orderable p r" using t(1,2) by (simp add: set_xt_ordered xt_ready_def table_ok_def)
    have "search_engine source = Inr ()" using refusal source by (auto simp: search_engine_def)
    then have run: "go (row_cursor p (xt_ordered t) k) =
        and_then (case (tx_search_rows source, tx_select_rows source) of
          (Some by_index, _) \<Rightarrow> search_loop (\<lambda>p. by_index table p query chosen) True (\<lambda>row. matches u row query chosen) limit bound (after_row p (xt_ordered t) k) [] 0
        | (None, Some by_page) \<Rightarrow> search_loop (by_page table) False (\<lambda>row. matches u row query chosen) limit bound (after_row p (xt_ordered t) k) [] 0
        | (None, None) \<Rightarrow> Inl (SearchRefused ''this adapter does not support logical reads'')) (\<lambda>(found, position, examined).
        Inr \<lparr>sr_rows = found, sr_next_after = map_option (position_of (rp_order p)) position, sr_examined = examined\<rparr>)"
      if "k \<le> length (xt_ordered t)" for k
      unfolding go_def search_def bounded_int_ok [OF assms(5,6)] bounded_int_ok [OF assms(7,8)] assms(2) position_of_cursor [abs_def]
      by (simp add: assms(3,4) search_plan_at [OF assms(1) rows that] read_projection_after)
    from source show ?thesis
    proof
      assume "tx_search_rows source = None \<and> tx_select_rows source = Some ask \<and> ask table = xt_ask t"
      then show ?thesis using run t(2) by (intro that [of False]) simp
    next
      assume "\<exists>by_index. tx_search_rows source = Some by_index \<and> (\<lambda>p. by_index table p query chosen) = xt_ask t"
      then show ?thesis using run t(2) by (intro that [of True]) auto
    qed
  qed
  then have "\<exists>pages. search_all n go (row_cursor (xt_plan t) (xt_ordered t) 0) = Inr (Some pages) \<and>
      concat (map sr_rows pages) = filter (\<lambda>row. matches u row query chosen) (drop 0 (xt_ordered t)) \<and>
      (\<forall>page \<in> set pages. length (sr_rows page) \<le> limit \<and> sr_examined page \<le> bound \<and>
         (sr_next_after page \<noteq> None \<longrightarrow> length (sr_rows page) = limit \<or> sr_examined page = bound))"
    by (intro searched.pages_read_on [OF t(1) assms(5,7)]) (use t(3) in \<open>simp_all add: xt_ordered_def\<close>)
  then show ?thesis by (simp add: go_def row_cursor_def)
qed

lemma in_order_matches:
  assumes "table_ok rank p rows" "\<forall>row \<in> set rows. P row \<longrightarrow> may row"
  shows "filter P (in_order (row_before rank p) (filter may rows)) = filter P (in_order (row_before rank p) rows)"
proof -
  have one: "one_per_position rank p rows" using assms(1) by (simp add: table_ok_def)
  have "sorted_wrt (row_before rank p) (filter P (in_order (row_before rank p) (filter may rows)))"
    "sorted_wrt (row_before rank p) (filter P (in_order (row_before rank p) rows))"
    by (intro sorted_wrt_filter in_order_sorted one_per_position_filter one)+
  then show ?thesis by (rule sorted_unique) (use assms(2) in auto)
qed

text \<open>
  C3. A search returns exactly the rows that match, in key order, whichever engine holds the table.
  Following the pages of a search over a table that does not change ends, with no error; together the
  pages hold every matching row once and no other; no page holds more rows than the limit or examines
  more than the bound, and a page that is not the last one stopped only because it reached one of them.
  An engine with an index answers the same as one without, as long as its index leaves no matching row out.
\<close>

theorem search_returns_every_match:
  assumes "plan_read cols (ekey spec) (search_args None) = Inr p" and "table_ok rank p (rows table)"
    and "query_tokens u s = Inr query" and "search_fields spec flds = Inr chosen" and "read_projection available p False = Inr ()"
    and "1 \<le> limit" "limit \<le> MAX_SEARCH_LIMIT" and "1 \<le> bound" "bound \<le> MAX_EXAMINED" and "length (rows table) < n"
    and "source = table_source rank rows \<or>
      (source = indexed_source rank may rows \<and> (\<forall>row \<in> set (rows table). matches u row query chosen \<longrightarrow> may query chosen row))"
  shows "\<exists>pages. search_all n (\<lambda>after. search u (Inr (cols, spec)) (Inr (source, Inr table, available)) s flds after (CInt (int limit)) (CInt (int bound))) None =
      Inr (Some pages) \<and>
    concat (map sr_rows pages) = filter (\<lambda>row. matches u row query chosen) (in_order (row_before rank p) (rows table)) \<and>
    (\<forall>page \<in> set pages. length (sr_rows page) \<le> limit \<and> sr_examined page \<le> bound \<and>
       (sr_next_after page \<noteq> None \<longrightarrow> length (sr_rows page) = limit \<or> sr_examined page = bound))"
  using assms(11)
proof
  assume source: "source = table_source rank rows"
  define t where "t = \<lparr>xt_rank = rank, xt_plan = p, xt_rows = rows table\<rparr>"
  have "xt_ready t" "xt_plan t = p" "length (xt_rows t) < n" "tx_refusal source = []"
    using assms(2,10) search_plan_filters [OF assms(1)] source by (simp_all add: t_def xt_ready_def table_source_def)
  from search_of_source [OF assms(1,3-9) this, where ask = "the (tx_select_rows source)"] show ?thesis
    using source by (auto simp: table_source_def t_def xt_ask_def xt_ordered_def fun_eq_iff)
next
  assume source: "source = indexed_source rank may rows \<and> (\<forall>row \<in> set (rows table). matches u row query chosen \<longrightarrow> may query chosen row)"
  define t where "t = \<lparr>xt_rank = rank, xt_plan = p, xt_rows = filter (may query chosen) (rows table)\<rparr>"
  have "table_ok rank p (filter (may query chosen) (rows table))"
    using assms(2) one_per_position_filter by (auto simp: table_ok_def)
  then have t: "xt_ready t" "xt_plan t = p" "length (xt_rows t) < n" "tx_refusal source = []"
    using assms(10) search_plan_filters [OF assms(1)] source le_less_trans [OF length_filter_le]
    by (simp_all add: t_def xt_ready_def indexed_source_def)
  have "\<exists>by_index. tx_search_rows source = Some by_index \<and> (\<lambda>p. by_index table p query chosen) = xt_ask t"
    using source by (intro exI [of _ "the (tx_search_rows source)"]) (simp add: indexed_source_def t_def xt_ask_def fun_eq_iff)
  note found = search_of_source [OF assms(1,3-9) t disjI2 [OF this]]
  have "filter (\<lambda>row. matches u row query chosen) (xt_ordered t) =
    filter (\<lambda>row. matches u row query chosen) (in_order (row_before rank p) (rows table))"
    unfolding xt_ordered_def t_def by (simp add: in_order_matches [OF assms(2)] source)
  then show ?thesis using found by simp
qed

text \<open>A session searches the source of the group of the entity, never a copy.\<close>

lemma search_reads_the_source:
  assumes "search_target se st reads entity = Inr (source, laid, available)"
  shows "\<exists>s p e. s \<in> set (se_shapes se) \<and> sh_entity s = entity \<and> placement_of (se_placement se) (sh_group s) = Inr p \<and>
    the_engine st (mat_engine (gp_source p)) = Inr e \<and> source = reads e"
proof -
  obtain s e mat where parts: "shape_of se entity SEARCH [] = Inr s" "target_of se st s False = Inr (e, mat)" "source = reads e"
    using assms by (auto simp: search_target_def and_then_def split: sum.splits)
  have s: "s \<in> set (se_shapes se)" "sh_entity s = entity" "sh_kind s = SEARCH"
    using parts(1) by (auto simp: shape_of_def split: option.splits if_splits dest!: find_SomeD)
  then obtain p where "placement_of (se_placement se) (sh_group s) = Inr p" "the_engine st (mat_engine (gp_source p)) = Inr e"
    using parts(2) by (auto simp: target_of_def resolve_def SOURCE_ONLY_KINDS_def in_map_def and_then_def split: if_splits sum.splits)
  then show ?thesis using s parts(3) by blast
qed

section \<open>A search\<close>

definition ascii_texts :: text_tables where
  "ascii_texts =
     \<lparr>tt_word = (\<lambda>c. (48 \<le> c \<and> c \<le> 57) \<or> (65 \<le> c \<and> c \<le> 90) \<or> (97 \<le> c \<and> c \<le> 122)),
      tt_lower = (\<lambda>c. [if 65 \<le> c \<and> c \<le> 90 then c + 32 else c]), tt_nfc = id\<rparr>"

definition note_spec :: entity_spec where
  "note_spec =
     \<lparr>ename = lit ''Note'',
      efields = [\<lparr>fname = lit ''id'', ftype = lit ''int64'', fnullable = False\<rparr>, \<lparr>fname = lit ''body'', ftype = lit ''string'', fnullable = True\<rparr>],
      ekey = [lit ''id''], epii = [], eresidency = None\<rparr>"

definition note_columns :: "read_column list" where
  "note_columns = [\<lparr>rc_name = lit ''body'', rc_type = lit ''string''\<rparr>, \<lparr>rc_name = lit ''id'', rc_type = lit ''int64''\<rparr>]"

definition note_row :: "int \<Rightarrow> cell \<Rightarrow> cell row" where
  "note_row i v = [(lit ''body'', v), (lit ''id'', CInt i)]"

definition note_rows :: "cell row list" where
  "note_rows = [note_row 3 (CStr (lit ''a RED-hot day'')), note_row 1 (CStr (lit ''red'')), note_row 2 CNone, note_row 4 (CStr (lit ''bored''))]"

definition note_plan :: read_plan where
  "note_plan = \<lparr>rp_columns = note_columns, rp_filters = [], rp_order = [\<lparr>rc_name = lit ''id'', rc_type = lit ''int64''\<rparr>],
     rp_descending = False, rp_after = None, rp_limit = MAX_PAGE_ROWS\<rparr>"

lemma note_planned: "plan_read note_columns (ekey note_spec) (search_args None) = Inr note_plan"
  by (simp add: plan_read_def search_args_def note_plan_def note_columns_def note_spec_def page_limit_def MAX_PAGE_ROWS_def MAX_ORDER_FIELDS_def
      order_names_def read_order_def read_field_def starts_with_def)

lemma note_table_ok: "table_ok paged_rank note_plan note_rows"
  by (simp add: table_ok_def one_per_position_def orderable_def sort_ranks_def cell_rank_def paged_rank_def note_rows_def note_row_def
      note_plan_def note_columns_def row_get_def comparison_def query_value_def starts_with_def int_bits_def)

lemma note_query: "query_tokens ascii_texts (CStr (lit ''Red!'')) = Inr [lit ''red'']"
  by (simp add: query_tokens_def tokens_def ascii_texts_def fold_char_def lit_def)

lemma note_fields: "search_fields note_spec CNone = Inr [lit ''body'']"
  by (simp add: search_fields_def note_spec_def)

lemma note_projection: "read_projection [lit ''id'', lit ''body''] note_plan False = Inr ()"
  by (simp add: read_projection_def note_plan_def note_columns_def)

lemma note_found: "filter (\<lambda>row. matches ascii_texts row [lit ''red''] [lit ''body'']) (in_order (row_before paged_rank note_plan) note_rows) =
    [note_row 1 (CStr (lit ''red'')), note_row 3 (CStr (lit ''a RED-hot day''))]"
  by (simp add: in_order_def row_before_def sort_ranks_def cell_rank_def paged_rank_def note_rows_def note_row_def note_plan_def
      row_get_def matches_def present_tokens_def tokens_def ascii_texts_def fold_char_def lit_def)

theorem search_returns_every_match_witness:
  "\<exists>pages. search_all 5 (\<lambda>after. search ascii_texts (Inr (note_columns, note_spec))
      (Inr (table_source paged_rank (\<lambda>_. note_rows), Inr (lit ''note''), [lit ''id'', lit ''body'']))
      (CStr (lit ''Red!'')) CNone after (CInt (int 1)) (CInt (int 2))) None = Inr (Some pages) \<and>
    concat (map sr_rows pages) = [note_row 1 (CStr (lit ''red'')), note_row 3 (CStr (lit ''a RED-hot day''))]"
proof -
  have "length note_rows < 5" by (simp add: note_rows_def)
  then show ?thesis
    using search_returns_every_match [where table = "lit ''note''" and rows = "\<lambda>_. note_rows", OF note_planned note_table_ok note_query note_fields
      note_projection, where limit = 1 and bound = 2 and n = 5 and source = "table_source paged_rank (\<lambda>_. note_rows)"]
    unfolding note_found by (auto simp: MAX_SEARCH_LIMIT_def MAX_EXAMINED_def)
qed

theorem matches_by_maximal_runs_witness:
  "matches ascii_texts (note_row 3 (CStr (lit ''a RED-hot day''))) [lit ''red''] [lit ''body''] \<longleftrightarrow>
     (\<forall>run. maximal_run (tt_word ascii_texts) (tt_nfc ascii_texts (lit ''Red!'')) run \<longrightarrow>
        (\<exists>name \<in> set [lit ''body'']. \<exists>held run'. row_get CNone (note_row 3 (CStr (lit ''a RED-hot day''))) name = CStr held \<and>
           maximal_run (tt_word ascii_texts) (tt_nfc ascii_texts held) run' \<and> fold_token ascii_texts run' = fold_token ascii_texts run))"
  using matches_by_maximal_runs [of ascii_texts "lit ''Red!''" "note_row 3 (CStr (lit ''a RED-hot day''))" "[lit ''body'']"] note_query by blast

end
