(* ===== verification/Hashing.thy ===== *)
theory Hashing
  imports Colocation
begin

text \<open>
  Hidden identifiers (\<open>hashing.py\<close>): a model with every name replaced by a keyed digest, and the
  translation between the two. HMAC-SHA256 is a parameter, \<open>hmac\<close>, which answers the hexadecimal digest
  of a message under a salt; reading the salt from its file is left out.
\<close>

section \<open>Digests\<close>

datatype hash_error =
    SaltTooShort
  | NamesCollide ustring
  | FieldsCollide ustring
  | NotText
  | HashKeyError
  | HashedDeclaration declaration_error

record name_map =
  nm_entities :: "(ustring, ustring) dict"
  nm_fields :: "(ustring, (ustring, ustring) dict) dict"
  nm_relations :: "(ustring, (ustring, ustring) dict) dict"

type_synonym keyed_hash = "nat list \<Rightarrow> nat list \<Rightarrow> ustring"

definition DIGEST_CHARS :: nat where
  "DIGEST_CHARS = 12"

fun joined_parts :: "ustring list \<Rightarrow> ustring" where
  "joined_parts [] = []"
| "joined_parts [p] = p"
| "joined_parts (p # q # ps) = p @ 0 # joined_parts (q # ps)"

definition name_digest :: "keyed_hash \<Rightarrow> (ustring \<Rightarrow> ustring) \<Rightarrow> nat list \<Rightarrow> string \<Rightarrow> ustring list \<Rightarrow> hash_error + ustring" where
  "name_digest hmac nfc salt prefix parts =
     (case utf8 (joined_parts (map nfc parts)) of
        Inl _ \<Rightarrow> Inl NotText
      | Inr message \<Rightarrow> Inr (lit prefix @ take DIGEST_CHARS (hmac salt message)))"

definition hashed_name :: "(ustring, ustring) dict \<Rightarrow> ustring \<Rightarrow> hash_error + ustring" where
  "hashed_name names n = (case map_of names n of None \<Rightarrow> Inl HashKeyError | Some h \<Rightarrow> Inr h)"

section \<open>The parts of a model\<close>

fun entity_names :: "(ustring \<Rightarrow> hash_error + ustring) \<Rightarrow> (ustring, ustring) dict \<Rightarrow> entity_spec list \<Rightarrow> hash_error + (ustring, ustring) dict" where
  "entity_names dig names [] = Inr names"
| "entity_names dig names (spec # specs) =
     and_then (dig (ename spec)) (\<lambda>hashed.
       if hashed \<in> set (vals names) then Inl (NamesCollide (ename spec))
       else entity_names dig (AList.update (ename spec) hashed names) specs)"

definition field_mapping :: "(ustring \<Rightarrow> hash_error + ustring) \<Rightarrow> field_spec list \<Rightarrow> hash_error + (ustring, ustring) dict" where
  "field_mapping dig flds =
     and_then (traverse (\<lambda>f. and_then (dig (fname f)) (\<lambda>hashed. Inr (fname f, hashed))) flds) (\<lambda>pairs.
       Inr (fold (\<lambda>(n, h) d. AList.update n h d) pairs []))"

definition hashed_field :: "(ustring, ustring) dict \<Rightarrow> field_spec \<Rightarrow> hash_error + field_spec" where
  "hashed_field mapping f =
     and_then (hashed_name mapping (fname f)) (\<lambda>n. Inr \<lparr>fname = n, ftype = ftype f, fnullable = fnullable f\<rparr>)"

definition hashed_entity ::
  "(ustring list \<Rightarrow> hash_error + ustring) \<Rightarrow> (ustring, ustring) dict \<Rightarrow> entity_spec \<Rightarrow> hash_error + (ustring \<times> (ustring, ustring) dict) \<times> entity_spec" where
  "hashed_entity dig names spec =
     and_then (field_mapping (\<lambda>n. dig [ename spec, n]) (efields spec)) (\<lambda>mapping.
     and_then (require (card (set (vals mapping)) = length mapping) (FieldsCollide (ename spec))) (\<lambda>_.
     and_then (hashed_name names (ename spec)) (\<lambda>n.
     and_then (traverse (hashed_field mapping) (efields spec)) (\<lambda>flds.
     and_then (traverse (hashed_name mapping) (ekey spec)) (\<lambda>key.
     and_then (traverse (hashed_name mapping) (epii spec)) (\<lambda>pii.
       Inr ((ename spec, mapping), \<lparr>ename = n, efields = flds, ekey = key, epii = pii, eresidency = eresidency spec\<rparr>)))))))"

definition hashed_relation ::
  "(ustring list \<Rightarrow> hash_error + ustring) \<Rightarrow> (ustring, ustring) dict \<Rightarrow> relation_spec \<Rightarrow> hash_error + ustring \<times> relation_spec" where
  "hashed_relation dig names r =
     and_then (dig [rsource r, rname r]) (\<lambda>hashed.
     and_then (hashed_name names (rsource r)) (\<lambda>source.
     and_then (hashed_name names (rtarget r)) (\<lambda>target.
       Inr (rname r, \<lparr>rname = hashed, rsource = source, rtarget = target\<rparr>))))"

text \<open>\<open>relation_names.setdefault(source, {})[name] = hashed\<close>\<close>

fun relation_names :: "(relation_spec \<times> relation_spec) list \<Rightarrow> (ustring, (ustring, ustring) dict) dict \<Rightarrow> (ustring, (ustring, ustring) dict) dict" where
  "relation_names [] names = names"
| "relation_names ((r, h) # rels) names =
     relation_names rels
       (AList.update (rsource r)
          (AList.update (rname r) (rname h) (case map_of names (rsource r) of None \<Rightarrow> [] | Some d \<Rightarrow> d)) names)"

definition hashed_atomic :: "(ustring, ustring) dict \<Rightarrow> ustring list \<Rightarrow> hash_error + ustring list" where
  "hashed_atomic names members = and_then (traverse (hashed_name names) members) (\<lambda>hs. Inr (sort hs))"

definition hash_identifiers ::
  "keyed_hash \<Rightarrow> (ustring \<Rightarrow> ustring) \<Rightarrow> (nat list \<Rightarrow> ustring) \<Rightarrow> logical_model \<Rightarrow> nat list \<Rightarrow> hash_error + logical_model \<times> name_map" where
  "hash_identifiers hmac nfc sha256 m salt =
     (if length salt < 16 then Inl SaltTooShort
      else
        and_then (entity_names (\<lambda>n. name_digest hmac nfc salt ''e_'' [n]) [] (mentities m)) (\<lambda>names.
        and_then (traverse (hashed_entity (name_digest hmac nfc salt ''f_'') names) (mentities m)) (\<lambda>entities.
        and_then (traverse (hashed_relation (name_digest hmac nfc salt ''r_'') names) (mrelations m)) (\<lambda>relations.
        and_then (traverse (hashed_atomic names) (matomic m)) (\<lambda>atomic.
          case assemble nfc sha256 (map snd entities) (map snd relations) (sort atomic) (mcost_ceiling m) of
            Inl e \<Rightarrow> Inl (HashedDeclaration e)
          | Inr h \<Rightarrow>
              Inr (h, \<lparr>nm_entities = names, nm_fields = map fst entities,
                       nm_relations = relation_names (zip (mrelations m) (map snd relations)) []\<rparr>))))))"

text \<open>The lookups of \<open>NameMap\<close>.\<close>

definition nm_entity :: "name_map \<Rightarrow> ustring \<Rightarrow> hash_error + ustring" where
  "nm_entity nm n = hashed_name (nm_entities nm) n"

definition nm_field :: "name_map \<Rightarrow> ustring \<Rightarrow> ustring \<Rightarrow> hash_error + ustring" where
  "nm_field nm e n = (case map_of (nm_fields nm) e of None \<Rightarrow> Inl HashKeyError | Some d \<Rightarrow> hashed_name d n)"

definition nm_relation :: "name_map \<Rightarrow> ustring \<Rightarrow> ustring \<Rightarrow> hash_error + ustring" where
  "nm_relation nm e n = (case map_of (nm_relations nm) e of None \<Rightarrow> Inl HashKeyError | Some d \<Rightarrow> hashed_name d n)"

section \<open>What each part becomes\<close>

abbreviation name_in :: "(ustring, ustring) dict \<Rightarrow> ustring \<Rightarrow> ustring" where
  "name_in names n \<equiv> the (map_of names n)"

definition renamed_entity :: "ustring \<Rightarrow> (ustring \<Rightarrow> ustring) \<Rightarrow> entity_spec \<Rightarrow> entity_spec" where
  "renamed_entity n g s =
     \<lparr>ename = n, efields = map (\<lambda>f. f\<lparr>fname := g (fname f)\<rparr>) (efields s), ekey = map g (ekey s), epii = map g (epii s),
      eresidency = eresidency s\<rparr>"

lemma hashed_name_Inr: "hashed_name names n = Inr h \<longleftrightarrow> map_of names n = Some h"
  by (auto simp: hashed_name_def split: option.splits)

lemma hashed_names_Inr: "traverse (hashed_name names) ns = Inr hs \<longleftrightarrow> (\<forall>n \<in> set ns. map_of names n \<noteq> None) \<and> hs = map (name_in names) ns"
  by (induction ns arbitrary: hs) (auto simp: and_then_Inr hashed_name_Inr)

lemma hashed_fields_Inr:
  "traverse (hashed_field mapping) fs = Inr hs \<Longrightarrow>
     (\<forall>f \<in> set fs. map_of mapping (fname f) \<noteq> None) \<and> hs = map (\<lambda>f. f\<lparr>fname := name_in mapping (fname f)\<rparr>) fs"
  by (induction fs arbitrary: hs) (auto simp: and_then_Inr hashed_field_def hashed_name_Inr)

lemma name_in_inj:
  assumes "distinct (vals d)" "\<forall>n \<in> N. map_of d n \<noteq> None"
  shows "inj_on (name_in d) N"
proof (rule inj_onI)
  fix a b assume ab: "a \<in> N" "b \<in> N" "name_in d a = name_in d b"
  obtain v where v: "map_of d a = Some v" using assms(2) ab(1) by auto
  obtain w where w: "map_of d b = Some w" using assms(2) ab(2) by auto
  have "(a, v) \<in> set d" "(b, v) \<in> set d" using v w ab(3) by (auto dest: map_of_SomeD)
  then have "(a, v) = (b, v)" using assms(1) by (intro inj_onD [of snd "set d"]) (simp_all add: distinct_map)
  then show "a = b" by simp
qed

lemma hashed_entity_Inr:
  assumes "hashed_entity dig names s = Inr ((e, mapping), s')"
  shows "e = ename s \<and> map_of names (ename s) = Some (ename s') \<and> s' = renamed_entity (name_in names (ename s)) (name_in mapping) s \<and>
    inj_on (name_in mapping) (fname ` set (efields s)) \<and> (\<forall>f \<in> set (efields s). map_of mapping (fname f) \<noteq> None)"
proof -
  obtain n flds key pii where parts: "card (set (vals mapping)) = length mapping" "hashed_name names (ename s) = Inr n"
    "traverse (hashed_field mapping) (efields s) = Inr flds" "traverse (hashed_name mapping) (ekey s) = Inr key"
    "traverse (hashed_name mapping) (epii s) = Inr pii" "e = ename s"
    "s' = \<lparr>ename = n, efields = flds, ekey = key, epii = pii, eresidency = eresidency s\<rparr>"
    using assms by (auto simp: hashed_entity_def and_then_Inr require_Inr)
  have flds: "\<forall>f \<in> set (efields s). map_of mapping (fname f) \<noteq> None" "flds = map (\<lambda>f. f\<lparr>fname := name_in mapping (fname f)\<rparr>) (efields s)"
    using hashed_fields_Inr [OF parts(3)] by blast+
  have others: "key = map (name_in mapping) (ekey s)" "pii = map (name_in mapping) (epii s)" "map_of names (ename s) = Some n"
    using parts(2,4,5) by (simp_all add: hashed_names_Inr hashed_name_Inr)
  have "inj_on (name_in mapping) (fname ` set (efields s))"
    using flds(1) parts(1) by (intro name_in_inj) (auto simp: card_distinct)
  moreover have "s' = renamed_entity (name_in names (ename s)) (name_in mapping) s"
    by (simp add: parts(7) flds(2) others renamed_entity_def)
  ultimately show ?thesis using flds(1) parts(6) others(3) by (simp add: renamed_entity_def)
qed

lemma entity_names_inj:
  assumes "entity_names dig names specs = Inr names'" "inj_on (map_of names) (dom (map_of names))"
  shows "inj_on (map_of names') (dom (map_of names')) \<and> dom (map_of names') = dom (map_of names) \<union> ename ` set specs"
  using assms
proof (induction dig names specs rule: entity_names.induct)
  case (2 dig names spec specs)
  then obtain h where h: "dig (ename spec) = Inr h" "h \<notin> set (vals names)"
    "entity_names dig (AList.update (ename spec) h names) specs = Inr names'" by (auto simp: and_then_Inr split: if_splits)
  have "map_of names n \<noteq> Some h" for n using h(2) by (force dest: map_of_SomeD)
  then have inj: "inj_on (map_of (AList.update (ename spec) h names)) (dom (map_of (AList.update (ename spec) h names)))"
    using "2.prems"(2) unfolding map_of_AList_update by (auto simp: inj_on_def dom_def)
  have dom: "dom (map_of (AList.update (ename spec) h names)) = insert (ename spec) (dom (map_of names))" by simp
  note ih = "2.IH" [OF h inj, unfolded dom]
  show ?case by (rule conjI [OF ih [THEN conjunct1]]) (simp add: ih [THEN conjunct2])
qed simp

section \<open>Relations\<close>

lemma hashed_relation_Inr:
  assumes "hashed_relation dig names r = Inr (n, r')"
  shows "n = rname r \<and> map_of names (rsource r) \<noteq> None \<and> map_of names (rtarget r) \<noteq> None \<and>
    rsource r' = name_in names (rsource r) \<and> rtarget r' = name_in names (rtarget r)"
  using assms by (auto simp: hashed_relation_def and_then_Inr hashed_name_Inr)

definition relation_name_of :: "(ustring, (ustring, ustring) dict) dict \<Rightarrow> ustring \<Rightarrow> ustring \<Rightarrow> ustring option" where
  "relation_name_of names e n = (case map_of names e of None \<Rightarrow> None | Some d \<Rightarrow> map_of d n)"

lemma relation_names_frame:
  assumes "(e, n) \<notin> (\<lambda>(r, _). (rsource r, rname r)) ` set rels"
  shows "relation_name_of (relation_names rels names) e n = relation_name_of names e n"
  using assms
  by (induction rels names rule: relation_names.induct) (auto simp: relation_name_of_def split: option.splits if_splits)

lemma relation_names_get:
  assumes "distinct (map (\<lambda>(r, _). (rsource r, rname r)) rels)" "(r, h) \<in> set rels"
  shows "relation_name_of (relation_names rels names) (rsource r) (rname r) = Some (rname h)"
  using assms
proof (induction rels names rule: relation_names.induct)
  case (2 r' h' rels names)
  show ?case
  proof (cases "(r, h) = (r', h')")
    case True
    then have new: "(rsource r, rname r) \<notin> (\<lambda>(r, _). (rsource r, rname r)) ` set rels" using "2.prems"(1) by auto
    have "relation_name_of (AList.update (rsource r')
        (AList.update (rname r') (rname h') (case map_of names (rsource r') of None \<Rightarrow> [] | Some d \<Rightarrow> d)) names) (rsource r) (rname r) = Some (rname h)"
      using True by (simp add: relation_name_of_def)
    then show ?thesis using relation_names_frame [OF new] by simp
  next
    case False
    then show ?thesis using "2.IH" "2.prems" by auto
  qed
qed simp

section \<open>The graph under a renaming\<close>

lemma linked_renamed:
  assumes inj: "inj_on f N" and E: "E \<subseteq> N \<times> N" and x: "x \<in> N"
  shows "linked (map_prod f f ` E) (f x) z \<longleftrightarrow> (\<exists>y \<in> N. z = f y \<and> linked E x y)"
proof
  assume "linked (map_prod f f ` E) (f x) z"
  then show "\<exists>y \<in> N. z = f y \<and> linked E x y"
  proof (induction rule: linked_induct)
    case (edge z z')
    then obtain y where y: "y \<in> N" "z = f y" "linked E x y" by blast
    from edge(2) obtain a b where ab: "(a, b) \<in> E \<or> (b, a) \<in> E" "z = f a" "z' = f b" by auto
    then have "a \<in> N" "b \<in> N" using E by auto
    then have "a = y" using inj y ab(2) by (auto dest: inj_onD)
    then have "linked E y b" using ab(1) linked_edge linked_sym by metis
    then show ?case using y(3) \<open>b \<in> N\<close> ab(3) linked_trans by metis
  qed (use x in auto)
next
  assume "\<exists>y \<in> N. z = f y \<and> linked E x y"
  then obtain y where "z = f y" "linked E x y" by blast
  from this(2) have "linked (map_prod f f ` E) (f x) (f y)"
  proof (induction rule: linked_induct)
    case (edge y z)
    then have "linked (map_prod f f ` E) (f y) (f z)" using linked_edge linked_sym by (metis image_eqI map_prod_simp)
    then show ?case using edge linked_trans by metis
  qed simp
  then show "linked (map_prod f f ` E) (f x) z" using \<open>z = f y\<close> by simp
qed

section \<open>A hashed model is the model under other names\<close>

text \<open>The model \<open>h\<close> is \<open>m\<close> with its entities renamed by \<open>f\<close>, the fields of \<open>e\<close> by \<open>g e\<close> and its relations by \<open>k e\<close>.\<close>

definition same_under ::
  "(ustring \<Rightarrow> ustring) \<Rightarrow> (ustring \<Rightarrow> ustring \<Rightarrow> ustring) \<Rightarrow> (ustring \<Rightarrow> ustring \<Rightarrow> ustring) \<Rightarrow> logical_model \<Rightarrow> logical_model \<Rightarrow> bool" where
  "same_under f g k m h \<longleftrightarrow>
     mset (mentities h) = {# ordered_spec (renamed_entity (f (ename s)) (g (ename s)) s). s \<in># mset (mentities m) #} \<and>
     mset (mrelations h) = {# \<lparr>rname = k (rsource r) (rname r), rsource = f (rsource r), rtarget = f (rtarget r)\<rparr>. r \<in># mset (mrelations m) #} \<and>
     mset (matomic h) = {# sort (map f a). a \<in># mset (matomic m) #} \<and>
     mcost_ceiling h = mcost_ceiling m"

lemma set_of_image_mset: "mset ys = image_mset f (mset xs) \<Longrightarrow> set ys = f ` set xs"
  unfolding mset_map [symmetric] by (drule mset_eq_setD) simp

lemma groups_spec_members: "groups_spec m gs \<Longrightarrow> x \<in> set gs \<Longrightarrow> n \<in> set (gmembers x) \<Longrightarrow>
    n \<in> ename ` set (mentities m) \<and> set (gmembers x) = {y \<in> ename ` set (mentities m). linked (colocated m) n y}"
  unfolding groups_spec_def by blast

lemma same_under_names:
  assumes "same_under f g k m h"
  shows "ename ` set (mentities h) = f ` ename ` set (mentities m)"
proof -
  have "set (mentities h) = (\<lambda>s. ordered_spec (renamed_entity (f (ename s)) (g (ename s)) s)) ` set (mentities m)"
    by (rule set_of_image_mset [OF assms [unfolded same_under_def, THEN conjunct1]])
  then show ?thesis by (simp add: image_image renamed_entity_def)
qed

lemma same_under_graph:
  assumes "same_under f g k m h"
  shows "colocated h = map_prod f f ` colocated m"
proof -
  have rels: "set (mrelations h) = (\<lambda>r. \<lparr>rname = k (rsource r) (rname r), rsource = f (rsource r), rtarget = f (rtarget r)\<rparr>) ` set (mrelations m)"
    and atomic: "set (matomic h) = (\<lambda>a. sort (map f a)) ` set (matomic m)"
    by (rule set_of_image_mset [OF assms [unfolded same_under_def, THEN conjunct2, THEN conjunct1]],
      rule set_of_image_mset [OF assms [unfolded same_under_def, THEN conjunct2, THEN conjunct2, THEN conjunct1]])
  have "(\<Union>a \<in> set (matomic h). set a \<times> set a) = (\<Union>a \<in> set (matomic m). map_prod f f ` (set a \<times> set a))"
    unfolding atomic by (auto simp: map_prod_def)
  then show ?thesis unfolding colocated_def rels by (simp add: image_Un image_image image_UN)
qed

lemma same_groups:
  assumes same: "same_under f g k m h" and inj: "inj_on f (ename ` set (mentities m))" and ok: "model_ok m" "model_ok h"
  shows "\<exists>gs hs. colocation_groups m = Inr gs \<and> colocation_groups h = Inr hs \<and>
    (\<lambda>x. set (gmembers x)) ` set hs = (\<lambda>x. f ` set (gmembers x)) ` set gs"
proof -
  let ?N = "ename ` set (mentities m)"
  obtain gs hs where gs: "colocation_groups m = Inr gs" "groups_spec m gs" and hs: "colocation_groups h = Inr hs" "groups_spec h hs"
    using colocation_groups_spec ok by blast
  have E: "colocated m \<subseteq> ?N \<times> ?N" using ok(1) by (fastforce simp: colocated_def model_ok_def)
  have component: "set (gmembers y) = f ` set (gmembers x)"
    if "x \<in> set gs" "y \<in> set hs" "n \<in> set (gmembers x)" "f n \<in> set (gmembers y)" for x y n
  proof -
    have n: "n \<in> ?N" and xs: "set (gmembers x) = {i \<in> ?N. linked (colocated m) n i}"
      using groups_spec_members [OF gs(2) that(1,3)] by blast+
    have "set (gmembers y) = {j \<in> f ` ?N. linked (colocated h) (f n) j}"
      using groups_spec_members [OF hs(2) that(2,4)] unfolding same_under_names [OF same] by blast
    also have "\<dots> = f ` {i \<in> ?N. linked (colocated m) n i}"
      unfolding same_under_graph [OF same] linked_renamed [OF inj E n] by auto
    finally show ?thesis using xs by simp
  qed
  have cover: "(\<Union>x \<in> set gs. set (gmembers x)) = ?N" "(\<Union>y \<in> set hs. set (gmembers y)) = f ` ?N"
    using gs(2) hs(2) same_under_names [OF same] unfolding groups_spec_def by auto
  have "(\<lambda>x. set (gmembers x)) ` set hs = (\<lambda>x. f ` set (gmembers x)) ` set gs"
  proof (intro equalityI subsetI)
    fix Y assume "Y \<in> (\<lambda>x. set (gmembers x)) ` set hs"
    then obtain y where y: "y \<in> set hs" "Y = set (gmembers y)" by blast
    then obtain j where j: "j \<in> set (gmembers y)" using hs(2) unfolding groups_spec_def by (metis hd_in_set)
    then obtain n where "n \<in> ?N" "j = f n" using cover(2) y(1) by blast
    then obtain x where "x \<in> set gs" "n \<in> set (gmembers x)" using cover(1) by blast
    then show "Y \<in> (\<lambda>x. f ` set (gmembers x)) ` set gs" using component y j \<open>j = f n\<close> by blast
  next
    fix X assume "X \<in> (\<lambda>x. f ` set (gmembers x)) ` set gs"
    then obtain x where x: "x \<in> set gs" "X = f ` set (gmembers x)" by blast
    then obtain n where n: "n \<in> set (gmembers x)" using gs(2) unfolding groups_spec_def by (metis hd_in_set)
    then have "f n \<in> f ` ?N" using cover(1) x(1) by blast
    then obtain y where "y \<in> set hs" "f n \<in> set (gmembers y)" using cover(2) by blast
    then show "X \<in> (\<lambda>x. set (gmembers x)) ` set hs" using component x n by (metis imageI)
  qed
  then show ?thesis using gs(1) hs(1) by blast
qed

lemma list_all2_map_eq: "list_all2 (\<lambda>x y. f y = g x) xs ys \<Longrightarrow> map f ys = map g xs"
  by (induction rule: list_all2_induct) auto

lemma list_all2_partner: "list_all2 P xs ys \<Longrightarrow> x \<in> set xs \<Longrightarrow> \<exists>y \<in> set ys. P x y"
  by (induction rule: list_all2_induct) auto

lemma case_sum_Inr: "(case r of Inl e \<Rightarrow> Inl (F e) | Inr h \<Rightarrow> Inr (G h)) = Inr y \<longleftrightarrow> (\<exists>h. r = Inr h \<and> G h = y)"
  by (cases r) auto

lemma hashed_entities:
  assumes "traverse (hashed_entity dig names) ss = Inr xs" "distinct (map ename ss)"
  defines "g \<equiv> \<lambda>e. name_in (the (map_of (map fst xs) e))"
  shows "map snd xs = map (\<lambda>s. renamed_entity (name_in names (ename s)) (g (ename s)) s) ss"
    and "\<forall>s \<in> set ss. map_of names (ename s) \<noteq> None \<and> inj_on (g (ename s)) (fname ` set (efields s)) \<and>
      (\<exists>d. map_of (map fst xs) (ename s) = Some d \<and> (\<forall>f \<in> set (efields s). map_of d (fname f) = Some (g (ename s) (fname f))))"
proof -
  have each: "list_all2 (\<lambda>s x. hashed_entity dig names s = Inr x) ss xs" using assms(1) by (simp add: traverse_Inr)
  then have "list_all2 (\<lambda>s x. fst (fst x) = ename s) ss xs"
    by (rule list_all2_mono) (auto dest: hashed_entity_Inr)
  then have names: "map (\<lambda>x. fst (fst x)) xs = map ename ss" by (rule list_all2_map_eq)
  have dist: "distinct (keys (map fst xs))" using assms(2) names by (simp add: comp_def)
  have one: "snd x = renamed_entity (name_in names (ename s)) (g (ename s)) s \<and> map_of names (ename s) \<noteq> None \<and>
      inj_on (g (ename s)) (fname ` set (efields s)) \<and>
      (\<exists>d. map_of (map fst xs) (ename s) = Some d \<and> (\<forall>f \<in> set (efields s). map_of d (fname f) = Some (g (ename s) (fname f))))"
    if x: "x \<in> set xs" and run: "hashed_entity dig names s = Inr x" for s x
  proof -
    obtain e d s' where parts: "x = ((e, d), s')" by (metis prod.exhaust)
    note he = hashed_entity_Inr [OF run [unfolded parts]]
    have "(ename s, d) \<in> set (map fst xs)" using x he parts by force
    then have d: "map_of (map fst xs) (ename s) = Some d" by (rule map_of_is_SomeI [OF dist])
    then have g: "g (ename s) = name_in d" by (simp add: g_def)
    have "\<forall>f \<in> set (efields s). map_of d (fname f) = Some (name_in d (fname f))"
      using he [THEN conjunct2, THEN conjunct2, THEN conjunct2, THEN conjunct2] by auto
    then have "\<exists>d. map_of (map fst xs) (ename s) = Some d \<and> (\<forall>f \<in> set (efields s). map_of d (fname f) = Some (g (ename s) (fname f)))"
      unfolding g using d by blast
    then show ?thesis unfolding g parts snd_conv using he by blast
  qed
  have all: "list_all2 (\<lambda>s x. snd x = renamed_entity (name_in names (ename s)) (g (ename s)) s) ss xs"
    using each by (rule list.rel_mono_strong) (simp add: one)
  then show "map snd xs = map (\<lambda>s. renamed_entity (name_in names (ename s)) (g (ename s)) s) ss" by (rule list_all2_map_eq)
  show "\<forall>s \<in> set ss. map_of names (ename s) \<noteq> None \<and> inj_on (g (ename s)) (fname ` set (efields s)) \<and>
      (\<exists>d. map_of (map fst xs) (ename s) = Some d \<and> (\<forall>f \<in> set (efields s). map_of d (fname f) = Some (g (ename s) (fname f))))"
  proof
    fix s assume "s \<in> set ss"
    then obtain x where "x \<in> set xs" "hashed_entity dig names s = Inr x" using list_all2_partner [OF each] by blast
    from one [OF this] show "map_of names (ename s) \<noteq> None \<and> inj_on (g (ename s)) (fname ` set (efields s)) \<and>
      (\<exists>d. map_of (map fst xs) (ename s) = Some d \<and> (\<forall>f \<in> set (efields s). map_of d (fname f) = Some (g (ename s) (fname f))))" by blast
  qed
qed

lemma hashed_relations:
  assumes "traverse (hashed_relation dig names) rs = Inr xs" "distinct (map (\<lambda>r. (rsource r, rname r)) rs)"
  defines "k \<equiv> \<lambda>e n. the (relation_name_of (relation_names (zip rs (map snd xs)) []) e n)"
  shows "map snd xs = map (\<lambda>r. \<lparr>rname = k (rsource r) (rname r), rsource = name_in names (rsource r), rtarget = name_in names (rtarget r)\<rparr>) rs"
    and "\<forall>r \<in> set rs. relation_name_of (relation_names (zip rs (map snd xs)) []) (rsource r) (rname r) = Some (k (rsource r) (rname r))"
proof -
  have each: "list_all2 (\<lambda>r x. hashed_relation dig names r = Inr x) rs xs" using assms(1) by (simp add: traverse_Inr)
  then have len: "length rs = length xs" by (rule list_all2_lengthD)
  have "map (\<lambda>(r, _). (rsource r, rname r)) (zip rs (map snd xs)) = map (\<lambda>r. (rsource r, rname r)) rs"
    using len by (intro nth_equalityI) auto
  then have dist: "distinct (map (\<lambda>(r, _). (rsource r, rname r)) (zip rs (map snd xs)))" using assms(2) by simp
  have got: "k (rsource r) (rname r) = rname h \<and> relation_name_of (relation_names (zip rs (map snd xs)) []) (rsource r) (rname r) = Some (rname h)"
    if "(r, h) \<in> set (zip rs (map snd xs))" for r h
    using relation_names_get [OF dist that] by (simp add: k_def)
  have "list_all2 (\<lambda>r x. (r, snd x) \<in> set (zip rs (map snd xs)) \<and> hashed_relation dig names r = Inr x) rs xs"
    using each by (auto simp: list_all2_conv_all_nth set_zip)
  then have "list_all2 (\<lambda>r x. snd x = \<lparr>rname = k (rsource r) (rname r), rsource = name_in names (rsource r), rtarget = name_in names (rtarget r)\<rparr>) rs xs"
  proof (rule list_all2_mono)
    fix r x assume "(r, snd x) \<in> set (zip rs (map snd xs)) \<and> hashed_relation dig names r = Inr x"
    then show "snd x = \<lparr>rname = k (rsource r) (rname r), rsource = name_in names (rsource r), rtarget = name_in names (rtarget r)\<rparr>"
      using got [of r "snd x"] hashed_relation_Inr [of dig names r "fst x" "snd x"] by simp
  qed
  then show "map snd xs = map (\<lambda>r. \<lparr>rname = k (rsource r) (rname r), rsource = name_in names (rsource r), rtarget = name_in names (rtarget r)\<rparr>) rs"
    by (rule list_all2_map_eq)
  show "\<forall>r \<in> set rs. relation_name_of (relation_names (zip rs (map snd xs)) []) (rsource r) (rname r) = Some (k (rsource r) (rname r))"
  proof
    fix r assume "r \<in> set rs"
    then obtain h where "(r, h) \<in> set (zip rs (map snd xs))" using len by (metis in_set_impl_in_set_zip1 length_map)
    then show "relation_name_of (relation_names (zip rs (map snd xs)) []) (rsource r) (rname r) = Some (k (rsource r) (rname r))"
      using got by simp
  qed
qed

lemma hashed_atomics:
  assumes "traverse (hashed_atomic names) groups = Inr xs"
  shows "xs = map (\<lambda>a. sort (map (name_in names) a)) groups \<and> (\<forall>a \<in> set groups. \<forall>n \<in> set a. map_of names n \<noteq> None)"
  using assms by (induction groups arbitrary: xs) (auto simp: and_then_Inr hashed_atomic_def hashed_names_Inr)

lemma entity_names_name_in:
  assumes "entity_names dig [] ss = Inr names"
  shows "inj_on (name_in names) (ename ` set ss)"
proof -
  have "inj_on (map_of names) (dom (map_of names))" "ename ` set ss \<subseteq> dom (map_of names)"
    using entity_names_inj [OF assms] by auto
  then show ?thesis by (intro inj_onI) (metis domD inj_onD option.sel subsetD)
qed

lemma hashed_model_ok:
  assumes "assemble nfc sha256 es' rs' (sort zs) cost = Inr h" "zs = map (\<lambda>a. sort (map f a)) (matomic m)"
    "ename ` set es' = f ` ename ` set (mentities m)" "model_ok m"
  shows "model_ok h"
proof (rule assemble_model_ok [OF assms(1)], intro ballI conjI)
  fix a assume "a \<in> set (sort zs)"
  then obtain b where b: "b \<in> set (matomic m)" "a = sort (map f b)" using assms(2) by auto
  then have "b \<noteq> []" "set b \<subseteq> ename ` set (mentities m)" using assms(4) by (simp_all add: model_ok_def)
  then show "a \<noteq> []" "set a \<subseteq> ename ` set es'" using b(2) assms(3) by (simp_all add: image_mono)
qed

text \<open>
  C27. A hashed model is the same model under other names. Whatever the keyed hash answers, a hashing that
  is not refused renames entities, and the fields of each entity, one to one; the name map translates
  every name to the one the hashed model uses; types, nullability, keys, residency, relations,
  atomicities and the cost ceiling stay what they were; and the colocation groups of the hashed model are
  the groups of the model, so no two entities are placed together or apart because of their names.
\<close>

theorem hashed_model_is_the_same_model:
  assumes m: "assemble nfc sha256 es rs atomic cost = Inr m" and atomic: "\<forall>a \<in> set atomic. a \<noteq> [] \<and> set a \<subseteq> ename ` set es"
    and hash: "hash_identifiers hmac nfc sha256 m salt = Inr (h, nm)"
  shows "\<exists>f g k. same_under f g k m h \<and> inj_on f (ename ` set (mentities m)) \<and>
    (\<forall>s \<in> set (mentities m). nm_entity nm (ename s) = Inr (f (ename s)) \<and> inj_on (g (ename s)) (fname ` set (efields s)) \<and>
       (\<forall>fl \<in> set (efields s). nm_field nm (ename s) (fname fl) = Inr (g (ename s) (fname fl)))) \<and>
    (\<forall>r \<in> set (mrelations m). nm_relation nm (rsource r) (rname r) = Inr (k (rsource r) (rname r))) \<and>
    (\<exists>gs hs. colocation_groups m = Inr gs \<and> colocation_groups h = Inr hs \<and>
       (\<lambda>x. set (gmembers x)) ` set hs = (\<lambda>x. f ` set (gmembers x)) ` set gs)"
proof -
  obtain names xs ys zs where run:
    "entity_names (\<lambda>n. name_digest hmac nfc salt ''e_'' [n]) [] (mentities m) = Inr names"
    "traverse (hashed_entity (name_digest hmac nfc salt ''f_'') names) (mentities m) = Inr xs"
    "traverse (hashed_relation (name_digest hmac nfc salt ''r_'') names) (mrelations m) = Inr ys"
    "traverse (hashed_atomic names) (matomic m) = Inr zs"
    "assemble nfc sha256 (map snd xs) (map snd ys) (sort zs) (mcost_ceiling m) = Inr h"
    "nm = \<lparr>nm_entities = names, nm_fields = map fst xs, nm_relations = relation_names (zip (mrelations m) (map snd ys)) []\<rparr>"
    using hash by (auto simp: hash_identifiers_def and_then_Inr case_sum_Inr split: if_splits)
  define f where "f = name_in names"
  define g where "g = (\<lambda>e. name_in (the (map_of (map fst xs) e)))"
  define k where "k = (\<lambda>e n. the (relation_name_of (relation_names (zip (mrelations m) (map snd ys)) []) e n))"
  have ok: "model_ok m" by (rule assemble_model_ok [OF m atomic])
  have "distinct (map ename (mentities m))" using ok by (simp add: model_ok_def)
  from hashed_entities [OF run(2) this]
  have entities: "map snd xs = map (\<lambda>s. renamed_entity (f (ename s)) (g (ename s)) s) (mentities m)"
    "\<forall>s \<in> set (mentities m). map_of names (ename s) \<noteq> None \<and> inj_on (g (ename s)) (fname ` set (efields s)) \<and>
      (\<exists>d. map_of (map fst xs) (ename s) = Some d \<and> (\<forall>f \<in> set (efields s). map_of d (fname f) = Some (g (ename s) (fname f))))"
    unfolding f_def g_def by blast+
  have "distinct (map (\<lambda>r. (rsource r, rname r)) (mrelations m))"
    using assemble_Inr(1,3) [OF m] distinct_map_mset [of "sort_key relation_key rs" rs "\<lambda>r. (rsource r, rname r)"] by (simp add: declaration_ok_def)
  from hashed_relations [OF run(3) this]
  have relations: "map snd ys = map (\<lambda>r. \<lparr>rname = k (rsource r) (rname r), rsource = f (rsource r), rtarget = f (rtarget r)\<rparr>) (mrelations m)"
    "\<forall>r \<in> set (mrelations m). relation_name_of (relation_names (zip (mrelations m) (map snd ys)) []) (rsource r) (rname r) = Some (k (rsource r) (rname r))"
    unfolding f_def k_def by blast+
  have atomics: "zs = map (\<lambda>a. sort (map f a)) (matomic m)" using hashed_atomics [OF run(4)] unfolding f_def by blast
  note parts = assemble_Inr(2-5) [OF run(5)]
  have same: "same_under f g k m h"
    unfolding same_under_def parts entities(1) relations(1) atomics
    by (simp add: mset_map multiset.map_comp comp_def)
  have inj: "inj_on f (ename ` set (mentities m))" unfolding f_def by (rule entity_names_name_in [OF run(1)])
  have "ename ` set (map snd xs) = f ` ename ` set (mentities m)"
    unfolding entities(1) by (simp add: image_image renamed_entity_def f_def)
  then have "model_ok h" by (rule hashed_model_ok [OF run(5) atomics _ ok])
  then have groups: "\<exists>gs hs. colocation_groups m = Inr gs \<and> colocation_groups h = Inr hs \<and>
       (\<lambda>x. set (gmembers x)) ` set hs = (\<lambda>x. f ` set (gmembers x)) ` set gs"
    by (rule same_groups [OF same inj ok])
  have names: "nm_entity nm (ename s) = Inr (f (ename s)) \<and> inj_on (g (ename s)) (fname ` set (efields s)) \<and>
       (\<forall>fl \<in> set (efields s). nm_field nm (ename s) (fname fl) = Inr (g (ename s) (fname fl)))" if "s \<in> set (mentities m)" for s
    using bspec [OF entities(2) that] by (auto simp: run(6) nm_entity_def nm_field_def hashed_name_def f_def)
  have rels: "nm_relation nm (rsource r) (rname r) = Inr (k (rsource r) (rname r))" if "r \<in> set (mrelations m)" for r
    using bspec [OF relations(2) that]
    by (auto simp: run(6) nm_relation_def hashed_name_def relation_name_of_def split: option.splits)
  show ?thesis
  proof (rule exI [of _ f], rule exI [of _ g], rule exI [of _ k], intro conjI ballI)
    show "same_under f g k m h" by (rule same)
    show "inj_on f (ename ` set (mentities m))" by (rule inj)
    fix s assume s: "s \<in> set (mentities m)"
    show "nm_entity nm (ename s) = Inr (f (ename s))" by (rule names [OF s, THEN conjunct1])
    show "inj_on (g (ename s)) (fname ` set (efields s))" by (rule names [OF s, THEN conjunct2, THEN conjunct1])
    fix fl assume "fl \<in> set (efields s)"
    then show "nm_field nm (ename s) (fname fl) = Inr (g (ename s) (fname fl))" by (rule names [OF s, THEN conjunct2, THEN conjunct2, rule_format])
  next
    fix r assume "r \<in> set (mrelations m)"
    then show "nm_relation nm (rsource r) (rname r) = Inr (k (rsource r) (rname r))" by (rule rels)
  next
    show "\<exists>gs hs. colocation_groups m = Inr gs \<and> colocation_groups h = Inr hs \<and>
       (\<lambda>x. set (gmembers x)) ` set hs = (\<lambda>x. f ` set (gmembers x)) ` set gs" by (rule groups)
  qed
qed

section \<open>A hashing\<close>

definition plain_hash :: keyed_hash where
  "plain_hash salt message = map (\<lambda>b. if b = 0 then 48 else b) message"

definition plain_salt :: "nat list" where
  "plain_salt = replicate 16 7"

definition hashed_parts :: "entity_spec list \<times> relation_spec list \<times> ustring list list" where
  "hashed_parts =
     (map (\<lambda>n. \<lparr>ename = [101, 95, n],
         efields = [\<lparr>fname = [102, 95, n, 48, 97], ftype = lit ''string'', fnullable = False\<rparr>, \<lparr>fname = [102, 95, n, 48, 98], ftype = lit ''int64'', fnullable = True\<rparr>],
         ekey = [[102, 95, n, 48, 97]], epii = [], eresidency = None\<rparr>) [97, 98, 99, 100],
      [\<lparr>rname = [114, 95, 98, 48, 114], rsource = [101, 95, 98], rtarget = [101, 95, 100]\<rparr>],
      [[[101, 95, 97], [101, 95, 99]]])"

lemma hashed_parts_assembled:
  "\<exists>h. assemble id id (fst hashed_parts) (fst (snd hashed_parts)) (snd (snd hashed_parts)) None = Inr h"
  unfolding assemble_returns_iff [of id, simplified]
  by (simp add: declaration_ok_def spec_ok_def declaration_text_ok_def spec_text_ok_def cost_text_ok_def hashed_parts_def text_ok_def lit_def)

lemma witness_hashed:
  assumes "assemble id id witness_entities witness_relations [[[99], [97]]] None = Inr m"
  shows "\<exists>h nm. hash_identifiers plain_hash id id m plain_salt = Inr (h, nm)"
proof -
  have a: "entity_names (\<lambda>n. name_digest plain_hash id plain_salt ''e_'' [n]) [] (mentities m) =
      Inr [([97], [101, 95, 97]), ([98], [101, 95, 98]), ([99], [101, 95, 99]), ([100], [101, 95, 100])]" (is "_ = Inr ?names")
    unfolding assemble_Inr(2) [OF assms] by code_simp
  obtain xs where b: "traverse (hashed_entity (name_digest plain_hash id plain_salt ''f_'') ?names) (mentities m) = Inr xs" "map snd xs = fst hashed_parts"
  proof -
    have "map_sum id (map snd) (traverse (hashed_entity (name_digest plain_hash id plain_salt ''f_'') ?names) (mentities m)) = Inr (fst hashed_parts)"
      unfolding assemble_Inr(2) [OF assms] by code_simp
    then show ?thesis using that by (cases "traverse (hashed_entity (name_digest plain_hash id plain_salt ''f_'') ?names) (mentities m)") auto
  qed
  obtain ys where c: "traverse (hashed_relation (name_digest plain_hash id plain_salt ''r_'') ?names) (mrelations m) = Inr ys"
    "map snd ys = fst (snd hashed_parts)"
  proof -
    have "map_sum id (map snd) (traverse (hashed_relation (name_digest plain_hash id plain_salt ''r_'') ?names) (mrelations m)) = Inr (fst (snd hashed_parts))"
      unfolding assemble_Inr(3) [OF assms] by code_simp
    then show ?thesis using that by (cases "traverse (hashed_relation (name_digest plain_hash id plain_salt ''r_'') ?names) (mrelations m)") auto
  qed
  have d: "traverse (hashed_atomic ?names) (matomic m) = Inr (snd (snd hashed_parts))"
    unfolding assemble_Inr(4) [OF assms] by code_simp
  have e: "sort (snd (snd hashed_parts)) = snd (snd hashed_parts)" by (simp add: hashed_parts_def)
  have "length plain_salt = 16" by (simp add: plain_salt_def)
  then show ?thesis
    using hashed_parts_assembled
    by (simp add: hash_identifiers_def a b c d e assemble_Inr(5) [OF assms] case_sum_Inr)
qed

theorem hashed_model_is_the_same_model_witness:
  "\<exists>m h nm f g k. assemble id id witness_entities witness_relations [[[99], [97]]] None = Inr m \<and>
     hash_identifiers plain_hash id id m plain_salt = Inr (h, nm) \<and> same_under f g k m h \<and> inj_on f (ename ` set (mentities m))"
proof -
  obtain m where m: "assemble id id witness_entities witness_relations [[[99], [97]]] None = Inr m"
    using witness_model_assembled by blast
  obtain h nm where h: "hash_identifiers plain_hash id id m plain_salt = Inr (h, nm)" using witness_hashed [OF m] by blast
  have "\<forall>a \<in> set [[[99::nat], [97]]]. a \<noteq> [] \<and> set a \<subseteq> ename ` set witness_entities" by code_simp
  from hashed_model_is_the_same_model [OF m this h] obtain f g k where fgk: "same_under f g k m h \<and> inj_on f (ename ` set (mentities m))"
    by (elim exE conjE) (rule that, rule conjI)
  show ?thesis by (intro exI conjI) (rule m h fgk [THEN conjunct1] fgk [THEN conjunct2])+
qed

end
