(* ===== verification/Opening.thy ===== *)
theory Opening
  imports Session Zones Watermark Migration
begin

text \<open>
  Opening a session (\<open>Session.__init__\<close>, \<open>generation.validate_generations\<close>) and preparing the schema it
  needs (\<open>provisioning.prepare_schema\<close>): everything that is refused before an operation is routed. An
  adapter is again a record of what it answers; the state of a write fence is what \<open>write_fence(...).state()\<close>
  returns.
\<close>

section \<open>Adapters\<close>

record ('e, 'f) runtime_ops =
  ro_dialect :: "'e \<Rightarrow> dialect"
  ro_fence :: "'e \<Rightarrow> (ustring \<Rightarrow> ustring \<Rightarrow> string + fence_view) option"
  ro_validate :: "'e \<Rightarrow> (physical_layout \<Rightarrow> (ustring, ustring list) dict \<Rightarrow> string + 'f list) option"
  ro_watermark :: "'e watermark_ops"
  ro_ensure :: "'e \<Rightarrow> physical_layout \<Rightarrow> (ustring, ustring list) dict \<Rightarrow> (string + 'f list) \<times> 'e"
  ro_prepare :: "'e \<Rightarrow> ustring \<Rightarrow> ustring \<Rightarrow> int \<Rightarrow> string option \<times> 'e"
  ro_storage :: "'e \<Rightarrow> string option \<times> 'e"

datatype open_error =
    OpenEngine string
  | OpenMap string
  | OpenMigration string
  | OpenAdapter string
  | OpenKeyError
  | OpenNotHex
  | OpenDeclaration declaration_error
  | OpenGroups uf_error
  | OpenLayout layout_error
  | OpenWatermark watermark_error

definition dialect_text :: "dialect \<Rightarrow> ustring" where
  "dialect_text d =
     (case d of Postgres \<Rightarrow> lit ''postgres'' | Clickhouse \<Rightarrow> lit ''clickhouse'' | Orderbook \<Rightarrow> lit ''orderbook''
              | Elasticsearch \<Rightarrow> lit ''elasticsearch'')"

definition adapter_at :: "(ustring, 'e) dict \<Rightarrow> ustring \<Rightarrow> open_error + 'e" where
  "adapter_at engines name = (case map_of engines name of None \<Rightarrow> Inl OpenKeyError | Some e \<Rightarrow> Inr e)"

definition answered :: "string + 'a \<Rightarrow> open_error + 'a" where
  "answered r = (case r of Inl why \<Rightarrow> Inl (OpenAdapter why) | Inr x \<Rightarrow> Inr x)"

section \<open>Generations\<close>

definition refuse_a_fencing_engine :: "('e, 'f) runtime_ops \<Rightarrow> 'e \<Rightarrow> open_error + unit" where
  "refuse_a_fencing_engine ops e =
     require (ro_fence ops e = None) (OpenMigration ''a group without a write generation is on an engine that fences writes'')"

definition layout_keys :: "logical_model \<Rightarrow> physical_layout \<Rightarrow> open_error + (ustring, ustring list) dict" where
  "layout_keys m layout =
     traverse (\<lambda>(entity, _). case entity_of m entity of None \<Rightarrow> Inl OpenKeyError | Some spec \<Rightarrow> Inr (entity, ekey spec)) (tables layout)"

definition unfenced_copy ::
  "('e, 'f) runtime_ops \<Rightarrow> logical_model \<Rightarrow> (ustring, 'e) dict \<Rightarrow> physical_layout materialization \<Rightarrow> open_error + 'f list" where
  "unfenced_copy ops m engines mat =
     and_then (adapter_at engines (mat_engine mat)) (\<lambda>e.
     and_then (refuse_a_fencing_engine ops e) (\<lambda>_.
       case ro_validate ops e of
         None \<Rightarrow> Inr []
       | Some validate \<Rightarrow> and_then (layout_keys m (mat_layout mat)) (\<lambda>ks. answered (validate (mat_layout mat) ks))))"

definition current_generation ::
  "(ustring \<Rightarrow> ustring \<Rightarrow> string + fence_view) \<Rightarrow> ustring \<Rightarrow> int \<Rightarrow> ustring \<Rightarrow> open_error + unit" where
  "current_generation fence project epoch table =
     and_then (answered (fence table project)) (\<lambda>state.
       require (fence_complete state \<and> fence_epoch state = Some epoch) (OpenMigration ''the write generation is not active''))"

definition fenced_copy ::
  "('e, 'f) runtime_ops \<Rightarrow> logical_model \<Rightarrow> (ustring, 'e) dict \<Rightarrow> ustring \<Rightarrow> int \<Rightarrow> physical_layout materialization \<Rightarrow> open_error + 'f list" where
  "fenced_copy ops m engines project epoch mat =
     and_then (adapter_at engines (mat_engine mat)) (\<lambda>e.
       case (ro_fence ops e, ro_validate ops e) of
         (Some fence, Some validate) \<Rightarrow>
           and_then (layout_keys m (mat_layout mat)) (\<lambda>ks.
           and_then (answered (validate (mat_layout mat) ks)) (\<lambda>findings.
           and_then (traverse (current_generation fence project epoch) (sort (vals (tables (mat_layout mat))))) (\<lambda>_. Inr findings)))
       | _ \<Rightarrow> Inl (OpenMigration ''the engine does not implement write generations''))"

definition group_generations ::
  "('e, 'f) runtime_ops \<Rightarrow> logical_model \<Rightarrow> (ustring, 'e) dict \<Rightarrow> ustring \<Rightarrow> physical_layout group_placement \<Rightarrow> open_error + 'f list" where
  "group_generations ops m engines project p =
     and_then (traverse (case gp_write_epoch p of None \<Rightarrow> unfenced_copy ops m engines | Some e \<Rightarrow> fenced_copy ops m engines project e) (all_copies p))
       (\<lambda>fs. Inr (concat fs))"

definition own_project :: "placement_map \<Rightarrow> ustring option \<Rightarrow> open_error + ustring option" where
  "own_project pm project_id =
     (case check_map_project pm project_id of
        Inl (SessionMigration why) \<Rightarrow> Inl (OpenMigration why) | Inl _ \<Rightarrow> Inl OpenKeyError | Inr q \<Rightarrow> Inr q)"

definition validate_generations ::
  "('e, 'f) runtime_ops \<Rightarrow> logical_model \<Rightarrow> placement_map \<Rightarrow> (ustring, 'e) dict \<Rightarrow> ustring option \<Rightarrow> open_error + 'f list" where
  "validate_generations ops m pm engines project_id =
     (if pm_contract pm < 4 then Inr []
      else
        and_then (own_project pm project_id) (\<lambda>project.
        and_then (require (mversion m = pm_model_version pm) (OpenMigration ''the generation-bearing map names another session model'')) (\<lambda>_.
        and_then (traverse (\<lambda>(_, p). group_generations ops m engines (case project of None \<Rightarrow> [] | Some q \<Rightarrow> q) p) (sort_key fst (pm_groups pm))) (\<lambda>fs.
          Inr (concat fs)))))"

section \<open>Opening\<close>

definition missing_engines :: "placement_map \<Rightarrow> (ustring, 'e) dict \<Rightarrow> ustring list" where
  "missing_engines pm engines =
     filter (\<lambda>n. n \<notin> set (keys engines)) (sort (remdups (concat (map (map mat_engine \<circ> all_copies) (vals (pm_groups pm))))))"

text \<open>The copies of the groups of a model that a map places, in the order of the groups.\<close>

definition placed :: "placement_map \<Rightarrow> group list \<Rightarrow> (group \<times> physical_layout group_placement) list" where
  "placed pm groups = concat (map (\<lambda>g. case map_of (pm_groups pm) (gname g) of None \<Rightarrow> [] | Some p \<Rightarrow> [(g, p)]) groups)"

definition check_zones :: "('e, 'f) runtime_ops \<Rightarrow> logical_model \<Rightarrow> placement_map \<Rightarrow> (ustring, 'e) dict \<Rightarrow> group list \<Rightarrow> open_error + unit" where
  "check_zones ops m pm engines groups =
     and_then (traverse (\<lambda>(_, p). traverse (\<lambda>mat. and_then (adapter_at engines (mat_engine mat)) (\<lambda>e.
         require (zone_refusal m (mat_layout mat) (ro_dialect ops e) = None) (OpenMap ''a temporal column does not keep its zone'')))
       (all_copies p)) (placed pm (sort_key gname groups))) (\<lambda>_. Inr ())"

definition copy_precision ::
  "('e, 'f) runtime_ops \<Rightarrow> (ustring, 'e) dict \<Rightarrow> dialect \<Rightarrow> (ustring, (ustring, ustring) dict) dict \<Rightarrow> physical_layout materialization \<Rightarrow> open_error + unit" where
  "copy_precision ops engines source cols copy =
     and_then (adapter_at engines (mat_engine copy)) (\<lambda>e.
     and_then (traverse (\<lambda>(_, cs).
         require (precision_refusal cs (dialect_text source) (dialect_text (ro_dialect ops e)) = None)
           (OpenMigration ''a copy would hold different values from its source'')) (sort_key fst cols)) (\<lambda>_. Inr ()))"

definition check_precision :: "('e, 'f) runtime_ops \<Rightarrow> logical_model \<Rightarrow> placement_map \<Rightarrow> (ustring, 'e) dict \<Rightarrow> group list \<Rightarrow> open_error + unit" where
  "check_precision ops m pm engines groups =
     and_then (traverse (\<lambda>(g, p).
         if gp_also_write p = [] then Inr ()
         else
           and_then (case neutral_columns m g of Inl e \<Rightarrow> Inl (OpenLayout e) | Inr cols \<Rightarrow> Inr cols) (\<lambda>cols.
           and_then (adapter_at engines (mat_engine (gp_source p))) (\<lambda>e.
           and_then (traverse (copy_precision ops engines (ro_dialect ops e) cols) (gp_also_write p)) (\<lambda>_. Inr ()))))
       (placed pm groups)) (\<lambda>_. Inr ())"

text \<open>What a session holds: its groups, its shapes and the admission of its entities.\<close>

definition new_session ::
  "(ustring \<Rightarrow> ustring) \<Rightarrow> (nat list \<Rightarrow> ustring) \<Rightarrow> logical_model \<Rightarrow> placement_map \<Rightarrow> open_error + session" where
  "new_session nfc sha256 m pm =
     (case colocation_groups m of
        Inl e \<Rightarrow> Inl (OpenGroups e)
      | Inr groups \<Rightarrow>
          (case enumerate_shapes nfc sha256 m of
             Inl e \<Rightarrow> Inl OpenKeyError
           | Inr shapes \<Rightarrow>
               (case admissions m (pm_contract pm) groups of
                  Inl e \<Rightarrow> Inl (OpenLayout e)
                | Inr ads \<Rightarrow>
                    Inr \<lparr>se_model = m, se_placement = pm, se_groups = groups, se_shapes = shapes, se_admission = ads\<rparr>)))"

definition open_checks ::
  "('e, 'f) runtime_ops \<Rightarrow> (ustring \<Rightarrow> ustring) \<Rightarrow> (nat list \<Rightarrow> ustring) \<Rightarrow> logical_model \<Rightarrow> placement_map \<Rightarrow> (ustring, 'e) dict \<Rightarrow>
     ustring option \<Rightarrow> open_error + session \<times> 'f list" where
  "open_checks ops nfc sha256 m pm engines project_id =
     and_then (require (case project_id of None \<Rightarrow> True | Some q \<Rightarrow> hex_text 32 q) OpenNotHex) (\<lambda>_.
     and_then (new_session nfc sha256 m pm) (\<lambda>se.
     and_then (require (missing_engines pm engines = []) (OpenEngine ''the placement map refers to engines that were not supplied'')) (\<lambda>_.
     and_then (check_zones ops m pm engines (se_groups se)) (\<lambda>_.
     and_then (check_precision ops m pm engines (se_groups se)) (\<lambda>_.
     and_then (validate_generations ops m pm engines project_id) (\<lambda>findings. Inr (se, findings)))))))"

definition open_session ::
  "('e, 'f) runtime_ops \<Rightarrow> (ustring \<Rightarrow> ustring) \<Rightarrow> (nat list \<Rightarrow> ustring) \<Rightarrow> logical_model \<Rightarrow> placement_map \<Rightarrow> (ustring, 'e) dict \<Rightarrow>
     ustring option \<Rightarrow> (open_error + session \<times> 'f list \<times> watermark_check) \<times> (ustring, 'e) dict" where
  "open_session ops nfc sha256 m pm engines project_id =
     (case open_checks ops nfc sha256 m pm engines project_id of
        Inl e \<Rightarrow> (Inl e, engines)
      | Inr (se, findings) \<Rightarrow>
          (case enforce_forward_only (ro_watermark ops) pm engines of
             (Inl e, engines') \<Rightarrow> (Inl (OpenWatermark e), engines')
           | (Inr check, engines') \<Rightarrow> (Inr (se, findings, check), engines')))"

text \<open>The state of a session that was just opened.\<close>

definition fresh_state :: "(ustring, 'e) dict \<Rightarrow> 'e session_state" where
  "fresh_state engines = \<lparr>st_engines = engines, st_in_write = False, st_deferred = [], st_scope = None\<rparr>"

section \<open>Preparing the schema\<close>

text \<open>
  \<open>prepare_schema\<close>: what is checked before any statement, then copy after copy its schema and the first
  generation of its tables, and for a signed map the storage of the watermark.
\<close>

definition fenced_engines :: "placement_map \<Rightarrow> ustring list" where
  "fenced_engines pm = sort (remdups (concat (map (map mat_engine \<circ> all_copies) (vals (fenced_groups pm)))))"

definition prepare_checks ::
  "('e, 'f) runtime_ops \<Rightarrow> logical_model \<Rightarrow> placement_map \<Rightarrow> (ustring, 'e) dict \<Rightarrow> ustring option \<Rightarrow> open_error + ustring option" where
  "prepare_checks ops m pm engines project_id =
     and_then (require (mversion m = pm_model_version pm) (OpenMigration ''schema preparation needs the model named by the placement map'')) (\<lambda>_.
     and_then (own_project pm project_id) (\<lambda>project.
     and_then (require (missing_engines pm engines = []) (OpenMigration ''schema preparation is missing an engine named by the map'')) (\<lambda>_.
     and_then (if pm_contract pm < 4 then Inr ()
               else and_then (traverse (adapter_at engines) (fenced_engines pm)) (\<lambda>es.
                      require (\<forall>e \<in> set es. ro_fence ops e \<noteq> None) (OpenMigration ''schema preparation needs native write generations''))) (\<lambda>_.
     and_then (if pm_contract pm < 4 then Inr []
               else traverse (\<lambda>(_, p). if gp_write_epoch p \<noteq> None then Inr []
                                 else traverse (\<lambda>mat. and_then (adapter_at engines (mat_engine mat)) (refuse_a_fencing_engine ops)) (all_copies p))
                      (sort_key fst (pm_groups pm))) (\<lambda>_. Inr project)))))"

fun prepare_tables ::
  "('e, 'f) runtime_ops \<Rightarrow> ustring \<Rightarrow> int \<Rightarrow> ustring list \<Rightarrow> 'e \<Rightarrow> open_error option \<times> 'e" where
  "prepare_tables ops project epoch [] e = (None, e)"
| "prepare_tables ops project epoch (t # ts) e =
     (case ro_prepare ops e t project epoch of
        (Some why, e') \<Rightarrow> (Some (OpenAdapter why), e')
      | (None, e') \<Rightarrow> prepare_tables ops project epoch ts e')"

definition prepare_copy ::
  "('e, 'f) runtime_ops \<Rightarrow> ustring \<Rightarrow> int option \<Rightarrow> (ustring, ustring list) dict \<Rightarrow> physical_layout materialization \<Rightarrow> 'e \<Rightarrow> open_error option \<times> 'e" where
  "prepare_copy ops project epoch ks mat e =
     (case ro_ensure ops e (mat_layout mat) ks of
        (Inl why, e') \<Rightarrow> (Some (OpenAdapter why), e')
      | (Inr findings, e') \<Rightarrow>
          if findings \<noteq> [] then (Some (OpenEngine ''an existing table differs from the declared physical design''), e')
          else case epoch of
                 None \<Rightarrow> (None, e')
               | Some n \<Rightarrow> prepare_tables ops project n (sort (vals (tables (mat_layout mat)))) e')"

fun prepare_copies ::
  "('e, 'f) runtime_ops \<Rightarrow> ustring \<Rightarrow> int option \<Rightarrow> (ustring, ustring list) dict \<Rightarrow> physical_layout materialization list \<Rightarrow> (ustring, 'e) dict \<Rightarrow>
     open_error option \<times> (ustring, 'e) dict" where
  "prepare_copies ops project epoch ks [] engines = (None, engines)"
| "prepare_copies ops project epoch ks (mat # mats) engines =
     (case map_of engines (mat_engine mat) of
        None \<Rightarrow> (Some OpenKeyError, engines)
      | Some e \<Rightarrow>
          (case prepare_copy ops project epoch ks mat e of
             (Some err, e') \<Rightarrow> (Some err, AList.update (mat_engine mat) e' engines)
           | (None, e') \<Rightarrow> prepare_copies ops project epoch ks mats (AList.update (mat_engine mat) e' engines)))"

definition member_keys :: "logical_model \<Rightarrow> group \<Rightarrow> open_error + (ustring, ustring list) dict" where
  "member_keys m g = traverse (\<lambda>n. case entity_of m n of None \<Rightarrow> Inl OpenKeyError | Some spec \<Rightarrow> Inr (n, ekey spec)) (gmembers g)"

fun prepare_groups ::
  "('e, 'f) runtime_ops \<Rightarrow> logical_model \<Rightarrow> placement_map \<Rightarrow> ustring \<Rightarrow> group list \<Rightarrow> (ustring, 'e) dict \<Rightarrow> open_error option \<times> (ustring, 'e) dict" where
  "prepare_groups ops m pm project [] engines = (None, engines)"
| "prepare_groups ops m pm project (g # groups) engines =
     (case placement_of pm (gname g) of
        Inl e \<Rightarrow> (Some (OpenMap ''the placement map has no such group''), engines)
      | Inr p \<Rightarrow>
          (case member_keys m g of
             Inl e \<Rightarrow> (Some e, engines)
           | Inr ks \<Rightarrow>
               (case prepare_copies ops project (gp_write_epoch p) ks (all_copies p) engines of
                  (Some err, engines') \<Rightarrow> (Some err, engines')
                | (None, engines') \<Rightarrow> prepare_groups ops m pm project groups engines')))"

fun prepare_storage :: "('e, 'f) runtime_ops \<Rightarrow> ustring list \<Rightarrow> (ustring, 'e) dict \<Rightarrow> open_error option \<times> (ustring, 'e) dict" where
  "prepare_storage ops [] engines = (None, engines)"
| "prepare_storage ops (n # ns) engines =
     (case map_of engines n of
        None \<Rightarrow> prepare_storage ops ns engines
      | Some e \<Rightarrow>
          if \<not> wm_able (ro_watermark ops) e then prepare_storage ops ns engines
          else case ro_storage ops e of
                 (Some why, e') \<Rightarrow> (Some (OpenAdapter why), AList.update n e' engines)
               | (None, e') \<Rightarrow> prepare_storage ops ns (AList.update n e' engines))"

definition prepare_schema ::
  "('e, 'f) runtime_ops \<Rightarrow> logical_model \<Rightarrow> placement_map \<Rightarrow> (ustring, 'e) dict \<Rightarrow> ustring option \<Rightarrow> open_error option \<times> (ustring, 'e) dict" where
  "prepare_schema ops m pm engines project_id =
     (case prepare_checks ops m pm engines project_id of
        Inl e \<Rightarrow> (Some e, engines)
      | Inr project \<Rightarrow>
          (case colocation_groups m of
             Inl e \<Rightarrow> (Some (OpenGroups e), engines)
           | Inr groups \<Rightarrow>
               (case prepare_groups ops m pm (case project of None \<Rightarrow> [] | Some q \<Rightarrow> q) groups engines of
                  (Some err, engines') \<Rightarrow> (Some err, engines')
                | (None, engines') \<Rightarrow> if pm_signed pm then prepare_storage ops (sort (keys engines')) engines' else (None, engines'))))"

section \<open>What an opened session relies on\<close>

lemma traverse_each: "traverse f xs = Inr ys \<Longrightarrow> x \<in> set xs \<Longrightarrow> \<exists>y. f x = Inr y"
  by (induction xs arbitrary: ys) (auto simp: and_then_Inr)

lemma open_checks_Inr:
  assumes "open_checks ops nfc sha256 m pm engines project_id = Inr (se, findings)"
  shows "\<exists>groups shapes. colocation_groups m = Inr groups \<and> enumerate_shapes nfc sha256 m = Inr shapes \<and>
    se_groups se = groups \<and> se_shapes se = shapes \<and> se_placement se = pm \<and> se_model se = m \<and> missing_engines pm engines = [] \<and>
    check_zones ops m pm engines groups = Inr () \<and> check_precision ops m pm engines groups = Inr () \<and>
    validate_generations ops m pm engines project_id = Inr findings"
  using assms by (auto simp: open_checks_def new_session_def and_then_Inr require_Inr split: sum.splits)

lemma no_missing_engine:
  assumes "missing_engines pm engines = []" "(name, p) \<in> set (pm_groups pm)" "mat \<in> set (all_copies p)"
  shows "\<exists>e. map_of engines (mat_engine mat) = Some e"
proof -
  have "mat_engine mat \<in> set (keys engines)"
    using assms by (force simp: missing_engines_def filter_empty_conv)
  then show ?thesis by (cases "map_of engines (mat_engine mat)") (auto simp: map_of_eq_None_iff)
qed

lemma placed_group: "map_of (pm_groups pm) (gname g) = Some p \<Longrightarrow> g \<in> set groups \<Longrightarrow> (g, p) \<in> set (placed pm groups)"
  by (force simp: placed_def)

lemma zones_kept:
  assumes "check_zones ops m pm engines groups = Inr ()" "g \<in> set groups" "placement_of pm (gname g) = Inr p" "mat \<in> set (all_copies p)"
  shows "\<exists>e. map_of engines (mat_engine mat) = Some e \<and> zone_refusal m (mat_layout mat) (ro_dialect ops e) = None"
proof -
  have "map_of (pm_groups pm) (gname g) = Some p" using assms(3) by (auto simp: placement_of_def split: option.splits)
  then have "(g, p) \<in> set (placed pm (sort_key gname groups))" using assms(2) by (intro placed_group) simp_all
  moreover obtain us where "traverse (\<lambda>(_, p). traverse (\<lambda>mat. and_then (adapter_at engines (mat_engine mat)) (\<lambda>e.
         require (zone_refusal m (mat_layout mat) (ro_dialect ops e) = None) (OpenMap ''a temporal column does not keep its zone'')))
       (all_copies p)) (placed pm (sort_key gname groups)) = Inr us"
    using assms(1) by (auto simp: check_zones_def and_then_Inr)
  ultimately obtain vs where "traverse (\<lambda>mat. and_then (adapter_at engines (mat_engine mat)) (\<lambda>e.
         require (zone_refusal m (mat_layout mat) (ro_dialect ops e) = None) (OpenMap ''a temporal column does not keep its zone'')))
       (all_copies p) = Inr vs" using traverse_each by fastforce
  from traverse_each [OF this assms(4)] show ?thesis
    by (auto simp: and_then_Inr require_Inr adapter_at_def split: option.splits)
qed

lemma precision_kept:
  assumes "check_precision ops m pm engines groups = Inr ()" "g \<in> set groups" "placement_of pm (gname g) = Inr p" "copy \<in> set (gp_also_write p)"
    "neutral_columns m g = Inr cols" "(entity, cs) \<in> set cols"
  shows "\<exists>src tgt. map_of engines (mat_engine (gp_source p)) = Some src \<and> map_of engines (mat_engine copy) = Some tgt \<and>
    precision_refusal cs (dialect_text (ro_dialect ops src)) (dialect_text (ro_dialect ops tgt)) = None"
proof -
  have "map_of (pm_groups pm) (gname g) = Some p" using assms(3) by (auto simp: placement_of_def split: option.splits)
  then have gp: "(g, p) \<in> set (placed pm groups)" using assms(2) by (rule placed_group)
  obtain us where "traverse (\<lambda>(g, p).
         if gp_also_write p = [] then Inr ()
         else
           and_then (case neutral_columns m g of Inl e \<Rightarrow> Inl (OpenLayout e) | Inr cols \<Rightarrow> Inr cols) (\<lambda>cols.
           and_then (adapter_at engines (mat_engine (gp_source p))) (\<lambda>e.
           and_then (traverse (copy_precision ops engines (ro_dialect ops e) cols) (gp_also_write p)) (\<lambda>_. Inr ()))))
       (placed pm groups) = Inr us"
    using assms(1) by (auto simp: check_precision_def and_then_Inr)
  from traverse_each [OF this gp] obtain src vs where src: "map_of engines (mat_engine (gp_source p)) = Some src"
    "traverse (copy_precision ops engines (ro_dialect ops src) cols) (gp_also_write p) = Inr vs"
    using assms(4,5) by (auto simp: and_then_Inr adapter_at_def split: if_splits option.splits)
  from traverse_each [OF src(2) assms(4)] obtain tgt ws where tgt: "map_of engines (mat_engine copy) = Some tgt"
    "traverse (\<lambda>(_, cs). require (precision_refusal cs (dialect_text (ro_dialect ops src)) (dialect_text (ro_dialect ops tgt)) = None)
           (OpenMigration ''a copy would hold different values from its source'')) (sort_key fst cols) = Inr ws"
    by (auto simp: copy_precision_def and_then_Inr adapter_at_def split: option.splits)
  have "(entity, cs) \<in> set (sort_key fst cols)" using assms(6) by simp
  from traverse_each [OF tgt(2) this] show ?thesis using src(1) tgt(1) by (auto simp: require_Inr)
qed

lemma generations_current:
  assumes "validate_generations ops m pm engines project_id = Inr findings" "4 \<le> pm_contract pm"
  shows "project_id \<noteq> None \<and> project_id = pm_project_id pm \<and> mversion m = pm_model_version pm"
    and "(name, p) \<in> set (pm_groups pm) \<Longrightarrow> mat \<in> set (all_copies p) \<Longrightarrow>
      \<exists>e. map_of engines (mat_engine mat) = Some e \<and>
        (case gp_write_epoch p of
           None \<Rightarrow> ro_fence ops e = None
         | Some n \<Rightarrow> \<exists>fence. ro_fence ops e = Some fence \<and>
             (\<forall>t \<in> set (vals (tables (mat_layout mat))). \<exists>st. fence t (the project_id) = Inr st \<and> fence_complete st \<and> fence_epoch st = Some n))"
proof -
  obtain project fs where run: "own_project pm project_id = Inr project" "mversion m = pm_model_version pm"
    "traverse (\<lambda>(_, p). group_generations ops m engines (case project of None \<Rightarrow> [] | Some q \<Rightarrow> q) p) (sort_key fst (pm_groups pm)) = Inr fs"
    using assms by (auto simp: validate_generations_def and_then_Inr require_Inr)
  have project: "project = project_id" "project_id \<noteq> None" "project_id = pm_project_id pm"
    using run(1) assms(2) by (auto simp: own_project_def check_map_project_def split: if_splits)
  then show "project_id \<noteq> None \<and> project_id = pm_project_id pm \<and> mversion m = pm_model_version pm" using run(2) by simp
  assume mem: "(name, p) \<in> set (pm_groups pm)" "mat \<in> set (all_copies p)"
  then have "(name, p) \<in> set (sort_key fst (pm_groups pm))" by simp
  have "(case project of None \<Rightarrow> [] | Some q \<Rightarrow> q) = the project_id" using project by auto
  from traverse_each [OF run(3) [unfolded this] \<open>(name, p) \<in> set (sort_key fst (pm_groups pm))\<close>] obtain gs where
    "traverse (case gp_write_epoch p of None \<Rightarrow> unfenced_copy ops m engines | Some e \<Rightarrow> fenced_copy ops m engines (the project_id) e) (all_copies p) = Inr gs"
    by (auto simp: group_generations_def and_then_Inr)
  from traverse_each [OF this mem(2)] obtain hs where
    copy: "(case gp_write_epoch p of None \<Rightarrow> unfenced_copy ops m engines | Some e \<Rightarrow> fenced_copy ops m engines (the project_id) e) mat = Inr hs" by blast
  show "\<exists>e. map_of engines (mat_engine mat) = Some e \<and>
        (case gp_write_epoch p of
           None \<Rightarrow> ro_fence ops e = None
         | Some n \<Rightarrow> \<exists>fence. ro_fence ops e = Some fence \<and>
             (\<forall>t \<in> set (vals (tables (mat_layout mat))). \<exists>st. fence t (the project_id) = Inr st \<and> fence_complete st \<and> fence_epoch st = Some n))"
  proof (cases "gp_write_epoch p")
    case None
    then show ?thesis using copy
      by (auto simp: unfenced_copy_def refuse_a_fencing_engine_def and_then_Inr require_Inr adapter_at_def split: option.splits)
  next
    case (Some n)
    then obtain e fence us where e: "map_of engines (mat_engine mat) = Some e" "ro_fence ops e = Some fence"
      "traverse (current_generation fence (the project_id) n) (sort (vals (tables (mat_layout mat)))) = Inr us"
      using copy by (auto simp: fenced_copy_def and_then_Inr adapter_at_def split: option.splits)
    have "\<exists>st. fence t (the project_id) = Inr st \<and> fence_complete st \<and> fence_epoch st = Some n" if "t \<in> set (vals (tables (mat_layout mat)))" for t
      using traverse_each [OF e(3), of t] that
      by (auto simp: current_generation_def answered_def and_then_Inr require_Inr split: sum.splits)
    then show ?thesis using e(1,2) Some by auto
  qed
qed

lemma record_all_dom: "record_all ops v mv names engines = (r, engines') \<Longrightarrow> map_of engines n \<noteq> None \<Longrightarrow> map_of engines' n \<noteq> None"
  by (induction names arbitrary: engines) (auto split: prod.splits option.splits if_splits)

lemma enforce_keeps_engines:
  "enforce_forward_only ops pm engines = (Inr check, engines') \<Longrightarrow> map_of engines n \<noteq> None \<Longrightarrow> map_of engines' n \<noteq> None"
  by (auto simp: enforce_forward_only_def Let_def dest: record_all_dom split: if_splits sum.splits prod.splits option.splits)

lemma enforced_when_able:
  assumes "enforce_forward_only ops pm engines = (Inr check, engines')" "pm_signed pm" "map_of engines n = Some e" "wm_able ops e"
  shows "wc_protection check = Enforced"
proof -
  have "(n, e) \<in> set engines" using assms(3) by (rule map_of_SomeD)
  then have "fst (split_engines ops engines) \<noteq> []"
    using assms(4) by (force simp: split_engines_def Let_def filter_empty_conv)
  then show ?thesis using assms(1,2)
    by (auto simp: enforce_forward_only_def Let_def split: if_splits sum.splits prod.splits option.splits)
qed

lemma placement_of_mem: "placement_of pm g = Inr p \<Longrightarrow> (g, p) \<in> set (pm_groups pm)"
  by (auto simp: placement_of_def split: option.splits dest: map_of_SomeD)


section \<open>A session that opens\<close>

text \<open>Two adapters that neither fence writes nor keep a watermark.\<close>

definition plain_runtime :: "(unit, unit) runtime_ops" where
  "plain_runtime =
     \<lparr>ro_dialect = (\<lambda>_. Postgres), ro_fence = (\<lambda>_. None), ro_validate = (\<lambda>_. None),
      ro_watermark = \<lparr>wm_able = (\<lambda>_. False), wm_read = (\<lambda>_. Inr None), wm_record = (\<lambda>e _ _. (None, e))\<rparr>,
      ro_ensure = (\<lambda>e _ _. (Inr [], e)), ro_prepare = (\<lambda>e _ _ _. (None, e)), ro_storage = (\<lambda>e. (None, e))\<rparr>"

definition plain_engines :: "(ustring, unit) dict" where
  "plain_engines = [(lit ''pg'', ()), (lit ''ch'', ())]"

lemma plain_session_opens:
  assumes m: "assemble id code_sha [witness_spec (lit ''E'') False] [] [] None = Inr m"
    and groups: "colocation_groups m = Inr [\<lparr>gname = lit ''E'', gmembers = [lit ''E'']\<rparr>]" and shapes: "enumerate_shapes id code_sha m = Inr shapes"
    and pm: "pm_groups pm = [(lit ''E'', routed_placement plain_layout)]" "pm_contract pm = 3" "\<not> pm_signed pm"
  shows "\<exists>se check. open_session plain_runtime id code_sha m pm plain_engines None = (Inr (se, [], check), plain_engines) \<and> se_shapes se = shapes"
proof -
  have "\<exists>ads. admissions m 3 [\<lparr>gname = lit ''E'', gmembers = [lit ''E'']\<rparr>] = Inr ads"
    unfolding admissions_def neutral_columns_def entity_columns_def entity_admission_def the_entity_def entity_of_def assemble_Inr [OF m]
    by (simp add: witness_spec_def ordered_spec_def)
  then obtain se where se: "new_session id code_sha m pm = Inr se" "se_shapes se = shapes" "se_groups se = [\<lparr>gname = lit ''E'', gmembers = [lit ''E'']\<rparr>]"
    using groups shapes pm(2) by (auto simp: new_session_def)
  have "missing_engines pm plain_engines = []"
    by (simp add: missing_engines_def pm(1) plain_engines_def all_copies_def routed_placement_def filter_empty_conv)
  moreover have "check_zones plain_runtime m pm plain_engines (se_groups se) = Inr ()"
    by (simp add: check_zones_def se(3) placed_def pm(1) all_copies_def routed_placement_def adapter_at_def plain_engines_def
        zone_refusal_def plain_layout_def)
  moreover have "check_precision plain_runtime m pm plain_engines (se_groups se) = Inr ()"
    by (simp add: check_precision_def se(3) placed_def pm(1) routed_placement_def)
  moreover have "validate_generations plain_runtime m pm plain_engines None = Inr []"
    by (simp add: validate_generations_def pm(2))
  ultimately show ?thesis
    using se pm(3) by (simp add: open_session_def open_checks_def enforce_forward_only_def)
qed


end
