(* ===== verification/Cutover.thy ===== *)
theory Cutover
  imports Session Migration
begin

text \<open>
  The signed authorization of a cutover (\<open>cutover.py\<close>): one document that carries the map in force and
  the two maps a cutover may end with, and the checks that make either of them an acceptable outcome.

  The document is what \<open>json.loads\<close> gave; reading its canonical bytes back gives its canonical
  form, \<open>canon\<close>. The encoder and the decoder of base64 and Ed25519 are parameters, as they are for a
  placement map. Some reads of a document cannot fail because \<open>load_map\<close> has read the same place
  before; they are written with \<open>dict_get\<close>.
\<close>

section \<open>Errors\<close>

text \<open>
  What can be raised while a cutover is loaded or executed: \<open>MigrationRefused\<close>, the two exceptions of
  \<open>local_cutover.py\<close>, an error of a map, any other exception, and the interrupt of a deadline, which is
  not an \<open>Exception\<close>.
\<close>

datatype cutover_error =
    CutoverRefused string
  | CutoverRecovery string
  | BudgetExceeded
  | CutoverMap map_error
  | CutoverFailed string
  | CutoverInterrupted

abbreviation cutover_refused :: "string \<Rightarrow> cutover_error + 'a" where
  "cutover_refused what \<equiv> Inl (CutoverRefused what)"

definition lifted :: "('e \<Rightarrow> 'f) \<Rightarrow> 'e + 'a \<Rightarrow> 'f + 'a" where
  "lifted f r = (case r of Inl e \<Rightarrow> Inl (f e) | Inr x \<Rightarrow> Inr x)"

lemma lifted_Inr [simp, outcome_simps]: "lifted f r = Inr x \<longleftrightarrow> r = Inr x"
  by (cases r) (simp_all add: lifted_def)

fun of_migration :: "migration_error \<Rightarrow> cutover_error" where
  "of_migration (MigrationRefused why) = CutoverRefused why"
| "of_migration (EngineError why) = CutoverFailed why"
| "of_migration (MigrationMap e) = CutoverMap e"
| "of_migration (MigrationGroups e) = CutoverMap (MapGroups e)"
| "of_migration MigrationKeyError = CutoverFailed ''KeyError''"

fun of_session :: "session_error \<Rightarrow> cutover_error" where
  "of_session (SessionMigration why) = CutoverRefused why"
| "of_session (SessionMap e) = CutoverMap e"
| "of_session _ = CutoverFailed ''session''"

fun of_shapes :: "shape_error \<Rightarrow> cutover_error" where
  "of_shapes (GroupError e) = CutoverMap (MapGroups e)"
| "of_shapes (ShapeNotCanonical e) = CutoverMap (MapCanonical e)"

section \<open>Reading the document\<close>

definition CUTOVER_PROTOCOL :: int where
  "CUTOVER_PROTOCOL = 1"

definition CUTOVER_RELAYOUT_PROTOCOL :: int where
  "CUTOVER_RELAYOUT_PROTOCOL = 2"

definition cutover_fields :: "ustring set" where
  "cutover_fields = lit ` {''kind'', ''protocol'', ''plan_id'', ''project_id'', ''group'', ''pause_budget_ms'',
     ''query_impact_digest'', ''verification'', ''before'', ''success'', ''abort'', ''signature''}"

definition cutover_hex :: "pyval \<Rightarrow> nat \<Rightarrow> cutover_error + ustring" where
  "cutover_hex v width =
     (case v of PStr s \<Rightarrow> if hex_text width s then Inr s else cutover_refused ''lowercase hexadecimal digits''
      | _ \<Rightarrow> cutover_refused ''lowercase hexadecimal digits'')"

definition positive_integer :: "pyval \<Rightarrow> cutover_error + int" where
  "positive_integer v =
     (case v of PInt i \<Rightarrow> if 1 \<le> i \<and> i \<le> MAX_EPOCH then Inr i else cutover_refused ''a positive safe integer''
      | _ \<Rightarrow> cutover_refused ''a positive safe integer'')"

definition cutover_object :: "pyval \<Rightarrow> cutover_error + (ustring \<times> pyval) list" where
  "cutover_object v = (case v of PDict d \<Rightarrow> Inr d | _ \<Rightarrow> cutover_refused ''must be an object'')"

definition cutover_signature ::
  "(nat list \<Rightarrow> ustring) \<Rightarrow> crypto \<Rightarrow> (ustring \<times> pyval) list \<Rightarrow> cutover_error + unit" where
  "cutover_signature b64encode cr d =
     and_then (cutover_object (dict_get d ''signature'')) (\<lambda>signature.
       let ks = set (keys signature)
       in if ks \<noteq> lit ` {''alg'', ''value''} \<and> ks \<noteq> lit ` {''alg'', ''value'', ''key_id''}
          then cutover_refused ''missing or unknown fields''
          else case (dict_get signature ''alg'' = PStr (lit ''ed25519''), dict_get signature ''value'') of
                 (True, PStr v) \<Rightarrow>
                   (case cr_b64decode cr v of
                      None \<Rightarrow> cutover_refused ''canonical base64''
                    | Some bs \<Rightarrow>
                        if length bs \<noteq> 64 \<or> b64encode bs \<noteq> v then cutover_refused ''canonical base64''
                        else if lit ''key_id'' \<in> ks \<and> \<not> is_str (dict_get signature ''key_id'')
                        then cutover_refused ''key_id must be a string''
                        else Inr ())
               | _ \<Rightarrow> cutover_refused ''must use ed25519'')"

section \<open>The plan\<close>

record cutover_plan =
  pl_plan_id :: ustring
  pl_project_id :: ustring
  pl_group :: ustring
  pl_before :: placement_map
  pl_success :: placement_map
  pl_abort :: placement_map
  pl_verification :: bound_request
  pl_pause_budget_ms :: int
  pl_query_impact_digest :: ustring
  pl_verified_with :: "ustring option"
  pl_fingerprint :: "ustring option"
  pl_document :: "pyval option"

datatype outcome = Success | Abort

definition loaded :: "cutover_plan \<Rightarrow> cutover_error + pyval" where
  "loaded pl =
     (case (pl_fingerprint pl, pl_document pl) of
        (Some _, Some doc) \<Rightarrow> Inr doc
      | _ \<Rightarrow> cutover_refused ''cutover execution requires an immutable loaded plan'')"

definition source_epoch :: "cutover_plan \<Rightarrow> cutover_error + int" where
  "source_epoch pl =
     and_then (loaded pl) (\<lambda>_.
     and_then (lifted CutoverMap (placement_of (pl_before pl) (pl_group pl))) (\<lambda>p.
       case gp_write_epoch p of None \<Rightarrow> Inl (CutoverFailed ''AssertionError'') | Some e \<Rightarrow> Inr e))"

definition maintenance_epoch :: "cutover_plan \<Rightarrow> cutover_error + int" where
  "maintenance_epoch pl = and_then (source_epoch pl) (\<lambda>e. Inr (e + 1))"

definition activation_epoch :: "cutover_plan \<Rightarrow> cutover_error + int" where
  "activation_epoch pl = and_then (source_epoch pl) (\<lambda>e. Inr (e + 2))"

definition outcome_name :: "outcome \<Rightarrow> string" where
  "outcome_name o' = (case o' of Success \<Rightarrow> ''success'' | Abort \<Rightarrow> ''abort'')"

text \<open>The payload is kept as the value its canonical bytes read back to.\<close>

definition candidate_payload :: "cutover_plan \<Rightarrow> outcome \<Rightarrow> cutover_error + pyval" where
  "candidate_payload pl o' =
     and_then (loaded pl) (\<lambda>doc. and_then (cutover_object doc) (\<lambda>d. Inr (dict_get d (outcome_name o'))))"

definition check_current :: "cutover_plan \<Rightarrow> placement_map \<Rightarrow> cutover_error + unit" where
  "check_current pl current =
     and_then (loaded pl) (\<lambda>_.
     and_then (lifted of_session (check_map_project current (Some (pl_project_id pl)))) (\<lambda>_.
       require (pm_signed current \<and> pm_fingerprint current = pm_fingerprint (pl_before pl))
         (CutoverRefused ''cutover plan does not name the current placement map'')))"

section \<open>Loading\<close>

text \<open>What every materialization of a candidate must have: an explicit layout.\<close>

definition explicit_copy :: "pyval \<Rightarrow> cutover_error + unit" where
  "explicit_copy raw =
     and_then (cutover_object raw) (\<lambda>d.
     and_then (cutover_object (dict_get d ''layout'')) (\<lambda>layout.
       require (\<not> truthy (dict_get layout ''auto'')) (CutoverRefused ''cutover maps require explicit physical layouts'')))"

definition explicit_group :: "ustring \<times> pyval \<Rightarrow> cutover_error + unit" where
  "explicit_group = (\<lambda>(_, raw).
     and_then (cutover_object raw) (\<lambda>d.
       case (case map_of d (lit ''derived'') of None \<Rightarrow> PList [] | Some v \<Rightarrow> v) of
         PList derived \<Rightarrow> and_then (traverse explicit_copy (dict_get d ''source'' # derived)) (\<lambda>_. Inr ())
       | _ \<Rightarrow> cutover_refused ''cutover derived copies must be an array''))"

text \<open>What the maps are read with: the tables of the interpreter, the keys and the model.\<close>

record reading =
  rd_unicode :: unicode
  rd_nfc :: "ustring \<Rightarrow> ustring"
  rd_lower :: "ustring \<Rightarrow> ustring"
  rd_sha256 :: "nat list \<Rightarrow> ustring"
  rd_crypto :: crypto
  rd_b64encode :: "nat list \<Rightarrow> ustring"
  rd_model :: logical_model
  rd_project :: ustring
  rd_keys :: key_arg

text \<open>\<open>load_map(..., model=..., public_key=..., require_signature=True)\<close>\<close>

definition signed_map :: "reading \<Rightarrow> pyval \<Rightarrow> cutover_error + placement_map" where
  "signed_map rd doc =
     lifted CutoverMap (parse_map (rd_unicode rd) (rd_nfc rd) (rd_lower rd) (rd_sha256 rd) (rd_crypto rd) doc
       (Some (rd_model rd)) (Some (rd_keys rd)) True)"

definition candidate_map :: "reading \<Rightarrow> (ustring \<times> pyval) list \<Rightarrow> cutover_error + placement_map" where
  "candidate_map rd document =
     and_then (cutover_signature (rd_b64encode rd) (rd_crypto rd) document) (\<lambda>_.
     and_then (cutover_object (dict_get document ''groups'')) (\<lambda>raw_groups.
     and_then (traverse explicit_group raw_groups) (\<lambda>_.
     and_then (signed_map rd (PDict document)) (\<lambda>parsed.
     and_then (require (\<not> pm_contract parsed < GENERATIONS_SINCE)
       (CutoverRefused ''cutover requires placement map contract 4 or later'')) (\<lambda>_.
     and_then (lifted of_session (check_map_project parsed (Some (rd_project rd)))) (\<lambda>_.
     and_then (positive_integer (PInt (pm_map_version parsed))) (\<lambda>_.
       Inr parsed)))))))"

definition without_keys :: "string set \<Rightarrow> (ustring \<times> pyval) list \<Rightarrow> (ustring \<times> pyval) list" where
  "without_keys ks d = filter (\<lambda>(k, _). k \<notin> lit ` ks) d"

text \<open>\<open>canonical_bytes(left) != canonical_bytes(right)\<close> refuses.\<close>

definition same_canonical :: "(ustring \<Rightarrow> ustring) \<Rightarrow> pyval \<Rightarrow> pyval \<Rightarrow> string \<Rightarrow> cutover_error + unit" where
  "same_canonical nfc v w why =
     and_then (lifted (CutoverMap \<circ> MapCanonical) (canonical_bytes nfc v)) (\<lambda>bs.
     and_then (lifted (CutoverMap \<circ> MapCanonical) (canonical_bytes nfc w)) (\<lambda>bs'.
       require (bs = bs') (CutoverRefused why)))"

abbreviation raw_group :: "(ustring \<times> pyval) list \<Rightarrow> ustring \<Rightarrow> pyval" where
  "raw_group document g \<equiv>
     (case dict_get document ''groups'' of PDict gs \<Rightarrow> (case map_of gs g of None \<Rightarrow> PNone | Some v \<Rightarrow> v) | _ \<Rightarrow> PNone)"

definition member :: "pyval \<Rightarrow> string \<Rightarrow> pyval" where
  "member v k = (case v of PDict d \<Rightarrow> dict_get d k | _ \<Rightarrow> PNone)"

definition first_item :: "pyval \<Rightarrow> pyval" where
  "first_item v = (case v of PList (x # _) \<Rightarrow> x | _ \<Rightarrow> PNone)"

definition entries :: "pyval \<Rightarrow> (ustring \<times> pyval) list" where
  "entries v = (case v of PDict d \<Rightarrow> d | _ \<Rightarrow> [])"

text \<open>
  The body of the last loop: what one terminal map may differ in from the map in force. \<open>original\<close> is
  the materialization of the map in force that the terminal map makes the only one of the group.
\<close>

definition check_terminal ::
  "(ustring \<Rightarrow> ustring) \<Rightarrow> ustring \<Rightarrow> (ustring \<times> pyval) list \<Rightarrow> placement_map \<Rightarrow> (ustring, ustring) dict \<Rightarrow> pyval \<Rightarrow> ustring \<Rightarrow>
     int \<Rightarrow> (ustring \<times> pyval) list \<Rightarrow> placement_map \<Rightarrow> cutover_error + unit" where
  "check_terminal nfc g before_raw before_map routes original engine terminal_epoch document parsed =
     (let stable = without_keys {''signature'', ''map_version'', ''groups'', ''routing''};
          others = filter (\<lambda>name. name \<noteq> g) (keys (pm_groups before_map));
          terminal = entries (raw_group document g);
          candidate = entries (dict_get terminal ''source'')
      in
        and_then (same_canonical nfc (PDict (stable document)) (PDict (stable before_raw)) ''other map attributes'') (\<lambda>_.
        and_then (require (set (keys (pm_groups parsed)) = set (keys (pm_groups before_map)))
          (CutoverRefused ''cutover cannot change other map attributes or groups'')) (\<lambda>_.
        and_then (require (set (pm_routing parsed) = set routes)
          (CutoverRefused ''cutover terminal routing must preserve the unaffected groups'')) (\<lambda>_.
        and_then (traverse (\<lambda>other. same_canonical nfc (raw_group document other) (raw_group before_raw other)
          ''cutover cannot change an unaffected group'') others) (\<lambda>_.
        and_then (require (set (keys terminal) = lit ` {''source'', ''write_epoch''} \<and> dict_get terminal ''write_epoch'' = PInt terminal_epoch)
          (CutoverRefused ''cutover terminal group must contain only its source and decision generation'')) (\<lambda>_.
        and_then (require (nonempty_str (dict_get candidate ''id''))
          (CutoverRefused ''cutover terminal source must have a nonempty string id'')) (\<lambda>_.
        and_then (same_canonical nfc (PDict (without_keys {''id''} candidate))
          (PDict (without_keys {''id'', ''lag_budget_ms''} (entries original)))
          ''cutover terminal map changed the authorized physical materialization'') (\<lambda>_.
          require (map_option (\<lambda>p. mat_engine (gp_source p)) (map_of (pm_groups parsed) g) = Some engine)
            (CutoverRefused ''cutover terminal map changed the authorized physical materialization'')))))))))"

text \<open>The envelope: every field but the maps, the request and the document itself.\<close>

record envelope =
  en_protocol :: int
  en_plan_id :: ustring
  en_budget :: int
  en_digest :: ustring
  en_group :: ustring
  en_verified_with :: "ustring option"

definition read_envelope :: "reading \<Rightarrow> (ustring \<times> pyval) list \<Rightarrow> cutover_error + envelope" where
  "read_envelope rd body =
     and_then (require (set (keys body) = cutover_fields) (CutoverRefused ''cutover plan has missing or unknown fields'')) (\<lambda>_.
     and_then (case dict_get body ''protocol'' of
                 PInt p \<Rightarrow> if p = CUTOVER_PROTOCOL \<or> p = CUTOVER_RELAYOUT_PROTOCOL then Inr p
                   else cutover_refused ''unsupported cutover plan protocol''
               | _ \<Rightarrow> cutover_refused ''unsupported cutover plan protocol'') (\<lambda>protocol.
     and_then (require (dict_get body ''kind'' = PStr (lit ''sde-cutover''))
       (CutoverRefused ''unsupported cutover document kind'')) (\<lambda>_.
     and_then (cutover_hex (dict_get body ''plan_id'') 32) (\<lambda>identity.
     and_then (cutover_hex (dict_get body ''project_id'') 32) (\<lambda>local.
     and_then (require (local = rd_project rd) (CutoverRefused ''another locally configured project'')) (\<lambda>_.
     and_then (positive_integer (dict_get body ''pause_budget_ms'')) (\<lambda>budget.
     and_then (cutover_hex (dict_get body ''query_impact_digest'') 64) (\<lambda>approval.
     and_then (require (nonempty_str (dict_get body ''group'')) (CutoverRefused ''cutover group must be a nonempty string'')) (\<lambda>_.
     and_then (cutover_signature (rd_b64encode rd) (rd_crypto rd) body) (\<lambda>_.
     and_then (lifted CutoverMap (verify_signature (rd_nfc rd) (rd_crypto rd) body (rd_keys rd) None)) (\<lambda>verified_with.
       Inr \<lparr>en_protocol = protocol, en_plan_id = identity, en_budget = budget, en_digest = approval,
            en_group = str_of (dict_get body ''group''), en_verified_with = verified_with\<rparr>)))))))))))"

text \<open>The three maps, all of them objects before any is read.\<close>

definition read_candidates ::
  "reading \<Rightarrow> (ustring \<times> pyval) list \<Rightarrow> cutover_error + placement_map \<times> placement_map \<times> placement_map" where
  "read_candidates rd body =
     and_then (cutover_object (dict_get body ''before'')) (\<lambda>before_raw.
     and_then (cutover_object (dict_get body ''success'')) (\<lambda>success_raw.
     and_then (cutover_object (dict_get body ''abort'')) (\<lambda>abort_raw.
     and_then (candidate_map rd before_raw) (\<lambda>bm.
     and_then (candidate_map rd success_raw) (\<lambda>sm.
     and_then (candidate_map rd abort_raw) (\<lambda>am.
     and_then (require (pm_map_version bm < pm_map_version sm \<and> pm_map_version sm < pm_map_version am)
       (CutoverRefused ''cutover versions must increase from before to success to abort'')) (\<lambda>_.
       Inr (bm, sm, am))))))))"

text \<open>The group that moves: its source, the one copy writes fan out to, and its generation.\<close>

definition moving_group ::
  "int \<Rightarrow> placement_map \<Rightarrow> ustring \<Rightarrow> cutover_error + physical_layout materialization \<times> physical_layout materialization \<times> int" where
  "moving_group protocol bm g =
     and_then (lifted CutoverMap (placement_of bm g)) (\<lambda>spot.
     and_then (require (length (gp_derived spot) = 1 \<and> gp_also_write spot = gp_derived spot)
       (CutoverRefused ''cutover requires exactly one derived copy maintained by fan-out'')) (\<lambda>_.
     let target = hd (gp_derived spot); same = (mat_engine (gp_source spot) = mat_engine target) in
     and_then (require (\<not> (protocol = CUTOVER_PROTOCOL \<and> same))
       (CutoverRefused ''cutover source and target must use different engine bindings'')) (\<lambda>_.
     and_then (require (\<not> (protocol = CUTOVER_RELAYOUT_PROTOCOL \<and> \<not> same))
       (CutoverRefused ''a relayout activates a copy in the engine binding of the source'')) (\<lambda>_.
     and_then (case gp_write_epoch spot of None \<Rightarrow> Inl (CutoverFailed ''AssertionError'') | Some e \<Rightarrow> Inr e) (\<lambda>epoch.
     and_then (require (\<not> epoch > MAX_EPOCH - 2) (CutoverRefused ''cutover needs two available write generations'')) (\<lambda>_.
       Inr (gp_source spot, target, epoch)))))))"

definition affected_shapes :: "reading \<Rightarrow> ustring \<Rightarrow> cutover_error + ustring list" where
  "affected_shapes rd g =
     and_then (lifted of_shapes (enumerate_shapes (rd_nfc rd) (rd_sha256 rd) (rd_model rd))) (\<lambda>shapes.
       Inr (map sh_id (filter (\<lambda>s. sh_group s = g) shapes)))"

text \<open>What the terminal maps may change.\<close>

definition check_outcomes ::
  "reading \<Rightarrow> (ustring \<times> pyval) list \<Rightarrow> ustring \<Rightarrow> placement_map \<times> placement_map \<times> placement_map \<Rightarrow>
     physical_layout materialization \<times> physical_layout materialization \<times> int \<Rightarrow> cutover_error + unit" where
  "check_outcomes rd body g = (\<lambda>(bm, sm, am) (src, target, epoch).
     let before_raw = entries (dict_get body ''before''); spot_raw = raw_group before_raw g in
     and_then (affected_shapes rd g) (\<lambda>affected.
     let routes = filter (\<lambda>(s, _). s \<notin> set affected) (pm_routing bm) in
     and_then (require (\<forall>s \<in> set affected. case map_of (pm_routing bm) s of None \<Rightarrow> True | Some t \<Rightarrow> t = mat_id src)
       (CutoverRefused ''cutover before-map reads must still use the source'')) (\<lambda>_.
     and_then (check_terminal (rd_nfc rd) g before_raw bm routes (first_item (member spot_raw ''derived'')) (mat_engine target)
       (epoch + 2) (entries (dict_get body ''success'')) sm) (\<lambda>_.
       check_terminal (rd_nfc rd) g before_raw bm routes (member spot_raw ''source'') (mat_engine src)
         (epoch + 1) (entries (dict_get body ''abort'')) am))))"

definition cutover_load :: "reading \<Rightarrow> pyval \<Rightarrow> cutover_error + cutover_plan" where
  "cutover_load rd raw =
     and_then (cutover_object (json_numbers raw)) (\<lambda>body.
     and_then (read_envelope rd body) (\<lambda>en.
     and_then (read_candidates rd body) (\<lambda>(bm, sm, am).
     and_then (lifted of_migration (request_from_record (dict_get body ''verification''))) (\<lambda>request.
     and_then (require (vr_requires_signature request)
       (CutoverRefused ''cutover verification must require the signed before map'')) (\<lambda>_.
     and_then (lifted of_migration (check_session request bm (Some (rd_project rd)) (en_group en))) (\<lambda>_.
     and_then (moving_group (en_protocol en) bm (en_group en)) (\<lambda>moving.
     and_then (check_outcomes rd body (en_group en) (bm, sm, am) moving) (\<lambda>_.
     and_then (lifted (CutoverMap \<circ> MapCanonical) (canonical_bytes (rd_nfc rd) (PDict body))) (\<lambda>_.
     and_then (lifted (CutoverMap \<circ> MapCanonical) (canonical_bytes (rd_nfc rd) (PDict (without_keys {''signature''} body)))) (\<lambda>bs.
       Inr \<lparr>pl_plan_id = en_plan_id en, pl_project_id = rd_project rd, pl_group = en_group en,
            pl_before = bm, pl_success = sm, pl_abort = am,
            pl_verification = request, pl_pause_budget_ms = en_budget en, pl_query_impact_digest = en_digest en,
            pl_verified_with = en_verified_with en, pl_fingerprint = Some (rd_sha256 rd bs),
            pl_document = Some (canon (rd_nfc rd) (PDict body))\<rparr>))))))))))"

text \<open>\<open>load_cutover_plan\<close>: an error of a map and of the encoder is a refusal.\<close>

fun refused_document :: "cutover_error \<Rightarrow> cutover_error" where
  "refused_document (CutoverMap (MapError _)) = CutoverRefused ''cutover document refused''"
| "refused_document (CutoverMap (MapCanonical FloatRefused)) = CutoverRefused ''cutover document refused''"
| "refused_document (CutoverMap (MapCanonical (DuplicateKey _))) = CutoverRefused ''cutover document refused''"
| "refused_document e = e"

definition load_cutover_plan :: "reading \<Rightarrow> pyval \<Rightarrow> cutover_error + cutover_plan" where
  "load_cutover_plan rd raw = lifted refused_document (cutover_load rd raw)"

section \<open>What a loaded plan promises\<close>

lemma map_copies_keeps:
  "map_copies f p = Inr q \<Longrightarrow> gp_write_epoch q = gp_write_epoch p \<and> length (gp_derived q) = length (gp_derived p) \<and>
     length (gp_also_write q) = length (gp_also_write p)"
  by (auto simp: map_copies_def and_then_Inr dest: traverse_length)

text \<open>A group of a loaded map is read from the entry of its name.\<close>

lemma group_from_document:
  assumes "parse_map u nfc lower sha256 cr (PDict d) model public_key require_signature = Inr pm" "(g, p) \<in> set (pm_groups pm)"
  obtains gs body p0 where "dict_get (read_numbers d) ''groups'' = PDict gs" "(g, PDict body) \<in> set gs"
    "parse_group (pm_contract pm) (g, PDict body) = Inr (g, p0)" "gp_write_epoch p = gp_write_epoch p0"
    "length (gp_derived p) = length (gp_derived p0)" "length (gp_also_write p) = length (gp_also_write p0)"
proof -
  obtain parsed routing where run: "read_groups (pm_contract pm) (read_numbers d) = Inr parsed"
    "settle_groups u nfc lower sha256 model routing parsed = Inr (pm_groups pm)"
    using assms(1) by (rule parse_map_Inr) auto
  obtain f :: "_ \<Rightarrow> map_error + _" where f: "traverse f parsed = Inr (pm_groups pm)"
    and keep: "\<And>name p0 name' q. f (name, p0) = Inr (name', q) \<Longrightarrow> name' = name \<and> gp_write_epoch q = gp_write_epoch p0 \<and>
      length (gp_derived q) = length (gp_derived p0) \<and> length (gp_also_write q) = length (gp_also_write p0)"
  proof (cases model)
    case None
    then have "traverse require_laid parsed = Inr (pm_groups pm)"
      using run(2) by (auto simp: settle_groups_def and_then_Inr)
    then show ?thesis using that [of require_laid] map_copies_keeps by (force simp: require_laid_def and_then_Inr)
  next
    case (Some m)
    then obtain gs where gs: "traverse (resolve_auto u nfc lower m gs) parsed = Inr (pm_groups pm)"
      using run(2) by (auto simp: settle_groups_def and_then_Inr split: sum.splits if_splits)
    show ?thesis
      by (rule that [OF gs]) (auto simp: resolve_auto_def and_then_Inr split: option.splits dest: map_copies_keeps)
  qed
  obtain x where x: "x \<in> set parsed" "f x = Inr (g, p)" using traverse_mem [OF f assms(2)] by blast
  obtain p0 where p0: "x = (g, p0)" using keep [of "fst x" "snd x" g p] x(2) by (cases x) auto
  obtain gs where gs: "dict_get (read_numbers d) ''groups'' = PDict gs" "traverse (parse_group (pm_contract pm)) (sort_key fst gs) = Inr parsed"
    using run(1) by (auto simp: read_groups_def split: pyval.splits if_splits)
  obtain y where y: "y \<in> set gs" "parse_group (pm_contract pm) y = Inr (g, p0)"
    using traverse_mem [OF gs(2) x(1) [unfolded p0]] by auto
  obtain body where body: "y = (g, PDict body)"
    using y(2) by (cases y) (auto simp: parse_group_def and_then_Inr split: pyval.splits if_splits)
  have "gp_write_epoch p = gp_write_epoch p0 \<and> length (gp_derived p) = length (gp_derived p0) \<and>
      length (gp_also_write p) = length (gp_also_write p0)"
    using keep [of g p0 g p] x(2) p0 by simp
  then show ?thesis using that [OF gs(1) y(1) [unfolded body] y(2) [unfolded body]] by simp
qed

text \<open>What the entry of a terminal group leaves.\<close>

lemma terminal_group_parsed:
  assumes "parse_group contract (g, PDict body) = Inr (g, p0)" "contract \<ge> 4"
    and "set (keys body) = lit ` {''source'', ''write_epoch''}" "dict_get body ''write_epoch'' = PInt e"
  shows "gp_write_epoch p0 = Some e" "gp_derived p0 = []" "gp_also_write p0 = []"
proof -
  have "dict_get body ''derived'' = PNone" "dict_get body ''also_write'' = PNone"
  proof -
    have "lit ''derived'' \<notin> set (keys body)" "lit ''also_write'' \<notin> set (keys body)" using assms(3) by auto
    then show "dict_get body ''derived'' = PNone" "dict_get body ''also_write'' = PNone"
      by (simp_all add: dict_get_def map_of_eq_None_iff [THEN iffD2])
  qed
  then show "gp_write_epoch p0 = Some e" "gp_derived p0 = []" "gp_also_write p0 = []"
    using assms by (auto simp: parse_group_def and_then_Inr parse_epoch_def Let_def parse_derived_def also_write_def split: if_splits)
qed

lemma read_numbers_from_four:
  assumes "read_contract (read_numbers d) = Inr c" "c \<ge> 4"
  shows "read_numbers d = map (map_prod id json_numbers) d"
proof (cases "at_least_four (dict_get d ''contract'')")
  case False
  then have raw: "read_numbers d = d" by (simp add: read_numbers_def)
  then obtain i where "dict_get d ''contract'' = PInt i" "c = i"
    using assms(1) by (auto simp: read_contract_def split: pyval.splits if_splits)
  then show ?thesis using False assms(2) by simp
qed (simp add: read_numbers_def)

lemma dict_get_numbers: "dict_get (map (map_prod id json_numbers) d) k = json_numbers (dict_get d k)"
  by (induction d) (auto simp: dict_get_def split: option.splits)

lemma json_numbers_PDict: "json_numbers v = PDict d' \<Longrightarrow> \<exists>d. v = PDict d \<and> d' = map (map_prod id json_numbers) d"
  by (cases v) (auto split: pyfloat.splits if_splits)

lemma form_of_entry: "has_canonical_form nfc (PDict d) \<Longrightarrow> dict_get d k \<noteq> PNone \<Longrightarrow> has_canonical_form nfc (dict_get d k)"
  by (auto simp: dict_get_def split: option.splits dest!: map_of_SomeD)

lemma form_distinct: "has_canonical_form nfc (PDict d) \<Longrightarrow> distinct (keys d)"
  unfolding has_canonical_form.simps by (elim conjE distinct_map [THEN iffD1, THEN conjunct1])

text \<open>The entry of a group in a document of a generation-bearing map, and the group read from it.\<close>

lemma raw_group_parsed:
  assumes "parse_map u nfc lower sha256 cr (PDict d) model public_key require_signature = Inr pm" "pm_contract pm \<ge> 4"
    and "has_canonical_form nfc (PDict d)" "(g, p) \<in> set (pm_groups pm)"
  obtains body p0 where "raw_group d g = PDict body" "parse_group (pm_contract pm) (g, PDict (map (map_prod id json_numbers) body)) = Inr (g, p0)"
    "gp_write_epoch p = gp_write_epoch p0" "length (gp_derived p) = length (gp_derived p0)"
    "length (gp_also_write p) = length (gp_also_write p0)"
proof -
  have "read_contract (read_numbers d) = Inr (pm_contract pm)" using assms(1) by (rule parse_map_Inr) auto
  note raw = read_numbers_from_four [OF this assms(2)]
  obtain gs body' p0 where gs: "dict_get (read_numbers d) ''groups'' = PDict gs" "(g, PDict body') \<in> set gs"
    and p0: "parse_group (pm_contract pm) (g, PDict body') = Inr (g, p0)" "gp_write_epoch p = gp_write_epoch p0"
      "length (gp_derived p) = length (gp_derived p0)" "length (gp_also_write p) = length (gp_also_write p0)"
    using group_from_document [OF assms(1,4)] by metis
  obtain gs0 where gs0: "dict_get d ''groups'' = PDict gs0" "gs = map (map_prod id json_numbers) gs0"
    using json_numbers_PDict gs(1) unfolding raw dict_get_numbers by blast
  obtain v where v: "(g, v) \<in> set gs0" "json_numbers v = PDict body'" using gs(2) unfolding gs0(2) by auto
  obtain body where body: "v = PDict body" "body' = map (map_prod id json_numbers) body" using json_numbers_PDict [OF v(2)] by blast
  have "distinct (keys gs0)" using form_of_entry [OF assms(3), of "''groups''"] gs0(1) form_distinct by simp
  then have "map_of gs0 g = Some v" using v(1) by simp
  then have "raw_group d g = PDict body" by (simp add: gs0(1) body(1))
  then show ?thesis using that p0 body(2) by simp
qed

text \<open>What a check of a terminal map establishes about the map it loaded to.\<close>

definition terminal_map :: "ustring \<Rightarrow> placement_map \<Rightarrow> int \<Rightarrow> ustring \<Rightarrow> (ustring, ustring) dict \<Rightarrow> placement_map \<Rightarrow> bool" where
  "terminal_map g bm epoch engine routes pm \<longleftrightarrow>
     set (keys (pm_groups pm)) = set (keys (pm_groups bm)) \<and> set (pm_routing pm) = set routes \<and>
     (\<exists>p. placement_of pm g = Inr p \<and> gp_write_epoch p = Some epoch \<and> gp_derived p = [] \<and> gp_also_write p = [] \<and>
        mat_engine (gp_source p) = engine)"

lemma candidate_map_loaded:
  assumes "candidate_map rd document = Inr pm"
  obtains "parse_map (rd_unicode rd) (rd_nfc rd) (rd_lower rd) (rd_sha256 rd) (rd_crypto rd) (PDict document)
      (Some (rd_model rd)) (Some (rd_keys rd)) True = Inr pm" "4 \<le> pm_contract pm" "pm_signed pm" "pm_project_id pm = Some (rd_project rd)"
proof -
  have run: "parse_map (rd_unicode rd) (rd_nfc rd) (rd_lower rd) (rd_sha256 rd) (rd_crypto rd) (PDict document)
      (Some (rd_model rd)) (Some (rd_keys rd)) True = Inr pm" "\<not> pm_contract pm < GENERATIONS_SINCE"
    "\<exists>x. check_map_project pm (Some (rd_project rd)) = Inr x"
    using assms by (auto simp: candidate_map_def signed_map_def and_then_Inr require_Inr)
  then have "4 \<le> pm_contract pm" "pm_project_id pm = Some (rd_project rd)"
    by (auto simp: GENERATIONS_SINCE_def check_map_project_def split: if_splits)
  moreover have "pm_signed pm"
    using run(1) by (rule parse_map_Inr) (auto simp: read_signature_def and_then_Inr split: if_splits option.splits)
  ultimately show ?thesis using that run(1) by blast
qed

lemma check_terminal_map:
  assumes "candidate_map rd document = Inr pm" "has_canonical_form (rd_nfc rd) (PDict document)"
    and "check_terminal nfc g before_raw bm routes original engine epoch document pm = Inr ()"
  shows "terminal_map g bm epoch engine routes pm"
proof -
  let ?t = "entries (raw_group document g)"
  have run: "set (keys (pm_groups pm)) = set (keys (pm_groups bm))" "set (pm_routing pm) = set routes"
    "set (keys ?t) = lit ` {''source'', ''write_epoch''}" "dict_get ?t ''write_epoch'' = PInt epoch"
    "map_option (\<lambda>p. mat_engine (gp_source p)) (map_of (pm_groups pm) g) = Some engine"
    using assms(3) by (simp_all add: check_terminal_def Let_def and_then_Inr require_Inr)
  obtain p where p: "map_of (pm_groups pm) g = Some p" "mat_engine (gp_source p) = engine" using run(5) by auto
  obtain parsed: "parse_map (rd_unicode rd) (rd_nfc rd) (rd_lower rd) (rd_sha256 rd) (rd_crypto rd) (PDict document)
      (Some (rd_model rd)) (Some (rd_keys rd)) True = Inr pm" "4 \<le> pm_contract pm"
    using candidate_map_loaded [OF assms(1)] by blast
  obtain body p0 where body: "raw_group document g = PDict body"
    and p0: "parse_group (pm_contract pm) (g, PDict (map (map_prod id json_numbers) body)) = Inr (g, p0)"
      "gp_write_epoch p = gp_write_epoch p0" "length (gp_derived p) = length (gp_derived p0)"
      "length (gp_also_write p) = length (gp_also_write p0)"
    using raw_group_parsed [OF parsed assms(2) map_of_SomeD [OF p(1)]] by metis
  have t: "?t = body" by (simp add: entries_def body)
  have keys: "set (keys (map (map_prod id json_numbers) body)) = lit ` {''source'', ''write_epoch''}"
    using run(3) unfolding t by (simp add: comp_def)
  have epoch: "dict_get (map (map_prod id json_numbers) body) ''write_epoch'' = PInt epoch"
    using run(4) unfolding t dict_get_numbers by simp
  show ?thesis
    using run(1,2) p terminal_group_parsed [OF p0(1) parsed(2) keys epoch] p0(2-4)
    by (simp add: terminal_map_def placement_of_def)
qed

lemma and_then_InrE: "and_then r k = Inr y \<Longrightarrow> (\<And>x. r = Inr x \<Longrightarrow> k x = Inr y \<Longrightarrow> thesis) \<Longrightarrow> thesis"
  by (cases r) auto

lemma check_terminal_others:
  assumes "check_terminal nfc g before_raw bm routes original engine epoch document pm = Inr ()" "\<And>s. nfc (nfc s) = nfc s"
    and "other \<in> set (keys (pm_groups bm))" "other \<noteq> g"
  shows "canon nfc (raw_group document other) = canon nfc (raw_group before_raw other)"
proof -
  let ?others = "filter (\<lambda>name. name \<noteq> g) (keys (pm_groups bm))"
  let ?f = "\<lambda>other. same_canonical nfc (raw_group document other) (raw_group before_raw other) ''cutover cannot change an unaffected group''"
  have "\<exists>us. traverse ?f ?others = Inr us"
    using assms(1) unfolding check_terminal_def Let_def by (elim and_then_InrE) (rule exI, assumption)
  moreover have "other \<in> set ?others" using assms(3,4) by simp
  ultimately obtain x where "?f other = Inr x" by (elim exE) (drule (1) traverse_mem', elim bexE, rule that)
  then obtain bs where "canonical_bytes nfc (raw_group document other) = Inr bs" "canonical_bytes nfc (raw_group before_raw other) = Inr bs"
    unfolding same_canonical_def by (elim and_then_InrE) (simp add: require_Inr)
  then show ?thesis by (rule canonical_bytes_inj [OF assms(2)])
qed

text \<open>What a loaded plan's parts went through.\<close>

lemma cutover_load_Inr:
  assumes "load_cutover_plan rd raw = Inr pl"
  obtains body en moving where "json_numbers raw = PDict body" "read_envelope rd body = Inr en" "en_group en = pl_group pl"
    "read_candidates rd body = Inr (pl_before pl, pl_success pl, pl_abort pl)"
    "moving_group (en_protocol en) (pl_before pl) (pl_group pl) = Inr moving"
    "check_outcomes rd body (pl_group pl) (pl_before pl, pl_success pl, pl_abort pl) moving = Inr ()"
    "\<exists>bs. canonical_bytes (rd_nfc rd) (PDict body) = Inr bs" "\<exists>fp. pl_fingerprint pl = Some fp"
    "pl_document pl = Some (canon (rd_nfc rd) (PDict body))" "pl_project_id pl = rd_project rd"
    "vr_requires_signature (pl_verification pl)"
    "check_session (pl_verification pl) (pl_before pl) (Some (rd_project rd)) (pl_group pl) = Inr ()"
proof -
  have "cutover_load rd raw = Inr pl" using assms by (simp add: load_cutover_plan_def)
  then obtain body en maps where body: "cutover_object (json_numbers raw) = Inr body" "read_envelope rd body = Inr en"
      "read_candidates rd body = Inr maps"
    and rest: "(\<lambda>(bm, sm, am).
      and_then (lifted of_migration (request_from_record (dict_get body ''verification''))) (\<lambda>request.
      and_then (require (vr_requires_signature request)
        (CutoverRefused ''cutover verification must require the signed before map'')) (\<lambda>_.
      and_then (lifted of_migration (check_session request bm (Some (rd_project rd)) (en_group en))) (\<lambda>_.
      and_then (moving_group (en_protocol en) bm (en_group en)) (\<lambda>moving.
      and_then (check_outcomes rd body (en_group en) (bm, sm, am) moving) (\<lambda>_.
      and_then (lifted (CutoverMap \<circ> MapCanonical) (canonical_bytes (rd_nfc rd) (PDict body))) (\<lambda>_.
      and_then (lifted (CutoverMap \<circ> MapCanonical) (canonical_bytes (rd_nfc rd) (PDict (without_keys {''signature''} body)))) (\<lambda>bs.
        Inr \<lparr>pl_plan_id = en_plan_id en, pl_project_id = rd_project rd, pl_group = en_group en,
            pl_before = bm, pl_success = sm, pl_abort = am,
            pl_verification = request, pl_pause_budget_ms = en_budget en, pl_query_impact_digest = en_digest en,
            pl_verified_with = en_verified_with en, pl_fingerprint = Some (rd_sha256 rd bs),
            pl_document = Some (canon (rd_nfc rd) (PDict body))\<rparr>)))))))) maps = Inr pl"
    unfolding cutover_load_def by (elim and_then_InrE) blast
  obtain bm sm am where maps: "maps = (bm, sm, am)" by (cases maps)
  obtain request moving bs where run: "vr_requires_signature request"
      "\<exists>x. check_session request bm (Some (rd_project rd)) (en_group en) = Inr x"
      "moving_group (en_protocol en) bm (en_group en) = Inr moving"
      "\<exists>x. check_outcomes rd body (en_group en) (bm, sm, am) moving = Inr x" "\<exists>bs. canonical_bytes (rd_nfc rd) (PDict body) = Inr bs"
    and pl: "\<lparr>pl_plan_id = en_plan_id en, pl_project_id = rd_project rd, pl_group = en_group en,
            pl_before = bm, pl_success = sm, pl_abort = am,
            pl_verification = request, pl_pause_budget_ms = en_budget en, pl_query_impact_digest = en_digest en,
            pl_verified_with = en_verified_with en, pl_fingerprint = Some (rd_sha256 rd bs),
            pl_document = Some (canon (rd_nfc rd) (PDict body))\<rparr> = pl"
    using rest unfolding maps case_prod_conv
    by (elim and_then_InrE) (unfold lifted_Inr require_Inr sum.inject, rule that, assumption, rule exI, assumption, assumption,
        rule exI, assumption, rule exI, assumption, assumption)
  have doc: "json_numbers raw = PDict body" using body(1) by (cases "json_numbers raw") (simp_all add: cutover_object_def)
  show ?thesis
    by (rule that [of body en moving]) (use doc body(2,3) run in \<open>simp_all add: maps pl [symmetric]\<close>)
qed

lemma moving_group_Inr:
  assumes "moving_group protocol bm g = Inr (src, target, epoch)"
  obtains spot where "placement_of bm g = Inr spot" "gp_source spot = src" "gp_derived spot = [target]" "gp_also_write spot = [target]"
    "gp_write_epoch spot = Some epoch" "epoch + 2 \<le> MAX_EPOCH"
proof -
  obtain spot where spot: "placement_of bm g = Inr spot"
    using assms unfolding moving_group_def by (elim and_then_InrE) (simp add: that)
  have run: "length (gp_derived spot) = 1" "gp_also_write spot = gp_derived spot" "hd (gp_derived spot) = target"
      "gp_source spot = src" "gp_write_epoch spot = Some epoch" "epoch + 2 \<le> MAX_EPOCH"
    using assms unfolding moving_group_def Let_def
    by (auto simp: spot and_then_Inr require_Inr lifted_def split: option.splits)
  then show ?thesis using that [OF spot] by (cases "gp_derived spot") auto
qed

lemma loaded_epoch_positive:
  assumes "parse_map u nfc lower sha256 cr (PDict d) model public_key require_signature = Inr pm" "placement_of pm g = Inr p"
    and "gp_write_epoch p = Some e"
  shows "1 \<le> e"
proof -
  have "(g, p) \<in> set (pm_groups pm)" using assms(2) by (auto simp: placement_of_def split: option.splits dest: map_of_SomeD)
  from group_from_document [OF assms(1) this] obtain body p0
    where p0: "parse_group (pm_contract pm) (g, PDict body) = Inr (g, p0)" "gp_write_epoch p = gp_write_epoch p0" by metis
  have "gp_write_epoch p0 = Some e" using p0(2) assms(3) by simp
  then show ?thesis using parse_group_ok [OF p0(1)] by (simp add: group_ok_def)
qed


section \<open>A plan that loads\<close>

text \<open>
  One entity moves from \<open>pg\<close> to \<open>ch\<close>. The signature check of the example accepts everything and its
  digest is constant.
\<close>

definition move_model :: logical_model where
  "move_model = \<lparr>mentities = [\<lparr>ename = lit ''E'', efields = [\<lparr>fname = lit ''id'', ftype = lit ''int64'', fnullable = False\<rparr>],
      ekey = [lit ''id''], epii = [], eresidency = None\<rparr>],
     mrelations = [], matomic = [], mcost_ceiling = None, mir = PNone, mversion = replicate 16 97\<rparr>"

definition move_reading :: reading where
  "move_reading = \<lparr>rd_unicode = latin_tables, rd_nfc = id, rd_lower = id, rd_sha256 = (\<lambda>_. replicate 64 97),
     rd_crypto = \<lparr>cr_installed = True, cr_b64decode = (\<lambda>_. Some (replicate 64 0)), cr_verify = (\<lambda>_ _ _. True)\<rparr>,
     rd_b64encode = (\<lambda>_. lit ''AA==''), rd_model = move_model, rd_project = replicate 32 97, rd_keys = BareKey (replicate 32 0)\<rparr>"

definition move_signature :: "ustring \<times> pyval" where
  "move_signature = (lit ''signature'', PDict [(lit ''alg'', PStr (lit ''ed25519'')), (lit ''value'', PStr (lit ''AA==''))])"

definition move_map :: "int \<Rightarrow> (ustring \<times> pyval) list \<Rightarrow> (ustring \<times> pyval) list" where
  "move_map version g =
     [(lit ''contract'', PInt 5), (lit ''project_id'', PStr (replicate 32 97)), (lit ''model_version'', PStr (replicate 16 97)),
      (lit ''map_version'', PInt version), (lit ''groups'', PDict [(lit ''E'', PDict g)]), move_signature]"

definition move_before :: "(ustring \<times> pyval) list" where
  "move_before = [(lit ''source'', sample_copy ''s'' ''pg'' ''e'' []),
      (lit ''derived'', PList [sample_copy ''d'' ''ch'' ''e'' [(lit ''lag_budget_ms'', PInt 30)]]),
      (lit ''also_write'', PList [PStr (lit ''d'')]), (lit ''write_epoch'', PInt 3)]"

definition move_alone :: "string \<Rightarrow> string \<Rightarrow> int \<Rightarrow> (ustring \<times> pyval) list" where
  "move_alone i engine epoch = [(lit ''source'', sample_copy i engine ''e'' []), (lit ''write_epoch'', PInt epoch)]"

definition move_layout :: physical_layout where
  "move_layout = \<lparr>tables = [(lit ''E'', lit ''e'')], columns = [], indexes = [], partition_by = [], key_order = []\<rparr>"

definition alone_placement :: "'l \<Rightarrow> string \<Rightarrow> string \<Rightarrow> int \<Rightarrow> 'l group_placement" where
  "alone_placement l i engine epoch =
     \<lparr>gp_group = lit ''E'', gp_source = \<lparr>mat_id = lit i, mat_engine = lit engine, mat_layout = l, mat_lag = None\<rparr>,
      gp_derived = [], gp_also_write = [], gp_write_epoch = Some epoch\<rparr>"

definition pair_placement :: "'l \<Rightarrow> 'l group_placement" where
  "pair_placement l =
     (let d = \<lparr>mat_id = lit ''d'', mat_engine = lit ''ch'', mat_layout = l, mat_lag = Some 30\<rparr>
      in \<lparr>gp_group = lit ''E'', gp_source = \<lparr>mat_id = lit ''s'', mat_engine = lit ''pg'', mat_layout = l, mat_lag = None\<rparr>,
          gp_derived = [d], gp_also_write = [d], gp_write_epoch = Some 3\<rparr>)"

definition move_placement :: "int \<Rightarrow> physical_layout group_placement \<Rightarrow> placement_map" where
  "move_placement version p =
     \<lparr>pm_contract = 5, pm_model_version = replicate 16 97, pm_map_version = version, pm_groups = [(lit ''E'', p)], pm_routing = [],
      pm_signed = True, pm_verified_with = None, pm_project_id = Some (replicate 32 97), pm_fingerprint = Some (replicate 64 97)\<rparr>"

lemma move_groups_read:
  assumes "1 \<le> epoch" "epoch \<le> MAX_EPOCH"
  shows "parse_group 5 (lit ''E'', PDict (move_alone i engine epoch)) = Inr (lit ''E'', alone_placement (Laid move_layout) i engine epoch)"
    "parse_group 5 (lit ''E'', PDict move_before) = Inr (lit ''E'', pair_placement (Laid move_layout))"
  using assms
  by (simp_all add: move_alone_def move_before_def parse_group_def parse_epoch_def dict_get_def parse_materialization_def sample_copy_def
      parse_derived_def also_write_def parse_layout_def RESERVED_TABLES_def WATERMARK_TABLE_def BACKFILL_TABLE_def parse_columns_def
      layout_design_def PHYSICAL_DESIGN_SINCE_def parse_indexes_def UNFENCED_SINCE_def Let_def alone_placement_def pair_placement_def
      move_layout_def ALSO_WRITE_SINCE_def MAX_EPOCH_def parse_key_order_def parse_partition_by_def dict_get_or_empty_def)

lemma move_groups: "colocation_groups move_model = Inr [\<lparr>gname = lit ''E'', gmembers = [lit ''E'']\<rparr>]"
  by code_simp

lemma move_shapes: "\<exists>shapes. enumerate_shapes id sha move_model = Inr shapes"
proof -
  let ?gs = "[\<lparr>gname = lit ''E'', gmembers = [lit ''E'']\<rparr>]"
  have one: "\<exists>s. mk_shape id sha (lit ''E'') kind (lit ''E'') flds None = Inr s" if "set flds \<subseteq> {lit ''id''}" for kind flds
    by (rule mk_shape_total) (use that in \<open>auto simp: text_ok_def lit_def\<close>)
  have "\<exists>ss. entity_shapes id sha ?gs spec = Inr ss" if "spec \<in> set (mentities move_model)" for spec
  proof -
    have "ename spec = lit ''E''" "ekey spec = [lit ''id'']" "fname ` set (efields spec) \<subseteq> {lit ''id''}"
      using that by (auto simp: move_model_def)
    then have "\<exists>s. mk_shape id sha (lit ''E'') (fst k) (lit ''E'') (snd k) None = Inr s" if "k \<in> set (entity_kinds spec)" for k
      using that by (intro one) (auto simp: entity_kinds_def)
    then show ?thesis using \<open>ename spec = lit ''E''\<close>
      by (auto simp: entity_shapes_def group_of_def split_beta intro!: traverse_total)
  qed
  then obtain sss where "traverse (entity_shapes id sha ?gs) (mentities move_model) = Inr sss" using traverse_total by blast
  then show ?thesis by (simp add: enumerate_shapes_def move_groups) (simp add: move_model_def)
qed

lemma move_settled:
  "settle_groups latin_tables id id sha (Some move_model) [] [(lit ''E'', alone_placement (Laid move_layout) i engine epoch)] =
     Inr [(lit ''E'', alone_placement move_layout i engine epoch)]"
  "settle_groups latin_tables id id sha (Some move_model) [] [(lit ''E'', pair_placement (Laid move_layout))] =
     Inr [(lit ''E'', pair_placement move_layout)]"
proof -
  obtain shapes where "enumerate_shapes id sha move_model = Inr shapes" using move_shapes by blast
  then show "settle_groups latin_tables id id sha (Some move_model) [] [(lit ''E'', alone_placement (Laid move_layout) i engine epoch)] =
      Inr [(lit ''E'', alone_placement move_layout i engine epoch)]"
    "settle_groups latin_tables id id sha (Some move_model) [] [(lit ''E'', pair_placement (Laid move_layout))] =
      Inr [(lit ''E'', pair_placement move_layout)]"
    by (simp_all add: settle_groups_def move_groups alone_placement_def pair_placement_def resolve_auto_def map_copies_def fill_auto_def
        with_layout_def refuse_shadowing_def check_physical_def all_copies_def move_layout_def check_routing_targets_def Let_def
        check_physical_entity_def effective_key_def)
qed

lemma move_map_parsed:
  assumes "parse_group 5 (lit ''E'', PDict g) = Inr (lit ''E'', slot)" "1 \<le> version" "version \<le> MAX_EPOCH"
    and "settle_groups latin_tables id id (\<lambda>_. replicate 64 97) (Some move_model) [] [(lit ''E'', slot)] = Inr [(lit ''E'', p)]"
    and "\<not> reserved_names [(lit ''E'', p)]" "json_numbers (PDict g) = PDict g"
    and "has_canonical_form id (PDict g)" "canonical_text id (PDict g)" "\<not> unsafe_integer (PDict g)"
  shows "signed_map move_reading (PDict (move_map version g)) = Inr (move_placement version p)"
proof -
  let ?d = "move_map version g" and ?sha = "\<lambda>_ :: nat list. replicate 64 97 :: ustring"
  note get = dict_get_def move_map_def move_signature_def
  have raw: "read_numbers ?d = ?d" using assms(6) by (simp add: read_numbers_def get)
  have plain: "without_signature ?d = [(lit ''contract'', PInt 5), (lit ''project_id'', PStr (replicate 32 97)),
      (lit ''model_version'', PStr (replicate 16 97)), (lit ''map_version'', PInt version), (lit ''groups'', PDict [(lit ''E'', PDict g)])]"
    by (simp add: without_signature_def get)
  have ascii: "text_ok (lit ''contract'')" "text_ok (lit ''project_id'')" "text_ok (lit ''model_version'')" "text_ok (lit ''map_version'')"
    "text_ok (lit ''groups'')" "text_ok (lit ''E'')" "text_ok (replicate n 97)" for n
    by (simp_all add: text_ok_def lit_def)
  have form: "has_canonical_form id (PDict (without_signature ?d))" using assms(7) ascii by (simp add: plain)
  have scalar: "canonical_text id (PDict (without_signature ?d))" using assms(8) ascii by (simp add: plain scalar_nfc_def text_ok_def list_all_iff)
  have safe: "\<not> unsafe_integer (PDict (without_signature ?d))" using assms(2,3,9) by (simp add: plain SAFE_def MAX_EPOCH_def)
  have head: "read_contract ?d = Inr 5" "read_project 5 ?d = Inr (Some (replicate 32 97))"
    "read_model_version (Some move_model) ?d = Inr (replicate 16 97)" "read_map_version ?d = Inr version" "read_routing ?d = Inr []"
    using assms(2)
    by (simp_all add: get read_contract_def MAP_CONTRACT_def MAP_CONTRACT_FLOOR_def read_project_def hex_text_def hex_digit_def
        read_model_version_def move_model_def read_map_version_def read_routing_def list_all_iff)
  have groups: "read_groups 5 ?d = Inr [(lit ''E'', slot)]" using assms(1) by (simp add: read_groups_def get)
  obtain bs where "canonical_bytes id (PDict (without_signature ?d)) = Inr bs"
    using canonical_bytes_total [of id "PDict (without_signature ?d)", THEN iffD2] form by auto
  then have "read_signature id (rd_crypto move_reading) ?d (Some (BareKey (replicate 32 0))) True 5 = Inr (True, None)"
    using safe by (simp add: read_signature_def verify_signature_def get move_reading_def decode_signature_def key_set_def key_pairs_def
        signed_payload_def canonical_payload_def first_verifying_def key_ordering_def Let_def)
  from parse_mapI [of ?d, unfolded raw, OF head(1) scalar head(2-4) this groups head(5) assms(4,5) form safe]
  show ?thesis by (auto simp: signed_map_def move_reading_def move_placement_def lifted_def)
qed


lemma move_clean: "\<not> reserved_names [(lit ''E'', alone_placement move_layout i engine epoch)]" "\<not> reserved_names [(lit ''E'', pair_placement move_layout)]"
  by (simp_all add: reserved_names_def alone_placement_def pair_placement_def all_copies_def move_layout_def DRAIN_TABLE_def Let_def)

lemma move_bodies:
  "json_numbers (PDict (move_alone i engine epoch)) = PDict (move_alone i engine epoch)"
  "text_ok (lit i) \<Longrightarrow> text_ok (lit engine) \<Longrightarrow> has_canonical_form id (PDict (move_alone i engine epoch))"
  "text_ok (lit i) \<Longrightarrow> text_ok (lit engine) \<Longrightarrow> canonical_text id (PDict (move_alone i engine epoch))"
  "1 \<le> epoch \<Longrightarrow> epoch \<le> MAX_EPOCH \<Longrightarrow> \<not> unsafe_integer (PDict (move_alone i engine epoch))"
  "json_numbers (PDict move_before) = PDict move_before" "has_canonical_form id (PDict move_before)"
  "canonical_text id (PDict move_before)" "\<not> unsafe_integer (PDict move_before)"
  by (simp_all add: move_alone_def move_before_def sample_copy_def lit_def text_ok_def scalar_nfc_def list_all_iff SAFE_def MAX_EPOCH_def)

lemma move_candidate:
  assumes "signed_map move_reading (PDict (move_map version g)) = Inr (move_placement version p)"
    and "explicit_group (lit ''E'', PDict g) = Inr ()" "1 \<le> version" "version \<le> MAX_EPOCH"
  shows "candidate_map move_reading (move_map version g) = Inr (move_placement version p)"
proof -
  have "cutover_signature (rd_b64encode move_reading) (rd_crypto move_reading) (move_map version g) = Inr ()"
    "dict_get (move_map version g) ''groups'' = PDict [(lit ''E'', PDict g)]"
    by (simp_all add: cutover_signature_def cutover_object_def dict_get_def move_map_def move_signature_def move_reading_def Let_def)
  then show ?thesis
    using assms
    by (simp add: candidate_map_def cutover_object_def move_placement_def GENERATIONS_SINCE_def check_map_project_def lifted_def
        positive_integer_def move_reading_def)
qed

lemma move_candidates:
  "candidate_map move_reading (move_map 7 move_before) = Inr (move_placement 7 (pair_placement move_layout))"
  "candidate_map move_reading (move_map 8 (move_alone ''t'' ''ch'' 5)) = Inr (move_placement 8 (alone_placement move_layout ''t'' ''ch'' 5))"
  "candidate_map move_reading (move_map 9 (move_alone ''s'' ''pg'' 4)) = Inr (move_placement 9 (alone_placement move_layout ''s'' ''pg'' 4))"
proof -
  have explicit: "explicit_group (lit ''E'', PDict (move_alone i engine epoch)) = Inr ()" "explicit_group (lit ''E'', PDict move_before) = Inr ()"
    for i engine epoch
    by (simp_all add: explicit_group_def explicit_copy_def cutover_object_def dict_get_def move_alone_def move_before_def sample_copy_def)
  have ascii: "text_ok (lit ''t'')" "text_ok (lit ''ch'')" "text_ok (lit ''s'')" "text_ok (lit ''pg'')" by (simp_all add: text_ok_def lit_def)
  have bounds: "(1::int) \<le> 5" "(5::int) \<le> MAX_EPOCH" "(1::int) \<le> 4" "(4::int) \<le> MAX_EPOCH" "(1::int) \<le> 7" "(7::int) \<le> MAX_EPOCH"
    "(1::int) \<le> 8" "(8::int) \<le> MAX_EPOCH" "(1::int) \<le> 9" "(9::int) \<le> MAX_EPOCH"
    by (simp_all add: MAX_EPOCH_def)
  show "candidate_map move_reading (move_map 7 move_before) = Inr (move_placement 7 (pair_placement move_layout))"
    by (rule move_candidate [OF move_map_parsed [OF move_groups_read(2) [OF bounds(1,2)] bounds(5,6) move_settled(2) move_clean(2) move_bodies(5-8)]
          explicit(2) bounds(5,6)])
  show "candidate_map move_reading (move_map 8 (move_alone ''t'' ''ch'' 5)) = Inr (move_placement 8 (alone_placement move_layout ''t'' ''ch'' 5))"
    by (rule move_candidate [OF move_map_parsed [OF move_groups_read(1) [OF bounds(1,2)] bounds(7,8) move_settled(1) move_clean(1)
          move_bodies(1) move_bodies(2) [OF ascii(1,2)] move_bodies(3) [OF ascii(1,2)] move_bodies(4) [OF bounds(1,2)]] explicit(1) bounds(7,8)])
  show "candidate_map move_reading (move_map 9 (move_alone ''s'' ''pg'' 4)) = Inr (move_placement 9 (alone_placement move_layout ''s'' ''pg'' 4))"
    by (rule move_candidate [OF move_map_parsed [OF move_groups_read(1) [OF bounds(3,4)] bounds(9,10) move_settled(1) move_clean(1)
          move_bodies(1) move_bodies(2) [OF ascii(3,4)] move_bodies(3) [OF ascii(3,4)] move_bodies(4) [OF bounds(3,4)]] explicit(1) bounds(9,10)])
qed

definition move_request :: bound_request where
  "move_request = sample_request\<lparr>vr_requires_signature := True\<rparr>"

definition move_body :: "(ustring \<times> pyval) list" where
  "move_body =
     [(lit ''kind'', PStr (lit ''sde-cutover'')), (lit ''protocol'', PInt 1), (lit ''plan_id'', PStr (replicate 32 98)),
      (lit ''project_id'', PStr (replicate 32 97)), (lit ''group'', PStr (lit ''E'')), (lit ''pause_budget_ms'', PInt 5000),
      (lit ''query_impact_digest'', PStr (replicate 64 99)), (lit ''verification'', request_as_record move_request),
      (lit ''before'', PDict (move_map 7 move_before)), (lit ''success'', PDict (move_map 8 (move_alone ''t'' ''ch'' 5))),
      (lit ''abort'', PDict (move_map 9 (move_alone ''s'' ''pg'' 4))), move_signature]"

lemma move_request_made:
  "request_from_record (request_as_record move_request) = Inr move_request"
  "check_session move_request (move_placement 7 (pair_placement move_layout)) (Some (replicate 32 97)) (lit ''E'') = Inr ()"
proof -
  have ok: "request_ok move_request" using sample_request_ok by (simp add: request_ok_def move_request_def)
  note again = mk_request_again [OF ok]
  show "request_from_record (request_as_record move_request) = Inr move_request" by (rule request_read_back [OF again])
  show "check_session move_request (move_placement 7 (pair_placement move_layout)) (Some (replicate 32 97)) (lit ''E'') = Inr ()"
    using again
    by (simp add: check_session_def verification_request_def placement_of_def move_request_def sample_request_def pair_placement_def
        move_placement_def Let_def)
qed

lemma move_forms:
  "json_numbers (PDict move_body) = PDict move_body" "has_canonical_form id (PDict move_body)"
  "has_canonical_form id (PDict (without_signature move_body))" "has_canonical_form id (PDict (without_keys {''signature''} move_body))"
proof -
  note maps = move_map_def move_signature_def move_alone_def move_before_def sample_copy_def
  note req = request_as_record_def move_request_def sample_request_def sample_time_def
  show "json_numbers (PDict move_body) = PDict move_body" by (simp add: move_body_def maps req)
  show "has_canonical_form id (PDict move_body)" by (simp add: move_body_def maps req lit_def text_ok_def)
  then show "has_canonical_form id (PDict (without_signature move_body))" "has_canonical_form id (PDict (without_keys {''signature''} move_body))"
    by (auto simp: without_signature_def without_keys_def comp_def intro: distinct_map_filter)
qed

lemma move_envelope:
  "read_envelope move_reading move_body =
     Inr \<lparr>en_protocol = 1, en_plan_id = replicate 32 98, en_budget = 5000, en_digest = replicate 64 99, en_group = lit ''E'', en_verified_with = None\<rparr>"
proof -
  obtain bs where bs: "canonical_bytes id (PDict (without_signature move_body)) = Inr bs"
    using canonical_bytes_total [of id "PDict (without_signature move_body)", THEN iffD2] move_forms(3) by auto
  have sg: "dict_get move_body ''signature'' = PDict [(lit ''alg'', PStr (lit ''ed25519'')), (lit ''value'', PStr (lit ''AA==''))]"
    by (simp add: move_body_def dict_get_def move_signature_def)
  have verified: "verify_signature (rd_nfc move_reading) (rd_crypto move_reading) move_body (rd_keys move_reading) None = Inr None"
    using bs by (simp add: verify_signature_def sg) (simp add: dict_get_def move_reading_def decode_signature_def key_set_def key_pairs_def
        signed_payload_def first_verifying_def key_ordering_def)
  have signature: "cutover_signature (rd_b64encode move_reading) (rd_crypto move_reading) move_body = Inr ()"
    by (simp add: cutover_signature_def sg cutover_object_def) (simp add: dict_get_def move_reading_def)
  have keys: "set (keys move_body) = cutover_fields" by (auto simp: move_body_def move_signature_def cutover_fields_def)
  show ?thesis
    unfolding read_envelope_def keys signature verified
    by (simp add: move_body_def dict_get_def CUTOVER_PROTOCOL_def cutover_hex_def hex_text_def hex_digit_def list_all_iff move_reading_def
        positive_integer_def MAX_EPOCH_def lifted_def)
qed

lemma same_canonical_refl: "has_canonical_form id v \<Longrightarrow> same_canonical id v v why = Inr ()"
  using canonical_bytes_total [of id v, THEN iffD2] by (auto simp: same_canonical_def lifted_def)

lemma move_outcomes:
  "check_outcomes move_reading move_body (lit ''E'')
     (move_placement 7 (pair_placement move_layout), move_placement 8 (alone_placement move_layout ''t'' ''ch'' 5),
      move_placement 9 (alone_placement move_layout ''s'' ''pg'' 4))
     (gp_source (pair_placement move_layout), hd (gp_derived (pair_placement move_layout)), 3) = Inr ()"
proof -
  obtain shapes where shapes: "enumerate_shapes id (\<lambda>_. replicate 64 97) move_model = Inr shapes" using move_shapes by blast
  have raws: "entries (dict_get move_body ''before'') = move_map 7 move_before" "entries (dict_get move_body ''success'') = move_map 8 (move_alone ''t'' ''ch'' 5)"
    "entries (dict_get move_body ''abort'') = move_map 9 (move_alone ''s'' ''pg'' 4)"
    by (simp_all add: move_body_def dict_get_def entries_def)
  have grp: "raw_group (move_map v g) (lit ''E'') = PDict g" for v g by (simp add: move_map_def dict_get_def)
  have stable: "without_keys {''signature'', ''map_version'', ''groups'', ''routing''} (move_map v g) =
      [(lit ''contract'', PInt 5), (lit ''project_id'', PStr (replicate 32 97)), (lit ''model_version'', PStr (replicate 16 97))]" for v g
    by (simp add: move_map_def without_keys_def move_signature_def)
  let ?copy = "\<lambda>e. PDict [(lit ''engine'', PStr (lit e)), (lit ''layout'', PDict [(lit ''tables'', PDict [(lit ''E'', PStr (lit ''e''))])])]"
  have copies: "PDict (without_keys {''id''} (entries (dict_get (move_alone i e epoch) ''source''))) = ?copy e"
    "PDict (without_keys {''id'', ''lag_budget_ms''} (entries (first_item (member (PDict move_before) ''derived'')))) = ?copy ''ch''"
    "PDict (without_keys {''id'', ''lag_budget_ms''} (entries (member (PDict move_before) ''source''))) = ?copy ''pg''" for i e epoch
    by (simp_all add: without_keys_def entries_def dict_get_def move_alone_def move_before_def member_def first_item_def sample_copy_def)
  have ids: "dict_get (entries (dict_get (move_alone i e epoch) ''source'')) ''id'' = PStr (lit i)" for i e epoch
    by (simp add: entries_def dict_get_def move_alone_def sample_copy_def)
  have alone: "fst ` set (move_alone i e epoch) = {lit ''source'', lit ''write_epoch''}" "dict_get (move_alone i e epoch) ''write_epoch'' = PInt epoch"
    for i e epoch
    by (simp_all add: move_alone_def dict_get_def)
  have forms: "has_canonical_form id (PDict [(lit ''contract'', PInt 5), (lit ''project_id'', PStr (replicate 32 97)), (lit ''model_version'', PStr (replicate 16 97))])"
    "has_canonical_form id (?copy ''ch'')" "has_canonical_form id (?copy ''pg'')"
    by (simp_all add: text_ok_def lit_def)
  have terminal: "check_terminal id (lit ''E'') (move_map 7 move_before) (move_placement 7 (pair_placement move_layout)) [] original (lit e) epoch
      (move_map v (move_alone i e epoch)) (move_placement v (alone_placement move_layout i e epoch)) = Inr ()"
    if "i \<noteq> []" "has_canonical_form id (?copy e)"
      "PDict (without_keys {''id'', ''lag_budget_ms''} (entries original)) = ?copy e" for i e epoch v original
    using that same_canonical_refl [OF forms(1)] same_canonical_refl [OF that(2)]
    by (simp add: check_terminal_def stable grp entries_def [of "PDict _"] alone copies(1) ids)
      (simp add: move_placement_def alone_placement_def pair_placement_def Let_def)
  show ?thesis
    unfolding check_outcomes_def
    using terminal [OF _ forms(2) copies(2), of "''t''" 5 8] terminal [OF _ forms(3) copies(3), of "''s''" 4 9]
    by (simp add: raws grp affected_shapes_def shapes lifted_def move_reading_def move_placement_def pair_placement_def Let_def)
qed

lemma move_plan_loads:
  "\<exists>pl. load_cutover_plan move_reading (PDict move_body) = Inr pl \<and> pl_group pl = lit ''E'' \<and> pl_plan_id pl = replicate 32 98 \<and>
     pl_project_id pl = replicate 32 97 \<and> pl_before pl = move_placement 7 (pair_placement move_layout) \<and>
     pl_success pl = move_placement 8 (alone_placement move_layout ''t'' ''ch'' 5) \<and>
     pl_abort pl = move_placement 9 (alone_placement move_layout ''s'' ''pg'' 4) \<and> pl_verification pl = move_request \<and>
     pl_pause_budget_ms pl = 5000 \<and> pl_fingerprint pl = Some (replicate 64 97) \<and> pl_document pl = Some (canon id (PDict move_body))"
proof -
  have candidates: "read_candidates move_reading move_body = Inr (move_placement 7 (pair_placement move_layout),
      move_placement 8 (alone_placement move_layout ''t'' ''ch'' 5), move_placement 9 (alone_placement move_layout ''s'' ''pg'' 4))"
  proof -
    have "dict_get move_body ''before'' = PDict (move_map 7 move_before)" "dict_get move_body ''success'' = PDict (move_map 8 (move_alone ''t'' ''ch'' 5))"
      "dict_get move_body ''abort'' = PDict (move_map 9 (move_alone ''s'' ''pg'' 4))"
      by (simp_all add: move_body_def dict_get_def)
    then show ?thesis by (simp add: read_candidates_def cutover_object_def move_candidates) (simp add: move_placement_def)
  qed
  have request: "dict_get move_body ''verification'' = request_as_record move_request" by (simp add: move_body_def dict_get_def)
  have moving: "moving_group 1 (move_placement 7 (pair_placement move_layout)) (lit ''E'') =
      Inr (gp_source (pair_placement move_layout), hd (gp_derived (pair_placement move_layout)), 3)"
    by (simp add: moving_group_def placement_of_def move_placement_def pair_placement_def Let_def lifted_def CUTOVER_PROTOCOL_def
        CUTOVER_RELAYOUT_PROTOCOL_def MAX_EPOCH_def)
  obtain bs where bs: "canonical_bytes id (PDict move_body) = Inr bs"
    using canonical_bytes_total [of id "PDict move_body", THEN iffD2] move_forms(2) by auto
  obtain bs' where bs': "canonical_bytes id (PDict (without_keys {''signature''} move_body)) = Inr bs'"
    using canonical_bytes_total [of id "PDict (without_keys {''signature''} move_body)", THEN iffD2] move_forms(4) by auto
  have rd: "rd_nfc move_reading = id" "rd_project move_reading = replicate 32 97" "rd_sha256 move_reading = (\<lambda>_. replicate 64 97)"
    by (simp_all add: move_reading_def)
  have signed: "vr_requires_signature move_request" by (simp add: move_request_def)
  show ?thesis
    unfolding load_cutover_plan_def cutover_load_def move_forms(1)
    by (simp add: cutover_object_def move_envelope candidates request move_request_made signed moving move_outcomes rd bs bs' lifted_def
        del: json_numbers.simps canon.simps)
qed


end
